(* ===== verification/Prelude.thy ===== *)
theory Prelude
  imports Complex_Main "HOL-Library.AList" "HOL-Library.Multiset" "HOL-Library.Word" "HOL-Library.List_Lexorder"
    "HOL-Library.Char_ord"
begin

text \<open>
  Shared vocabulary of the development: the Python values the sources use (strings,
  dictionaries in insertion order, sets as distinct lists), the generic reachability
  predicate of a state machine, and the lemmas on lists, options and dictionaries that the
  component theories rely on.

  Conventions.
  \<^item> A Python \<open>str\<close> is a \<^typ>\<open>string\<close>: a list of code points U+0000 to U+00FF.
  \<^item> A Python \<open>dict\<close> is an association list in insertion order; \<^const>\<open>AList.update\<close>
    keeps the position of an existing key and appends a new one, as Python does, and
    \<^const>\<open>AList.delete\<close> is \<open>pop\<close>.
  \<^item> Seconds that the code keeps in a \<open>float\<close> are exact rationals (\<open>seconds\<close>): rounding of
    binary floating point is outside the model.
  \<^item> A clock reading, a fresh \<open>uuid\<close> and every other input from outside the process is an
    argument of the operation that reads it.
\<close>

type_synonym seconds = rat
type_synonym byte = "8 word"
type_synonym ('k, 'v) dict = "('k \<times> 'v) list"

section \<open>Reachability and invariants of a state machine\<close>

inductive reach :: "('s \<Rightarrow> bool) \<Rightarrow> ('s \<Rightarrow> 's \<Rightarrow> bool) \<Rightarrow> 's \<Rightarrow> bool"
  for init :: "'s \<Rightarrow> bool" and step :: "'s \<Rightarrow> 's \<Rightarrow> bool" where
  reach_init: "init s \<Longrightarrow> reach init step s"
| reach_step: "reach init step s \<Longrightarrow> step s t \<Longrightarrow> reach init step t"

text \<open>A predicate that the initial states satisfy and every step keeps.\<close>

locale inductive_invariant =
  fixes init :: "'s \<Rightarrow> bool" and step :: "'s \<Rightarrow> 's \<Rightarrow> bool" and inv :: "'s \<Rightarrow> bool"
  assumes inv_init: "init s \<Longrightarrow> inv s"
    and inv_step: "inv s \<Longrightarrow> step s t \<Longrightarrow> inv t"
begin

lemma reach_inv: "reach init step s \<Longrightarrow> inv s"
  by (induction rule: reach.induct) (auto intro: inv_init inv_step)

end

section \<open>Dictionaries in insertion order\<close>

abbreviation dict_keys :: "('k, 'v) dict \<Rightarrow> 'k set" where
  "dict_keys d \<equiv> fst ` set d"

abbreviation dict_get :: "('k, 'v) dict \<Rightarrow> 'k \<Rightarrow> 'v option" where
  "dict_get \<equiv> map_of"

abbreviation dict_set :: "'k \<Rightarrow> 'v \<Rightarrow> ('k, 'v) dict \<Rightarrow> ('k, 'v) dict" where
  "dict_set \<equiv> AList.update"

abbreviation dict_pop :: "'k \<Rightarrow> ('k, 'v) dict \<Rightarrow> ('k, 'v) dict" where
  "dict_pop \<equiv> AList.delete"

abbreviation dict_ok :: "('k, 'v) dict \<Rightarrow> bool" where
  "dict_ok d \<equiv> distinct (map fst d)"

lemma dict_get_set [simp]: "dict_get (dict_set k v d) k' = (if k' = k then Some v else dict_get d k')"
  by (simp add: update_conv)

lemma dict_get_pop [simp]: "dict_get (dict_pop k d) k' = (if k' = k then None else dict_get d k')"
  by (simp add: delete_conv)

lemma dict_ok_set [simp]: "dict_ok d \<Longrightarrow> dict_ok (dict_set k v d)"
  by (rule distinct_update)

lemma dict_ok_pop [simp]: "dict_ok d \<Longrightarrow> dict_ok (dict_pop k d)"
  by (rule distinct_delete)

lemma dict_keys_set [simp]: "dict_keys (dict_set k v d) = insert k (dict_keys d)"
  by (induction d) auto

lemma dict_keys_pop [simp]: "dict_keys (dict_pop k d) = dict_keys d - {k}"
  by (auto simp: AList.delete_eq)

lemma dict_get_None_iff: "dict_get d k = None \<longleftrightarrow> k \<notin> dict_keys d"
  by (rule map_of_eq_None_iff)

lemma dict_in_set_iff: "dict_ok d \<Longrightarrow> (k, v) \<in> set d \<longleftrightarrow> dict_get d k = Some v"
  by simp

lemma dict_set_new: "k \<notin> dict_keys d \<Longrightarrow> dict_set k v d = d @ [(k, v)]"
  by (induction d) auto

lemma length_dict_set: "dict_get d k = Some v' \<Longrightarrow> length (dict_set k v d) = length d"
  by (induction d) (auto split: if_splits)

lemma dict_pop_new: "k \<notin> dict_keys d \<Longrightarrow> dict_pop k d = d"
  by (induction d) auto

lemma dict_pop_set_new: "k \<notin> dict_keys d \<Longrightarrow> dict_pop k (dict_set k v d) = d"
  by (simp add: dict_set_new AList.delete_eq) (induction d, auto)

lemma in_set_dict_set: "dict_ok d \<Longrightarrow>
    (a, b) \<in> set (dict_set k v d) \<longleftrightarrow> (if a = k then b = v else (a, b) \<in> set d)"
  by (metis dict_get_set dict_in_set_iff dict_ok_set option.inject)

lemma in_set_dict_pop: "(a, b) \<in> set (dict_pop k d) \<longleftrightarrow> a \<noteq> k \<and> (a, b) \<in> set d"
  by (auto simp: AList.delete_eq)

lemma list_all_dict_set: "list_all P d \<Longrightarrow> P (k, v) \<Longrightarrow> list_all P (dict_set k v d)"
  by (induction d) auto

lemma list_all_dict_pop: "list_all P d \<Longrightarrow> list_all P (dict_pop k d)"
  by (auto simp: list_all_iff in_set_dict_pop)

lemma dict_ok_perm: "dict_ok d \<Longrightarrow> mset e = mset d \<Longrightarrow> dict_ok e"
  by (metis mset_map mset_eq_imp_distinct_iff)

lemma dict_get_perm:
  assumes ok: "dict_ok d" and p: "mset e = mset d"
  shows "dict_get e = dict_get d"
proof
  fix k
  have "dict_get e k = Some v \<longleftrightarrow> dict_get d k = Some v" for v
    using dict_in_set_iff [OF ok] dict_in_set_iff [OF dict_ok_perm [OF ok p]] mset_eq_setD [OF p]
    by metis
  then show "dict_get e k = dict_get d k" by (metis not_Some_eq)
qed

lemma length_dict_pop_le: "length (dict_pop k d) \<le> length d"
  by (simp add: AList.delete_eq)

section \<open>Python sets as distinct lists\<close>

text \<open>\<open>s.add(x)\<close> and \<open>s.discard(x)\<close>; the order of the list is never observed, only
  membership and \<open>sorted(s)\<close>.\<close>

definition set_add :: "'a \<Rightarrow> 'a list \<Rightarrow> 'a list" where
  "set_add x s = (if x \<in> set s then s else s @ [x])"

definition set_discard :: "'a \<Rightarrow> 'a list \<Rightarrow> 'a list" where
  "set_discard x s = filter (\<lambda>y. y \<noteq> x) s"

lemma set_set_add [simp]: "set (set_add x s) = insert x (set s)"
  by (auto simp: set_add_def)

lemma set_set_discard [simp]: "set (set_discard x s) = set s - {x}"
  by (auto simp: set_discard_def)

lemma distinct_set_add [simp]: "distinct s \<Longrightarrow> distinct (set_add x s)"
  by (simp add: set_add_def)

lemma distinct_set_discard [simp]: "distinct s \<Longrightarrow> distinct (set_discard x s)"
  by (simp add: set_discard_def)

lemma set_add_not_Nil [simp]: "set_add x s \<noteq> []"
  by (auto simp: set_add_def)

section \<open>Bounded queues\<close>

text \<open>\<open>deque(maxlen=n)\<close>: a new row pushes the oldest one out.\<close>

definition deque_append :: "nat \<Rightarrow> 'a \<Rightarrow> 'a list \<Rightarrow> 'a list" where
  "deque_append n x q = (if n = 0 then [] else if length q < n then q @ [x] else tl q @ [x])"

lemma deque_window: "foldl (\<lambda>q d. deque_append n d q) [] ds = drop (length ds - n) ds"
proof (induction ds rule: rev_induct)
  case (snoc d ds)
  show ?case
  proof (cases "n \<le> length ds")
    case True
    have "n \<noteq> 0 \<Longrightarrow> Suc (length ds - n) = Suc (length ds) - n" using True by simp
    then show ?thesis using snoc True by (auto simp: deque_append_def tl_drop simp flip: drop_Suc)
  qed (use snoc in \<open>simp add: deque_append_def\<close>)
qed simp

section \<open>Python strings\<close>

text \<open>\<open>str.isspace\<close> for one code point below U+0100.\<close>

definition py_space :: "char \<Rightarrow> bool" where
  "py_space c \<longleftrightarrow> (let n = of_char c :: nat in
     9 \<le> n \<and> n \<le> 13 \<or> 28 \<le> n \<and> n \<le> 32 \<or> n = 133 \<or> n = 160)"

definition py_lstrip :: "string \<Rightarrow> string" where
  "py_lstrip s = dropWhile py_space s"

definition py_rstrip :: "string \<Rightarrow> string" where
  "py_rstrip s = rev (dropWhile py_space (rev s))"

definition py_strip :: "string \<Rightarrow> string" where
  "py_strip s = py_rstrip (py_lstrip s)"

definition starts_with :: "string \<Rightarrow> string \<Rightarrow> bool" where
  "starts_with p s \<longleftrightarrow> take (length p) s = p"

definition ends_with :: "string \<Rightarrow> string \<Rightarrow> bool" where
  "ends_with p s \<longleftrightarrow> length p \<le> length s \<and> drop (length s - length p) s = p"

text \<open>\<open>needle in haystack\<close>.\<close>

fun py_contains :: "string \<Rightarrow> string \<Rightarrow> bool" where
  "py_contains p [] = (p = [])"
| "py_contains p (c # s) = (starts_with p (c # s) \<or> py_contains p s)"

text \<open>\<open>s.partition(sep)\<close> for a one-character separator: the part before, whether the
  separator was found, the part after.\<close>

definition py_partition :: "char \<Rightarrow> string \<Rightarrow> string \<times> bool \<times> string" where
  "py_partition c s = (takeWhile (\<lambda>x. x \<noteq> c) s, c \<in> set s, drop 1 (dropWhile (\<lambda>x. x \<noteq> c) s))"

text \<open>\<open>s.rsplit(sep, 1)[-1]\<close> for a one-character separator.\<close>

definition py_rsplit_last :: "char \<Rightarrow> string \<Rightarrow> string" where
  "py_rsplit_last c s = rev (takeWhile (\<lambda>x. x \<noteq> c) (rev s))"

text \<open>Decimal numerals, \<open>str(n)\<close>.\<close>

definition dec_digit :: "nat \<Rightarrow> char" where
  "dec_digit d = char_of (48 + d)"

fun show_nat :: "nat \<Rightarrow> string" where
  "show_nat n = (if n < 10 then [dec_digit n] else show_nat (n div 10) @ [dec_digit (n mod 10)])"

declare show_nat.simps [simp del]

definition show_int :: "int \<Rightarrow> string" where
  "show_int i = (if i < 0 then CHR ''-'' # show_nat (nat (- i)) else show_nat (nat i))"

text \<open>\<open>str.casefold\<close> and \<open>str.lower\<close> on ASCII letters.\<close>

definition ascii_lower :: "char \<Rightarrow> char" where
  "ascii_lower c = (let n = of_char c :: nat in if 65 \<le> n \<and> n \<le> 90 then char_of (n + 32) else c)"

definition py_casefold :: "string \<Rightarrow> string" where
  "py_casefold s = map ascii_lower s"

text \<open>\<open>len(s.encode("utf-8"))\<close>: one byte below U+0080, two below U+0100.\<close>

definition utf8_len :: "string \<Rightarrow> nat" where
  "utf8_len s = sum_list (map (\<lambda>c. if (of_char c :: nat) < 128 then 1 else 2) s)"

lemma utf8_len_append [simp]: "utf8_len (s @ t) = utf8_len s + utf8_len t"
  by (simp add: utf8_len_def)

lemma utf8_len_ge_length: "length s \<le> utf8_len s"
  by (induction s) (auto simp: utf8_len_def)

lemma starts_with_append [simp]: "starts_with p (p @ s)"
  by (simp add: starts_with_def)

lemma starts_with_iff: "starts_with p s \<longleftrightarrow> (\<exists>t. s = p @ t)"
  by (metis starts_with_def append_take_drop_id append_eq_conv_conj)

lemma ends_with_append [simp]: "ends_with p (s @ p)"
  by (simp add: ends_with_def)

lemma py_contains_append: "py_contains p (s @ p @ t)"
proof (induction s)
  case Nil
  have "starts_with p (p @ t)" by simp
  then show ?case by (cases "p @ t") (auto simp del: starts_with_append)
next
  case (Cons c s)
  then show ?case by simp
qed

lemma py_contains_iff: "py_contains p s \<longleftrightarrow> (\<exists>a b. s = a @ p @ b)"
proof
  show "py_contains p s \<Longrightarrow> \<exists>a b. s = a @ p @ b"
  proof (induction s)
    case Nil
    then show ?case by simp
  next
    case (Cons c s)
    then consider "starts_with p (c # s)" | "py_contains p s" by auto
    then show ?case
    proof cases
      case 1
      then obtain t where "c # s = p @ t" by (auto simp: starts_with_iff)
      then show ?thesis by (intro exI [of _ "[]"] exI [of _ t]) simp
    next
      case 2
      then obtain a b where "s = a @ p @ b" using Cons.IH by blast
      then show ?thesis by (intro exI [of _ "c # a"] exI [of _ b]) simp
    qed
  qed
qed (auto simp: py_contains_append)

lemma py_partition_join:
  "py_partition c s = (h, True, t) \<Longrightarrow> s = h @ c # t \<and> c \<notin> set h"
proof (induction s arbitrary: h)
  case Nil
  then show ?case by (simp add: py_partition_def)
next
  case (Cons d s)
  show ?case
  proof (cases "d = c")
    case True
    with Cons.prems show ?thesis by (auto simp: py_partition_def)
  next
    case False
    with Cons.prems obtain h' where h: "h = d # h'" and p: "py_partition c s = (h', True, t)"
      by (auto simp: py_partition_def)
    from Cons.IH [OF p] h False show ?thesis by simp
  qed
qed

end
