(* ===== verification/Admission.thy ===== *)
theory Admission
  imports Prelude
begin

text \<open>
  The admission gate of \<open>sw_core/admission.py\<close>: every operation with side effects takes a
  ticket before it starts and returns it when it is finished; a daemon that hands its devices
  over (or shuts down) freezes the gate. One lock guards the whole gate, so each method is one
  atomic operation on \<open>gate\<close>. \<open>gate_step\<close> is the interleaving of all callers.
\<close>

section \<open>State\<close>

record ticket =
  tk_kind :: string
  tk_com :: "string option"
  tk_seq :: nat

record gate =
  g_tickets :: "(nat, ticket) dict"
  g_flags :: "(string, string list) dict"
  g_next_seq :: nat
  g_frozen :: bool
  g_token :: "string option"
  g_idle_token :: "string option"

definition gate_init :: gate where
  "gate_init = \<lparr>g_tickets = [], g_flags = [], g_next_seq = 0, g_frozen = False,
     g_token = None, g_idle_token = None\<rparr>"

section \<open>Operations\<close>

definition admit :: "string \<Rightarrow> string option \<Rightarrow> gate \<Rightarrow> ticket option \<times> gate" where
  "admit kind com g =
     (if g_frozen g then (None, g)
      else let n = Suc (g_next_seq g);
               t = \<lparr>tk_kind = kind, tk_com = com, tk_seq = n\<rparr>
           in (Some t, g\<lparr>g_next_seq := n, g_tickets := dict_set n t (g_tickets g)\<rparr>))"

definition gate_done :: "ticket \<Rightarrow> gate \<Rightarrow> gate" where
  "gate_done t g = g\<lparr>g_tickets := dict_pop (tk_seq t) (g_tickets g)\<rparr>"

text \<open>\<open>setdefault\<close>, then add or discard, then drop an empty row.\<close>

definition set_flag :: "string \<Rightarrow> string \<Rightarrow> bool \<Rightarrow> gate \<Rightarrow> gate" where
  "set_flag com flag on g =
     (let old = (case dict_get (g_flags g) com of None \<Rightarrow> [] | Some fs \<Rightarrow> fs);
          new = (if on then set_add flag old else set_discard flag old)
      in g\<lparr>g_flags := (if new = [] then dict_pop com (g_flags g) else dict_set com new (g_flags g))\<rparr>)"

definition freeze :: "string \<Rightarrow> gate \<Rightarrow> gate" where
  "freeze fresh g =
     g\<lparr>g_frozen := True, g_idle_token := None,
       g_token := (case g_token g of None \<Rightarrow> Some fresh | Some t \<Rightarrow> Some t)\<rparr>"

definition thaw :: "string \<Rightarrow> gate \<Rightarrow> bool \<times> gate" where
  "thaw token g =
     (if \<not> g_frozen g \<or> g_token g \<noteq> Some token \<or> g_idle_token g \<noteq> Some token then (False, g)
      else (True, g\<lparr>g_frozen := False, g_token := None, g_idle_token := None\<rparr>))"

text \<open>The report of a busy gate: for each COM the kinds of the open tickets and the flags.\<close>

record busy_row =
  br_ops :: "string list"
  br_flags :: "string list"

record busy_report =
  by_com :: "(string, busy_row) dict"
  flashing :: bool

definition ticket_com :: "ticket \<Rightarrow> string" where
  "ticket_com t = (case tk_com t of None \<Rightarrow> ''*'' | Some c \<Rightarrow> if c = '''' then ''*'' else c)"

definition row_of :: "(string, busy_row) dict \<Rightarrow> string \<Rightarrow> busy_row" where
  "row_of rows com = (case dict_get rows com of None \<Rightarrow> \<lparr>br_ops = [], br_flags = []\<rparr> | Some r \<Rightarrow> r)"

fun add_tickets :: "(nat, ticket) dict \<Rightarrow> (string, busy_row) dict \<Rightarrow> (string, busy_row) dict" where
  "add_tickets [] rows = rows"
| "add_tickets ((n, t) # ts) rows =
     (let r = row_of rows (ticket_com t)
      in add_tickets ts (dict_set (ticket_com t) (r\<lparr>br_ops := set_add (tk_kind t) (br_ops r)\<rparr>) rows))"

fun add_flags :: "(string, string list) dict \<Rightarrow> (string, busy_row) dict \<Rightarrow> (string, busy_row) dict" where
  "add_flags [] rows = rows"
| "add_flags ((com, fs) # rest) rows =
     (let r = row_of rows com
      in add_flags rest (dict_set com (r\<lparr>br_flags := foldl (\<lambda>s x. set_add x s) (br_flags r) fs\<rparr>) rows))"

definition busy_rows :: "gate \<Rightarrow> (string, busy_row) dict" where
  "busy_rows g = add_flags (g_flags g) (add_tickets (g_tickets g) [])"

definition is_flashing :: "gate \<Rightarrow> bool" where
  "is_flashing g \<longleftrightarrow>
     list_ex (\<lambda>(_, r). ''flashing'' \<in> set (br_flags r)) (busy_rows g) \<or>
     list_ex (\<lambda>(_, t). starts_with ''flash.'' (tk_kind t)) (g_tickets g)"

definition sorted_row :: "busy_row \<Rightarrow> busy_row" where
  "sorted_row r = \<lparr>br_ops = sort (br_ops r), br_flags = sort (br_flags r)\<rparr>"

definition freeze_if_idle ::
  "string \<Rightarrow> gate \<Rightarrow> (string option \<times> busy_report option) \<times> gate" where
  "freeze_if_idle fresh g =
     (if g_frozen g then ((g_token g, None), g\<lparr>g_idle_token := None\<rparr>)
      else if busy_rows g \<noteq> [] then
        ((None, Some \<lparr>by_com = map (\<lambda>(c, r). (c, sorted_row r)) (sort_key fst (busy_rows g)),
                      flashing = is_flashing g\<rparr>), g)
      else ((Some fresh, None),
            g\<lparr>g_frozen := True, g_token := Some fresh, g_idle_token := Some fresh\<rparr>))"

section \<open>Interleavings\<close>

datatype gate_op =
    Admit string "string option"
  | Done ticket
  | SetFlag string string bool
  | Freeze string
  | Thaw string
  | FreezeIfIdle string

fun gate_exec :: "gate_op \<Rightarrow> gate \<Rightarrow> gate" where
  "gate_exec (Admit k c) g = snd (admit k c g)"
| "gate_exec (Done t) g = gate_done t g"
| "gate_exec (SetFlag c f b) g = set_flag c f b g"
| "gate_exec (Freeze u) g = freeze u g"
| "gate_exec (Thaw u) g = snd (thaw u g)"
| "gate_exec (FreezeIfIdle u) g = snd (freeze_if_idle u g)"

definition gate_run :: "gate_op list \<Rightarrow> gate \<Rightarrow> gate" where
  "gate_run ops g = fold gate_exec ops g"

inductive gate_step :: "gate \<Rightarrow> gate \<Rightarrow> bool" where
  "gate_step g (gate_exec op g)"

inductive_cases gate_stepE: "gate_step g h"

section \<open>Well-formedness\<close>

definition gate_inv :: "gate \<Rightarrow> bool" where
  "gate_inv g \<longleftrightarrow>
     dict_ok (g_tickets g) \<and> dict_ok (g_flags g) \<and>
     list_all (\<lambda>(n, t). tk_seq t = n \<and> 0 < n \<and> n \<le> g_next_seq g) (g_tickets g) \<and>
     list_all (\<lambda>(c, fs). fs \<noteq> [] \<and> distinct fs) (g_flags g) \<and>
     (g_frozen g \<longleftrightarrow> g_token g \<noteq> None) \<and>
     (g_idle_token g = None \<or> g_frozen g \<and> g_idle_token g = g_token g)"

lemmas gate_defs = admit_def gate_done_def set_flag_def freeze_def thaw_def freeze_if_idle_def Let_def

lemma gate_inv_admit: "gate_inv g \<Longrightarrow> gate_inv (snd (admit k c g))"
  by (auto simp: gate_inv_def admit_def Let_def le_SucI intro!: list_all_dict_set
      elim!: list.pred_mono_strong)

lemma gate_inv_done: "gate_inv g \<Longrightarrow> gate_inv (gate_done t g)"
  by (auto simp: gate_inv_def gate_done_def intro: list_all_dict_pop)

lemma gate_inv_set_flag: "gate_inv g \<Longrightarrow> gate_inv (set_flag c f b g)"
proof -
  assume inv: "gate_inv g"
  define old where "old = (case dict_get (g_flags g) c of None \<Rightarrow> [] | Some fs \<Rightarrow> fs)"
  have "distinct old"
  proof (cases "dict_get (g_flags g) c")
    case (Some fs)
    then have "(c, fs) \<in> set (g_flags g)" by (rule map_of_SomeD)
    with inv Some show ?thesis by (auto simp: gate_inv_def list_all_iff old_def)
  qed (simp add: old_def)
  then have "distinct (if b then set_add f old else set_discard f old)" by simp
  with inv show ?thesis
    by (auto simp: gate_inv_def set_flag_def Let_def simp flip: old_def
        intro: list_all_dict_set list_all_dict_pop)
qed

lemma gate_inv_freeze: "gate_inv g \<Longrightarrow> gate_inv (freeze u g)"
  by (auto simp: gate_inv_def freeze_def split: option.split)

lemma gate_inv_thaw: "gate_inv g \<Longrightarrow> gate_inv (snd (thaw u g))"
  by (auto simp: gate_inv_def thaw_def)

lemma gate_inv_freeze_if_idle: "gate_inv g \<Longrightarrow> gate_inv (snd (freeze_if_idle u g))"
  by (auto simp: gate_inv_def freeze_if_idle_def)

lemmas gate_inv_ops = gate_inv_admit gate_inv_done gate_inv_set_flag gate_inv_freeze
  gate_inv_thaw gate_inv_freeze_if_idle

lemma gate_inv_exec: "gate_inv g \<Longrightarrow> gate_inv (gate_exec op g)"
  by (cases op) (auto intro: gate_inv_ops)

interpretation gate_machine: inductive_invariant "\<lambda>g. g = gate_init" gate_step gate_inv
proof
  show "g = gate_init \<Longrightarrow> gate_inv g" for g by (simp add: gate_init_def gate_inv_def)
  show "gate_inv g \<Longrightarrow> gate_step g h \<Longrightarrow> gate_inv h" for g h
    by (auto elim!: gate_stepE intro: gate_inv_exec)
qed

section \<open>The busy report\<close>

lemma add_tickets_keys: "dict_keys (add_tickets ts rows) = dict_keys rows \<union> (ticket_com \<circ> snd) ` set ts"
  by (induction ts rows rule: add_tickets.induct) (auto simp: Let_def)

lemma add_flags_keys: "dict_keys (add_flags fs rows) = dict_keys rows \<union> dict_keys fs"
  by (induction fs rows rule: add_flags.induct) (auto simp: Let_def)

lemma busy_rows_keys: "dict_keys (busy_rows g) = (ticket_com \<circ> snd) ` set (g_tickets g) \<union> dict_keys (g_flags g)"
  by (simp add: busy_rows_def add_tickets_keys add_flags_keys)

lemma busy_rows_Nil_iff: "busy_rows g = [] \<longleftrightarrow> g_tickets g = [] \<and> g_flags g = []"
proof -
  have "busy_rows g = [] \<longleftrightarrow> dict_keys (busy_rows g) = {}" by auto
  also have "\<dots> \<longleftrightarrow> g_tickets g = [] \<and> g_flags g = []" by (simp add: busy_rows_keys)
  finally show ?thesis .
qed

lemma row_of_set: "row_of (dict_set c r rows) c' = (if c' = c then r else row_of rows c')"
  by (simp add: row_of_def)

lemma add_tickets_row:
  "set (br_ops (row_of (add_tickets ts rows) c)) =
     set (br_ops (row_of rows c)) \<union> {tk_kind t | n t. (n, t) \<in> set ts \<and> ticket_com t = c} \<and>
   br_flags (row_of (add_tickets ts rows) c) = br_flags (row_of rows c)"
  by (induction ts rows rule: add_tickets.induct) (auto simp: Let_def row_of_set)

lemma set_foldl_set_add: "set (foldl (\<lambda>s x. set_add x s) s xs) = set s \<union> set xs"
  by (induction xs arbitrary: s) auto

lemma add_flags_row:
  "br_ops (row_of (add_flags fs rows) c) = br_ops (row_of rows c) \<and>
   set (br_flags (row_of (add_flags fs rows) c)) =
     set (br_flags (row_of rows c)) \<union> {x. \<exists>xs. (c, xs) \<in> set fs \<and> x \<in> set xs}"
  by (induction fs rows rule: add_flags.induct) (auto simp: Let_def row_of_set set_foldl_set_add)

lemma dict_ok_add_tickets: "dict_ok rows \<Longrightarrow> dict_ok (add_tickets ts rows)"
  by (induction ts rows rule: add_tickets.induct) (auto simp: Let_def)

lemma dict_ok_add_flags: "dict_ok rows \<Longrightarrow> dict_ok (add_flags fs rows)"
  by (induction fs rows rule: add_flags.induct) (auto simp: Let_def)

lemma dict_ok_busy_rows: "dict_ok (busy_rows g)"
  by (simp add: busy_rows_def dict_ok_add_tickets dict_ok_add_flags)

lemma busy_rows_row:
  "set (br_ops (row_of (busy_rows g) c)) = {tk_kind t | n t. (n, t) \<in> set (g_tickets g) \<and> ticket_com t = c}"
  "set (br_flags (row_of (busy_rows g) c)) = {x. \<exists>xs. (c, xs) \<in> set (g_flags g) \<and> x \<in> set xs}"
  using add_flags_row [of "g_flags g" "add_tickets (g_tickets g) []" c]
    add_tickets_row [of "g_tickets g" "[]" c]
  by (simp_all add: busy_rows_def row_of_def)

section \<open>Freezing\<close>

text \<open>The gate is frozen without an idle token: only \<open>freeze\<close> (or a second caller) leaves it so.\<close>

definition hard_frozen :: "gate \<Rightarrow> bool" where
  "hard_frozen g \<longleftrightarrow> g_frozen g \<and> g_idle_token g = None"

lemma hard_frozen_freeze: "hard_frozen (freeze u g)"
  by (simp add: hard_frozen_def freeze_def)

lemma hard_frozen_exec: "hard_frozen g \<Longrightarrow> hard_frozen (gate_exec op g)"
  by (cases op) (auto simp: hard_frozen_def gate_defs)

lemma hard_frozen_run: "hard_frozen g \<Longrightarrow> hard_frozen (gate_run ops g)"
  by (induction ops arbitrary: g) (auto simp: gate_run_def hard_frozen_exec)

text \<open>The gate is frozen with token \<open>u\<close> and no operation is in flight.\<close>

definition quiesced :: "string \<Rightarrow> gate \<Rightarrow> bool" where
  "quiesced u g \<longleftrightarrow> g_frozen g \<and> g_token g = Some u \<and> g_tickets g = []"

lemma quiesced_exec: "quiesced u g \<Longrightarrow> op \<noteq> Thaw u \<Longrightarrow> quiesced u (gate_exec op g)"
  by (cases op) (auto simp: quiesced_def gate_defs)

lemma quiesced_run: "quiesced u g \<Longrightarrow> Thaw u \<notin> set ops \<Longrightarrow> quiesced u (gate_run ops g)"
  by (induction ops arbitrary: g) (auto simp: gate_run_def quiesced_exec)

lemma quiesced_freeze_if_idle:
  assumes "\<not> g_frozen g" and "fst (freeze_if_idle u g) = (Some u, None)"
  shows "quiesced u (snd (freeze_if_idle u g))"
  using assms by (auto simp: freeze_if_idle_def quiesced_def busy_rows_Nil_iff split: if_splits)

section \<open>Properties\<close>

text \<open>C23. A shutdown freeze is irrevocable: after \<open>freeze\<close>, whatever operations the daemon's
  threads interleave (including \<open>thaw\<close> with any token and further \<open>freeze_if_idle\<close> calls),
  the gate stays frozen, no new operation is admitted and no \<open>thaw\<close> succeeds.\<close>

theorem freeze_irrevocable:
  "g_frozen (gate_run ops (freeze u g)) \<and>
   fst (admit k c (gate_run ops (freeze u g))) = None \<and>
   fst (thaw t (gate_run ops (freeze u g))) = False"
  using hard_frozen_run [OF hard_frozen_freeze, of ops u g]
  by (simp add: hard_frozen_def admit_def thaw_def)

text \<open>A granted hand-over is exclusive: once \<open>freeze_if_idle\<close> has granted its token on a gate
  that was not frozen, no operation is in flight and none starts, in every interleaving of gate
  operations that does not thaw with that very token.\<close>

theorem handoff_exclusive:
  assumes "\<not> g_frozen g" and "fst (freeze_if_idle u g) = (Some u, None)" and "Thaw u \<notin> set ops"
  shows "g_tickets (gate_run ops (snd (freeze_if_idle u g))) = [] \<and>
         fst (admit k c (gate_run ops (snd (freeze_if_idle u g)))) = None"
  using quiesced_run [OF quiesced_freeze_if_idle [OF assms(1,2)] assms(3)]
  by (simp add: quiesced_def admit_def)

theorem handoff_exclusive_witness:
  "g_tickets (gate_run [Admit ''cmd'' None, Thaw ''b'', Freeze ''c'', SetFlag ''COM0'' ''lease'' True]
     (snd (freeze_if_idle ''a'' gate_init))) = []"
proof -
  have "\<not> g_frozen gate_init" by (simp add: gate_init_def)
  moreover have "fst (freeze_if_idle ''a'' gate_init) = (Some ''a'', None)"
    by (simp add: gate_init_def freeze_if_idle_def busy_rows_def)
  moreover have "Thaw ''a'' \<notin>
      set [Admit ''cmd'' None, Thaw ''b'', Freeze ''c'', SetFlag ''COM0'' ''lease'' True]"
    by simp
  ultimately show ?thesis by (rule handoff_exclusive [THEN conjunct1])
qed

text \<open>On a gate that is not frozen, \<open>freeze_if_idle\<close> grants the hand-over exactly when there is
  neither an open ticket nor a flag; otherwise it leaves the gate as it was and reports, COM by
  COM in ascending order, exactly the kinds of the open tickets and the flags that are set.\<close>

theorem freeze_if_idle_decides:
  assumes "\<not> g_frozen g"
  shows "if g_tickets g = [] \<and> g_flags g = []
         then freeze_if_idle u g =
                ((Some u, None), g\<lparr>g_frozen := True, g_token := Some u, g_idle_token := Some u\<rparr>)
         else \<exists>r. freeze_if_idle u g = ((None, Some r), g) \<and>
                sorted (map fst (by_com r)) \<and> distinct (map fst (by_com r)) \<and>
                dict_keys (by_com r) =
                  (ticket_com \<circ> snd) ` set (g_tickets g) \<union> dict_keys (g_flags g) \<and>
                (\<forall>c row. dict_get (by_com r) c = Some row \<longrightarrow>
                   set (br_ops row) = {tk_kind t | n t. (n, t) \<in> set (g_tickets g) \<and> ticket_com t = c} \<and>
                   set (br_flags row) = {x. \<exists>xs. (c, xs) \<in> set (g_flags g) \<and> x \<in> set xs})"
proof (cases "busy_rows g = []")
  case True
  then show ?thesis using assms by (simp add: freeze_if_idle_def busy_rows_Nil_iff)
next
  case False
  let ?rows = "map (\<lambda>(c, r). (c, sorted_row r)) (sort_key fst (busy_rows g))"
  have fst_eq: "map fst ?rows = map fst (sort_key fst (busy_rows g))"
    by (simp add: case_prod_beta comp_def)
  have keys: "dict_keys ?rows = dict_keys (busy_rows g)"
    by (metis fst_eq list.set_map set_sort)
  have ok: "dict_ok (sort_key fst (busy_rows g))"
    by (rule dict_ok_perm [OF dict_ok_busy_rows]) simp
  have get: "dict_get ?rows c = map_option sorted_row (dict_get (busy_rows g) c)" for c
    using dict_get_perm [OF dict_ok_busy_rows, of "sort_key fst (busy_rows g)" g] by (simp add: map_of_map)
  have row: "set (br_ops row) = {tk_kind t | n t. (n, t) \<in> set (g_tickets g) \<and> ticket_com t = c} \<and>
      set (br_flags row) = {x. \<exists>xs. (c, xs) \<in> set (g_flags g) \<and> x \<in> set xs}"
    if "dict_get ?rows c = Some row" for c row
  proof -
    from that obtain r where "dict_get (busy_rows g) c = Some r" and "row = sorted_row r"
      by (auto simp: get)
    then have "row = sorted_row (row_of (busy_rows g) c)" by (simp add: row_of_def)
    then show ?thesis by (simp add: sorted_row_def busy_rows_row)
  qed
  from False have ne: "\<not> (g_tickets g = [] \<and> g_flags g = [])" by (simp add: busy_rows_Nil_iff)
  show ?thesis
    unfolding if_not_P [OF ne]
  proof (intro exI conjI allI impI)
    show "freeze_if_idle u g = ((None, Some \<lparr>by_com = ?rows, flashing = is_flashing g\<rparr>), g)"
      using assms False by (simp add: freeze_if_idle_def)
  qed (use ok fst_eq keys row busy_rows_keys [of g] in \<open>auto simp del: map_map\<close>)
qed

theorem freeze_if_idle_decides_witness:
  "\<exists>r. freeze_if_idle ''u'' (snd (admit ''flash.begin'' (Some ''COM1'') gate_init)) =
        ((None, Some r), snd (admit ''flash.begin'' (Some ''COM1'') gate_init)) \<and>
      dict_keys (by_com r) = {''COM1''}"
proof -
  let ?g = "snd (admit ''flash.begin'' (Some ''COM1'') gate_init)"
  have "\<not> g_frozen ?g" by (simp add: admit_def gate_init_def Let_def)
  from freeze_if_idle_decides [OF this, of "''u''"] show ?thesis
    by (auto simp: admit_def gate_init_def Let_def ticket_com_def)
qed

end
