(* ===== verification/Requests.thy ===== *)
theory Requests
  imports Prelude
begin

text \<open>
  Validation of what callers send to the daemon before anything is queued or transmitted: the
  source and owner strings of \<open>sw_core/source_policy.py\<close>, the \<open>--expect-reboot\<close> flag of
  \<open>sw_core/expect_reboot.py\<close> and the completion regex of \<open>sw_core/command_completion.py\<close>.
  Values that arrive from JSON or YAML are \<open>pyval\<close>s.
\<close>

section \<open>Dynamic values\<close>

datatype pyval =
    PNone
  | PBool bool
  | PInt int
  | PFloat rat
  | PStr string
  | PList "pyval list"
  | PDict "(pyval \<times> pyval) list"

fun truthy :: "pyval \<Rightarrow> bool" where
  "truthy PNone = False"
| "truthy (PBool b) = b"
| "truthy (PInt n) = (n \<noteq> 0)"
| "truthy (PFloat x) = (x \<noteq> 0)"
| "truthy (PStr s) = (s \<noteq> [])"
| "truthy (PList xs) = (xs \<noteq> [])"
| "truthy (PDict kvs) = (kvs \<noteq> [])"

text \<open>\<open>str(v)\<close>; \<open>render\<close> stands for the representation of floats, lists and dictionaries.\<close>

fun py_str :: "(pyval \<Rightarrow> string) \<Rightarrow> pyval \<Rightarrow> string" where
  "py_str render (PStr s) = s"
| "py_str render PNone = ''None''"
| "py_str render (PBool b) = (if b then ''True'' else ''False'')"
| "py_str render (PInt n) = show_int n"
| "py_str render v = render v"

section \<open>Source strings\<close>

definition HUMAN_PREFIX :: string where "HUMAN_PREFIX = ''human''"
definition DEFAULT_HUMAN_NAME :: string where "DEFAULT_HUMAN_NAME = ''cli''"
definition RESERVED_PREFIXES :: "string list" where "RESERVED_PREFIXES = [''system'']"

record source_error =
  se_field :: string
  se_text :: string
  se_reserved_prefix :: string

record source_check =
  sc_source :: string
  sc_normalized_from :: "string option"
  sc_error :: "source_error option"
  sc_raw_source :: "string option"

definition is_bare_human :: "source_check \<Rightarrow> bool" where
  "is_bare_human c = (case sc_raw_source c of None \<Rightarrow> False
     | Some raw \<Rightarrow> (case py_partition (CHR '':'') (py_strip raw) of (head, sep, tail) \<Rightarrow>
         py_casefold head = HUMAN_PREFIX \<and> (\<not> sep \<or> py_strip tail = [])))"

datatype source_class = SOURCE_CLASS_HUMAN | SOURCE_CLASS_AGENT

definition classify_source :: "string \<Rightarrow> source_class" where
  "classify_source s =
     (if starts_with (HUMAN_PREFIX @ '':'') s then SOURCE_CLASS_HUMAN else SOURCE_CLASS_AGENT)"

definition source_token :: "string \<Rightarrow> string" where
  "source_token text = py_casefold (py_strip (fst (py_partition (CHR '':'') text)))"

definition check_source ::
  "(pyval \<Rightarrow> string) \<Rightarrow> pyval \<Rightarrow> string \<Rightarrow> string \<Rightarrow> bool \<Rightarrow> source_check" where
  "check_source render raw dflt field normalize_human =
     (let text = (if truthy raw then py_str render raw else []) in
      if py_strip text = [] then
        \<lparr>sc_source = dflt, sc_normalized_from = None, sc_error = None, sc_raw_source = Some text\<rparr>
      else let tail = snd (snd (py_partition (CHR '':'') text)); token = source_token text in
      if token \<in> set RESERVED_PREFIXES then
        \<lparr>sc_source = text, sc_normalized_from = None,
         sc_error = Some \<lparr>se_field = field, se_text = text, se_reserved_prefix = token\<rparr>,
         sc_raw_source = Some text\<rparr>
      else if token = HUMAN_PREFIX \<and> normalize_human then
        (let name = (if py_strip tail = [] then DEFAULT_HUMAN_NAME else py_strip tail);
             canonical = HUMAN_PREFIX @ '':'' @ name
         in \<lparr>sc_source = canonical, sc_normalized_from = (if canonical \<noteq> text then Some text else None),
             sc_error = None, sc_raw_source = Some text\<rparr>)
      else
        \<lparr>sc_source = text, sc_normalized_from = None, sc_error = None, sc_raw_source = Some text\<rparr>)"

section \<open>Explicit reboot and completion regex\<close>

definition valid_expect_reboot :: "pyval \<Rightarrow> bool" where
  "valid_expect_reboot v = (case v of PNone \<Rightarrow> True | PBool _ \<Rightarrow> True | _ \<Rightarrow> False)"

datatype expect_reboot_error = INVALID_EXPECT_REBOOT | EXPECT_REBOOT_MODE_UNSUPPORTED

definition expect_reboot_rejection :: "pyval \<Rightarrow> string \<Rightarrow> expect_reboot_error option" where
  "expect_reboot_rejection v mode =
     (if \<not> valid_expect_reboot v then Some INVALID_EXPECT_REBOOT
      else if v = PBool True \<and> mode = ''interactive'' then Some EXPECT_REBOOT_MODE_UNSUPPORTED
      else None)"

text \<open>The warning fields of a submit response: \<open>warning\<close> keeps the first warning, \<open>warnings\<close>
  lists all of them.\<close>

record 'w submit_warnings =
  wr_warning :: "'w option"
  wr_warnings :: "'w list option"

definition add_submit_warning :: "'w \<Rightarrow> 'w submit_warnings \<Rightarrow> 'w submit_warnings" where
  "add_submit_warning w r =
     r\<lparr>wr_warnings := Some ((case wr_warning r of Some e \<Rightarrow> [e] | None \<Rightarrow> []) @ [w]),
       wr_warning := (case wr_warning r of Some e \<Rightarrow> Some e | None \<Rightarrow> Some w)\<rparr>"

definition COMPLETION_REGEX_MAX_BYTES :: nat where "COMPLETION_REGEX_MAX_BYTES = 1024"

text \<open>\<open>re_search p s\<close> is \<open>re.compile(p).search(s) is not None\<close>, or \<open>None\<close> when \<open>re.compile\<close>
  raises.\<close>

type_synonym re_engine = "string \<Rightarrow> string \<Rightarrow> bool option"

definition valid_completion_regex :: "re_engine \<Rightarrow> pyval \<Rightarrow> bool" where
  "valid_completion_regex re_search v =
     (case v of
        PNone \<Rightarrow> True
      | PStr s \<Rightarrow>
          if s = [] then False
          else if COMPLETION_REGEX_MAX_BYTES < utf8_len s then False
          else (case re_search s [] of None \<Rightarrow> False | Some found \<Rightarrow> \<not> found)
      | _ \<Rightarrow> False)"

section \<open>Stripping and folding\<close>

lemma dropWhile_idem: "dropWhile P (dropWhile P xs) = dropWhile P xs"
  by (induction xs) auto

lemma dropWhile_snoc_neg: "\<not> P x \<Longrightarrow> dropWhile P (xs @ [x]) = dropWhile P xs @ [x]"
  by (induction xs) auto

lemma py_rstrip_cases: "py_rstrip s = [] \<or> (\<exists>t c. py_rstrip s = t @ [c] \<and> \<not> py_space c)"
proof (cases "dropWhile py_space (rev s)")
  case (Cons c t)
  then have "\<not> py_space c" by (metis dropWhile_eq_Cons_conv)
  with Cons show ?thesis by (auto simp: py_rstrip_def)
qed (simp add: py_rstrip_def)

lemma py_strip_ends:
  "py_strip s = [] \<or> \<not> py_space (hd (py_strip s)) \<and> \<not> py_space (last (py_strip s))"
proof -
  have l: "py_lstrip s = [] \<or> \<not> py_space (hd (py_lstrip s))"
    using hd_dropWhile [of py_space s] by (auto simp: py_lstrip_def)
  have pre: "\<exists>u. x = py_rstrip x @ u" for x
    by (metis py_rstrip_def rev_append rev_rev_ident takeWhile_dropWhile_id)
  obtain u where u: "py_lstrip s = py_strip s @ u" using pre [of "py_lstrip s"] by (auto simp: py_strip_def)
  show ?thesis
  proof (cases "py_strip s = []")
    case False
    with u l have "\<not> py_space (hd (py_strip s))" by auto
    moreover have "\<not> py_space (last (py_strip s))"
      using py_rstrip_cases [of "py_lstrip s"] False by (auto simp: py_strip_def)
    ultimately show ?thesis by simp
  qed simp
qed

lemma py_strip_fix: "s = [] \<or> \<not> py_space (hd s) \<and> \<not> py_space (last s) \<Longrightarrow> py_strip s = s"
proof -
  assume h: "s = [] \<or> \<not> py_space (hd s) \<and> \<not> py_space (last s)"
  show ?thesis
  proof (cases "s = []")
    case False
    with h have "dropWhile py_space s = s" by (cases s) auto
    moreover have "dropWhile py_space (rev s) = rev s"
      using False h by (cases "rev s") (auto simp: hd_rev [symmetric])
    ultimately show ?thesis by (simp add: py_strip_def py_lstrip_def py_rstrip_def)
  qed (simp add: py_strip_def py_lstrip_def py_rstrip_def)
qed

lemma py_strip_idem [simp]: "py_strip (py_strip s) = py_strip s"
  by (rule py_strip_fix) (rule py_strip_ends)

lemma py_partition_no_sep: "c \<notin> set s \<Longrightarrow> py_partition c s = (s, False, [])"
  by (induction s) (auto simp: py_partition_def)

lemma py_partition_sep: "c \<notin> set h \<Longrightarrow> py_partition c (h @ c # t) = (h, True, t)"
  by (induction h) (auto simp: py_partition_def)

lemma human_partition [simp]: "py_partition (CHR '':'') (HUMAN_PREFIX @ CHR '':'' # t) = (HUMAN_PREFIX, True, t)"
  by (rule py_partition_sep) (simp add: HUMAN_PREFIX_def)

lemma human_strip [simp]: "py_strip HUMAN_PREFIX = HUMAN_PREFIX"
  by (rule py_strip_fix) (simp add: HUMAN_PREFIX_def py_space_def)

lemma human_fold [simp]: "py_casefold HUMAN_PREFIX = HUMAN_PREFIX"
  by (simp add: HUMAN_PREFIX_def py_casefold_def ascii_lower_def)

lemma human_token [simp]: "source_token (HUMAN_PREFIX @ CHR '':'' # t) = HUMAN_PREFIX"
  by (simp add: source_token_def)

lemma human_not_reserved [simp]: "HUMAN_PREFIX \<notin> set RESERVED_PREFIXES"
  by (simp add: HUMAN_PREFIX_def RESERVED_PREFIXES_def)

lemma py_strip_Nil_iff: "py_strip s = [] \<longleftrightarrow> (\<forall>c\<in>set s. py_space c)"
proof
  assume "py_strip s = []"
  then have "\<forall>c\<in>set (py_lstrip s). py_space c"
    by (simp add: py_strip_def py_rstrip_def dropWhile_eq_Nil_conv)
  then have "py_lstrip s = []"
    using hd_dropWhile [of py_space s] by (metis list.set_sel(1) py_lstrip_def)
  then show "\<forall>c\<in>set s. py_space c" by (simp add: py_lstrip_def dropWhile_eq_Nil_conv)
next
  assume "\<forall>c\<in>set s. py_space c"
  then have "py_lstrip s = []" by (simp add: py_lstrip_def dropWhile_eq_Nil_conv)
  then show "py_strip s = []" by (simp add: py_strip_def py_rstrip_def)
qed

lemma human_strip_ne [simp]: "py_strip (HUMAN_PREFIX @ t) \<noteq> []"
  by (auto simp: py_strip_Nil_iff HUMAN_PREFIX_def py_space_def)

lemma blank_token:
  assumes "py_strip s = []"
  shows "source_token s = []"
proof -
  have "CHR '':'' \<notin> set s" using assms by (auto simp: py_strip_Nil_iff py_space_def)
  then show ?thesis using assms
    by (simp add: source_token_def py_partition_no_sep py_casefold_def)
qed

text \<open>The name a human source is canonicalised to, and the two outcomes of \<open>check_source\<close> on an
  accepted, non-blank text.\<close>

definition human_name :: "string \<Rightarrow> string" where
  "human_name text = (let tail = snd (snd (py_partition (CHR '':'') text))
     in if py_strip tail = [] then DEFAULT_HUMAN_NAME else py_strip tail)"

lemma human_name_strip [simp]: "py_strip (human_name t) = human_name t" "human_name t \<noteq> []"
  by (auto simp: human_name_def Let_def DEFAULT_HUMAN_NAME_def py_strip_fix py_space_def)

lemma check_source_human:
  assumes "truthy raw" and "py_strip (py_str render raw) \<noteq> []"
    and "source_token (py_str render raw) = HUMAN_PREFIX"
  shows "check_source render raw dflt field True =
     (let text = py_str render raw; c = HUMAN_PREFIX @ '':'' @ human_name text in
       \<lparr>sc_source = c, sc_normalized_from = (if c \<noteq> text then Some text else None),
        sc_error = None, sc_raw_source = Some text\<rparr>)"
  using assms by (simp add: check_source_def Let_def human_name_def)

lemma check_source_keep:
  assumes "truthy raw" and "py_strip (py_str render raw) \<noteq> []"
    and "\<not> (source_token (py_str render raw) = HUMAN_PREFIX \<and> nh)"
    and "sc_error (check_source render raw dflt field nh) = None"
  shows "check_source render raw dflt field nh =
     \<lparr>sc_source = py_str render raw, sc_normalized_from = None, sc_error = None,
      sc_raw_source = Some (py_str render raw)\<rparr>"
  using assms by (auto simp: check_source_def Let_def split: if_splits)

lemma py_lstrip_pad: "\<forall>c\<in>set a. py_space c \<Longrightarrow> py_lstrip (a @ s) = py_lstrip s"
  by (simp add: py_lstrip_def dropWhile_append2)

lemma py_rstrip_pad: "\<forall>c\<in>set b. py_space c \<Longrightarrow> py_rstrip (s @ b) = py_rstrip s"
  using dropWhile_append2 [of "rev b" py_space "rev s"] by (simp add: py_rstrip_def)

lemma py_strip_decomp:
  obtains a b where "s = a @ py_strip s @ b" "\<forall>c\<in>set a. py_space c" "\<forall>c\<in>set b. py_space c"
proof -
  have l: "s = takeWhile py_space s @ py_lstrip s" by (simp add: py_lstrip_def)
  have r: "py_lstrip s = py_strip s @ rev (takeWhile py_space (rev (py_lstrip s)))"
    unfolding py_strip_def py_rstrip_def by (metis rev_append rev_rev_ident takeWhile_dropWhile_id)
  show ?thesis
    by (rule that [of "takeWhile py_space s" "rev (takeWhile py_space (rev (py_lstrip s)))"])
      (use l r in \<open>auto dest: set_takeWhileD\<close>)
qed

lemma py_strip_pad:
  assumes "\<forall>c\<in>set a. py_space c" and "m = [] \<or> \<not> py_space (hd m)"
  shows "py_strip (a @ m) = py_rstrip m"
proof -
  have "py_lstrip (a @ m) = py_lstrip m" using assms(1) by (rule py_lstrip_pad)
  also have "\<dots> = m" using assms(2) by (cases m) (auto simp: py_lstrip_def)
  finally show ?thesis by (simp add: py_strip_def)
qed

lemma fold_human_no_space:
  assumes "py_casefold h = HUMAN_PREFIX"
  shows "h \<noteq> [] \<and> (\<forall>c\<in>set h. \<not> py_space c)"
proof -
  have sp: "py_space (ascii_lower c) \<longleftrightarrow> py_space c" for c
    by (auto simp: py_space_def ascii_lower_def Let_def)
  have "ascii_lower c \<in> set HUMAN_PREFIX" if "c \<in> set h" for c
    using that assms by (metis image_eqI list.set_map py_casefold_def)
  then have "\<not> py_space c" if "c \<in> set h" for c
    using that sp [of c] by (fastforce simp: HUMAN_PREFIX_def py_space_def)
  moreover have "h \<noteq> []" using assms by (auto simp: py_casefold_def HUMAN_PREFIX_def)
  ultimately show ?thesis by blast
qed

lemma no_space_strip:
  assumes "\<forall>c\<in>set a. py_space c" and "h \<noteq> []" and "\<forall>c\<in>set h. \<not> py_space c"
    and "\<forall>c\<in>set b. py_space c"
  shows "py_strip (a @ h @ b) = h"
proof -
  have "py_strip (a @ h @ b) = py_rstrip (h @ b)" using assms by (intro py_strip_pad) auto
  also have "\<dots> = py_rstrip h" using assms(4) by (rule py_rstrip_pad)
  also have "\<dots> = h"
    using assms(2,3) by (cases "rev h") (auto simp: py_rstrip_def)
  finally show ?thesis .
qed

text \<open>A bare human text, seen by \<open>check_source\<close>, has the token \<open>human\<close> and an empty name.\<close>

lemma bare_human_text:
  assumes p: "py_partition (CHR '':'') (py_strip raw) = (h, sep, t)"
    and h: "py_casefold h = HUMAN_PREFIX" and t: "\<not> sep \<or> py_strip t = []"
  shows "source_token raw = HUMAN_PREFIX" and "human_name raw = DEFAULT_HUMAN_NAME"
proof -
  obtain a b where raw: "raw = a @ py_strip raw @ b"
    and a: "\<forall>c\<in>set a. py_space c" and b: "\<forall>c\<in>set b. py_space c"
    by (rule py_strip_decomp)
  have na: "CHR '':'' \<notin> set a" and nb: "CHR '':'' \<notin> set b"
    using a b by (auto simp: py_space_def)
  note ns = fold_human_no_space [OF h]
  have "source_token raw = HUMAN_PREFIX \<and> human_name raw = DEFAULT_HUMAN_NAME"
  proof (cases sep)
    case True
    have j: "py_strip raw = h @ CHR '':'' # t \<and> CHR '':'' \<notin> set h"
      using p True by (intro py_partition_join) simp
    with raw have "raw = (a @ h) @ CHR '':'' # (t @ b)" by simp
    with j na have part: "py_partition (CHR '':'') raw = (a @ h, True, t @ b)"
      using py_partition_sep [of "CHR '':''" "a @ h" "t @ b"] by simp
    have "py_strip (a @ h) = h" using no_space_strip [of a h "[]"] a ns by simp
    moreover have "py_strip (t @ b) = []" using t True b by (auto simp: py_strip_Nil_iff)
    ultimately show ?thesis using part h by (simp add: source_token_def human_name_def)
  next
    case False
    then have nc: "CHR '':'' \<notin> set (py_strip raw)" using p by (auto simp: py_partition_def)
    then have hs: "py_strip raw = h" using p by (simp add: py_partition_no_sep)
    from nc have "CHR '':'' \<notin> set raw" using raw na nb by (metis Un_iff set_append)
    then have part: "py_partition (CHR '':'') raw = (raw, False, [])" by (rule py_partition_no_sep)
    then show ?thesis using h hs
      by (simp add: source_token_def human_name_def py_strip_Nil_iff)
  qed
  then show "source_token raw = HUMAN_PREFIX" and "human_name raw = DEFAULT_HUMAN_NAME" by auto
qed

section \<open>Properties\<close>

text \<open>No request enters under a reserved identity: whatever a caller sends as its source,
  the accepted source never carries a reserved prefix (in any letter case or padding), as long as
  the entry point's own default does not. A reserved source is always answered with an error
  that quotes it.\<close>

theorem accepted_source_not_reserved:
  assumes "source_token dflt \<notin> set RESERVED_PREFIXES"
  shows "(sc_error (check_source render raw dflt field nh) = None \<longrightarrow>
            source_token (sc_source (check_source render raw dflt field nh)) \<notin> set RESERVED_PREFIXES) \<and>
         (truthy raw \<and> source_token (py_str render raw) \<in> set RESERVED_PREFIXES \<longrightarrow>
            sc_error (check_source render raw dflt field nh) =
              Some \<lparr>se_field = field, se_text = py_str render raw,
                    se_reserved_prefix = source_token (py_str render raw)\<rparr>)"
proof -
  have "py_strip (py_str render raw) \<noteq> []" if "source_token (py_str render raw) \<in> set RESERVED_PREFIXES"
    using that blank_token by (fastforce simp: RESERVED_PREFIXES_def)
  then show ?thesis using assms by (auto simp: check_source_def Let_def)
qed

theorem accepted_source_not_reserved_witness:
  "sc_error (check_source (\<lambda>_. []) (PStr '' SyStem :x'') ''agent'' ''source'' True) =
     Some \<lparr>se_field = ''source'', se_text = '' SyStem :x'', se_reserved_prefix = ''system''\<rparr>"
proof -
  have d: "source_token ''agent'' \<notin> set RESERVED_PREFIXES" by code_simp
  have "source_token '' SyStem :x'' = ''system''" by code_simp
  then show ?thesis
    using accepted_source_not_reserved
      [OF d, where render = "\<lambda>_. []" and raw = "PStr '' SyStem :x''" and field = "''source''" and nh = True]
    by (simp add: RESERVED_PREFIXES_def)
qed

text \<open>Normalisation is idempotent and never silent: running \<open>check_source\<close> again on an accepted,
  non-blank source returns the same source without a further rewrite, and whenever the accepted
  source differs from the text the caller sent, \<open>normalized_from\<close> holds that text.\<close>

theorem check_source_idempotent:
  assumes "sc_error (check_source render raw dflt field nh) = None"
    and "truthy raw" and "py_strip (py_str render raw) \<noteq> []"
  shows "(let r = check_source render raw dflt field nh in
           check_source render (PStr (sc_source r)) dflt field nh =
             \<lparr>sc_source = sc_source r, sc_normalized_from = None, sc_error = None,
              sc_raw_source = Some (sc_source r)\<rparr> \<and>
           sc_normalized_from r =
             (if sc_source r = py_str render raw then None else Some (py_str render raw)))"
proof (cases "source_token (py_str render raw) = HUMAN_PREFIX \<and> nh")
  case True
  let ?c = "HUMAN_PREFIX @ '':'' @ human_name (py_str render raw)"
  have fix_: "human_name ?c = human_name (py_str render raw)"
    by (simp add: human_name_def [of "HUMAN_PREFIX @ _"])
  have "check_source render (PStr ?c) dflt field True =
      \<lparr>sc_source = ?c, sc_normalized_from = None, sc_error = None, sc_raw_source = Some ?c\<rparr>"
    using check_source_human [of "PStr ?c" render dflt field] fix_ by (simp add: Let_def)
  with True check_source_human [OF assms(2,3)] show ?thesis by (simp add: Let_def)
next
  case False
  note keep = check_source_keep [OF assms(2,3) False assms(1)]
  have "check_source render (PStr (py_str render raw)) dflt field nh =
      check_source render raw dflt field nh"
    using assms(2,3) by (cases "py_str render raw") (auto simp: check_source_def py_strip_Nil_iff)
  with keep show ?thesis by (simp add: Let_def)
qed

theorem check_source_idempotent_witness:
  "(let r = check_source (\<lambda>_. []) (PStr '' Human : bob '') ''agent'' ''source'' True in
     sc_source r = ''human:bob'' \<and> sc_normalized_from r = Some '' Human : bob '' \<and>
     check_source (\<lambda>_. []) (PStr ''human:bob'') ''agent'' ''source'' True =
       \<lparr>sc_source = ''human:bob'', sc_normalized_from = None, sc_error = None,
        sc_raw_source = Some ''human:bob''\<rparr>)"
proof -
  let ?raw = "PStr '' Human : bob ''"
  have e: "sc_error (check_source (\<lambda>_. []) ?raw ''agent'' ''source'' True) = None" by code_simp
  have t: "truthy ?raw" by simp
  have n: "py_strip (py_str (\<lambda>_. []) ?raw) \<noteq> []" by code_simp
  have s: "sc_source (check_source (\<lambda>_. []) ?raw ''agent'' ''source'' True) = ''human:bob''" by code_simp
  show ?thesis
    using check_source_idempotent [OF e t n] s by (simp add: Let_def)
qed

text \<open>The privileged bare human is displayed honestly: when the raw input is the bare word
  \<open>human\<close> (or \<open>human:\<close> with an empty name, in any letter case, padded or not), the accepted source is
  \<open>human:cli\<close> and it is classified as human.\<close>

theorem bare_human_is_human_cli:
  assumes "is_bare_human (check_source render raw dflt field True)"
  shows "sc_source (check_source render raw dflt field True) = ''human:cli'' \<and>
         sc_error (check_source render raw dflt field True) = None \<and>
         classify_source (sc_source (check_source render raw dflt field True)) = SOURCE_CLASS_HUMAN"
proof -
  let ?text = "if truthy raw then py_str render raw else []"
  have rs: "sc_raw_source (check_source render raw dflt field True) = Some ?text"
    by (simp add: check_source_def Let_def)
  obtain h sep t where p: "py_partition (CHR '':'') (py_strip ?text) = (h, sep, t)" by (metis prod_cases3)
  with assms rs have h: "py_casefold h = HUMAN_PREFIX" and t: "\<not> sep \<or> py_strip t = []"
    by (auto simp: is_bare_human_def)
  note b = bare_human_text [OF p h t]
  have ne: "py_strip ?text \<noteq> []"
    using b(1) blank_token [of ?text] by (auto simp: HUMAN_PREFIX_def)
  then have "truthy raw" by (auto simp: py_strip_def py_lstrip_def py_rstrip_def split: if_splits)
  with b ne have "check_source render raw dflt field True =
      (let c = ''human:cli'' in
       \<lparr>sc_source = c, sc_normalized_from = (if c \<noteq> ?text then Some ?text else None),
        sc_error = None, sc_raw_source = Some ?text\<rparr>)"
    using check_source_human [of raw render dflt field]
    by (simp add: Let_def HUMAN_PREFIX_def DEFAULT_HUMAN_NAME_def)
  then show ?thesis by (simp add: Let_def classify_source_def HUMAN_PREFIX_def starts_with_def)
qed

theorem bare_human_is_human_cli_witness:
  "is_bare_human (check_source (\<lambda>_. []) (PStr '' HUMAN: '') ''agent'' ''source'' True) \<and>
   sc_source (check_source (\<lambda>_. []) (PStr '' HUMAN: '') ''agent'' ''source'' True) = ''human:cli''"
proof -
  have "is_bare_human (check_source (\<lambda>_. []) (PStr '' HUMAN: '') ''agent'' ''source'' True)" by code_simp
  from this and bare_human_is_human_cli [OF this] show ?thesis by blast
qed

end
