(* ===== verification/Arbiter.thy ===== *)
theory Arbiter
  imports Admission Requests "HOL-Library.Product_Lexorder"
begin

text \<open>
  The command arbiter of \<open>sw_core/arbiter.py\<close>: per session one priority queue and one worker
  thread that executes the commands one after the other through \<open>send_cb\<close>, a record per command,
  back-pressure (\<open>CMD_PENDING_MAX\<close>), a bounded history (\<open>CMD_HISTORY_MAX\<close>), cancellation, and
  the flush of a session whose queue is thrown away.

  Every \<open>with self._lock\<close> block is one operation on \<open>arb\<close>; what the code does outside the lock
  (\<open>pq.put\<close>, \<open>pq.get\<close>, the stop event, the return of \<open>send_cb\<close>) is an operation of its own, and
  \<open>arb_step\<close> interleaves all of them. A queue, its stop event and its thread are created together
  by \<open>register_session\<close> and are identified by one handle, an index into \<open>a_workers\<close>; a session that is
  unregistered and registered again gets a new handle while the old thread may still be inside
  \<open>send_cb\<close>. Instants (\<open>now_iso()\<close>) are integers: the ISO strings of the code sort like the instants
  they denote.
\<close>

section \<open>Data\<close>

type_synonym timestamp = int

definition CMD_WARN_BYTES :: nat where "CMD_WARN_BYTES = 4096"
definition CMD_REJECT_BYTES :: nat where "CMD_REJECT_BYTES = 16384"
definition CMD_HISTORY_MAX :: nat where "CMD_HISTORY_MAX = 512"
definition CMD_PENDING_MAX :: nat where "CMD_PENDING_MAX = 256"

datatype cmd_status = Accepted | Running | Finished | Failed | Canceled | Interactive

record cmd_rec =
  cr_cmd_id :: string
  cr_session_id :: string
  cr_command :: string
  cr_source :: string
  cr_mode :: string
  cr_execution_mode :: string
  cr_timeout_s :: seconds
  cr_expected_duration_s :: "seconds option"
  cr_completion_regex :: pyval
  cr_expect_reboot :: bool
  cr_priority :: int
  cr_status :: cmd_status
  cr_created_at :: timestamp
  cr_accepted_at :: timestamp
  cr_started_at :: "timestamp option"
  cr_done_at :: "timestamp option"
  cr_error_code :: "string option"
  cr_stdout :: string
  cr_partial :: bool
  cr_background_capture_id :: "string option"
  cr_interactive_session_id :: "string option"
  cr_recovery_action :: "string option"

record queued =
  q_sort_key :: "int \<times> int"
  q_cmd_id :: string
  q_session_id :: string
  q_command :: string
  q_source :: string
  q_mode :: string
  q_timeout_s :: seconds
  q_expected_duration_s :: "seconds option"
  q_completion_regex :: pyval
  q_trusted_human :: bool
  q_expect_reboot :: bool

text \<open>\<open>queue.PriorityQueue\<close>: the list of the queued items, smallest sort key first.\<close>

definition pq_put :: "queued \<Rightarrow> queued list \<Rightarrow> queued list" where
  "pq_put x pq = insort_key q_sort_key x pq"

definition pq_get :: "queued list \<Rightarrow> (queued \<times> queued list) option" where
  "pq_get pq = (case pq of [] \<Rightarrow> None | x # rest \<Rightarrow> Some (x, rest))"

text \<open>What a client of a priority queue relies on.\<close>

locale priority_queue =
  fixes put :: "'a \<Rightarrow> 'q \<Rightarrow> 'q" and get :: "'q \<Rightarrow> ('a \<times> 'q) option"
    and items :: "'q \<Rightarrow> 'a multiset" and key :: "'a \<Rightarrow> 'k::linorder" and wf :: "'q \<Rightarrow> bool"
  assumes put_items: "items (put x q) = add_mset x (items q)"
    and put_wf: "wf q \<Longrightarrow> wf (put x q)"
    and get_None: "get q = None \<longleftrightarrow> items q = {#}"
    and get_Some: "wf q \<Longrightarrow> get q = Some (x, q') \<Longrightarrow>
      wf q' \<and> items q = add_mset x (items q') \<and> (\<forall>y \<in># items q'. key x \<le> key y)"
begin

lemma get_least:
  assumes "wf q" "items q \<noteq> {#}"
  shows "\<exists>x q'. get q = Some (x, q') \<and> wf q' \<and> items q = add_mset x (items q') \<and>
    (\<forall>y \<in># add_mset x (items q'). key x \<le> key y)"
proof -
  obtain x q' where "get q = Some (x, q')" using assms(2) get_None by (metis option.exhaust surj_pair)
  with get_Some [OF assms(1) this] show ?thesis by auto
qed

lemma put_urgent:
  assumes "wf q" "\<forall>y \<in># items q. key x < key y"
  shows "\<exists>q'. get (put x q) = Some (x, q') \<and> items q' = items q"
proof -
  obtain z q' where z: "get (put x q) = Some (z, q')" "items (put x q) = add_mset z (items q')"
    "\<forall>y \<in># add_mset z (items q'). key z \<le> key y"
    using get_least [OF put_wf [OF assms(1)], of x] put_items by auto
  then have "z = x \<or> z \<in># items q" "key z \<le> key x" using put_items by (metis insert_noteq_member union_single_eq_member)+
  then have "z = x" using assms(2) leD by blast
  then show ?thesis using z put_items by auto
qed

end

interpretation sorted_queue: priority_queue pq_put pq_get mset q_sort_key "\<lambda>pq. sorted (map q_sort_key pq)"
  by unfold_locales
    (auto simp: pq_put_def pq_get_def sorted_insort_key mset_insort split: list.splits)

text \<open>The worker thread: waiting in \<open>pq.get\<close>; holding an item it took; past the check of the stop
  event; inside \<open>send_cb\<close>; returned.\<close>

datatype wphase = Idle | Took queued | Checked queued | Sending queued | Exited

record worker =
  w_session :: string
  w_queue :: "queued list"
  w_stop :: bool
  w_phase :: wphase

text \<open>The arbiter. \<open>a_puts\<close> holds the items of submits that have left the lock and not yet called
  \<open>pq.put\<close>; \<open>a_sent\<close> is the log of the \<open>send_cb\<close> calls, \<open>a_used\<close> the ids handed out so far.\<close>

record arb =
  a_commands :: "(string, cmd_rec) dict"
  a_queues :: "(string, nat) dict"
  a_running :: "(string, string) dict"
  a_tickets :: "(string, ticket) dict"
  a_callbacks :: "string list"
  a_on_cancel :: bool
  a_counter :: nat
  a_workers :: "worker list"
  a_gate :: "gate option"
  a_puts :: "(nat \<times> queued) list"
  a_sent :: "(string \<times> string) list"
  a_used :: "string list"

definition arb_init :: "gate option \<Rightarrow> bool \<Rightarrow> arb" where
  "arb_init g oc = \<lparr>a_commands = [], a_queues = [], a_running = [], a_tickets = [], a_callbacks = [],
     a_on_cancel = oc, a_counter = 0, a_workers = [], a_gate = g, a_puts = [], a_sent = [], a_used = []\<rparr>"

section \<open>Counting, eviction, tickets\<close>

definition running_canceled :: "string \<Rightarrow> arb \<Rightarrow> bool" where
  "running_canceled sid s =
     (case dict_get (a_running s) sid of None \<Rightarrow> False
      | Some cid \<Rightarrow> (case dict_get (a_commands s) cid of None \<Rightarrow> False
          | Some r \<Rightarrow> cr_session_id r = sid \<and> cr_status r = Canceled))"

definition open_commands :: "string \<Rightarrow> (string, cmd_rec) dict \<Rightarrow> nat" where
  "open_commands sid cmds =
     length (filter (\<lambda>(_, r). cr_session_id r = sid \<and> cr_done_at r = None) cmds)"

definition count_pending_locked :: "string \<Rightarrow> arb \<Rightarrow> nat" where
  "count_pending_locked sid s =
     open_commands sid (a_commands s) + (if running_canceled sid s then 1 else 0)"

definition done_key :: "string \<times> cmd_rec \<Rightarrow> timestamp" where
  "done_key kv = (case cr_done_at (snd kv) of Some t \<Rightarrow> t | None \<Rightarrow> 0)"

definition evictable :: "arb \<Rightarrow> (string, cmd_rec) dict" where
  "evictable s = filter (\<lambda>(cid, r). cr_done_at r \<noteq> None \<and> cid \<notin> snd ` set (a_running s)) (a_commands s)"

definition victims :: "arb \<Rightarrow> string list" where
  "victims s = map fst (take (length (a_commands s) - CMD_HISTORY_MAX) (sort_key done_key (evictable s)))"

definition evict_commands_locked :: "arb \<Rightarrow> arb" where
  "evict_commands_locked s =
     (if length (a_commands s) \<le> CMD_HISTORY_MAX then s
      else s\<lparr>a_commands := filter (\<lambda>(cid, _). cid \<notin> set (victims s)) (a_commands s)\<rparr>)"

type_synonym books = "(string, ticket) dict \<times> gate option"

fun finish_ticket :: "string \<Rightarrow> books \<Rightarrow> books" where
  "finish_ticket cid (ts, g) =
     (case dict_get ts cid of None \<Rightarrow> (ts, g)
      | Some t \<Rightarrow> (dict_pop cid ts, map_option (gate_done t) g))"

definition set_books :: "books \<Rightarrow> arb \<Rightarrow> arb" where
  "set_books b s = s\<lparr>a_tickets := fst b, a_gate := snd b\<rparr>"

definition finish_admission_locked :: "string \<Rightarrow> arb \<Rightarrow> arb" where
  "finish_admission_locked cid s = set_books (finish_ticket cid (a_tickets s, a_gate s)) s"

section \<open>Sessions\<close>

definition register_session :: "string \<Rightarrow> arb \<Rightarrow> arb" where
  "register_session sid s =
     (if sid \<in> dict_keys (a_queues s) then s
      else s\<lparr>a_queues := dict_set sid (length (a_workers s)) (a_queues s),
             a_workers := a_workers s @ [\<lparr>w_session = sid, w_queue = [], w_stop = False, w_phase = Idle\<rparr>]\<rparr>)"

text \<open>The loop of \<open>_flush_session_locked\<close> over the records, with the tickets it returns.\<close>

fun flush_loop ::
  "string \<Rightarrow> string \<Rightarrow> timestamp \<Rightarrow> (string, cmd_rec) dict \<Rightarrow> books \<Rightarrow> (string, cmd_rec) dict \<times> books \<times> nat" where
  "flush_loop sid err now [] b = ([], b, 0)"
| "flush_loop sid err now ((cid, r) # rest) b =
     (if cr_session_id r \<noteq> sid then
        (case flush_loop sid err now rest b of (cs, b', n) \<Rightarrow> ((cid, r) # cs, b', n))
      else if cr_done_at r \<noteq> None then
        (case flush_loop sid err now rest (finish_ticket (cr_cmd_id r) b) of (cs, b', n) \<Rightarrow>
           ((cid, r) # cs, b', n))
      else if cr_status r \<noteq> Accepted then
        (case flush_loop sid err now rest b of (cs, b', n) \<Rightarrow> ((cid, r) # cs, b', n))
      else
        (case flush_loop sid err now rest (finish_ticket (cr_cmd_id r) b) of (cs, b', n) \<Rightarrow>
           ((cid, r\<lparr>cr_status := Failed, cr_error_code := Some err, cr_done_at := Some now\<rparr>) # cs, b', Suc n)))"

definition flush_session :: "string \<Rightarrow> string \<Rightarrow> timestamp \<Rightarrow> arb \<Rightarrow> nat \<times> arb" where
  "flush_session sid err now s =
     (case flush_loop sid err now (a_commands s) (a_tickets s, a_gate s) of (cs, b, n) \<Rightarrow>
        (n, set_books b (s\<lparr>a_commands := cs\<rparr>)))"

text \<open>\<open>unregister_session\<close>: the locked part forgets the queue, the stop event and the thread and
  flushes; afterwards the stop event is set and a sentinel wakes the thread up.\<close>

definition unregister_session_locked :: "string \<Rightarrow> string \<Rightarrow> timestamp \<Rightarrow> arb \<Rightarrow> arb" where
  "unregister_session_locked sid err now s =
     snd (flush_session sid err now (s\<lparr>a_queues := dict_pop sid (a_queues s)\<rparr>))"

definition sentinel :: queued where
  "sentinel = \<lparr>q_sort_key = (0, 0), q_cmd_id = [], q_session_id = [], q_command = [], q_source = [],
     q_mode = [], q_timeout_s = 0, q_expected_duration_s = None, q_completion_regex = PNone,
     q_trusted_human = False, q_expect_reboot = False\<rparr>"

definition upd_worker :: "nat \<Rightarrow> (worker \<Rightarrow> worker) \<Rightarrow> arb \<Rightarrow> arb" where
  "upd_worker h f s = s\<lparr>a_workers := (a_workers s)[h := f (a_workers s ! h)]\<rparr>"

definition stop_worker :: "nat \<Rightarrow> arb \<Rightarrow> arb" where
  "stop_worker h s = upd_worker h (\<lambda>w. w\<lparr>w_stop := True, w_queue := pq_put sentinel (w_queue w)\<rparr>) s"

section \<open>Submitting\<close>

record submit_args =
  sa_session_id :: string
  sa_command :: string
  sa_source :: string
  sa_mode :: string
  sa_timeout_s :: seconds
  sa_priority :: int
  sa_expected_duration_s :: "seconds option"
  sa_completion_regex :: pyval
  sa_admission_com :: "string option"
  sa_admission_exempt :: bool
  sa_trusted_human :: bool
  sa_expect_reboot :: pyval

datatype submit_result =
    INVALID_COMPLETION_REGEX
  | EXPECT_REBOOT_REJECTED expect_reboot_error
  | CMD_TOO_LONG nat
  | CMD_CONTAINS_NEWLINE
  | FLUSHED_BY_SHUTDOWN
  | SESSION_NOT_READY string
  | SESSION_QUEUE_FULL string nat
  | Submit_accepted string string bool "nat option"
    \<comment> \<open>command id, session id, the \<open>expect_reboot\<close> echo, the length of a length warning\<close>

definition execution_mode :: "string \<Rightarrow> string" where
  "execution_mode mode = (if mode = ''fg'' then ''line'' else if mode = ''bg'' then ''background'' else mode)"

text \<open>The checks before the lock and before the ticket.\<close>

definition submit_check :: "re_engine \<Rightarrow> submit_args \<Rightarrow> submit_result option" where
  "submit_check re a =
     (if \<not> valid_completion_regex re (sa_completion_regex a) then Some INVALID_COMPLETION_REGEX
      else case expect_reboot_rejection (sa_expect_reboot a) (execution_mode (sa_mode a)) of
        Some e \<Rightarrow> Some (EXPECT_REBOOT_REJECTED e)
      | None \<Rightarrow>
          if CMD_REJECT_BYTES < utf8_len (sa_command a) then Some (CMD_TOO_LONG (utf8_len (sa_command a)))
          else if CHR 0x0A \<in> set (sa_command a) then Some CMD_CONTAINS_NEWLINE
          else None)"

definition length_warning :: "submit_args \<Rightarrow> nat option" where
  "length_warning a = (if CMD_WARN_BYTES < utf8_len (sa_command a) then Some (utf8_len (sa_command a)) else None)"

definition admission_com :: "submit_args \<Rightarrow> string" where
  "admission_com a = (case sa_admission_com a of
      Some c \<Rightarrow> if c = [] then py_rsplit_last (CHR '':'') (sa_session_id a) else c
    | None \<Rightarrow> py_rsplit_last (CHR '':'') (sa_session_id a))"

definition new_rec :: "submit_args \<Rightarrow> string \<Rightarrow> timestamp \<Rightarrow> cmd_rec" where
  "new_rec a cid now = \<lparr>cr_cmd_id = cid, cr_session_id = sa_session_id a, cr_command = sa_command a,
     cr_source = sa_source a, cr_mode = sa_mode a, cr_execution_mode = execution_mode (sa_mode a),
     cr_timeout_s = sa_timeout_s a, cr_expected_duration_s = sa_expected_duration_s a,
     cr_completion_regex = sa_completion_regex a, cr_expect_reboot = (sa_expect_reboot a = PBool True),
     cr_priority = sa_priority a, cr_status = Accepted, cr_created_at = now, cr_accepted_at = now,
     cr_started_at = None, cr_done_at = None, cr_error_code = None, cr_stdout = [], cr_partial = False,
     cr_background_capture_id = None, cr_interactive_session_id = None, cr_recovery_action = None\<rparr>"

definition new_item :: "submit_args \<Rightarrow> string \<Rightarrow> nat \<Rightarrow> queued" where
  "new_item a cid counter = \<lparr>q_sort_key = (sa_priority a, int counter), q_cmd_id = cid,
     q_session_id = sa_session_id a, q_command = sa_command a, q_source = sa_source a, q_mode = sa_mode a,
     q_timeout_s = sa_timeout_s a, q_expected_duration_s = sa_expected_duration_s a,
     q_completion_regex = sa_completion_regex a, q_trusted_human = sa_trusted_human a,
     q_expect_reboot = (sa_expect_reboot a = PBool True)\<rparr>"

text \<open>The ticket of a submit: \<open>None\<close> when the gate refuses, \<open>Some None\<close> when none is taken.\<close>

definition submit_ticket :: "submit_args \<Rightarrow> gate option \<Rightarrow> ticket option option \<times> gate option" where
  "submit_ticket a g =
     (case g of None \<Rightarrow> (Some None, None)
      | Some gt \<Rightarrow>
          if sa_admission_exempt a then (Some None, Some gt)
          else (case admit ''command.submit'' (Some (admission_com a)) gt of
              (None, gt') \<Rightarrow> (None, Some gt')
            | (Some t, gt') \<Rightarrow> (Some (Some t), Some gt')))"

definition return_ticket :: "ticket option \<Rightarrow> gate option \<Rightarrow> gate option" where
  "return_ticket t g = (case t of None \<Rightarrow> g | Some tk \<Rightarrow> map_option (gate_done tk) g)"

definition submit_locked :: "submit_args \<Rightarrow> string \<Rightarrow> timestamp \<Rightarrow> ticket option \<Rightarrow> arb \<Rightarrow> submit_result \<times> arb" where
  "submit_locked a cid now t s =
     (let sid = sa_session_id a in
      case dict_get (a_queues s) sid of
        None \<Rightarrow> (SESSION_NOT_READY sid, s\<lparr>a_gate := return_ticket t (a_gate s)\<rparr>)
      | Some h \<Rightarrow>
          if CMD_PENDING_MAX \<le> count_pending_locked sid s then
            (SESSION_QUEUE_FULL sid (count_pending_locked sid s), s\<lparr>a_gate := return_ticket t (a_gate s)\<rparr>)
          else
            (Submit_accepted cid sid (sa_expect_reboot a = PBool True) (length_warning a),
             (evict_commands_locked (s\<lparr>
                a_counter := Suc (a_counter s),
                a_commands := dict_set cid (new_rec a cid now) (a_commands s),
                a_tickets := (case t of None \<Rightarrow> a_tickets s | Some tk \<Rightarrow> dict_set cid tk (a_tickets s)),
                a_used := cid # a_used s,
                a_puts := (h, new_item a cid (Suc (a_counter s))) # a_puts s\<rparr>))))"

definition submit :: "re_engine \<Rightarrow> submit_args \<Rightarrow> string \<Rightarrow> timestamp \<Rightarrow> arb \<Rightarrow> submit_result \<times> arb" where
  "submit re a cid now s =
     (case submit_check re a of
        Some e \<Rightarrow> (e, s)
      | None \<Rightarrow>
          (case submit_ticket a (a_gate s) of
             (None, g) \<Rightarrow> (FLUSHED_BY_SHUTDOWN, s\<lparr>a_gate := g\<rparr>)
           | (Some t, g) \<Rightarrow> submit_locked a cid now t (s\<lparr>a_gate := g\<rparr>)))"

definition put_item :: "nat \<times> queued \<Rightarrow> arb \<Rightarrow> arb" where
  "put_item p s = upd_worker (fst p) (\<lambda>w. w\<lparr>w_queue := pq_put (snd p) (w_queue w)\<rparr>)
     (s\<lparr>a_puts := remove1 p (a_puts s)\<rparr>)"

section \<open>Looking up and cancelling\<close>

definition cmd_get :: "string \<Rightarrow> arb \<Rightarrow> cmd_rec option" where
  "cmd_get cid s = dict_get (a_commands s) cid"

definition arb_snapshot :: "arb \<Rightarrow> cmd_rec list" where
  "arb_snapshot s = map snd (sort_key (cr_created_at \<circ> snd) (a_commands s))"

datatype cancel_result = CMD_NOT_FOUND | CMD_NOT_CANCELABLE | Cancel_ok bool
  \<comment> \<open>canceled; whether a cancel callback is invoked\<close>

definition cancel :: "string \<Rightarrow> timestamp \<Rightarrow> arb \<Rightarrow> cancel_result \<times> arb" where
  "cancel cid now s =
     (case dict_get (a_commands s) cid of
        None \<Rightarrow> (CMD_NOT_FOUND, s)
      | Some r \<Rightarrow>
          if cr_status r = Finished \<or> cr_status r = Failed then (CMD_NOT_CANCELABLE, s)
          else
            (let s1 = s\<lparr>a_commands := dict_set cid (r\<lparr>cr_status := Canceled, cr_done_at := Some now\<rparr>) (a_commands s)\<rparr>;
                 s2 = (if cr_status r = Accepted then finish_admission_locked cid s1 else s1);
                 s3 = evict_commands_locked s2
             in (Cancel_ok (a_on_cancel s \<or> cid \<in> set (a_callbacks s)), s3)))"

text \<open>The cancel callbacks that \<open>send_cb\<close> registers while it runs; \<open>active\<close> is the command of the
  calling worker thread. The first component of the result is the return value, the second tells
  whether the callback is invoked at once.\<close>

definition register_current_cancel_callback :: "string option \<Rightarrow> string \<Rightarrow> arb \<Rightarrow> (bool \<times> bool) \<times> arb" where
  "register_current_cancel_callback active cid s =
     (if active \<noteq> Some cid then ((False, False), s)
      else case dict_get (a_commands s) cid of
        None \<Rightarrow> ((False, False), s)
      | Some r \<Rightarrow>
          if cr_status r = Canceled \<or> cr_done_at r \<noteq> None then ((True, cr_status r = Canceled), s)
          else ((True, False), s\<lparr>a_callbacks := set_add cid (a_callbacks s)\<rparr>))"

definition unregister_current_cancel_callback :: "string option \<Rightarrow> string \<Rightarrow> arb \<Rightarrow> arb" where
  "unregister_current_cancel_callback active cid s =
     (if active \<noteq> Some cid then s else s\<lparr>a_callbacks := set_discard cid (a_callbacks s)\<rparr>)"

section \<open>The worker thread\<close>

text \<open>\<open>item = pq.get(...)\<close>\<close>

definition worker_take :: "nat \<Rightarrow> arb \<Rightarrow> arb" where
  "worker_take h s =
     (case pq_get (w_queue (a_workers s ! h)) of None \<Rightarrow> s
      | Some (x, rest) \<Rightarrow> upd_worker h (\<lambda>w. w\<lparr>w_queue := rest, w_phase := Took x\<rparr>) s)"

text \<open>The tests of the stop event and of the sentinel.\<close>

definition worker_check :: "nat \<Rightarrow> queued \<Rightarrow> arb \<Rightarrow> arb" where
  "worker_check h x s = upd_worker h (\<lambda>w. w\<lparr>w_phase :=
     (if w_stop w then Exited else if q_cmd_id x = [] then Idle else Checked x)\<rparr>) s"

definition set_phase :: "nat \<Rightarrow> wphase \<Rightarrow> arb \<Rightarrow> arb" where
  "set_phase h p s = upd_worker h (\<lambda>w. w\<lparr>w_phase := p\<rparr>) s"

text \<open>The locked block before \<open>send_cb\<close>, and the call of \<open>send_cb\<close>.\<close>

definition worker_begin :: "nat \<Rightarrow> queued \<Rightarrow> timestamp \<Rightarrow> arb \<Rightarrow> arb" where
  "worker_begin h x now s =
     (let cid = q_cmd_id x; sid = w_session (a_workers s ! h) in
      case dict_get (a_commands s) cid of
        None \<Rightarrow> set_phase h Idle (finish_admission_locked cid s)
      | Some r \<Rightarrow>
          if cr_status r = Canceled \<or> cr_done_at r \<noteq> None then
            set_phase h Idle (finish_admission_locked cid s)
          else
            set_phase h (Sending x) (s\<lparr>
              a_commands := dict_set cid (r\<lparr>cr_status := Running, cr_started_at := Some now\<rparr>) (a_commands s),
              a_running := dict_set sid cid (a_running s),
              a_sent := a_sent s @ [(sid, cid)]\<rparr>))"

text \<open>What \<open>send_cb\<close> did: raised, returned something that is no dictionary, or a dictionary. A field
  is \<open>None\<close> when its key is absent.\<close>

record send_result =
  sr_ok :: "bool option"
  sr_error_code :: "string option"
  sr_status :: "string option"
  sr_stdout :: "string option"
  sr_partial :: "bool option"
  sr_background_capture_id :: "string option option"
  sr_interactive_session_id :: "string option option"
  sr_recovery_action :: "string option option"
  sr_execution_mode :: "string option"

datatype send_outcome = Raised | NoDict | Answer send_result

definition or_old :: "'a option \<Rightarrow> 'a \<Rightarrow> 'a" where
  "or_old new old = (case new of None \<Rightarrow> old | Some v \<Rightarrow> v)"

definition copy_keys :: "send_result \<Rightarrow> cmd_rec \<Rightarrow> cmd_rec" where
  "copy_keys res r = r\<lparr>
     cr_stdout := or_old (sr_stdout res) (cr_stdout r),
     cr_partial := or_old (sr_partial res) (cr_partial r),
     cr_background_capture_id := or_old (sr_background_capture_id res) (cr_background_capture_id r),
     cr_interactive_session_id := or_old (sr_interactive_session_id res) (cr_interactive_session_id r),
     cr_recovery_action := or_old (sr_recovery_action res) (cr_recovery_action r),
     cr_execution_mode := or_old (sr_execution_mode res) (cr_execution_mode r)\<rparr>"

definition apply_answer :: "send_result \<Rightarrow> cmd_rec \<Rightarrow> cmd_rec" where
  "apply_answer res r =
     (let r1 = copy_keys res r in
      if \<not> or_old (sr_ok res) True then
        r1\<lparr>cr_status := Failed, cr_error_code := Some (case sr_error_code res of
             None \<Rightarrow> ''COMMAND_FAILED'' | Some e \<Rightarrow> if e = [] then ''COMMAND_FAILED'' else e)\<rparr>
      else if sr_status res = Some ''interactive'' then r1\<lparr>cr_status := Interactive\<rparr>
      else r1\<lparr>cr_status := Finished\<rparr>)"

definition finish_rec :: "send_outcome \<Rightarrow> timestamp \<Rightarrow> cmd_rec \<Rightarrow> cmd_rec" where
  "finish_rec out now r =
     (case out of
        Raised \<Rightarrow> r\<lparr>cr_status := Failed, cr_error_code := Some ''SEND_FAILED'', cr_done_at := Some now\<rparr>
      | NoDict \<Rightarrow> if cr_status r = Canceled then r else r\<lparr>cr_status := Finished, cr_done_at := Some now\<rparr>
      | Answer res \<Rightarrow> if cr_status r = Canceled then r else (apply_answer res r)\<lparr>cr_done_at := Some now\<rparr>)"

definition worker_finish :: "nat \<Rightarrow> queued \<Rightarrow> send_outcome \<Rightarrow> timestamp \<Rightarrow> arb \<Rightarrow> arb" where
  "worker_finish h x out now s =
     (let cid = q_cmd_id x; sid = w_session (a_workers s ! h);
          s1 = (case dict_get (a_commands s) cid of None \<Rightarrow> s
                | Some r \<Rightarrow> s\<lparr>a_commands := dict_set cid (finish_rec out now r) (a_commands s)\<rparr>);
          s2 = (if dict_get (a_running s1) sid = Some cid
                then s1\<lparr>a_running := dict_pop sid (a_running s1)\<rparr> else s1);
          s3 = evict_commands_locked s2;
          s4 = finish_admission_locked cid s3
      in set_phase h Idle s4)"

section \<open>Interleavings\<close>

text \<open>Other users of the gate never hand out or return a \<open>command.submit\<close> ticket.\<close>

fun foreign_op :: "gate \<Rightarrow> gate_op \<Rightarrow> bool" where
  "foreign_op g (Admit k c) = (k \<noteq> ''command.submit'')"
| "foreign_op g (Done t) = (tk_kind t \<noteq> ''command.submit'' \<and>
     (dict_get (g_tickets g) (tk_seq t) = None \<or> dict_get (g_tickets g) (tk_seq t) = Some t))"
| "foreign_op g _ = True"

inductive arb_step :: "arb \<Rightarrow> arb \<Rightarrow> bool" where
  step_register: "arb_step s (register_session sid s)"
| step_unregister: "arb_step s (unregister_session_locked sid err now s)"
| step_stop: "h < length (a_workers s) \<Longrightarrow> h \<notin> snd ` set (a_queues s) \<Longrightarrow> arb_step s (stop_worker h s)"
| step_flush: "arb_step s (snd (flush_session sid err now s))"
| step_submit: "cid \<noteq> [] \<Longrightarrow> cid \<notin> set (a_used s) \<Longrightarrow> arb_step s (snd (submit re a cid now s))"
| step_put: "p \<in> set (a_puts s) \<Longrightarrow> arb_step s (put_item p s)"
| step_cancel: "arb_step s (snd (cancel cid now s))"
| step_register_cb: "arb_step s (snd (register_current_cancel_callback active cid s))"
| step_unregister_cb: "arb_step s (unregister_current_cancel_callback active cid s)"
| step_take: "h < length (a_workers s) \<Longrightarrow> w_phase (a_workers s ! h) = Idle \<Longrightarrow>
    \<not> w_stop (a_workers s ! h) \<Longrightarrow> arb_step s (worker_take h s)"
| step_exit: "h < length (a_workers s) \<Longrightarrow> w_phase (a_workers s ! h) = Idle \<Longrightarrow>
    w_stop (a_workers s ! h) \<Longrightarrow> arb_step s (set_phase h Exited s)"
| step_check: "h < length (a_workers s) \<Longrightarrow> w_phase (a_workers s ! h) = Took x \<Longrightarrow>
    arb_step s (worker_check h x s)"
| step_begin: "h < length (a_workers s) \<Longrightarrow> w_phase (a_workers s ! h) = Checked x \<Longrightarrow>
    arb_step s (worker_begin h x now s)"
| step_finish: "h < length (a_workers s) \<Longrightarrow> w_phase (a_workers s ! h) = Sending x \<Longrightarrow>
    arb_step s (worker_finish h x out now s)"
| step_foreign: "a_gate s = Some g \<Longrightarrow> foreign_op g op \<Longrightarrow>
    arb_step s (s\<lparr>a_gate := Some (gate_exec op g)\<rparr>)"

definition arb_start :: "arb \<Rightarrow> bool" where
  "arb_start s \<longleftrightarrow> (\<exists>g oc. s = arb_init g oc \<and> (g = None \<or> g = Some gate_init))"

abbreviation arb_reach :: "arb \<Rightarrow> bool" where
  "arb_reach \<equiv> reach arb_start arb_step"


section \<open>What each operation changes\<close>

named_theorems arb_frame

lemma evict_frame [arb_frame]:
  "a_queues (evict_commands_locked s) = a_queues s" "a_running (evict_commands_locked s) = a_running s"
  "a_tickets (evict_commands_locked s) = a_tickets s" "a_gate (evict_commands_locked s) = a_gate s"
  "a_workers (evict_commands_locked s) = a_workers s" "a_puts (evict_commands_locked s) = a_puts s"
  "a_sent (evict_commands_locked s) = a_sent s" "a_used (evict_commands_locked s) = a_used s"
  "a_counter (evict_commands_locked s) = a_counter s"
  by (simp_all add: evict_commands_locked_def)

lemma finish_admission_frame [arb_frame]:
  "a_queues (finish_admission_locked cid s) = a_queues s" "a_running (finish_admission_locked cid s) = a_running s"
  "a_commands (finish_admission_locked cid s) = a_commands s"
  "a_workers (finish_admission_locked cid s) = a_workers s" "a_puts (finish_admission_locked cid s) = a_puts s"
  "a_sent (finish_admission_locked cid s) = a_sent s" "a_used (finish_admission_locked cid s) = a_used s"
  "a_counter (finish_admission_locked cid s) = a_counter s"
  by (simp_all add: finish_admission_locked_def set_books_def)

lemma upd_worker_frame [arb_frame]:
  "a_queues (upd_worker h f s) = a_queues s" "a_running (upd_worker h f s) = a_running s"
  "a_commands (upd_worker h f s) = a_commands s" "a_tickets (upd_worker h f s) = a_tickets s"
  "a_gate (upd_worker h f s) = a_gate s" "a_puts (upd_worker h f s) = a_puts s"
  "a_sent (upd_worker h f s) = a_sent s" "a_used (upd_worker h f s) = a_used s"
  "a_counter (upd_worker h f s) = a_counter s"
  "a_workers (upd_worker h f s) = (a_workers s)[h := f (a_workers s ! h)]"
  by (simp_all add: upd_worker_def)

abbreviation cmd_of :: "arb \<Rightarrow> string \<Rightarrow> cmd_rec option" where
  "cmd_of s \<equiv> dict_get (a_commands s)"

subsection \<open>Eviction\<close>

lemma dict_get_filter_keys:
  "dict_get (filter (\<lambda>(k, _). k \<notin> V) d) k = (if k \<in> V then None else dict_get d k)"
  by (induction d) auto

lemma cmd_of_evict:
  "cmd_of (evict_commands_locked s) cid =
     (if CMD_HISTORY_MAX < length (a_commands s) \<and> cid \<in> set (victims s) then None else cmd_of s cid)"
  by (simp add: evict_commands_locked_def dict_get_filter_keys)

lemma set_take_sort_key: "set (take n (sort_key f xs)) \<subseteq> set xs"
  using set_take_subset [of n "sort_key f xs"] by simp

lemma victims_evictable: "cid \<in> set (victims s) \<Longrightarrow> \<exists>r. (cid, r) \<in> set (evictable s)"
  using set_take_sort_key unfolding victims_def by fastforce

lemma victimsD:
  assumes "dict_ok (a_commands s)" and "cid \<in> set (victims s)"
  shows "\<exists>r. cmd_of s cid = Some r \<and> cr_done_at r \<noteq> None" and "cid \<notin> snd ` set (a_running s)"
  using victims_evictable [OF assms(2)] assms(1) by (auto simp: evictable_def)

lemma evict_keeps_open:
  assumes "dict_ok (a_commands s)" and "cmd_of s cid = Some r" and "cr_done_at r = None"
  shows "cmd_of (evict_commands_locked s) cid = Some r"
  using victimsD(1) [OF assms(1), of cid] assms(2,3) by (auto simp: cmd_of_evict)

lemma evict_keeps_running:
  assumes "dict_ok (a_commands s)" and "dict_get (a_running s) sid = Some cid"
  shows "cmd_of (evict_commands_locked s) cid = cmd_of s cid"
proof -
  have "cid \<in> snd ` set (a_running s)" using map_of_SomeD [OF assms(2)] by force
  then show ?thesis using victimsD(2) [OF assms(1), of cid] by (auto simp: cmd_of_evict)
qed

lemma cmd_of_evict_Some: "cmd_of (evict_commands_locked s) cid = Some r \<Longrightarrow> cmd_of s cid = Some r"
  by (simp add: cmd_of_evict split: if_splits)

lemma dict_ok_filter: "dict_ok d \<Longrightarrow> dict_ok (filter P d)"
  by (induction d) auto

lemma dict_ok_evict: "dict_ok (a_commands s) \<Longrightarrow> dict_ok (a_commands (evict_commands_locked s))"
  by (simp add: evict_commands_locked_def dict_ok_filter)

subsection \<open>Flushing\<close>

text \<open>What the flush makes of one record, and which tickets it returns.\<close>

definition flush_rec :: "string \<Rightarrow> string \<Rightarrow> timestamp \<Rightarrow> cmd_rec \<Rightarrow> cmd_rec" where
  "flush_rec sid err now r =
     (if cr_session_id r = sid \<and> cr_done_at r = None \<and> cr_status r = Accepted
      then r\<lparr>cr_status := Failed, cr_error_code := Some err, cr_done_at := Some now\<rparr> else r)"

definition flush_ids :: "string \<Rightarrow> (string, cmd_rec) dict \<Rightarrow> string list" where
  "flush_ids sid cmds = map (cr_cmd_id \<circ> snd)
     (filter (\<lambda>(_, r). cr_session_id r = sid \<and> (cr_done_at r \<noteq> None \<or> cr_status r = Accepted)) cmds)"

lemma flush_loop_eq:
  "flush_loop sid err now cmds b =
     (map (\<lambda>(cid, r). (cid, flush_rec sid err now r)) cmds,
      fold finish_ticket (flush_ids sid cmds) b,
      length (filter (\<lambda>(_, r). cr_session_id r = sid \<and> cr_done_at r = None \<and> cr_status r = Accepted) cmds))"
  by (induction sid err now cmds b rule: flush_loop.induct) (auto simp: flush_rec_def flush_ids_def)

lemma flush_session_eq:
  "flush_session sid err now s =
     (length (filter (\<lambda>(_, r). cr_session_id r = sid \<and> cr_done_at r = None \<and> cr_status r = Accepted) (a_commands s)),
      set_books (fold finish_ticket (flush_ids sid (a_commands s)) (a_tickets s, a_gate s))
        (s\<lparr>a_commands := map (\<lambda>(cid, r). (cid, flush_rec sid err now r)) (a_commands s)\<rparr>))"
  by (simp add: flush_session_def flush_loop_eq)

lemma flush_frame [arb_frame]:
  "a_queues (snd (flush_session sid err now s)) = a_queues s"
  "a_running (snd (flush_session sid err now s)) = a_running s"
  "a_workers (snd (flush_session sid err now s)) = a_workers s"
  "a_puts (snd (flush_session sid err now s)) = a_puts s"
  "a_sent (snd (flush_session sid err now s)) = a_sent s"
  "a_used (snd (flush_session sid err now s)) = a_used s"
  "a_counter (snd (flush_session sid err now s)) = a_counter s"
  "dict_ok (a_commands (snd (flush_session sid err now s))) = dict_ok (a_commands s)"
  by (simp_all add: flush_session_eq set_books_def comp_def split_beta)

lemma cmd_of_flush [arb_frame]:
  "cmd_of (snd (flush_session sid err now s)) cid = map_option (flush_rec sid err now) (cmd_of s cid)"
  by (simp add: flush_session_eq set_books_def map_of_map)


end
