(* ===== verification/Arbiter_Invariants.thy ===== *)
theory Arbiter_Invariants
  imports Arbiter
begin

text \<open>
  The invariant of the arbiter's state machine and the properties it gives. Each part of the invariant is a
  predicate on the fields it talks about, with one lemma that every step of \<open>arb_step\<close> keeps it; \<open>arb_inv\<close>
  is their conjunction and \<open>arbiter_machine\<close> interprets the invariant locale on it.
  \<^item> \<open>inv_recs\<close>: a record is filed under its own id and has an end exactly when it is not accepted or running.
  \<^item> \<open>inv_handles\<close>, \<open>inv_items\<close>: a registered handle belongs to a live worker of its session; an item is only ever
    at the worker of its command's session.
  \<^item> \<open>inv_once\<close>: a command id occurs at most once among the pending puts, the queues, the workers' hands and
    the log of sends.
  \<^item> \<open>inv_live\<close>: an accepted command waits at a live worker, a running one is inside \<open>send_cb\<close>.
  \<^item> \<open>inv_running\<close>, \<open>inv_pending\<close>: what \<open>_running\<close> names, and the bound of the back-pressure.
  \<^item> \<open>inv_tickets\<close>, \<open>books_ok\<close>: the tickets of the arbiter and of the gate are the same and each has a live command.
  \<^item> \<open>inv_sorted\<close>, \<open>inv_sent\<close>: the queues are sorted; only ids handed out are sent.
\<close>

declare map_of_eq_Some_iff [simp del]

lemmas arb_ops = register_session_def unregister_session_locked_def stop_worker_def put_item_def
  worker_take_def worker_check_def set_phase_def

lemma register_cb_frame [arb_frame]:
  "a_queues (snd (register_current_cancel_callback active cid s)) = a_queues s"
  "a_running (snd (register_current_cancel_callback active cid s)) = a_running s"
  "a_commands (snd (register_current_cancel_callback active cid s)) = a_commands s"
  "a_workers (snd (register_current_cancel_callback active cid s)) = a_workers s"
  "a_puts (snd (register_current_cancel_callback active cid s)) = a_puts s"
  "a_sent (snd (register_current_cancel_callback active cid s)) = a_sent s"
  "a_used (snd (register_current_cancel_callback active cid s)) = a_used s"
  "a_counter (snd (register_current_cancel_callback active cid s)) = a_counter s"
  "a_tickets (snd (register_current_cancel_callback active cid s)) = a_tickets s"
  "a_gate (snd (register_current_cancel_callback active cid s)) = a_gate s"
  by (auto simp: register_current_cancel_callback_def split: option.split)

lemma unregister_cb_frame [arb_frame]:
  "a_queues (unregister_current_cancel_callback active cid s) = a_queues s"
  "a_running (unregister_current_cancel_callback active cid s) = a_running s"
  "a_commands (unregister_current_cancel_callback active cid s) = a_commands s"
  "a_workers (unregister_current_cancel_callback active cid s) = a_workers s"
  "a_puts (unregister_current_cancel_callback active cid s) = a_puts s"
  "a_sent (unregister_current_cancel_callback active cid s) = a_sent s"
  "a_used (unregister_current_cancel_callback active cid s) = a_used s"
  "a_counter (unregister_current_cancel_callback active cid s) = a_counter s"
  "a_tickets (unregister_current_cancel_callback active cid s) = a_tickets s"
  "a_gate (unregister_current_cancel_callback active cid s) = a_gate s"
  by (auto simp: unregister_current_cancel_callback_def)

section \<open>Records\<close>

definition rec_ok :: "string set \<Rightarrow> string \<Rightarrow> cmd_rec \<Rightarrow> bool" where
  "rec_ok used cid r \<longleftrightarrow> cr_cmd_id r = cid \<and> cid \<in> used \<and> cid \<noteq> [] \<and>
     (cr_done_at r = None \<longleftrightarrow> cr_status r \<in> {Accepted, Running})"

definition inv_recs :: "(string, cmd_rec) dict \<Rightarrow> string list \<Rightarrow> bool" where
  "inv_recs cmds used \<longleftrightarrow> dict_ok cmds \<and> [] \<notin> set used \<and>
     (\<forall>cid r. dict_get cmds cid = Some r \<longrightarrow> rec_ok (set used) cid r)"

lemma inv_recs_evict:
  "inv_recs (a_commands s) used \<Longrightarrow> inv_recs (a_commands (evict_commands_locked s)) used"
  by (auto simp: inv_recs_def dict_ok_evict dest: cmd_of_evict_Some)

lemma inv_recs_set: "inv_recs cmds used \<Longrightarrow> rec_ok (set used) cid r \<Longrightarrow> inv_recs (dict_set cid r cmds) used"
  by (auto simp: inv_recs_def)

lemma rec_ok_flush: "rec_ok u cid r \<Longrightarrow> rec_ok u cid (flush_rec sid err now r)"
  by (auto simp: rec_ok_def flush_rec_def)

lemma inv_recs_flush:
  "inv_recs (a_commands s) used \<Longrightarrow> inv_recs (a_commands (snd (flush_session sid err now s))) used"
  by (auto simp: inv_recs_def arb_frame intro: rec_ok_flush)

lemma inv_recs_new:
  "inv_recs cmds used \<Longrightarrow> cid \<noteq> [] \<Longrightarrow> inv_recs (dict_set cid (new_rec a cid now) cmds) (cid # used)"
  by (auto simp: inv_recs_def rec_ok_def new_rec_def)

lemma inv_recsD: "inv_recs cmds used \<Longrightarrow> dict_get cmds cid = Some r \<Longrightarrow> rec_ok (set used) cid r"
  by (simp add: inv_recs_def)

text \<open>A submit either leaves everything but the gate alone or adds one record, item and ticket.\<close>

definition submit_adds :: "submit_args \<Rightarrow> string \<Rightarrow> timestamp \<Rightarrow> nat \<Rightarrow> ticket option \<Rightarrow> arb \<Rightarrow> arb" where
  "submit_adds a cid now h t s = s\<lparr>
      a_counter := Suc (a_counter s),
      a_commands := dict_set cid (new_rec a cid now) (a_commands s),
      a_tickets := (case t of None \<Rightarrow> a_tickets s | Some tk \<Rightarrow> dict_set cid tk (a_tickets s)),
      a_used := cid # a_used s,
      a_puts := (h, new_item a cid (Suc (a_counter s))) # a_puts s\<rparr>"

definition submit_refuses :: "submit_args \<Rightarrow> arb \<Rightarrow> gate option \<Rightarrow> bool" where
  "submit_refuses a s g' \<longleftrightarrow> g' = a_gate s \<or>
     (\<exists>t g. submit_ticket a (a_gate s) = (Some t, g) \<and> g' = return_ticket t g)"

lemma submit_ticket_refused: "submit_ticket a g = (None, g') \<Longrightarrow> g' = g"
  by (auto simp: submit_ticket_def admit_def Let_def split: option.splits if_splits prod.splits)

lemma submit_cases:
  obtains (refused) g' where "snd (submit re a cid now s) = s\<lparr>a_gate := g'\<rparr>" "submit_refuses a s g'"
  | (accepted) t g h where "submit_ticket a (a_gate s) = (Some t, g)"
      "dict_get (a_queues s) (sa_session_id a) = Some h"
      "count_pending_locked (sa_session_id a) s < CMD_PENDING_MAX"
      "snd (submit re a cid now s) = evict_commands_locked (submit_adds a cid now h t (s\<lparr>a_gate := g\<rparr>))"
proof (cases "submit_check re a")
  case (Some e)
  show ?thesis by (rule refused [of "a_gate s"]) (simp_all add: submit_def Some submit_refuses_def)
next
  case None
  obtain t0 g where st: "submit_ticket a (a_gate s) = (t0, g)" by force
  have pend: "count_pending_locked x (s\<lparr>a_gate := g\<rparr>) = count_pending_locked x s" for x
    by (simp add: count_pending_locked_def running_canceled_def cong: option.case_cong)
  show ?thesis
  proof (cases t0)
    case None
    then show ?thesis using \<open>submit_check re a = None\<close> st submit_ticket_refused [of a "a_gate s" g]
      by (intro refused [of g]) (auto simp: submit_def submit_refuses_def)
  next
    case (Some t)
    note defs = submit_def submit_locked_def \<open>submit_check re a = None\<close> st Some Let_def pend
    show ?thesis
    proof (cases "dict_get (a_queues s) (sa_session_id a)")
      case None
      then show ?thesis using st Some
        by (intro refused [of "return_ticket t g"]) (auto simp: defs submit_refuses_def)
    next
      case (Some h)
      show ?thesis
      proof (cases "CMD_PENDING_MAX \<le> count_pending_locked (sa_session_id a) s")
        case True
        then show ?thesis using st Some \<open>t0 = Some t\<close>
          by (intro refused [of "return_ticket t g"]) (auto simp: defs submit_refuses_def)
      next
        case False
        then show ?thesis using st Some \<open>t0 = Some t\<close>
          by (intro accepted [of t g h]) (auto simp: defs submit_adds_def)
      qed
    qed
  qed
qed

lemma submit_adds_sel [arb_frame]:
  "a_commands (submit_adds a cid now h t s) = dict_set cid (new_rec a cid now) (a_commands s)"
  "a_queues (submit_adds a cid now h t s) = a_queues s" "a_running (submit_adds a cid now h t s) = a_running s"
  "a_gate (submit_adds a cid now h t s) = a_gate s" "a_workers (submit_adds a cid now h t s) = a_workers s"
  "a_sent (submit_adds a cid now h t s) = a_sent s" "a_used (submit_adds a cid now h t s) = cid # a_used s"
  "a_counter (submit_adds a cid now h t s) = Suc (a_counter s)"
  "a_puts (submit_adds a cid now h t s) = (h, new_item a cid (Suc (a_counter s))) # a_puts s"
  "a_tickets (submit_adds a cid now h t s) =
     (case t of None \<Rightarrow> a_tickets s | Some tk \<Rightarrow> dict_set cid tk (a_tickets s))"
  by (simp_all add: submit_adds_def)

lemma inv_recs_submit:
  assumes "inv_recs (a_commands s) (a_used s)" "cid \<noteq> []" and t: "t = snd (submit re a cid now s)"
  shows "inv_recs (a_commands t) (a_used t)"
proof (cases rule: submit_cases [of re a cid now s])
  case (refused g')
  then show ?thesis using assms(1) t by simp
next
  case (accepted tk g h)
  then show ?thesis using assms by (simp add: arb_frame inv_recs_evict inv_recs_new)
qed

lemma inv_recs_cancel:
  assumes "inv_recs (a_commands s) used"
  shows "inv_recs (a_commands (snd (cancel cid now s))) used"
proof (cases "cmd_of s cid")
  case None
  then show ?thesis using assms by (simp add: cancel_def)
next
  case (Some r)
  then have "rec_ok (set used) cid (r\<lparr>cr_status := Canceled, cr_done_at := Some now\<rparr>)"
    using inv_recsD [OF assms] by (auto simp: rec_ok_def)
  with assms Some show ?thesis
    by (auto simp: cancel_def Let_def arb_frame intro!: inv_recs_evict inv_recs_set)
qed

lemma finish_rec_sel:
  "cr_cmd_id (finish_rec out now r) = cr_cmd_id r" "cr_session_id (finish_rec out now r) = cr_session_id r"
  "cr_status (finish_rec out now r) \<noteq> Accepted \<or> cr_status r = Accepted \<and> False"
  by (auto simp: finish_rec_def apply_answer_def copy_keys_def Let_def split: send_outcome.splits)

lemma finish_rec_done: "cr_done_at r = None \<longleftrightarrow> cr_status r \<in> {Accepted, Running} \<Longrightarrow>
    cr_done_at (finish_rec out now r) \<noteq> None \<and> cr_status (finish_rec out now r) \<notin> {Accepted, Running}"
  by (auto simp: finish_rec_def apply_answer_def copy_keys_def Let_def split: send_outcome.splits)

lemma inv_recs_finish:
  assumes "inv_recs (a_commands s) used"
  shows "inv_recs (a_commands (worker_finish h x out now s)) used"
proof (cases "cmd_of s (q_cmd_id x)")
  case None
  then show ?thesis using assms by (auto simp: worker_finish_def Let_def arb_frame set_phase_def intro!: inv_recs_evict)
next
  case (Some r)
  have ok: "rec_ok (set used) (q_cmd_id x) r" using inv_recsD [OF assms Some] .
  then have "rec_ok (set used) (q_cmd_id x) (finish_rec out now r)"
    using finish_rec_done [of r out now] by (auto simp: rec_ok_def finish_rec_sel)
  with assms Some show ?thesis
    by (auto simp: worker_finish_def Let_def arb_frame set_phase_def intro!: inv_recs_evict inv_recs_set)
qed

lemma inv_recs_begin:
  assumes "inv_recs (a_commands s) used"
  shows "inv_recs (a_commands (worker_begin h x now s)) used"
  using assms by (auto simp: worker_begin_def Let_def arb_frame set_phase_def rec_ok_def
      intro!: inv_recs_set dest: inv_recsD split: option.split)

lemma begin_frame [arb_frame]:
  "a_queues (worker_begin h x now s) = a_queues s"
  "a_puts (worker_begin h x now s) = a_puts s" "a_used (worker_begin h x now s) = a_used s"
  "a_counter (worker_begin h x now s) = a_counter s"
  by (auto simp: worker_begin_def Let_def arb_frame set_phase_def split: option.split)

lemma finish_frame [arb_frame]:
  "a_queues (worker_finish h x out now s) = a_queues s" "a_sent (worker_finish h x out now s) = a_sent s"
  "a_puts (worker_finish h x out now s) = a_puts s" "a_used (worker_finish h x out now s) = a_used s"
  "a_counter (worker_finish h x out now s) = a_counter s"
  "a_workers (worker_finish h x out now s) = (a_workers s)[h := (a_workers s ! h)\<lparr>w_phase := Idle\<rparr>]"
  by (auto simp: worker_finish_def Let_def arb_frame set_phase_def split: option.split)

definition cancel_mark :: "string \<Rightarrow> timestamp \<Rightarrow> cmd_rec \<Rightarrow> arb \<Rightarrow> arb" where
  "cancel_mark cid now r s =
     (let s1 = s\<lparr>a_commands := dict_set cid (r\<lparr>cr_status := Canceled, cr_done_at := Some now\<rparr>) (a_commands s)\<rparr>
      in if cr_status r = Accepted then finish_admission_locked cid s1 else s1)"

lemma cancel_cases:
  obtains (refused) "snd (cancel cid now s) = s"
  | (canceled) r where "cmd_of s cid = Some r" "cr_status r \<notin> {Finished, Failed}"
      "snd (cancel cid now s) = evict_commands_locked (cancel_mark cid now r s)"
  by (cases "cmd_of s cid"; cases "cr_status (the (cmd_of s cid)) \<in> {Finished, Failed}")
    (auto simp: cancel_def cancel_mark_def Let_def)

lemma cancel_mark_sel [arb_frame]:
  "a_commands (cancel_mark cid now r s) = dict_set cid (r\<lparr>cr_status := Canceled, cr_done_at := Some now\<rparr>) (a_commands s)"
  "a_running (cancel_mark cid now r s) = a_running s" "a_workers (cancel_mark cid now r s) = a_workers s"
  by (simp_all add: cancel_mark_def Let_def arb_frame)

lemma cancel_frame [arb_frame]:
  "a_queues (snd (cancel cid now s)) = a_queues s" "a_running (snd (cancel cid now s)) = a_running s"
  "a_workers (snd (cancel cid now s)) = a_workers s" "a_puts (snd (cancel cid now s)) = a_puts s"
  "a_sent (snd (cancel cid now s)) = a_sent s" "a_used (snd (cancel cid now s)) = a_used s"
  "a_counter (snd (cancel cid now s)) = a_counter s"
  by (auto simp: cancel_def Let_def arb_frame split: option.split)

lemma inv_recs_step:
  assumes "arb_step s t" "inv_recs (a_commands s) (a_used s)"
  shows "inv_recs (a_commands t) (a_used t)"
  using assms(1)
proof cases
  case step_submit
  then show ?thesis using inv_recs_submit assms(2) by blast
qed (use assms(2) in \<open>auto simp: arb_ops arb_frame inv_recs_flush inv_recs_cancel inv_recs_finish inv_recs_begin
   split: option.splits\<close>)


section \<open>Handles, items and sessions\<close>

definition w_items :: "worker \<Rightarrow> queued list" where
  "w_items w = w_queue w @ (case w_phase w of Took x \<Rightarrow> [x] | Checked x \<Rightarrow> [x] | _ \<Rightarrow> [])"

definition w_sending :: "worker \<Rightarrow> queued list" where
  "w_sending w = (case w_phase w of Sending x \<Rightarrow> [x] | _ \<Rightarrow> [])"

definition inv_handles :: "(string, nat) dict \<Rightarrow> worker list \<Rightarrow> (nat \<times> queued) list \<Rightarrow> bool" where
  "inv_handles qs ws puts \<longleftrightarrow>
     (\<forall>sid h. dict_get qs sid = Some h \<longrightarrow>
        h < length ws \<and> w_session (ws ! h) = sid \<and> \<not> w_stop (ws ! h) \<and> w_phase (ws ! h) \<noteq> Exited) \<and>
     (\<forall>(h, x) \<in> set puts. h < length ws)"

lemma worker_sel_update:
  "h < length ws \<Longrightarrow> ws[h := w] ! k = (if k = h then w else ws ! k)"
  by simp

lemma dict_val_in: "dict_get d k = Some v \<Longrightarrow> v \<in> snd ` set d"
  by (drule map_of_SomeD) force

lemma dict_ok_vals: "dict_ok d \<Longrightarrow> v \<in> snd ` set d \<Longrightarrow> \<exists>k. dict_get d k = Some v"
  by (auto simp: map_of_eq_Some_iff)

lemma begin_phase:
  "a_workers (worker_begin h x now s) =
     (a_workers s)[h := (a_workers s ! h)\<lparr>w_phase :=
        (if (\<exists>r. cmd_of s (q_cmd_id x) = Some r \<and> cr_status r \<noteq> Canceled \<and> cr_done_at r = None)
         then Sending x else Idle)\<rparr>]"
  by (auto simp: worker_begin_def Let_def arb_frame set_phase_def split: option.split)

lemma inv_handles_update:
  assumes "inv_handles qs ws puts" "h < length ws" "w_session w = w_session (ws ! h)"
    "h \<in> snd ` set qs \<Longrightarrow> \<not> w_stop (ws ! h) \<Longrightarrow> \<not> w_stop w \<and> (w_phase (ws ! h) \<noteq> Exited \<longrightarrow> w_phase w \<noteq> Exited)"
  shows "inv_handles qs (ws[h := w]) puts"
  using assms unfolding inv_handles_def by (auto simp: nth_list_update dest: dict_val_in)

lemma inv_handles_puts: "inv_handles qs ws puts \<Longrightarrow> set puts' \<subseteq> set puts \<Longrightarrow> inv_handles qs ws puts'"
  unfolding inv_handles_def by fastforce

lemma inv_handles_register:
  "inv_handles qs ws puts \<Longrightarrow> sid \<notin> dict_keys qs \<Longrightarrow>
   inv_handles (dict_set sid (length ws) qs) (ws @ [\<lparr>w_session = sid, w_queue = [], w_stop = False, w_phase = Idle\<rparr>]) puts"
  unfolding inv_handles_def by (auto simp: nth_append intro: less_SucI split: if_splits)

lemma inv_handles_pop: "inv_handles qs ws puts \<Longrightarrow> inv_handles (dict_pop sid qs) ws puts"
  unfolding inv_handles_def by auto

lemma inv_handles_step:
  assumes "arb_step s t" "inv_handles (a_queues s) (a_workers s) (a_puts s)"
  shows "inv_handles (a_queues t) (a_workers t) (a_puts t)"
  using assms(1)
proof cases
  case (step_submit cid re a now)
  show ?thesis
  proof (cases rule: submit_cases [of re a cid now s])
    case (accepted tk g h)
    then show ?thesis using assms(2) step_submit by (auto simp: arb_frame inv_handles_def)
  qed (use assms(2) step_submit in simp)
next
  case (step_put p)
  then show ?thesis using assms(2)
    by (auto simp: put_item_def arb_frame inv_handles_def [of _ _ "a_puts s"]
        intro!: inv_handles_update intro: inv_handles_puts [OF assms(2)] dest: set_remove1_subset [THEN subsetD])
next
  case (step_exit h)
  then show ?thesis using assms(2) by (auto simp: arb_ops arb_frame intro!: inv_handles_update)
qed (use assms(2) in \<open>auto simp: arb_ops arb_frame begin_phase inv_handles_register inv_handles_pop
   intro!: inv_handles_update split: option.splits\<close>)


text \<open>No step moves a record to another session, and ids are never reused.\<close>

definition same_session :: "cmd_rec option \<Rightarrow> cmd_rec option \<Rightarrow> bool" where
  "same_session old new \<longleftrightarrow> (\<forall>r'. new = Some r' \<longrightarrow> (\<exists>r. old = Some r \<and> cr_session_id r = cr_session_id r'))"

lemma same_session_refl [simp]: "same_session x x"
  by (simp add: same_session_def)

lemma same_session_evict:
  "same_session x (cmd_of s cid) \<Longrightarrow> same_session x (cmd_of (evict_commands_locked s) cid)"
  by (auto simp: same_session_def dest: cmd_of_evict_Some)

lemma same_session_flush: "same_session x (map_option (flush_rec sid err now) x)"
  by (cases x) (auto simp: same_session_def flush_rec_def)

lemma same_session_cancel: "same_session (cmd_of s k) (cmd_of (snd (cancel cid now s)) k)"
  by (auto simp: cancel_def Let_def arb_frame intro!: same_session_evict split: option.split)
    (auto simp: same_session_def)

lemma same_session_begin: "same_session (cmd_of s k) (cmd_of (worker_begin h x now s) k)"
  by (auto simp: worker_begin_def Let_def arb_frame set_phase_def same_session_def split: option.split)

lemma same_session_finish: "same_session (cmd_of s k) (cmd_of (worker_finish h x out now s) k)"
  by (auto simp: worker_finish_def Let_def arb_frame set_phase_def intro!: same_session_evict split: option.split)
    (auto simp: same_session_def finish_rec_sel)

lemma step_same_session:
  assumes "arb_step s t" "cid \<in> set (a_used s)"
  shows "same_session (cmd_of s cid) (cmd_of t cid)"
  using assms(1)
proof cases
  case (step_submit k re a now)
  show ?thesis
  proof (cases rule: submit_cases [of re a k now s])
    case (accepted tk g h)
    then show ?thesis using assms(2) step_submit
      by (auto simp: arb_frame intro!: same_session_evict)
  qed (use step_submit in simp)
qed (auto simp: arb_ops arb_frame same_session_flush same_session_cancel same_session_begin
   same_session_finish split: option.splits)

lemma step_used:
  assumes "arb_step s t"
  shows "set (a_used s) \<subseteq> set (a_used t)"
  using assms
proof cases
  case (step_submit k re a now)
  show ?thesis
    by (cases rule: submit_cases [of re a k now s]) (use step_submit in \<open>auto simp: arb_frame\<close>)
qed (auto simp: arb_ops arb_frame split: option.splits)

definition item_fits :: "(string, cmd_rec) dict \<Rightarrow> string list \<Rightarrow> string \<Rightarrow> queued \<Rightarrow> bool" where
  "item_fits cmds used sid x \<longleftrightarrow> q_cmd_id x \<noteq> [] \<longrightarrow>
     q_cmd_id x \<in> set used \<and> (\<forall>r. dict_get cmds (q_cmd_id x) = Some r \<longrightarrow> cr_session_id r = sid)"

definition worker_fits :: "(string, cmd_rec) dict \<Rightarrow> string list \<Rightarrow> worker \<Rightarrow> bool" where
  "worker_fits cmds used w \<longleftrightarrow>
     (\<forall>x \<in> set (w_items w @ w_sending w). item_fits cmds used (w_session w) x)"

definition inv_items :: "(string, cmd_rec) dict \<Rightarrow> string list \<Rightarrow> worker list \<Rightarrow> (nat \<times> queued) list \<Rightarrow> bool" where
  "inv_items cmds used ws puts \<longleftrightarrow> (\<forall>w \<in> set ws. worker_fits cmds used w) \<and>
     (\<forall>(h, x) \<in> set puts. item_fits cmds used (w_session (ws ! h)) x)"

lemma step_item_fits:
  assumes "arb_step s t" "item_fits (a_commands s) (a_used s) sid x"
  shows "item_fits (a_commands t) (a_used t) sid x"
proof (cases "q_cmd_id x = []")
  case False
  then have u: "q_cmd_id x \<in> set (a_used s)" using assms(2) by (simp add: item_fits_def)
  show ?thesis using assms(2) step_same_session [OF assms(1) u] step_used [OF assms(1)] u
    by (auto simp: item_fits_def same_session_def)
qed (simp add: item_fits_def)

lemma step_inv_items_frame:
  assumes "arb_step s t" "inv_items (a_commands s) (a_used s) ws puts"
  shows "inv_items (a_commands t) (a_used t) ws puts"
  using assms(2) step_item_fits [OF assms(1)] by (fastforce simp: inv_items_def worker_fits_def)

lemma inv_items_update:
  assumes "inv_items cmds used ws puts" "h < length ws" "w_session w = w_session (ws ! h)"
    and items: "set (w_items w @ w_sending w) \<subseteq> set (w_items (ws ! h) @ w_sending (ws ! h))"
  shows "inv_items cmds used (ws[h := w]) puts"
proof -
  have "worker_fits cmds used (ws ! h)" using assms by (simp add: inv_items_def)
  then have "worker_fits cmds used w" using items assms(3) unfolding worker_fits_def by auto
  then show ?thesis using assms(1-3) set_update_subset_insert [of ws h w]
    by (fastforce simp: inv_items_def nth_list_update)
qed

lemmas items_simps = w_items_def w_sending_def pq_put_def pq_get_def set_insort_key

lemma inv_items_put:
  assumes "inv_items cmds used ws puts" "(h, x) \<in> set puts" "h < length ws"
    and sub: "set puts' \<subseteq> set puts"
  shows "inv_items cmds used (ws[h := (ws ! h)\<lparr>w_queue := pq_put x (w_queue (ws ! h))\<rparr>]) puts'"
proof -
  have "worker_fits cmds used ((ws ! h)\<lparr>w_queue := pq_put x (w_queue (ws ! h))\<rparr>)"
    using assms(1-3) by (fastforce simp: inv_items_def worker_fits_def items_simps)
  then show ?thesis using assms set_update_subset_insert [of ws h]
    by (fastforce simp: inv_items_def nth_list_update)
qed


lemma inv_items_new:
  assumes "inv_items cmds used ws puts" "cid \<notin> set used" "cid \<noteq> []" "w_session (ws ! h) = sa_session_id a"
    and new: "\<And>r. dict_get cmds' cid = Some r \<Longrightarrow> r = new_rec a cid now"
    and old: "\<And>k r. dict_get cmds' k = Some r \<Longrightarrow> k \<noteq> cid \<Longrightarrow> dict_get cmds k = Some r"
  shows "inv_items cmds' (cid # used) ws ((h, new_item a cid n) # puts)"
proof -
  have "item_fits cmds' (cid # used) sid x" if "item_fits cmds used sid x" for sid x
    using that old assms(2) unfolding item_fits_def by (metis list.set_intros(2))
  moreover have "item_fits cmds' (cid # used) (w_session (ws ! h)) (new_item a cid n)"
    using new assms(4) by (auto simp: item_fits_def new_item_def) (auto simp: new_rec_def)
  ultimately show ?thesis using assms(1) by (fastforce simp: inv_items_def worker_fits_def)
qed

lemma inv_items_register:
  assumes "inv_items cmds used ws puts" "\<forall>(h, x) \<in> set puts. h < length ws"
    "worker_fits cmds used w"
  shows "inv_items cmds used (ws @ [w]) puts"
  using assms by (fastforce simp: inv_items_def nth_append)

lemma inv_items_step:
  assumes "arb_step s t" "inv_items (a_commands s) (a_used s) (a_workers s) (a_puts s)"
    and h: "inv_handles (a_queues s) (a_workers s) (a_puts s)"
  shows "inv_items (a_commands t) (a_used t) (a_workers t) (a_puts t)"
proof -
  note frame = step_inv_items_frame [OF assms(1,2)]
  have puts: "\<forall>(h, x) \<in> set (a_puts s). h < length (a_workers s)" using h by (simp add: inv_handles_def)
  from assms(1) show ?thesis
  proof cases
    case (step_register sid)
    then show ?thesis using frame puts
      by (cases "sid \<in> dict_keys (a_queues s)")
        (simp_all add: register_session_def worker_fits_def items_simps inv_items_register)
  next
    case (step_submit cid re a now)
    show ?thesis
    proof (cases rule: submit_cases [of re a cid now s])
      case (accepted tk g k)
      have "w_session (a_workers s ! k) = sa_session_id a"
        using h accepted(2) by (simp add: inv_handles_def)
      then show ?thesis using assms(2) step_submit accepted
        by (auto simp: arb_frame intro!: inv_items_new [where now = now] dest!: cmd_of_evict_Some)
    qed (use frame step_submit in simp)
  next
    case (step_put p)
    then show ?thesis using frame puts
      by (cases p) (auto simp: put_item_def arb_frame intro!: inv_items_put dest: set_remove1_subset [THEN subsetD])
  next
    case (step_stop k)
    have "worker_fits (a_commands s) (a_used s) (a_workers s ! k)"
      using assms(2) step_stop by (simp add: inv_items_def)
    then have "worker_fits (a_commands s) (a_used s)
      ((a_workers s ! k)\<lparr>w_stop := True, w_queue := pq_put sentinel (w_queue (a_workers s ! k))\<rparr>)"
      by (auto simp: worker_fits_def items_simps item_fits_def sentinel_def)
    then show ?thesis using assms(2) step_stop set_update_subset_insert [of "a_workers s" k]
      by (fastforce simp: inv_items_def stop_worker_def arb_frame nth_list_update)
  next
    case (step_take k)
    show ?thesis
    proof (cases "w_queue (a_workers s ! k)")
      case (Cons x rest)
      then show ?thesis using frame step_take
        by (auto simp: worker_take_def arb_frame pq_get_def intro!: inv_items_update) (auto simp: items_simps)
    qed (use frame step_take in \<open>simp add: worker_take_def pq_get_def\<close>)
  next
    case (step_exit k)
    then show ?thesis using frame
      by (auto simp: set_phase_def arb_frame intro!: inv_items_update) (auto simp: items_simps)
  next
    case (step_check k x)
    then show ?thesis using frame
      by (auto simp: worker_check_def arb_frame intro!: inv_items_update) (auto simp: items_simps split: if_splits)
  next
    case (step_begin k x now)
    then show ?thesis using frame
      by (auto simp: arb_frame begin_phase intro!: inv_items_update) (auto simp: items_simps split: if_splits)
  next
    case (step_finish k x out now)
    then show ?thesis using frame
      by (auto simp: arb_frame intro!: inv_items_update) (auto simp: items_simps split: if_splits)
  qed (use frame in \<open>auto simp: arb_ops arb_frame\<close>)
qed


section \<open>Every command is sent at most once\<close>

definition id_count :: "string \<Rightarrow> queued list \<Rightarrow> nat" where
  "id_count cid xs = length (filter (\<lambda>x. q_cmd_id x = cid) xs)"

definition places :: "string \<Rightarrow> worker list \<Rightarrow> (nat \<times> queued) list \<Rightarrow> (string \<times> string) list \<Rightarrow> nat" where
  "places cid ws puts sent = id_count cid (map snd puts) + sum_list (map (id_count cid \<circ> w_items) ws) +
     count_list (map snd sent) cid"

definition inv_once :: "string list \<Rightarrow> worker list \<Rightarrow> (nat \<times> queued) list \<Rightarrow> (string \<times> string) list \<Rightarrow> bool" where
  "inv_once used ws puts sent \<longleftrightarrow> (\<forall>cid. cid \<noteq> [] \<longrightarrow> places cid ws puts sent \<le> of_bool (cid \<in> set used))"

lemma id_count_simps [simp]:
  "id_count cid [] = 0" "id_count cid (x # xs) = of_bool (q_cmd_id x = cid) + id_count cid xs"
  "id_count cid (xs @ ys) = id_count cid xs + id_count cid ys"
  by (simp_all add: id_count_def)

lemma id_count_insort [simp]: "id_count cid (insort_key f x xs) = of_bool (q_cmd_id x = cid) + id_count cid xs"
  by (induction xs) auto

lemma id_count_remove1: "p \<in> set ps \<Longrightarrow>
    id_count cid (map snd ps) = of_bool (q_cmd_id (snd p) = cid) + id_count cid (map snd (remove1 p ps))"
  by (induction ps) auto

lemma sum_list_map_update:
  "h < length ws \<Longrightarrow> sum_list (map f (ws[h := w])) + f (ws ! h) = sum_list (map f ws) + (f w :: nat)"
  by (induction ws arbitrary: h) (auto split: nat.split)

lemma places_update:
  "h < length ws \<Longrightarrow> places cid (ws[h := w]) puts sent + id_count cid (w_items (ws ! h)) =
     places cid ws puts sent + id_count cid (w_items w)"
  using sum_list_map_update [of h ws "id_count cid \<circ> w_items" w] by (simp add: places_def)

lemma places_update_le:
  "h < length ws \<Longrightarrow> id_count cid (w_items w) \<le> id_count cid (w_items (ws ! h)) \<Longrightarrow>
   places cid (ws[h := w]) puts sent \<le> places cid ws puts sent"
  using places_update [of h ws cid w puts sent] by linarith

lemma inv_once_le:
  assumes "inv_once used ws puts sent" "\<And>cid. cid \<noteq> [] \<Longrightarrow> places cid ws' puts' sent' \<le> places cid ws puts sent"
  shows "inv_once used ws' puts' sent'"
  using assms le_trans unfolding inv_once_def by blast

lemma places_step:
  assumes "arb_step s t" "cid \<noteq> []" "inv_handles (a_queues s) (a_workers s) (a_puts s)"
  shows "places cid (a_workers t) (a_puts t) (a_sent t) \<le> places cid (a_workers s) (a_puts s) (a_sent s) +
     of_bool (cid \<in> set (a_used t) \<and> cid \<notin> set (a_used s))"
  using assms(1)
proof cases
  case (step_register sid)
  then show ?thesis by (simp add: register_session_def places_def items_simps)
next
  case (step_submit k re a now)
  show ?thesis
  proof (cases rule: submit_cases [of re a k now s])
    case (accepted tk g h)
    then show ?thesis using step_submit by (auto simp: arb_frame places_def new_item_def)
  qed (use step_submit in simp)
next
  case (step_put p)
  then have "fst p < length (a_workers s)" using assms(3) by (auto simp: inv_handles_def)
  then show ?thesis
    using step_put id_count_remove1 [OF step_put(2), of cid]
      places_update [of "fst p" "a_workers s" cid
        "(a_workers s ! fst p)\<lparr>w_queue := pq_put (snd p) (w_queue (a_workers s ! fst p))\<rparr>"
        "remove1 p (a_puts s)" "a_sent s"]
    by (simp add: put_item_def arb_frame items_simps) (simp add: places_def)
next
  case (step_stop h)
  then show ?thesis using assms(2)
    by (auto simp: stop_worker_def arb_frame items_simps sentinel_def intro!: trans_le_add1 places_update_le)
next
  case (step_take h)
  then show ?thesis
    by (auto simp: worker_take_def arb_frame items_simps intro!: trans_le_add1 places_update_le split: option.splits list.splits)
next
  case (step_begin h x now)
  have p: "a_puts t = a_puts s" using step_begin by (simp add: arb_frame)
  obtain w where w: "a_workers t = (a_workers s)[h := w]" "w_items w = w_queue (a_workers s ! h)"
    using step_begin by (auto simp: begin_phase items_simps)
  have "places cid (a_workers t) (a_puts t) (a_sent s) + of_bool (q_cmd_id x = cid) =
      places cid (a_workers s) (a_puts s) (a_sent s)"
    using places_update [of h "a_workers s" cid w "a_puts s" "a_sent s"] step_begin p w
    by (simp add: w_items_def [of "a_workers s ! h"])
  moreover have "places cid (a_workers t) (a_puts t) (a_sent t) \<le>
      places cid (a_workers t) (a_puts t) (a_sent s) + of_bool (q_cmd_id x = cid)"
    using step_begin by (auto simp: places_def worker_begin_def Let_def arb_frame set_phase_def split: option.split)
  ultimately show ?thesis by simp
qed (auto simp: arb_ops arb_frame items_simps intro!: trans_le_add1 places_update_le split: option.splits list.splits)

lemma inv_once_step:
  assumes "arb_step s t" "inv_once (a_used s) (a_workers s) (a_puts s) (a_sent s)"
    "inv_handles (a_queues s) (a_workers s) (a_puts s)"
  shows "inv_once (a_used t) (a_workers t) (a_puts t) (a_sent t)"
  unfolding inv_once_def
proof (intro allI impI)
  fix cid :: string assume "cid \<noteq> []"
  then show "places cid (a_workers t) (a_puts t) (a_sent t) \<le> of_bool (cid \<in> set (a_used t))"
    using places_step [OF assms(1) _ assms(3), of cid] assms(2) step_used [OF assms(1)]
    unfolding inv_once_def by (fastforce simp: of_bool_def split: if_splits)
qed


section \<open>No command is lost\<close>

definition waiting :: "worker list \<Rightarrow> (nat \<times> queued) list \<Rightarrow> nat \<Rightarrow> string \<Rightarrow> bool" where
  "waiting ws puts h cid \<longleftrightarrow> (\<exists>x. q_cmd_id x = cid \<and> ((h, x) \<in> set puts \<or> h < length ws \<and> x \<in> set (w_items (ws ! h))))"

definition sending :: "worker list \<Rightarrow> string \<Rightarrow> bool" where
  "sending ws cid \<longleftrightarrow> (\<exists>h < length ws. cid \<in> q_cmd_id ` set (w_sending (ws ! h)))"

lemma waiting_update:
  assumes "waiting ws puts k cid" "h < length ws"
    "\<And>x. k = h \<Longrightarrow> x \<in> set (w_items (ws ! h)) \<Longrightarrow> q_cmd_id x = cid \<Longrightarrow> x \<in> set (w_items w)"
  shows "waiting (ws[h := w]) puts k cid"
  using assms unfolding waiting_def by (metis length_list_update nth_list_update)

lemma waiting_put:
  assumes "waiting ws puts k cid" "h < length ws"
  shows "waiting (ws[h := (ws ! h)\<lparr>w_queue := pq_put x (w_queue (ws ! h))\<rparr>]) (remove1 (h, x) puts) k cid"
proof -
  obtain y where y: "q_cmd_id y = cid" "(k, y) \<in> set puts \<or> k < length ws \<and> y \<in> set (w_items (ws ! k))"
    using assms(1) unfolding waiting_def by blast
  show ?thesis unfolding waiting_def
    by (intro exI [of _ y]) (use y assms(2) in \<open>auto simp: items_simps nth_list_update\<close>)
qed

lemma sending_update:
  assumes "sending ws cid" "h < length ws"
    "cid \<in> q_cmd_id ` set (w_sending (ws ! h)) \<Longrightarrow> cid \<in> q_cmd_id ` set (w_sending w)"
  shows "sending (ws[h := w]) cid"
  using assms unfolding sending_def by (metis length_list_update nth_list_update)

lemma sending_new: "h < length ws \<Longrightarrow> cid \<in> q_cmd_id ` set (w_sending w) \<Longrightarrow> sending (ws[h := w]) cid"
  unfolding sending_def by (metis length_list_update nth_list_update_eq)

definition inv_live :: "(string, cmd_rec) dict \<Rightarrow> (string, nat) dict \<Rightarrow> worker list \<Rightarrow> (nat \<times> queued) list \<Rightarrow> bool" where
  "inv_live cmds qs ws puts \<longleftrightarrow>
     (\<forall>cid r. dict_get cmds cid = Some r \<longrightarrow>
        (cr_status r = Accepted \<longrightarrow> (\<exists>h. dict_get qs (cr_session_id r) = Some h \<and> waiting ws puts h cid)) \<and>
        (cr_status r = Running \<longrightarrow> sending ws cid))"

text \<open>How the status of a record moves: an open record of \<open>t\<close> is an open record of \<open>s\<close>, except for the
  one a submit adds or a worker begins.\<close>

definition open_keeps :: "(string, cmd_rec) dict \<Rightarrow> (string, cmd_rec) dict \<Rightarrow> bool" where
  "open_keeps old new \<longleftrightarrow> (\<forall>cid r'. dict_get new cid = Some r' \<longrightarrow> cr_status r' \<in> {Accepted, Running} \<longrightarrow>
     (\<exists>r. dict_get old cid = Some r \<and> cr_session_id r = cr_session_id r' \<and> cr_status r = cr_status r'))"

lemma open_keeps_refl [simp]: "open_keeps d d"
  by (simp add: open_keeps_def)

lemma open_keeps_evict: "open_keeps d (a_commands s) \<Longrightarrow> open_keeps d (a_commands (evict_commands_locked s))"
  by (auto simp: open_keeps_def dest: cmd_of_evict_Some)

lemma open_keeps_flush: "open_keeps (a_commands s) (a_commands (snd (flush_session sid err now s)))"
  unfolding open_keeps_def
proof (intro allI impI)
  fix cid r' assume "cmd_of (snd (flush_session sid err now s)) cid = Some r'" and st: "cr_status r' \<in> {Accepted, Running}"
  then obtain r where r: "cmd_of s cid = Some r" "r' = flush_rec sid err now r" by (auto simp: arb_frame)
  have "\<not> (cr_session_id r = sid \<and> cr_done_at r = None \<and> cr_status r = Accepted)"
    using st unfolding r(2) flush_rec_def by auto
  then have "r' = r" unfolding r(2) flush_rec_def by (rule if_not_P)
  then show "\<exists>r. cmd_of s cid = Some r \<and> cr_session_id r = cr_session_id r' \<and> cr_status r = cr_status r'"
    using r by simp
qed

lemma open_keeps_cancel: "open_keeps (a_commands s) (a_commands (snd (cancel cid now s)))"
proof (cases rule: cancel_cases [of cid now s])
  case (canceled r)
  have "open_keeps (a_commands s) (a_commands (cancel_mark cid now r s))" by (auto simp: open_keeps_def arb_frame)
  then show ?thesis using canceled(3) open_keeps_evict by simp
qed simp

definition finish_cmds :: "queued \<Rightarrow> send_outcome \<Rightarrow> timestamp \<Rightarrow> arb \<Rightarrow> (string, cmd_rec) dict" where
  "finish_cmds x out now s = (case cmd_of s (q_cmd_id x) of None \<Rightarrow> a_commands s
     | Some r \<Rightarrow> dict_set (q_cmd_id x) (finish_rec out now r) (a_commands s))"

definition finish_running :: "string \<Rightarrow> string \<Rightarrow> (string, string) dict \<Rightarrow> (string, string) dict" where
  "finish_running sid cid run = (if dict_get run sid = Some cid then dict_pop sid run else run)"

lemma worker_finish_eq:
  "worker_finish h x out now s = set_phase h Idle (finish_admission_locked (q_cmd_id x)
     (evict_commands_locked (s\<lparr>a_commands := finish_cmds x out now s,
        a_running := finish_running (w_session (a_workers s ! h)) (q_cmd_id x) (a_running s)\<rparr>)))"
  by (cases "cmd_of s (q_cmd_id x)") (simp_all add: worker_finish_def Let_def finish_cmds_def finish_running_def)

lemma cmd_of_finish:
  assumes "dict_get (a_commands (worker_finish h x out now s)) cid = Some r'"
  shows "\<exists>r. cmd_of s cid = Some r \<and> r' = (if cid = q_cmd_id x then finish_rec out now r else r)"
proof -
  have "dict_get (finish_cmds x out now s) cid = Some r'"
    using assms by (auto simp: worker_finish_eq set_phase_def arb_frame dest!: cmd_of_evict_Some)
  then show ?thesis by (cases "cmd_of s (q_cmd_id x)") (auto simp: finish_cmds_def split: if_splits)
qed

lemma cmd_of_begin:
  "dict_get (a_commands (worker_begin h x now s)) cid =
     (case cmd_of s cid of None \<Rightarrow> None
      | Some r \<Rightarrow> Some (if cid = q_cmd_id x \<and> cr_status r \<noteq> Canceled \<and> cr_done_at r = None
          then r\<lparr>cr_status := Running, cr_started_at := Some now\<rparr> else r))"
  by (auto simp: worker_begin_def Let_def arb_frame set_phase_def split: option.split)

lemma inv_live_mono:
  assumes "inv_live cmds qs ws puts" "open_keeps cmds cmds'"
    and "\<And>cid r h. dict_get cmds' cid = Some r \<Longrightarrow> cr_status r = Accepted \<Longrightarrow>
          dict_get qs (cr_session_id r) = Some h \<Longrightarrow> waiting ws puts h cid \<Longrightarrow>
          dict_get qs' (cr_session_id r) = Some h \<and> waiting ws' puts' h cid"
    and "\<And>cid r. dict_get cmds' cid = Some r \<Longrightarrow> cr_status r = Running \<Longrightarrow> sending ws cid \<Longrightarrow> sending ws' cid"
  shows "inv_live cmds' qs' ws' puts'"
  unfolding inv_live_def
proof (intro allI impI conjI)
  fix cid r assume r: "dict_get cmds' cid = Some r"
  show "\<exists>h. dict_get qs' (cr_session_id r) = Some h \<and> waiting ws' puts' h cid" if "cr_status r = Accepted"
    using that r assms(1-3) unfolding inv_live_def open_keeps_def by (metis insertI1)
  show "sending ws' cid" if "cr_status r = Running"
    using that r assms(1,2,4) unfolding inv_live_def open_keeps_def by (metis insertI1 insertI2)
qed

lemma inv_live_update:
  assumes "inv_live cmds qs ws puts" "open_keeps cmds cmds'" "h < length ws"
    and "\<And>x sid. x \<in> set (w_items (ws ! h)) \<Longrightarrow> dict_get qs sid = Some h \<Longrightarrow> q_cmd_id x \<in> dom (dict_get cmds') \<Longrightarrow> x \<in> set (w_items w)"
    and "w_sending w = w_sending (ws ! h)"
  shows "inv_live cmds' qs (ws[h := w]) puts"
proof (rule inv_live_mono [OF assms(1,2)])
  show "dict_get qs (cr_session_id r) = Some k \<and> waiting (ws[h := w]) puts k cid"
    if "dict_get cmds' cid = Some r" "dict_get qs (cr_session_id r) = Some k" "waiting ws puts k cid" for cid r k
    using that assms(3,4) by (auto intro!: waiting_update)
  show "sending (ws[h := w]) cid" if "sending ws cid" for cid
    using that assms(3,5) by (auto intro: sending_update)
qed


lemma inv_live_register:
  assumes "inv_live cmds qs ws puts" "sid \<notin> dict_keys qs"
  shows "inv_live cmds (dict_set sid k qs) (ws @ [w]) puts"
proof (rule inv_live_mono [OF assms(1)])
  show "dict_get (dict_set sid k qs) (cr_session_id r) = Some h \<and> waiting (ws @ [w]) puts h cid"
    if "dict_get qs (cr_session_id r) = Some h" "waiting ws puts h cid" for cid r h
    using that assms(2) dict_get_None_iff [of qs sid] by (auto simp: waiting_def nth_append)
  show "sending (ws @ [w]) cid" if "sending ws cid" for cid
    using that by (auto simp: sending_def nth_append intro: less_SucI)
qed simp

lemma inv_live_unregister:
  fixes s s' :: arb
  assumes "inv_live (a_commands s) (a_queues s) (a_workers s) (a_puts s)" "inv_recs (a_commands s) used"
    and eq: "a_commands s' = a_commands s"
  shows "inv_live (a_commands (snd (flush_session sid err now s'))) (dict_pop sid (a_queues s)) (a_workers s) (a_puts s)"
proof (rule inv_live_mono [OF assms(1)])
  show "open_keeps (a_commands s) (a_commands (snd (flush_session sid err now s')))"
    using open_keeps_flush [of s'] eq by simp
  fix cid r h assume r: "cmd_of (snd (flush_session sid err now s')) cid = Some r" "cr_status r = Accepted"
    and q: "dict_get (a_queues s) (cr_session_id r) = Some h" "waiting (a_workers s) (a_puts s) h cid"
  obtain r0 where r0: "cmd_of s cid = Some r0" "r = flush_rec sid err now r0"
    using r(1) eq by (auto simp: arb_frame)
  then have "cr_done_at r0 = None" using inv_recsD [OF assms(2) r0(1)] r(2)
    by (auto simp: rec_ok_def flush_rec_def split: if_splits)
  then have "cr_session_id r \<noteq> sid" using r(2) r0(2) by (auto simp: flush_rec_def split: if_splits)
  then show "dict_get (dict_pop sid (a_queues s)) (cr_session_id r) = Some h \<and> waiting (a_workers s) (a_puts s) h cid"
    using q by simp
qed

lemma inv_live_begin:
  assumes "inv_live (a_commands s) (a_queues s) (a_workers s) (a_puts s)" "inv_recs (a_commands s) used"
    "h < length (a_workers s)" "w_phase (a_workers s ! h) = Checked x" and t: "t = worker_begin h x now s"
  shows "inv_live (a_commands t) (a_queues s) (a_workers t) (a_puts s)"
  unfolding inv_live_def
proof (intro allI impI conjI)
  fix cid r' assume r': "cmd_of t cid = Some r'"
  then obtain r where r: "cmd_of s cid = Some r" by (auto simp: t cmd_of_begin split: option.splits)
  have ok: "cr_done_at r = None \<longleftrightarrow> cr_status r \<in> {Accepted, Running}"
    using inv_recsD [OF assms(2) r] by (simp add: rec_ok_def)
  show "\<exists>k. dict_get (a_queues s) (cr_session_id r') = Some k \<and> waiting (a_workers t) (a_puts s) k cid"
    if acc: "cr_status r' = Accepted"
  proof -
    have "cid \<noteq> q_cmd_id x \<and> r' = r" using acc r r' ok by (auto simp: t cmd_of_begin split: if_splits)
    moreover then obtain k where "dict_get (a_queues s) (cr_session_id r) = Some k" "waiting (a_workers s) (a_puts s) k cid"
      using assms(1) r acc unfolding inv_live_def by blast
    ultimately show ?thesis using assms(3,4)
      by (auto simp: t begin_phase intro!: waiting_update) (auto simp: items_simps split: if_splits)
  qed
  show "sending (a_workers t) cid" if run: "cr_status r' = Running"
  proof (cases "cid = q_cmd_id x \<and> cr_status r \<noteq> Canceled \<and> cr_done_at r = None")
    case True
    then show ?thesis using r assms(3)
      by (auto simp: t begin_phase intro!: sending_new) (auto simp: items_simps)
  next
    case False
    then have "r' = r" using r r' by (auto simp: t cmd_of_begin)
    then have "sending (a_workers s) cid" using assms(1) r run unfolding inv_live_def by blast
    then show ?thesis using assms(3,4)
      by (auto simp: t begin_phase intro!: sending_update) (auto simp: w_sending_def)
  qed
qed

lemma inv_live_finish:
  assumes "inv_live (a_commands s) (a_queues s) (a_workers s) (a_puts s)" "inv_recs (a_commands s) used"
    "h < length (a_workers s)" "w_phase (a_workers s ! h) = Sending x" and t: "t = worker_finish h x out now s"
  shows "inv_live (a_commands t) (a_queues s) (a_workers t) (a_puts s)"
proof -
  have fin: "cr_status r' \<notin> {Accepted, Running}" if r': "cmd_of t (q_cmd_id x) = Some r'" for r'
  proof -
    obtain r where "cmd_of s (q_cmd_id x) = Some r" "r' = finish_rec out now r"
      using r' cmd_of_finish [of h x out now s "q_cmd_id x" r'] by (auto simp: t)
    then show ?thesis using inv_recsD [OF assms(2)] finish_rec_done by (auto simp: rec_ok_def)
  qed
  show ?thesis
  proof (rule inv_live_mono [OF assms(1)])
    show "open_keeps (a_commands s) (a_commands t)"
      using fin unfolding open_keeps_def by (metis cmd_of_finish t)
    show "dict_get (a_queues s) (cr_session_id r) = Some k \<and> waiting (a_workers t) (a_puts s) k cid"
      if "dict_get (a_queues s) (cr_session_id r) = Some k" "waiting (a_workers s) (a_puts s) k cid" for cid r k
      using that assms(3,4) by (auto simp: t arb_frame intro!: waiting_update) (auto simp: items_simps)
    show "sending (a_workers t) cid"
      if "cmd_of t cid = Some r" "cr_status r = Running" "sending (a_workers s) cid" for cid r
    proof -
      have "cid \<noteq> q_cmd_id x" using that fin by auto
      then show ?thesis using that(3) assms(3,4)
        by (auto simp: t arb_frame intro!: sending_update) (auto simp: w_sending_def)
    qed
  qed
qed


lemma inv_live_new:
  assumes "inv_live cmds qs ws puts" "dict_get qs (sa_session_id a) = Some h"
  shows "inv_live (dict_set cid (new_rec a cid now) cmds) qs ws ((h, new_item a cid n) # puts)"
proof -
  have "waiting ws ((h, new_item a cid n) # puts) h cid"
    unfolding waiting_def by (intro exI [of _ "new_item a cid n"]) (simp add: new_item_def)
  moreover have "waiting ws (p # puts) k c" if "waiting ws puts k c" for p k c
    using that unfolding waiting_def by auto
  ultimately show ?thesis using assms unfolding inv_live_def by (auto simp: new_rec_def) blast
qed

lemma inv_live_step:
  assumes "arb_step s t" "inv_live (a_commands s) (a_queues s) (a_workers s) (a_puts s)"
    and recs: "inv_recs (a_commands s) (a_used s)" and hs: "inv_handles (a_queues s) (a_workers s) (a_puts s)"
  shows "inv_live (a_commands t) (a_queues t) (a_workers t) (a_puts t)"
  using assms(1)
proof cases
  case (step_register sid)
  then show ?thesis using assms(2)
    by (cases "sid \<in> dict_keys (a_queues s)") (simp_all add: register_session_def inv_live_register)
next
  case (step_unregister sid err now)
  then show ?thesis using inv_live_unregister [OF assms(2) recs]
    by (simp add: unregister_session_locked_def arb_frame)
next
  case (step_flush sid err now)
  then show ?thesis using inv_live_mono [OF assms(2) open_keeps_flush] by (simp add: arb_frame)
next
  case (step_cancel cid now)
  then show ?thesis using inv_live_mono [OF assms(2) open_keeps_cancel] by (simp add: arb_frame)
next
  case (step_stop h)
  then show ?thesis using assms(2)
    by (auto simp: stop_worker_def arb_frame intro!: inv_live_update) (auto simp: items_simps)
next
  case (step_submit cid re a now)
  show ?thesis
  proof (cases rule: submit_cases [of re a cid now s])
    case (accepted tk g h)
    let ?u = "submit_adds a cid now h tk (s\<lparr>a_gate := g\<rparr>)"
    have "inv_live (a_commands ?u) (a_queues ?u) (a_workers ?u) (a_puts ?u)"
      using inv_live_new [OF assms(2) accepted(2)] by (simp add: arb_frame)
    then show ?thesis using accepted step_submit inv_live_mono [OF _ open_keeps_evict [OF open_keeps_refl]]
      by (simp add: arb_frame)
  qed (use assms(2) step_submit in simp)
next
  case (step_put p)
  obtain h x where p: "p = (h, x)" by force
  have h: "h < length (a_workers s)" using hs step_put p by (auto simp: inv_handles_def)
  have "sending (a_workers t) cid" if "sending (a_workers s) cid" for cid
    using that step_put p h by (auto simp: put_item_def arb_frame w_sending_def intro!: sending_update)
  then show ?thesis using step_put p h
    by (intro inv_live_mono [OF assms(2)]) (simp_all add: put_item_def arb_frame waiting_put)
next
  case (step_take h)
  show ?thesis
  proof (cases "w_queue (a_workers s ! h)")
    case (Cons x rest)
    then show ?thesis using assms(2) step_take
      by (auto simp: worker_take_def arb_frame pq_get_def intro!: inv_live_update) (auto simp: items_simps)
  qed (use assms(2) step_take in \<open>simp add: worker_take_def pq_get_def\<close>)
next
  case (step_check h x)
  have "\<not> w_stop (a_workers s ! h)" if "dict_get (a_queues s) sid = Some h" for sid
    using that hs by (simp add: inv_handles_def)
  moreover have "q_cmd_id y \<noteq> []" if "cmd_of s (q_cmd_id y) = Some r" for y r
    using inv_recsD [OF recs that] by (auto simp: rec_ok_def)
  ultimately show ?thesis using assms(2) step_check
    by (auto simp: worker_check_def arb_frame intro!: inv_live_update) (fastforce simp: items_simps)+
next
  case (step_exit h)
  then show ?thesis using assms(2)
    by (auto simp: set_phase_def arb_frame intro!: inv_live_update) (auto simp: items_simps)
next
  case (step_begin h x now)
  then show ?thesis using inv_live_begin [OF assms(2) recs] by (simp add: arb_frame)
next
  case (step_finish h x out now)
  then show ?thesis using inv_live_finish [OF assms(2) recs] by (simp add: arb_frame)
qed (use assms(2) in \<open>auto simp: arb_ops arb_frame\<close>)


section \<open>What is running\<close>

definition inv_running :: "(string, cmd_rec) dict \<Rightarrow> (string, string) dict \<Rightarrow> bool" where
  "inv_running cmds run \<longleftrightarrow> (\<forall>sid cid. dict_get run sid = Some cid \<longrightarrow>
     (\<exists>r. dict_get cmds cid = Some r \<and> cr_session_id r = sid \<and> cr_status r \<in> {Running, Canceled}))"

lemma inv_running_evict:
  assumes "inv_running (a_commands s) (a_running s)" "dict_ok (a_commands s)"
  shows "inv_running (a_commands (evict_commands_locked s)) (a_running s)"
  using assms(1) evict_keeps_running [OF assms(2)] unfolding inv_running_def by metis

lemma inv_running_set:
  assumes "inv_running cmds run" "dict_get cmds cid = Some r" "cr_session_id r' = cr_session_id r"
    "cr_status r \<in> {Running, Canceled} \<Longrightarrow> cr_status r' \<in> {Running, Canceled}"
  shows "inv_running (dict_set cid r' cmds) run"
  using assms unfolding inv_running_def by fastforce

lemma inv_running_flush:
  "inv_running (a_commands s) run \<Longrightarrow> inv_running (a_commands (snd (flush_session sid err now s))) run"
  unfolding inv_running_def by (fastforce simp: arb_frame flush_rec_def)

lemma inv_running_new:
  "inv_running cmds run \<Longrightarrow> dict_get cmds cid = None \<Longrightarrow> inv_running (dict_set cid r cmds) run"
  unfolding inv_running_def by fastforce

lemma inv_running_finish:
  assumes run: "inv_running (a_commands s) (a_running s)"
    and fits: "\<And>r. cmd_of s (q_cmd_id x) = Some r \<Longrightarrow> cr_session_id r = sid"
  shows "inv_running (finish_cmds x out now s) (finish_running sid (q_cmd_id x) (a_running s))"
  unfolding inv_running_def
proof (intro allI impI)
  fix k c assume "dict_get (finish_running sid (q_cmd_id x) (a_running s)) k = Some c"
  then have old: "dict_get (a_running s) k = Some c" and ne: "k = sid \<Longrightarrow> c \<noteq> q_cmd_id x"
    by (auto simp: finish_running_def split: if_splits)
  obtain r where r: "cmd_of s c = Some r" "cr_session_id r = k" "cr_status r \<in> {Running, Canceled}"
    using run old unfolding inv_running_def by blast
  then have "c \<noteq> q_cmd_id x" using ne fits by auto
  then show "\<exists>r. dict_get (finish_cmds x out now s) c = Some r \<and> cr_session_id r = k \<and> cr_status r \<in> {Running, Canceled}"
    using r by (auto simp: finish_cmds_def split: option.split)
qed

lemma inv_running_begin:
  assumes run: "inv_running (a_commands s) (a_running s)"
    and fits: "\<And>r. cmd_of s (q_cmd_id x) = Some r \<Longrightarrow> cr_session_id r = w_session (a_workers s ! h)"
  shows "inv_running (a_commands (worker_begin h x now s)) (a_running (worker_begin h x now s))"
proof -
  have "a_running (worker_begin h x now s) = a_running s \<or>
    (\<exists>r. cmd_of s (q_cmd_id x) = Some r \<and> cr_status r \<noteq> Canceled \<and> cr_done_at r = None \<and>
       a_running (worker_begin h x now s) = dict_set (w_session (a_workers s ! h)) (q_cmd_id x) (a_running s))"
    by (auto simp: worker_begin_def Let_def arb_frame set_phase_def split: option.split)
  moreover have "\<exists>r. cmd_of (worker_begin h x now s) cid = Some r \<and> cr_session_id r = k \<and> cr_status r \<in> {Running, Canceled}"
    if "dict_get (a_running s) k = Some cid" for k cid
    using run that unfolding inv_running_def by (fastforce simp: cmd_of_begin)
  ultimately show ?thesis using fits unfolding inv_running_def
    by (elim disjE exE conjE) (auto simp: cmd_of_begin split: if_splits)
qed

lemma worker_item_session:
  assumes "inv_items (a_commands s) (a_used s) (a_workers s) (a_puts s)" "h < length (a_workers s)"
    "x \<in> set (w_items (a_workers s ! h) @ w_sending (a_workers s ! h))"
    and recs: "inv_recs (a_commands s) (a_used s)" and r: "cmd_of s (q_cmd_id x) = Some r"
  shows "cr_session_id r = w_session (a_workers s ! h)"
proof -
  have "worker_fits (a_commands s) (a_used s) (a_workers s ! h)" using assms(1,2) by (simp add: inv_items_def)
  moreover have "q_cmd_id x \<noteq> []" using inv_recsD [OF recs r] by (auto simp: rec_ok_def)
  ultimately show ?thesis using assms(3) r by (auto simp: worker_fits_def item_fits_def)
qed

lemma inv_running_step:
  assumes "arb_step s t" "inv_running (a_commands s) (a_running s)"
    and recs: "inv_recs (a_commands s) (a_used s)"
    and items: "inv_items (a_commands s) (a_used s) (a_workers s) (a_puts s)"
  shows "inv_running (a_commands t) (a_running t)"
  using assms(1)
proof cases
  case (step_submit cid re a now)
  show ?thesis
  proof (cases rule: submit_cases [of re a cid now s])
    case (accepted tk g h)
    have "cmd_of s cid = None" using step_submit(3) inv_recsD [OF recs, of cid] by (cases "cmd_of s cid") (auto simp: rec_ok_def)
    then show ?thesis using assms(2) recs accepted(4) step_submit
        inv_running_evict [of "submit_adds a cid now h tk (s\<lparr>a_gate := g\<rparr>)"]
      by (simp add: arb_frame inv_running_new inv_recs_def)
  qed (use assms(2) step_submit in simp)
next
  case (step_cancel cid now)
  show ?thesis
  proof (cases rule: cancel_cases [of cid now s])
    case (canceled r)
    have "inv_running (a_commands (cancel_mark cid now r s)) (a_running s)"
      using inv_running_set [OF assms(2) canceled(1)] by (simp add: arb_frame)
    then show ?thesis using recs step_cancel canceled inv_running_evict [of "cancel_mark cid now r s"]
      by (simp add: arb_frame inv_recs_def)
  qed (use assms(2) step_cancel in simp)
next
  case (step_begin h x now)
  have "x \<in> set (w_items (a_workers s ! h) @ w_sending (a_workers s ! h))" using step_begin by (simp add: w_items_def)
  from worker_item_session [OF items step_begin(2) this recs] show ?thesis
    using inv_running_begin [OF assms(2)] step_begin by blast
next
  case (step_finish h x out now)
  have "x \<in> set (w_items (a_workers s ! h) @ w_sending (a_workers s ! h))" using step_finish by (simp add: w_sending_def)
  note fits = worker_item_session [OF items step_finish(2) this recs]
  let ?u = "s\<lparr>a_commands := finish_cmds x out now s,
        a_running := finish_running (w_session (a_workers s ! h)) (q_cmd_id x) (a_running s)\<rparr>"
  have "dict_ok (a_commands ?u)" using recs by (simp add: finish_cmds_def inv_recs_def split: option.split)
  then show ?thesis using inv_running_evict [of ?u] inv_running_finish [OF assms(2) fits] step_finish
    by (simp add: worker_finish_eq set_phase_def arb_frame)
qed (use assms(2) in \<open>auto simp: arb_ops arb_frame inv_running_flush split: option.splits\<close>)


section \<open>The bound on open commands\<close>

definition pending :: "string \<Rightarrow> (string, cmd_rec) dict \<Rightarrow> (string, string) dict \<Rightarrow> nat" where
  "pending sid cmds run = open_commands sid cmds +
     of_bool (\<exists>cid r. dict_get run sid = Some cid \<and> dict_get cmds cid = Some r \<and>
        cr_session_id r = sid \<and> cr_status r = Canceled)"

lemma count_pending_eq: "count_pending_locked sid s = pending sid (a_commands s) (a_running s)"
  by (auto simp: count_pending_locked_def pending_def running_canceled_def split: option.splits)

definition is_open :: "string \<Rightarrow> cmd_rec \<Rightarrow> bool" where
  "is_open sid r \<longleftrightarrow> cr_session_id r = sid \<and> cr_done_at r = None"

lemma open_commands_set:
  assumes "dict_ok cmds" "dict_get cmds cid = Some r"
  shows "open_commands sid (dict_set cid r' cmds) + of_bool (is_open sid r) = open_commands sid cmds + of_bool (is_open sid r')"
  using assms
proof (induction cmds)
  case (Cons kv cmds)
  then show ?case
    by (cases kv) (auto simp: open_commands_def is_open_def update_triv dict_get_None_iff [symmetric] split: if_splits)
qed simp

lemma open_commands_new:
  "dict_get cmds cid = None \<Longrightarrow> open_commands sid (dict_set cid r cmds) = open_commands sid cmds + of_bool (is_open sid r)"
  by (simp add: dict_get_None_iff dict_set_new open_commands_def is_open_def)

lemma open_commands_filter: "open_commands sid (filter P cmds) \<le> open_commands sid cmds"
  unfolding open_commands_def by (induction cmds) auto

lemma open_commands_evict: "open_commands sid (a_commands (evict_commands_locked s)) \<le> open_commands sid (a_commands s)"
  by (simp add: evict_commands_locked_def open_commands_filter)

lemma length_filter_map_le:
  "\<forall>x \<in> set xs. P (g x) \<longrightarrow> Q x \<Longrightarrow> length (filter P (map g xs)) \<le> length (filter Q xs)"
  by (induction xs) (simp_all add: le_SucI)

lemma open_commands_flush:
  "open_commands k (a_commands (snd (flush_session sid err now s))) \<le> open_commands k (a_commands s)"
proof -
  have "a_commands (snd (flush_session sid err now s)) = map (\<lambda>(cid, r). (cid, flush_rec sid err now r)) (a_commands s)"
    by (simp add: flush_session_eq set_books_def)
  then show ?thesis unfolding open_commands_def
    by (simp only:) (rule length_filter_map_le, auto simp: flush_rec_def split: if_splits)
qed

definition pending_le :: "(string, cmd_rec) dict \<Rightarrow> (string, string) dict \<Rightarrow> (string, cmd_rec) dict \<Rightarrow> (string, string) dict \<Rightarrow> bool" where
  "pending_le cmds' run' cmds run \<longleftrightarrow> (\<forall>sid. pending sid cmds' run' \<le> pending sid cmds run)"

lemma pending_le_trans: "pending_le a b c d \<Longrightarrow> pending_le c d e f \<Longrightarrow> pending_le a b e f"
  unfolding pending_le_def using le_trans by blast

lemma pending_leI:
  assumes "\<And>sid. open_commands sid cmds' \<le> open_commands sid cmds"
    and "\<And>sid cid r'. dict_get run' sid = Some cid \<Longrightarrow> dict_get cmds' cid = Some r' \<Longrightarrow> cr_session_id r' = sid \<Longrightarrow>
      cr_status r' = Canceled \<Longrightarrow> dict_get run sid = Some cid \<and>
        (\<exists>r. dict_get cmds cid = Some r \<and> cr_session_id r = sid \<and> cr_status r = Canceled)"
  shows "pending_le cmds' run' cmds run"
  unfolding pending_le_def pending_def
proof (intro allI add_mono)
  fix sid
  show "of_bool (\<exists>cid r. dict_get run' sid = Some cid \<and> dict_get cmds' cid = Some r \<and>
        cr_session_id r = sid \<and> cr_status r = Canceled) \<le>
      (of_bool (\<exists>cid r. dict_get run sid = Some cid \<and> dict_get cmds cid = Some r \<and>
        cr_session_id r = sid \<and> cr_status r = Canceled) :: nat)"
    using assms(2) [of sid] by (simp add: of_bool_def) blast
qed (rule assms(1))

lemma pending_le_evict: "pending_le (a_commands (evict_commands_locked s)) run (a_commands s) run"
  by (auto intro!: pending_leI open_commands_evict dest: cmd_of_evict_Some)

lemma pending_le_flush:
  "pending_le (a_commands (snd (flush_session sid err now s))) run (a_commands s) run"
  by (rule pending_leI) (auto simp: open_commands_flush arb_frame flush_rec_def split: if_splits)

lemma pending_le_finish:
  assumes "dict_ok (a_commands s)"
    and r: "\<And>r. cmd_of s (q_cmd_id x) = Some r \<Longrightarrow> cr_done_at r = None \<longleftrightarrow> cr_status r \<in> {Accepted, Running}"
  shows "pending_le (finish_cmds x out now s) (finish_running sid (q_cmd_id x) (a_running s)) (a_commands s) (a_running s)"
proof (cases "cmd_of s (q_cmd_id x)")
  case None
  then show ?thesis
    by (auto simp: finish_cmds_def finish_running_def intro!: pending_leI split: if_splits)
next
  case (Some r)
  have fin: "cr_done_at (finish_rec out now r) \<noteq> None" "cr_status (finish_rec out now r) = Canceled \<longrightarrow> finish_rec out now r = r"
    using finish_rec_done [of r out now] r [OF Some]
    by (auto simp: finish_rec_def apply_answer_def copy_keys_def Let_def split: send_outcome.splits)
  have "open_commands k (finish_cmds x out now s) \<le> open_commands k (a_commands s)" for k
    using open_commands_set [OF assms(1) Some, of k "finish_rec out now r"] fin(1) Some
    by (simp add: finish_cmds_def is_open_def)
  then show ?thesis using Some fin(2)
    by (intro pending_leI) (auto simp: finish_cmds_def finish_running_def split: if_splits)
qed

lemma pending_le_begin:
  assumes "dict_ok (a_commands s)" and t: "t = worker_begin h x now s"
    and r: "\<And>r. cmd_of s (q_cmd_id x) = Some r \<Longrightarrow> cr_done_at r = None \<longleftrightarrow> cr_status r \<in> {Accepted, Running}"
  shows "pending_le (a_commands t) (a_running t) (a_commands s) (a_running s)"
proof (cases "\<exists>r. cmd_of s (q_cmd_id x) = Some r \<and> cr_status r \<noteq> Canceled \<and> cr_done_at r = None")
  case True
  then obtain r where r: "cmd_of s (q_cmd_id x) = Some r" "cr_status r \<noteq> Canceled" "cr_done_at r = None" by blast
  let ?r = "r\<lparr>cr_status := Running, cr_started_at := Some now\<rparr>"
  have t': "a_commands t = dict_set (q_cmd_id x) ?r (a_commands s)"
    "a_running t = dict_set (w_session (a_workers s ! h)) (q_cmd_id x) (a_running s)"
    using r by (simp_all add: t worker_begin_def Let_def arb_frame set_phase_def)
  show ?thesis unfolding t' using open_commands_set [OF assms(1) r(1), of _ ?r] r
    by (intro pending_leI) (auto simp: is_open_def split: if_splits)
next
  case False
  then have "a_commands t = a_commands s" "a_running t = a_running s"
    by (auto simp: t worker_begin_def Let_def arb_frame set_phase_def split: option.split)
  then show ?thesis by (simp add: pending_le_def)
qed

lemma pending_le_cancel:
  assumes ok: "dict_ok (a_commands s)" and r: "cmd_of s cid = Some r"
    and inv: "cr_done_at r = None \<longleftrightarrow> cr_status r \<in> {Accepted, Running}"
    and run: "inv_running (a_commands s) (a_running s)"
  shows "pending_le (dict_set cid (r\<lparr>cr_status := Canceled, cr_done_at := Some now\<rparr>) (a_commands s)) (a_running s)
     (a_commands s) (a_running s)"
  unfolding pending_le_def
proof
  fix sid
  let ?new = "dict_set cid (r\<lparr>cr_status := Canceled, cr_done_at := Some now\<rparr>) (a_commands s)"
  have cnt: "open_commands sid ?new + of_bool (is_open sid r) = open_commands sid (a_commands s)"
    using open_commands_set [OF ok r, of sid] by (simp add: is_open_def)
  show "pending sid ?new (a_running s) \<le> pending sid (a_commands s) (a_running s)"
  proof (cases "is_open sid r")
    case True
    then show ?thesis using cnt by (simp add: pending_def)
  next
    case False
    then have "cr_status r = Canceled" if "dict_get (a_running s) sid = Some cid"
      using that run r inv unfolding inv_running_def is_open_def by fastforce
    then show ?thesis using cnt r False by (auto simp: pending_def)
  qed
qed

definition inv_pending :: "(string, cmd_rec) dict \<Rightarrow> (string, string) dict \<Rightarrow> bool" where
  "inv_pending cmds run \<longleftrightarrow> (\<forall>sid. pending sid cmds run \<le> CMD_PENDING_MAX)"

lemma inv_pending_le: "inv_pending cmds run \<Longrightarrow> pending_le cmds' run' cmds run \<Longrightarrow> inv_pending cmds' run'"
  unfolding inv_pending_def pending_le_def using le_trans by blast


lemma inv_recs_open: "inv_recs cmds used \<Longrightarrow> dict_get cmds cid = Some r \<Longrightarrow>
    cr_done_at r = None \<longleftrightarrow> cr_status r \<in> {Accepted, Running}"
  by (drule (1) inv_recsD) (simp add: rec_ok_def)

lemma inv_recs_fresh: "inv_recs cmds used \<Longrightarrow> cid \<notin> set used \<Longrightarrow> dict_get cmds cid = None"
  by (cases "dict_get cmds cid") (auto dest: inv_recsD simp: rec_ok_def)

lemma pending_new:
  assumes run: "inv_running cmds run" and fresh: "dict_get cmds cid = None"
  shows "pending sid (dict_set cid (new_rec a cid now) cmds) run = pending sid cmds run + of_bool (sid = sa_session_id a)"
proof -
  have "dict_get (dict_set cid x cmds) c = dict_get cmds c" if "dict_get run sid = Some c" for c x
    using that run fresh unfolding inv_running_def by fastforce
  then show ?thesis using open_commands_new [OF fresh, of sid "new_rec a cid now"]
    by (auto simp: pending_def is_open_def new_rec_def simp del: dict_get_set cong: conj_cong)
qed

lemma inv_pending_step:
  assumes "arb_step s t" and pend: "inv_pending (a_commands s) (a_running s)"
    and recs: "inv_recs (a_commands s) (a_used s)" and run: "inv_running (a_commands s) (a_running s)"
  shows "inv_pending (a_commands t) (a_running t)"
proof -
  have ok: "dict_ok (a_commands s)" using recs by (simp add: inv_recs_def)
  from assms(1) show ?thesis
  proof cases
    case (step_submit cid re a now)
    show ?thesis
    proof (cases rule: submit_cases [of re a cid now s])
      case (accepted tk g h)
      let ?u = "submit_adds a cid now h tk (s\<lparr>a_gate := g\<rparr>)"
      have fresh: "cmd_of s cid = None" using inv_recs_fresh [OF recs step_submit(3)] .
      have "inv_pending (a_commands ?u) (a_running s)"
        using pend accepted(3) pending_new [OF run fresh]
        by (simp add: inv_pending_def count_pending_eq arb_frame)
      from inv_pending_le [OF this pending_le_evict] show ?thesis
        using accepted step_submit by (simp add: arb_frame)
    qed (use pend step_submit in simp)
  next
    case (step_cancel cid now)
    show ?thesis
    proof (cases rule: cancel_cases [of cid now s])
      case (canceled r)
      note le = pending_le_cancel [OF ok canceled(1) inv_recs_open [OF recs canceled(1)] run, of now]
      have "inv_pending (a_commands (cancel_mark cid now r s)) (a_running s)"
        using inv_pending_le [OF pend le] by (simp add: arb_frame)
      from inv_pending_le [OF this pending_le_evict] show ?thesis
        using canceled step_cancel by (simp add: arb_frame)
    qed (use pend step_cancel in simp)
  next
    case (step_begin h x now)
    show ?thesis
      by (rule inv_pending_le [OF pend pending_le_begin [OF ok step_begin(1)]]) (rule inv_recs_open [OF recs])
  next
    case (step_finish h x out now)
    let ?u = "s\<lparr>a_commands := finish_cmds x out now s,
        a_running := finish_running (w_session (a_workers s ! h)) (q_cmd_id x) (a_running s)\<rparr>"
    have "inv_pending (a_commands ?u) (a_running ?u)"
      using inv_pending_le [OF pend pending_le_finish [OF ok inv_recs_open [OF recs]]] by simp
    from inv_pending_le [OF this pending_le_evict] show ?thesis
      using step_finish by (simp add: worker_finish_eq set_phase_def arb_frame)
  next
    case (step_flush sid err now)
    then show ?thesis using inv_pending_le [OF pend pending_le_flush] by (simp add: arb_frame)
  next
    case (step_unregister sid err now)
    then show ?thesis using inv_pending_le [OF pend, of _ "a_running s"]
        pending_le_flush [of sid err now "s\<lparr>a_queues := dict_pop sid (a_queues s)\<rparr>" "a_running s"]
      by (simp add: unregister_session_locked_def arb_frame)
  qed (use pend in \<open>auto simp: arb_ops arb_frame split: option.splits\<close>)
qed

section \<open>Tickets\<close>

text \<open>The arbiter's tickets and the \<open>command.submit\<close> tickets of the gate are the same tickets.\<close>

definition tickets_match :: "(string, ticket) dict \<Rightarrow> gate \<Rightarrow> bool" where
  "tickets_match ts g \<longleftrightarrow> gate_inv g \<and>
     (\<forall>cid t. dict_get ts cid = Some t \<longrightarrow> dict_get (g_tickets g) (tk_seq t) = Some t \<and> tk_kind t = ''command.submit'') \<and>
     (\<forall>n t. dict_get (g_tickets g) n = Some t \<longrightarrow> tk_kind t = ''command.submit'' \<longrightarrow> (\<exists>cid. dict_get ts cid = Some t)) \<and>
     (\<forall>c c' t. dict_get ts c = Some t \<longrightarrow> dict_get ts c' = Some t \<longrightarrow> c = c')"

definition books_ok :: "books \<Rightarrow> bool" where
  "books_ok b = (case b of (ts, None) \<Rightarrow> ts = [] | (ts, Some g) \<Rightarrow> tickets_match ts g)"

lemma gate_inv_seq: "gate_inv g \<Longrightarrow> dict_get (g_tickets g) n = Some t \<Longrightarrow> tk_seq t = n \<and> n \<le> g_next_seq g"
  by (drule map_of_SomeD) (auto simp: gate_inv_def list_all_iff)

lemma tickets_matchD:
  assumes "tickets_match ts g"
  shows "gate_inv g"
    and "dict_get ts cid = Some t \<Longrightarrow> dict_get (g_tickets g) (tk_seq t) = Some t"
    and "dict_get ts cid = Some t \<Longrightarrow> tk_kind t = ''command.submit''"
    and "dict_get (g_tickets g) n = Some t \<Longrightarrow> tk_kind t = ''command.submit'' \<Longrightarrow> \<exists>cid. dict_get ts cid = Some t"
    and "dict_get ts c = Some t \<Longrightarrow> dict_get ts c' = Some t \<Longrightarrow> c = c'"
  using assms unfolding tickets_match_def by blast+

lemma tickets_match_seq_inj:
  assumes "tickets_match ts g" "dict_get ts c = Some t" "dict_get ts c' = Some t'" "tk_seq t = tk_seq t'"
  shows "c = c'"
proof -
  have "Some t = Some t'"
    using tickets_matchD(2) [OF assms(1,2)] tickets_matchD(2) [OF assms(1,3)] unfolding assms(4) by (rule trans [OF sym])
  then have "t = t'" by (rule option.inject [THEN iffD1])
  then show ?thesis using assms(2,3) by (auto intro: tickets_matchD(5) [OF assms(1)])
qed

lemma tickets_match_done:
  assumes m: "tickets_match ts g" and t: "dict_get ts cid = Some t"
  shows "tickets_match (dict_pop cid ts) (gate_done t g)"
  unfolding tickets_match_def
proof (intro conjI allI impI)
  show "gate_inv (gate_done t g)" by (rule gate_inv_done [OF tickets_matchD(1) [OF m]])
  show "\<exists>c. dict_get (dict_pop cid ts) c = Some u"
    if n: "dict_get (g_tickets (gate_done t g)) n = Some u" "tk_kind u = ''command.submit''" for n u
  proof -
    have u: "n \<noteq> tk_seq t" "dict_get (g_tickets g) n = Some u" using n(1) by (auto simp: gate_done_def split: if_splits)
    obtain c where c: "dict_get ts c = Some u" using tickets_matchD(4) [OF m u(2) n(2)] by blast
    moreover have "c \<noteq> cid" using c t u gate_inv_seq [OF tickets_matchD(1) [OF m] u(2)] by auto
    ultimately show ?thesis by (intro exI [of _ c]) simp
  qed
  fix c u assume u: "dict_get (dict_pop cid ts) c = Some u"
  then have c: "c \<noteq> cid" "dict_get ts c = Some u" by (auto split: if_splits)
  then have "tk_seq u \<noteq> tk_seq t" using tickets_match_seq_inj [OF m c(2) t] by blast
  then show "dict_get (g_tickets (gate_done t g)) (tk_seq u) = Some u" using tickets_matchD(2) [OF m c(2)]
    by (simp add: gate_done_def)
  show "tk_kind u = ''command.submit''" by (rule tickets_matchD(3) [OF m c(2)])
  show "c = c'" if "dict_get (dict_pop cid ts) c' = Some u" for c'
    using that by (intro tickets_matchD(5) [OF m c(2)]) (simp split: if_splits)
qed

lemma tickets_match_tickets:
  "tickets_match ts g \<Longrightarrow> gate_inv g' \<Longrightarrow> g_tickets g' = g_tickets g \<Longrightarrow> tickets_match ts g'"
  unfolding tickets_match_def by simp

lemma admit_Some:
  assumes "admit k c g = (Some t, g')"
  shows "g' = g\<lparr>g_next_seq := tk_seq t, g_tickets := dict_set (tk_seq t) t (g_tickets g)\<rparr>"
    "tk_seq t = Suc (g_next_seq g)" "tk_kind t = k" "gate_inv g \<Longrightarrow> gate_inv g'"
  using assms gate_inv_admit [of g k c] by (auto simp: admit_def Let_def split: if_splits)

lemma tickets_match_admit:
  assumes m: "tickets_match ts g" and ad: "admit ''command.submit'' c g = (Some t, g')" and fresh: "dict_get ts cid = None"
  shows "tickets_match (dict_set cid t ts) g'"
  unfolding tickets_match_def
proof (intro conjI allI impI)
  note t = admit_Some [OF ad]
  have new: "tk_seq u \<noteq> tk_seq t" if "dict_get ts k = Some u" for k u
    using gate_inv_seq [OF tickets_matchD(1) [OF m] tickets_matchD(2) [OF m that]] t(2) by simp
  show "gate_inv g'" using t(4) tickets_matchD(1) [OF m] by simp
  show "dict_get (g_tickets g') (tk_seq u) = Some u" if "dict_get (dict_set cid t ts) k = Some u" for k u
    using that new tickets_matchD(2) [OF m] t(1) by (auto split: if_splits)
  show "tk_kind u = ''command.submit''" if "dict_get (dict_set cid t ts) k = Some u" for k u
    using that tickets_matchD(3) [OF m] t(3) by (auto split: if_splits)
  show "\<exists>k. dict_get (dict_set cid t ts) k = Some u"
    if n: "dict_get (g_tickets g') n = Some u" "tk_kind u = ''command.submit''" for n u
  proof (cases "n = tk_seq t")
    case True
    then show ?thesis using n t(1) by (intro exI [of _ cid]) simp
  next
    case False
    then obtain k where "dict_get ts k = Some u" using n t(1) tickets_matchD(4) [OF m, of n u] by auto
    then show ?thesis using fresh by (intro exI [of _ k]) auto
  qed
  show "k = k'" if "dict_get (dict_set cid t ts) k = Some u" "dict_get (dict_set cid t ts) k' = Some u" for k k' u
    using that new tickets_matchD(5) [OF m] by (auto split: if_splits)
qed

lemma tickets_match_return:
  assumes m: "tickets_match ts g" and ad: "admit ''command.submit'' c g = (Some t, g')" and fresh: "dict_get ts cid = None"
  shows "tickets_match ts (gate_done t g')"
proof -
  have "dict_pop cid (dict_set cid t ts) = ts" using fresh by (simp add: dict_get_None_iff dict_pop_set_new)
  then show ?thesis using tickets_match_done [OF tickets_match_admit [OF m ad fresh], of cid t] by simp
qed


lemma books_ok_finish:
  assumes "books_ok b"
  shows "books_ok (finish_ticket cid b)"
proof (cases b)
  case (Pair ts g)
  then show ?thesis using assms
    by (cases "dict_get ts cid"; cases g) (simp_all add: books_ok_def tickets_match_done)
qed

lemma books_ok_fold_finish: "books_ok b \<Longrightarrow> books_ok (fold finish_ticket cids b)"
  by (induction cids arbitrary: b) (simp_all add: books_ok_finish)

lemma submit_ticket_cases:
  assumes "submit_ticket a g = (Some t, g')"
  obtains "t = None" "g' = g"
  | gt tk gt' where "g = Some gt" "t = Some tk" "g' = Some gt'" "admit ''command.submit'' (Some (admission_com a)) gt = (Some tk, gt')"
  using assms by (auto simp: submit_ticket_def split: option.splits if_splits prod.splits)

lemma books_ok_submit:
  assumes "books_ok (ts, g)" "submit_ticket a g = (Some t, g')" "dict_get ts cid = None"
  shows "books_ok (case t of None \<Rightarrow> ts | Some tk \<Rightarrow> dict_set cid tk ts, g')"
  using assms(2) by (cases rule: submit_ticket_cases) (use assms in \<open>auto simp: books_ok_def tickets_match_admit\<close>)

lemma books_ok_return:
  assumes "books_ok (ts, g)" "submit_ticket a g = (Some t, g')" "dict_get ts cid = None"
  shows "books_ok (ts, return_ticket t g')"
  using assms(2) by (cases rule: submit_ticket_cases)
    (use assms in \<open>auto simp: books_ok_def return_ticket_def intro: tickets_match_return\<close>)

lemma tickets_match_foreign:
  assumes m: "tickets_match ts g" and f: "foreign_op g op"
  shows "tickets_match ts (gate_exec op g)"
proof (cases op)
  case (Admit k c)
  show ?thesis
  proof (cases "admit k c g")
    case (Pair t g')
    show ?thesis
    proof (cases t)
      case None
      then show ?thesis using m Pair Admit by (auto simp: admit_def Let_def split: if_splits)
    next
      case (Some tk)
      note t = admit_Some [OF Pair [unfolded Some]]
      have "tk_seq u \<noteq> tk_seq tk" if "dict_get ts k = Some u" for k u
        using gate_inv_seq [OF tickets_matchD(1) [OF m] tickets_matchD(2) [OF m that]] t(2) by simp
      then show ?thesis using m f Admit Pair t unfolding tickets_match_def by (auto split: if_splits)
    qed
  qed
next
  case (Done t)
  have "tk_seq u \<noteq> tk_seq t" if "dict_get ts k = Some u" for k u
    using tickets_matchD(2,3) [OF m that] f Done by auto
  then show ?thesis using m Done gate_inv_done [OF tickets_matchD(1) [OF m]]
    unfolding tickets_match_def by (auto simp: gate_done_def split: if_splits)
qed (use gate_inv_exec [OF tickets_matchD(1) [OF m], of op] in
   \<open>auto intro!: tickets_match_tickets [OF m] simp: set_flag_def freeze_def thaw_def freeze_if_idle_def Let_def\<close>)


lemma finish_ticket_get: "dict_get (fst (finish_ticket c b)) k = (if k = c then None else dict_get (fst b) k)"
  by (cases b) (auto split: option.split)

lemma fold_finish_ticket_get:
  "dict_get (fst (fold finish_ticket cs b)) k = (if k \<in> set cs then None else dict_get (fst b) k)"
  by (induction cs arbitrary: b) (simp_all add: finish_ticket_get)

lemma finish_admission_tickets [arb_frame]:
  "dict_get (a_tickets (finish_admission_locked cid s)) k = (if k = cid then None else dict_get (a_tickets s) k)"
  by (simp add: finish_admission_locked_def set_books_def finish_ticket_get del: finish_ticket.simps)

lemma flush_tickets [arb_frame]:
  "dict_get (a_tickets (snd (flush_session sid err now s))) k =
     (if k \<in> set (flush_ids sid (a_commands s)) then None else dict_get (a_tickets s) k)"
  by (simp add: flush_session_eq set_books_def fold_finish_ticket_get)

lemma books_finish_admission:
  "(a_tickets (finish_admission_locked cid s), a_gate (finish_admission_locked cid s)) =
     finish_ticket cid (a_tickets s, a_gate s)"
  by (simp add: finish_admission_locked_def set_books_def)

lemma books_flush:
  "(a_tickets (snd (flush_session sid err now s)), a_gate (snd (flush_session sid err now s))) =
     fold finish_ticket (flush_ids sid (a_commands s)) (a_tickets s, a_gate s)"
  by (simp add: flush_session_eq set_books_def)

definition inv_tickets :: "(string, cmd_rec) dict \<Rightarrow> worker list \<Rightarrow> (string, ticket) dict \<Rightarrow> bool" where
  "inv_tickets cmds ws ts \<longleftrightarrow> (\<forall>cid t. dict_get ts cid = Some t \<longrightarrow>
     (\<exists>r. dict_get cmds cid = Some r \<and> cr_status r = Accepted) \<or> sending ws cid)"

lemma inv_tickets_mono:
  assumes "inv_tickets cmds ws ts"
    and "\<And>cid t. dict_get ts' cid = Some t \<Longrightarrow> dict_get ts cid = Some t"
    and "\<And>cid t r. dict_get ts' cid = Some t \<Longrightarrow> dict_get cmds cid = Some r \<Longrightarrow> cr_status r = Accepted \<Longrightarrow>
      (\<exists>r'. dict_get cmds' cid = Some r' \<and> cr_status r' = Accepted) \<or> sending ws' cid"
    and "\<And>cid t. dict_get ts' cid = Some t \<Longrightarrow> sending ws cid \<Longrightarrow> sending ws' cid"
  shows "inv_tickets cmds' ws' ts'"
  using assms unfolding inv_tickets_def by blast

lemma evict_keeps_accepted:
  assumes "inv_recs (a_commands s) used" "cmd_of s cid = Some r" "cr_status r = Accepted"
  shows "\<exists>r. cmd_of (evict_commands_locked s) cid = Some r \<and> cr_status r = Accepted"
  using evict_keeps_open [OF _ assms(2)] assms inv_recs_open [OF assms(1,2)] by (auto simp: inv_recs_def)

lemma inv_tickets_evict:
  assumes "inv_tickets (a_commands s) ws ts" "inv_recs (a_commands s) used"
  shows "inv_tickets (a_commands (evict_commands_locked s)) ws ts"
  using inv_tickets_mono [OF assms(1)] evict_keeps_accepted [OF assms(2)] by blast

lemma inv_tickets_flush:
  assumes "inv_tickets (a_commands s) ws (a_tickets s)" and recs: "inv_recs (a_commands s) used"
    and t: "t = snd (flush_session sid err now s)"
  shows "inv_tickets (a_commands t) ws (a_tickets t)"
proof (rule inv_tickets_mono [OF assms(1)])
  fix cid tk r assume tk: "dict_get (a_tickets t) cid = Some tk" and r: "cmd_of s cid = Some r" "cr_status r = Accepted"
  have "cr_cmd_id r = cid" using inv_recsD [OF recs r(1)] by (simp add: rec_ok_def)
  moreover have "cid \<notin> set (flush_ids sid (a_commands s))" using tk by (simp add: t arb_frame split: if_splits)
  ultimately have "cr_session_id r \<noteq> sid" using r map_of_SomeD [OF r(1)] by (force simp: flush_ids_def)
  then show "(\<exists>r'. cmd_of t cid = Some r' \<and> cr_status r' = Accepted) \<or> sending ws cid"
    using r by (simp add: t arb_frame flush_rec_def)
qed (auto simp: t arb_frame split: if_splits)

lemma inv_tickets_begin:
  assumes "inv_tickets (a_commands s) (a_workers s) (a_tickets s)" "h < length (a_workers s)"
    "w_phase (a_workers s ! h) = Checked x" and t: "t = worker_begin h x now s" and recs: "inv_recs (a_commands s) used"
  shows "inv_tickets (a_commands t) (a_workers t) (a_tickets t)"
proof (rule inv_tickets_mono [OF assms(1)])
  have ts: "dict_get (a_tickets t) cid = Some tk \<Longrightarrow> dict_get (a_tickets s) cid = Some tk" for cid tk
    by (auto simp: t worker_begin_def Let_def arb_frame set_phase_def split: option.splits if_splits)
  then show "dict_get (a_tickets t) cid = Some tk \<Longrightarrow> dict_get (a_tickets s) cid = Some tk" for cid tk .
  show "sending (a_workers t) cid" if "sending (a_workers s) cid" for cid
    using that assms(2,3) by (auto simp: t begin_phase w_sending_def intro!: sending_update)
  show "(\<exists>r'. cmd_of t cid = Some r' \<and> cr_status r' = Accepted) \<or> sending (a_workers t) cid"
    if r: "cmd_of s cid = Some r" "cr_status r = Accepted" for cid r
  proof (cases "cid = q_cmd_id x")
    case True
    have "cr_done_at r = None" using inv_recs_open [OF recs r(1)] r(2) by simp
    then show ?thesis using True r assms(2) by (auto simp: t begin_phase w_sending_def intro!: sending_new)
  qed (use r in \<open>simp add: t cmd_of_begin\<close>)
qed


lemma inv_tickets_finish:
  assumes "inv_tickets (a_commands s) (a_workers s) (a_tickets s)" "h < length (a_workers s)"
    "w_phase (a_workers s ! h) = Sending x" and t: "t = worker_finish h x out now s" and recs: "inv_recs (a_commands s) used"
  shows "inv_tickets (a_commands t) (a_workers t) (a_tickets t)"
proof (rule inv_tickets_mono [OF assms(1)])
  have ts: "dict_get (a_tickets t) cid = Some tk \<Longrightarrow> cid \<noteq> q_cmd_id x \<and> dict_get (a_tickets s) cid = Some tk" for cid tk
    by (auto simp: t worker_finish_eq arb_frame set_phase_def split: if_splits)
  then show "dict_get (a_tickets t) cid = Some tk \<Longrightarrow> dict_get (a_tickets s) cid = Some tk" for cid tk by blast
  show "sending (a_workers t) cid" if "dict_get (a_tickets t) cid = Some tk" "sending (a_workers s) cid" for cid tk
    using that(2) assms(2,3) ts [OF that(1)] by (auto simp: t arb_frame w_sending_def intro!: sending_update)
  let ?u = "s\<lparr>a_commands := finish_cmds x out now s,
        a_running := finish_running (w_session (a_workers s ! h)) (q_cmd_id x) (a_running s)\<rparr>"
  show "(\<exists>r'. cmd_of t cid = Some r' \<and> cr_status r' = Accepted) \<or> sending (a_workers t) cid"
    if tk: "dict_get (a_tickets t) cid = Some tk" and r: "cmd_of s cid = Some r" "cr_status r = Accepted" for cid tk r
  proof -
    have "cmd_of ?u cid = Some r" using ts [OF tk] r by (simp add: finish_cmds_def split: option.split)
    moreover have "dict_ok (a_commands ?u)" using recs by (simp add: finish_cmds_def inv_recs_def split: option.split)
    moreover have "cr_done_at r = None" using inv_recs_open [OF recs r(1)] r(2) by simp
    ultimately have "cmd_of t cid = Some r" using evict_keeps_open [of ?u cid r]
      by (simp add: t worker_finish_eq arb_frame set_phase_def)
    then show ?thesis using r(2) by blast
  qed
qed

lemma inv_tickets_cancel:
  assumes "inv_tickets (a_commands s) (a_workers s) (a_tickets s)" and recs: "inv_recs (a_commands s) used"
    and t: "t = snd (cancel cid now s)"
  shows "inv_tickets (a_commands t) (a_workers t) (a_tickets t)"
proof (cases rule: cancel_cases [of cid now s])
  case (canceled r)
  let ?u = "cancel_mark cid now r s"
  have "inv_recs (a_commands ?u) used"
    using inv_recsD [OF recs canceled(1)] by (simp add: arb_frame) (rule inv_recs_set [OF recs], simp add: rec_ok_def)
  moreover have "inv_tickets (a_commands ?u) (a_workers s) (a_tickets ?u)"
    by (rule inv_tickets_mono [OF assms(1)])
      (auto simp: cancel_mark_def Let_def arb_frame canceled(1) split: if_splits)
  ultimately have "inv_tickets (a_commands (evict_commands_locked ?u)) (a_workers s) (a_tickets ?u)"
    by (rule inv_tickets_evict [rotated])
  then show ?thesis by (simp add: t canceled(3) arb_frame)
qed (use assms in simp)

lemma inv_tickets_submit:
  assumes "inv_tickets (a_commands s) (a_workers s) (a_tickets s)" and recs: "inv_recs (a_commands s) (a_used s)"
    and t: "t = snd (submit re a cid now s)" and fresh: "cid \<noteq> []" "cid \<notin> set (a_used s)"
  shows "inv_tickets (a_commands t) (a_workers t) (a_tickets t)"
proof (cases rule: submit_cases [of re a cid now s])
  case (accepted tk g h)
  let ?u = "submit_adds a cid now h tk (s\<lparr>a_gate := g\<rparr>)"
  have "inv_tickets (a_commands ?u) (a_workers ?u) (a_tickets ?u)"
    using assms(1) by (auto simp: inv_tickets_def arb_frame new_rec_def split: option.splits if_splits)
  moreover have "inv_recs (a_commands ?u) (a_used ?u)" using inv_recs_new [OF recs fresh(1)] by (simp add: arb_frame)
  ultimately show ?thesis using inv_tickets_evict [of ?u] by (simp add: t accepted(4) arb_frame)
qed (use assms in simp)

lemma inv_tickets_upd:
  assumes "inv_tickets cmds ws ts" "h < length ws" "w_sending w = w_sending (ws ! h)"
  shows "inv_tickets cmds (ws[h := w]) ts"
  by (rule inv_tickets_mono [OF assms(1)]) (use assms in \<open>auto intro: sending_update\<close>)

lemma inv_tickets_step:
  assumes "arb_step s t" "inv_tickets (a_commands s) (a_workers s) (a_tickets s)"
    and recs: "inv_recs (a_commands s) (a_used s)" and hs: "inv_handles (a_queues s) (a_workers s) (a_puts s)"
  shows "inv_tickets (a_commands t) (a_workers t) (a_tickets t)"
  using assms(1)
proof cases
  case (step_register sid)
  have "sending (a_workers s @ [w]) cid" if "sending (a_workers s) cid" for w cid
    using that by (auto simp: sending_def nth_append intro: less_SucI)
  then show ?thesis using step_register assms(2) by (auto simp: register_session_def inv_tickets_def)
next
  case (step_unregister sid err now)
  then show ?thesis using assms(2) recs
      inv_tickets_flush [of "s\<lparr>a_queues := dict_pop sid (a_queues s)\<rparr>" "a_workers s" "a_used s" t sid err now]
    by (simp add: unregister_session_locked_def arb_frame)
next
  case (step_put p)
  then have "fst p < length (a_workers s)" using hs by (auto simp: inv_handles_def)
  then show ?thesis using step_put assms(2) by (auto simp: put_item_def arb_frame w_sending_def intro!: inv_tickets_upd)
next
  case (step_submit cid re a now)
  then show ?thesis using inv_tickets_submit [OF assms(2) recs] by blast
next
  case (step_cancel cid now)
  then show ?thesis using inv_tickets_cancel [OF assms(2) recs] by blast
next
  case (step_flush sid err now)
  then show ?thesis using inv_tickets_flush [OF assms(2) recs, of t] by (simp add: arb_frame)
next
  case (step_begin h x now)
  then show ?thesis using inv_tickets_begin [OF assms(2) _ _ _ recs] by blast
next
  case (step_finish h x out now)
  then show ?thesis using inv_tickets_finish [OF assms(2) _ _ _ recs] by blast
qed (use assms(2) in \<open>auto simp: arb_ops arb_frame w_sending_def intro!: inv_tickets_upd split: option.splits\<close>)


lemma ticket_used:
  assumes tk: "inv_tickets (a_commands s) (a_workers s) (a_tickets s)" and recs: "inv_recs (a_commands s) (a_used s)"
    and items: "inv_items (a_commands s) (a_used s) (a_workers s) (a_puts s)"
    and cid: "cid \<noteq> []" "cid \<notin> set (a_used s)"
  shows "dict_get (a_tickets s) cid = None"
proof (rule ccontr)
  assume "dict_get (a_tickets s) cid \<noteq> None"
  then have "sending (a_workers s) cid"
    using tk inv_recs_fresh [OF recs cid(2)] unfolding inv_tickets_def by fastforce
  then obtain h x where "h < length (a_workers s)" "x \<in> set (w_sending (a_workers s ! h))" "q_cmd_id x = cid"
    unfolding sending_def by blast
  then have "cid \<in> set (a_used s)" using items cid(1) unfolding inv_items_def worker_fits_def item_fits_def by fastforce
  then show False using cid(2) by simp
qed

lemma books_ok_step:
  assumes "arb_step s t" and books: "books_ok (a_tickets s, a_gate s)"
    and tk: "inv_tickets (a_commands s) (a_workers s) (a_tickets s)" and recs: "inv_recs (a_commands s) (a_used s)"
    and items: "inv_items (a_commands s) (a_used s) (a_workers s) (a_puts s)"
  shows "books_ok (a_tickets t, a_gate t)"
  using assms(1)
proof cases
  case (step_submit cid re a now)
  note fresh = ticket_used [OF tk recs items step_submit(2,3)]
  show ?thesis
  proof (cases rule: submit_cases [of re a cid now s])
    case (refused g')
    then show ?thesis using step_submit books books_ok_return [OF books _ fresh]
      by (auto simp: submit_refuses_def)
  next
    case (accepted tk g h)
    then show ?thesis using step_submit books_ok_submit [OF books accepted(1) fresh]
      by (simp add: arb_frame cong: option.case_cong)
  qed
next
  case (step_cancel cid now)
  show ?thesis
  proof (cases rule: cancel_cases [of cid now s])
    case (canceled r)
    then show ?thesis using step_cancel books
      by (simp add: arb_frame cancel_mark_def Let_def books_finish_admission books_ok_finish del: finish_ticket.simps)
  qed (use step_cancel books in simp)
next
  case (step_finish h x out now)
  then show ?thesis using books
    by (simp add: worker_finish_eq set_phase_def arb_frame books_finish_admission books_ok_finish del: finish_ticket.simps)
next
  case (step_begin h x now)
  then have "(a_tickets t, a_gate t) \<in> {(a_tickets s, a_gate s), finish_ticket (q_cmd_id x) (a_tickets s, a_gate s)}"
    by (auto simp: worker_begin_def Let_def set_phase_def arb_frame books_finish_admission simp del: finish_ticket.simps split: option.split)
  then show ?thesis using books books_ok_finish by auto
next
  case (step_foreign g op)
  then show ?thesis using books tickets_match_foreign by (simp add: books_ok_def)
qed (use books in \<open>auto simp: arb_ops arb_frame books_flush books_ok_fold_finish simp del: finish_ticket.simps split: option.splits\<close>)

section \<open>The queues stay sorted\<close>

definition inv_sorted :: "worker list \<Rightarrow> bool" where
  "inv_sorted ws \<longleftrightarrow> (\<forall>w \<in> set ws. sorted (map q_sort_key (w_queue w)))"

lemma inv_sorted_update:
  assumes "inv_sorted ws" "h < length ws" "sorted (map q_sort_key (w_queue w))"
  shows "inv_sorted (ws[h := w])"
  using assms set_update_subset_insert [of ws h w] unfolding inv_sorted_def by blast

lemma inv_sorted_nth: "inv_sorted ws \<Longrightarrow> h < length ws \<Longrightarrow> sorted (map q_sort_key (w_queue (ws ! h)))"
  by (simp add: inv_sorted_def)

lemma inv_sorted_step:
  assumes "arb_step s t" and srt: "inv_sorted (a_workers s)" and hs: "inv_handles (a_queues s) (a_workers s) (a_puts s)"
  shows "inv_sorted (a_workers t)"
  using assms(1)
proof cases
  case (step_register sid)
  then show ?thesis using srt by (simp add: register_session_def inv_sorted_def)
next
  case (step_submit cid re a now)
  then show ?thesis using srt by (cases rule: submit_cases [of re a cid now s]) (simp_all add: arb_frame)
next
  case (step_put p)
  then have "fst p < length (a_workers s)" using hs by (auto simp: inv_handles_def)
  then show ?thesis using step_put inv_sorted_nth [OF srt]
    by (auto simp: put_item_def arb_frame pq_put_def sorted_insort_key intro!: inv_sorted_update [OF srt])
next
  case (step_stop h)
  then show ?thesis using inv_sorted_nth [OF srt]
    by (auto simp: stop_worker_def arb_frame pq_put_def sorted_insort_key intro!: inv_sorted_update [OF srt])
next
  case (step_take h)
  show ?thesis
  proof (cases "w_queue (a_workers s ! h)")
    case (Cons x rest)
    then show ?thesis using step_take inv_sorted_nth [OF srt, of h]
      by (auto simp: worker_take_def arb_frame pq_get_def intro!: inv_sorted_update [OF srt])
  qed (use srt step_take in \<open>simp add: worker_take_def pq_get_def\<close>)
qed (use srt inv_sorted_nth [OF srt] in \<open>auto simp: arb_ops arb_frame begin_phase intro!: inv_sorted_update\<close>)

section \<open>What was sent\<close>

definition inv_sent :: "string list \<Rightarrow> (string \<times> string) list \<Rightarrow> bool" where
  "inv_sent used sent \<longleftrightarrow> snd ` set sent \<subseteq> set used"

lemma begin_sent:
  "a_sent (worker_begin h x now s) = a_sent s @
     (if \<exists>r. cmd_of s (q_cmd_id x) = Some r \<and> cr_status r \<noteq> Canceled \<and> cr_done_at r = None
      then [(w_session (a_workers s ! h), q_cmd_id x)] else [])"
  by (auto simp: worker_begin_def Let_def arb_frame set_phase_def split: option.split)

lemma step_sent:
  assumes "arb_step s t" "cid \<in> snd ` set (a_sent t)"
  shows "cid \<in> snd ` set (a_sent s) \<or> (\<exists>r. cmd_of s cid = Some r \<and> cr_done_at r = None)"
  using assms(1)
proof cases
  case (step_submit k re a now)
  then show ?thesis using assms(2) by (cases rule: submit_cases [of re a k now s]) (simp_all add: arb_frame)
qed (use assms(2) in \<open>auto simp: arb_ops arb_frame begin_sent split: option.splits if_splits\<close>)

lemma inv_sent_step:
  assumes "arb_step s t" "inv_sent (a_used s) (a_sent s)" "inv_recs (a_commands s) (a_used s)"
  shows "inv_sent (a_used t) (a_sent t)"
proof -
  have "cid \<in> set (a_used s)" if "cid \<in> snd ` set (a_sent t)" for cid
    using step_sent [OF assms(1) that] assms(2) inv_recsD [OF assms(3)] unfolding inv_sent_def rec_ok_def by blast
  then show ?thesis using step_used [OF assms(1)] unfolding inv_sent_def by blast
qed

section \<open>The invariant\<close>

definition arb_inv :: "arb \<Rightarrow> bool" where
  "arb_inv s \<longleftrightarrow>
     inv_recs (a_commands s) (a_used s) \<and>
     inv_handles (a_queues s) (a_workers s) (a_puts s) \<and>
     inv_items (a_commands s) (a_used s) (a_workers s) (a_puts s) \<and>
     inv_once (a_used s) (a_workers s) (a_puts s) (a_sent s) \<and>
     inv_live (a_commands s) (a_queues s) (a_workers s) (a_puts s) \<and>
     inv_running (a_commands s) (a_running s) \<and>
     inv_pending (a_commands s) (a_running s) \<and>
     inv_tickets (a_commands s) (a_workers s) (a_tickets s) \<and>
     books_ok (a_tickets s, a_gate s) \<and>
     inv_sorted (a_workers s) \<and> inv_sent (a_used s) (a_sent s)"

interpretation arbiter_machine: inductive_invariant arb_start arb_step arb_inv
proof
  fix s assume "arb_start s"
  then show "arb_inv s"
    by (auto simp: arb_start_def arb_init_def arb_inv_def inv_recs_def inv_handles_def inv_items_def inv_once_def
        places_def inv_live_def inv_running_def inv_pending_def pending_def open_commands_def inv_tickets_def
        books_ok_def tickets_match_def inv_sorted_def inv_sent_def gate_inv_def gate_init_def)
next
  fix s t assume "arb_inv s" "arb_step s t"
  then show "arb_inv t" unfolding arb_inv_def
    by (intro conjI) (blast intro: inv_recs_step inv_handles_step inv_items_step inv_once_step inv_live_step
        inv_running_step inv_pending_step inv_tickets_step books_ok_step inv_sorted_step inv_sent_step)+
qed


lemma distinct_if_count_le: "(\<And>x. count_list xs x \<le> 1) \<Longrightarrow> distinct xs"
proof (induction xs)
  case (Cons y xs)
  have "count_list xs x \<le> 1" for x using Cons.prems [of x] by (auto split: if_splits)
  moreover have "count_list xs y = 0" using Cons.prems [of y] by simp
  ultimately show ?case using Cons.IH by (simp add: count_list_0_iff)
qed simp

lemma arb_invD:
  assumes "arb_reach s"
  shows "inv_recs (a_commands s) (a_used s)" "inv_handles (a_queues s) (a_workers s) (a_puts s)"
    "inv_items (a_commands s) (a_used s) (a_workers s) (a_puts s)" "inv_once (a_used s) (a_workers s) (a_puts s) (a_sent s)"
    "inv_live (a_commands s) (a_queues s) (a_workers s) (a_puts s)" "inv_running (a_commands s) (a_running s)"
    "inv_pending (a_commands s) (a_running s)" "inv_tickets (a_commands s) (a_workers s) (a_tickets s)"
    "books_ok (a_tickets s, a_gate s)" "inv_sorted (a_workers s)" "inv_sent (a_used s) (a_sent s)"
  using arbiter_machine.reach_inv [OF assms] unfolding arb_inv_def by blast+

section \<open>A run\<close>

text \<open>A concrete run, at which the properties are instantiated: a session is registered, a command is
  submitted, queued, taken and begun.\<close>

definition run_args :: submit_args where
  "run_args = \<lparr>sa_session_id = ''s:COM0'', sa_command = ''ls'', sa_source = ''cli'', sa_mode = ''fg'', sa_timeout_s = 5,
     sa_priority = 10, sa_expected_duration_s = None, sa_completion_regex = PNone, sa_admission_com = None,
     sa_admission_exempt = False, sa_trusted_human = False, sa_expect_reboot = PBool False\<rparr>"

definition run_registered :: arb where
  "run_registered = register_session ''s:COM0'' (arb_init (Some gate_init) False)"

definition run_submitted :: arb where
  "run_submitted = snd (submit (\<lambda>_ _. Some False) run_args ''c1'' 7 run_registered)"

definition run_queued :: arb where
  "run_queued = put_item (0, new_item run_args ''c1'' 1) run_submitted"

definition run_taken :: arb where
  "run_taken = worker_take 0 run_queued"

definition run_begun :: arb where
  "run_begun = worker_begin 0 (new_item run_args ''c1'' 1) 8 (worker_check 0 (new_item run_args ''c1'' 1) run_taken)"


lemmas run_defs = run_registered_def run_submitted_def run_queued_def run_taken_def run_begun_def run_args_def
  arb_init_def gate_init_def register_session_def submit_def submit_check_def submit_ticket_def submit_locked_def
  admit_def admission_com_def valid_completion_regex_def expect_reboot_rejection_def valid_expect_reboot_def execution_mode_def
  count_pending_locked_def running_canceled_def open_commands_def evict_commands_locked_def new_rec_def new_item_def
  put_item_def upd_worker_def pq_put_def pq_get_def worker_take_def worker_check_def worker_begin_def set_phase_def
  CMD_PENDING_MAX_def CMD_HISTORY_MAX_def CMD_REJECT_BYTES_def CMD_WARN_BYTES_def utf8_len_def

lemma run_submitted_eq:
  "a_queues run_submitted = [(''s:COM0'', 0)]" "a_puts run_submitted = [(0, new_item run_args ''c1'' 1)]"
  "a_commands run_submitted = [(''c1'', new_rec run_args ''c1'' 7)]" "a_used run_submitted = [''c1'']"
  "a_workers run_submitted = [\<lparr>w_session = ''s:COM0'', w_queue = [], w_stop = False, w_phase = Idle\<rparr>]"
  "a_sent run_submitted = []" "a_running run_submitted = []"
  by (simp_all add: run_defs Let_def)

lemma run_queued_eq:
  "a_commands run_queued = [(''c1'', new_rec run_args ''c1'' 7)]" "a_queues run_queued = [(''s:COM0'', 0)]"
  "a_workers run_queued = [\<lparr>w_session = ''s:COM0'', w_queue = [new_item run_args ''c1'' 1], w_stop = False, w_phase = Idle\<rparr>]"
  "a_sent run_queued = []" "a_running run_queued = []"
  by (simp_all add: run_queued_def put_item_def arb_frame run_submitted_eq pq_put_def)

lemma run_taken_eq:
  "a_commands run_taken = [(''c1'', new_rec run_args ''c1'' 7)]"
  "a_workers run_taken = [\<lparr>w_session = ''s:COM0'', w_queue = [], w_stop = False, w_phase = Took (new_item run_args ''c1'' 1)\<rparr>]"
  "a_sent run_taken = []" "a_running run_taken = []"
  by (simp_all add: run_taken_def worker_take_def arb_frame run_queued_eq pq_get_def)

lemma run_begun_eq:
  "a_sent run_begun = [(''s:COM0'', ''c1'')]" "a_running run_begun = [(''s:COM0'', ''c1'')]"
  "a_commands run_begun = [(''c1'', (new_rec run_args ''c1'' 7)\<lparr>cr_status := Running, cr_started_at := Some 8\<rparr>)]"
  "a_workers run_begun = [\<lparr>w_session = ''s:COM0'', w_queue = [], w_stop = False, w_phase = Sending (new_item run_args ''c1'' 1)\<rparr>]"
  by (simp_all add: run_begun_def worker_begin_def worker_check_def set_phase_def Let_def arb_frame run_taken_eq new_item_def new_rec_def)

lemma run_reach:
  "arb_reach run_registered" "arb_reach run_submitted" "arb_reach run_queued" "arb_reach run_taken" "arb_reach run_begun"
proof -
  have "arb_reach (arb_init (Some gate_init) False)" by (rule reach_init) (auto simp: arb_start_def)
  then show r: "arb_reach run_registered" unfolding run_registered_def by (rule reach_step) (rule step_register)
  show s: "arb_reach run_submitted" unfolding run_submitted_def
    by (rule reach_step [OF r step_submit]) (simp_all add: run_registered_def arb_init_def register_session_def)
  show q: "arb_reach run_queued" unfolding run_queued_def
    by (rule reach_step [OF s step_put]) (simp add: run_submitted_eq)
  show t: "arb_reach run_taken" unfolding run_taken_def
    by (rule reach_step [OF q step_take]) (simp_all add: run_queued_eq)
  have "arb_reach (worker_check 0 (new_item run_args ''c1'' 1) run_taken)"
    by (rule reach_step [OF t step_check]) (simp_all add: run_taken_eq)
  then show "arb_reach run_begun" unfolding run_begun_def
    by (rule reach_step, intro step_begin) (simp_all add: worker_check_def arb_frame run_taken_eq new_item_def)
qed

section \<open>Properties\<close>

text \<open>C1. Whatever the interleaving of submits, cancels, flushes, session restarts and worker threads,
  no command is handed to \<open>send_cb\<close> twice.\<close>

theorem sent_at_most_once: "arb_reach s \<Longrightarrow> distinct (map snd (a_sent s))"
proof -
  assume "arb_reach s"
  note inv = arb_invD [OF this]
  have "count_list (map snd (a_sent s)) cid \<le> 1" for cid
  proof (cases "cid = []")
    case False
    then have "places cid (a_workers s) (a_puts s) (a_sent s) \<le> of_bool (cid \<in> set (a_used s))"
      using inv(4) unfolding inv_once_def by blast
    then show ?thesis unfolding places_def by (cases "cid \<in> set (a_used s)") simp_all
  next
    case True
    then have "cid \<notin> set (map snd (a_sent s))" using inv(1,11) by (auto simp: inv_recs_def inv_sent_def)
    then show ?thesis by (simp add: count_notin)
  qed
  then show ?thesis by (rule distinct_if_count_le)
qed

theorem sent_at_most_once_witness:
  "arb_reach run_begun \<and> map snd (a_sent run_begun) = [''c1''] \<and> distinct (map snd (a_sent run_begun))"
  using sent_at_most_once [OF run_reach(5)] run_reach(5) by (simp add: run_begun_eq)

text \<open>C2. No accepted command is lost: a command without an end is either waiting, by a queue item or by a
  submit that is about to queue it, for the worker of its session, which is registered, not stopped and
  has not returned; or a worker is inside \<open>send_cb\<close> with it.\<close>

theorem open_command_alive:
  assumes "arb_reach s" "cmd_get cid s = Some r" "cr_done_at r = None"
  shows "(\<exists>h. cr_status r = Accepted \<and> dict_get (a_queues s) (cr_session_id r) = Some h \<and> h < length (a_workers s) \<and>
        w_session (a_workers s ! h) = cr_session_id r \<and> \<not> w_stop (a_workers s ! h) \<and>
        w_phase (a_workers s ! h) \<noteq> Exited \<and> waiting (a_workers s) (a_puts s) h cid) \<or>
     cr_status r = Running \<and> sending (a_workers s) cid"
proof -
  note inv = arb_invD [OF assms(1)]
  have r: "cmd_of s cid = Some r" using assms(2) by (simp add: cmd_get_def)
  have "cr_status r = Accepted \<or> cr_status r = Running" using inv_recs_open [OF inv(1) r] assms(3) by simp
  then show ?thesis using inv(2,5) r unfolding inv_live_def inv_handles_def by blast
qed

theorem open_command_alive_witness:
  "arb_reach run_queued \<and> cmd_get ''c1'' run_queued = Some (new_rec run_args ''c1'' 7) \<and>
   waiting (a_workers run_queued) (a_puts run_queued) 0 ''c1''"
proof -
  have r: "cmd_get ''c1'' run_queued = Some (new_rec run_args ''c1'' 7)" by (simp add: cmd_get_def run_queued_eq)
  show ?thesis using open_command_alive [OF run_reach(3) r] run_reach(3) r
    by (auto simp: new_rec_def run_args_def run_queued_eq)
qed




lemma step_dead:
  assumes "arb_step s t" "cid \<in> set (a_used s)" "\<And>r. cmd_of s cid = Some r \<Longrightarrow> cr_done_at r \<noteq> None"
    and r': "cmd_of t cid = Some r'"
  shows "cr_done_at r' \<noteq> None"
  using assms(1)
proof cases
  case (step_submit k re a now)
  then show ?thesis using assms(2-4)
    by (cases rule: submit_cases [of re a k now s]) (auto simp: arb_frame dest!: cmd_of_evict_Some split: if_splits)
next
  case (step_cancel k now)
  then show ?thesis using assms(3,4)
    by (cases rule: cancel_cases [of k now s]) (auto simp: arb_frame dest!: cmd_of_evict_Some split: if_splits)
next
  case (step_begin h x now)
  then show ?thesis using assms(3,4) by (auto simp: cmd_of_begin split: option.splits if_splits)
next
  case (step_finish h x out now)
  then obtain r where "cmd_of s cid = Some r" "r' = (if cid = q_cmd_id x then finish_rec out now r else r)"
    using r' cmd_of_finish by blast
  then show ?thesis using assms(3) [of r]
    by (auto simp: finish_rec_def split: send_outcome.splits)
qed (use assms(3,4) in \<open>auto simp: arb_ops arb_frame flush_rec_def split: option.splits if_splits\<close>)

text \<open>C4. A command that has an end (canceled or flushed while it was waiting, or already evicted) and was not
  sent is never sent afterwards, whatever happens next.\<close>

theorem terminated_never_sent:
  assumes "arb_step\<^sup>*\<^sup>* s t" "cid \<in> set (a_used s)" "\<forall>r. cmd_get cid s = Some r \<longrightarrow> cr_done_at r \<noteq> None"
    and "cid \<notin> snd ` set (a_sent s)"
  shows "cid \<notin> snd ` set (a_sent t)"
proof -
  from assms(1) have "cid \<in> set (a_used t) \<and> (\<forall>r. cmd_of t cid = Some r \<longrightarrow> cr_done_at r \<noteq> None) \<and>
      cid \<notin> snd ` set (a_sent t)"
  proof induction
    case base
    then show ?case using assms(2-4) by (simp add: cmd_get_def)
  next
    case (step t u)
    then show ?case using step_dead [OF step(2)] step_used [OF step(2)] step_sent [OF step(2)] by blast
  qed
  then show ?thesis by blast
qed

definition run_canceled :: arb where
  "run_canceled = snd (cancel ''c1'' 9 run_queued)"

lemma run_canceled_eq:
  "a_used run_canceled = [''c1'']" "a_sent run_canceled = []" "a_workers run_canceled = a_workers run_queued"
  "a_commands run_canceled = [(''c1'', (new_rec run_args ''c1'' 7)\<lparr>cr_status := Canceled, cr_done_at := Some 9\<rparr>)]"
proof -
  have "a_used run_queued = [''c1'']" by (simp add: run_queued_def put_item_def arb_frame run_submitted_eq)
  then show "a_used run_canceled = [''c1'']" "a_sent run_canceled = []" "a_workers run_canceled = a_workers run_queued"
    by (simp_all add: run_canceled_def arb_frame run_queued_eq)
  show "a_commands run_canceled = [(''c1'', (new_rec run_args ''c1'' 7)\<lparr>cr_status := Canceled, cr_done_at := Some 9\<rparr>)]"
    by (simp add: run_canceled_def cancel_def run_queued_eq new_rec_def Let_def arb_frame evict_commands_locked_def CMD_HISTORY_MAX_def)
qed

theorem terminated_never_sent_witness:
  "arb_step\<^sup>*\<^sup>* run_canceled (worker_take 0 run_canceled) \<and> ''c1'' \<notin> snd ` set (a_sent (worker_take 0 run_canceled))"
proof -
  have "arb_step run_canceled (worker_take 0 run_canceled)"
    by (rule step_take) (simp_all add: run_canceled_eq run_queued_eq)
  then have "arb_step\<^sup>*\<^sup>* run_canceled (worker_take 0 run_canceled)" by blast
  moreover from terminated_never_sent [OF this, of "''c1''"]
  have "''c1'' \<notin> snd ` set (a_sent (worker_take 0 run_canceled))" by (simp add: run_canceled_eq cmd_get_def)
  ultimately show ?thesis by blast
qed

lemma submit_ticket_owner:
  assumes "arb_reach s" "a_gate s = Some g" "dict_get (g_tickets g) n = Some t" "tk_kind t = ''command.submit''"
  shows "\<exists>cid. dict_get (a_tickets s) cid = Some t \<and>
     ((\<exists>r. cmd_get cid s = Some r \<and> cr_status r = Accepted) \<or> sending (a_workers s) cid)"
proof -
  note inv = arb_invD [OF assms(1)]
  have "tickets_match (a_tickets s) g" using inv(9) assms(2) by (simp add: books_ok_def)
  then obtain cid where "dict_get (a_tickets s) cid = Some t" using tickets_matchD(4) assms(3,4) by blast
  then show ?thesis using inv(8) unfolding inv_tickets_def cmd_get_def by blast
qed

text \<open>No ticket is leaked: a \<open>command.submit\<close> ticket that is open in the gate belongs to a command that waits
  for its session's worker or that a worker is inside \<open>send_cb\<close> with.\<close>

theorem submit_ticket_not_leaked:
  assumes "arb_reach s" "a_gate s = Some g" "dict_get (g_tickets g) n = Some t" "tk_kind t = ''command.submit''"
  shows "\<exists>cid. dict_get (a_tickets s) cid = Some t \<and>
     ((\<exists>r. cmd_get cid s = Some r \<and> cr_status r = Accepted) \<or> sending (a_workers s) cid)"
  using assms by (rule submit_ticket_owner)

theorem submit_ticket_not_leaked_witness:
  "\<exists>g. a_gate run_submitted = Some g \<and> dict_get (g_tickets g) 1 = Some \<lparr>tk_kind = ''command.submit'', tk_com = Some ''COM0'', tk_seq = 1\<rparr> \<and>
     (\<exists>cid. dict_get (a_tickets run_submitted) cid = Some \<lparr>tk_kind = ''command.submit'', tk_com = Some ''COM0'', tk_seq = 1\<rparr>)"
proof -
  obtain g where g: "a_gate run_submitted = Some g"
    "dict_get (g_tickets g) 1 = Some \<lparr>tk_kind = ''command.submit'', tk_com = Some ''COM0'', tk_seq = 1\<rparr>"
    by (simp add: run_defs Let_def py_rsplit_last_def)
  then show ?thesis using submit_ticket_not_leaked [OF run_reach(2) g(1), of 1] by fastforce
qed


text \<open>The worker serves by priority, and within a priority in the order in which the commands were
  accepted: the item it takes has the least \<open>(priority, counter)\<close> key of its queue, and nothing else leaves the queue.\<close>

theorem worker_takes_least:
  assumes "arb_reach s" "h < length (a_workers s)" "w_queue (a_workers s ! h) \<noteq> []"
  shows "\<exists>x. w_phase (a_workers (worker_take h s) ! h) = Took x \<and>
     (\<forall>y \<in> set (w_queue (a_workers s ! h)). q_sort_key x \<le> q_sort_key y) \<and>
     mset (w_queue (a_workers s ! h)) = add_mset x (mset (w_queue (a_workers (worker_take h s) ! h)))"
proof -
  have srt: "sorted (map q_sort_key (w_queue (a_workers s ! h)))"
    using inv_sorted_nth [OF arb_invD(10) [OF assms(1)] assms(2)] .
  obtain x q where xq: "pq_get (w_queue (a_workers s ! h)) = Some (x, q)"
    "mset (w_queue (a_workers s ! h)) = add_mset x (mset q)" "\<forall>y \<in># add_mset x (mset q). q_sort_key x \<le> q_sort_key y"
    using sorted_queue.get_least [OF srt] assms(3) by auto
  then show ?thesis using assms(2) by (intro exI [of _ x]) (auto simp: worker_take_def arb_frame simp flip: set_mset_mset)
qed

theorem worker_takes_least_witness:
  "arb_reach run_queued \<and> (\<exists>x. w_phase (a_workers (worker_take 0 run_queued) ! 0) = Took x)"
  using worker_takes_least [OF run_reach(3), of 0] run_reach(3) by (auto simp: run_queued_eq)

lemma sorted_take_drop_le:
  assumes "sorted (map f xs)" "x \<in> set (take n xs)" "y \<in> set (drop n xs)"
  shows "f x \<le> f y"
proof -
  have "sorted (map f (take n xs) @ map f (drop n xs))" using assms(1) by (simp flip: map_append)
  then show ?thesis using assms(2,3) by (auto simp: sorted_append)
qed

lemma length_filter_victims:
  assumes "dict_ok d" "set V \<subseteq> fst ` set d" "distinct V"
  shows "length (filter (\<lambda>(k, _). k \<notin> set V) d) + length V = length d"
proof -
  have "length (filter (\<lambda>(k, _). k \<in> set V) d) = card (fst ` set (filter (\<lambda>(k, _). k \<in> set V) d))"
    using dict_ok_filter [OF assms(1), of "\<lambda>(k, _). k \<in> set V"] by (metis distinct_card length_map set_map)
  also have "fst ` set (filter (\<lambda>(k, _). k \<in> set V) d) = set V" using assms(2) by force
  also have "card (set V) = length V" by (rule distinct_card [OF assms(3)])
  finally show ?thesis using sum_length_filter_compl [of "\<lambda>(k, _). k \<in> set V" d] by (simp add: case_prod_unfold)
qed

lemma victims_distinct:
  assumes "dict_ok (a_commands s)"
  shows "distinct (victims s)" "set (victims s) \<subseteq> fst ` set (a_commands s)"
    "length (victims s) = min (length (a_commands s) - CMD_HISTORY_MAX) (length (evictable s))"
proof -
  let ?e = "sort_key done_key (evictable s)"
  have "dict_ok (evictable s)" using dict_ok_filter [OF assms] by (simp add: evictable_def)
  then have "dict_ok ?e" by (rule dict_ok_perm) simp
  then show "distinct (victims s)" by (simp add: victims_def take_map [symmetric])
  show "set (victims s) \<subseteq> fst ` set (a_commands s)"
  proof
    fix cid assume "cid \<in> set (victims s)"
    from victims_evictable [OF this] obtain r where "(cid, r) \<in> set (a_commands s)" by (auto simp: evictable_def)
    then show "cid \<in> fst ` set (a_commands s)" by force
  qed
  show "length (victims s) = min (length (a_commands s) - CMD_HISTORY_MAX) (length (evictable s))"
    by (simp add: victims_def min.commute)
qed

lemma evicted_oldest:
  assumes ok: "dict_ok (a_commands s)" and old: "cmd_of s cid = Some r" "cid \<in> set (victims s)"
    and kept: "(cid', r') \<in> set (evictable s)" "cid' \<notin> set (victims s)"
  shows "done_key (cid, r) \<le> done_key (cid', r')"
proof -
  let ?n = "length (a_commands s) - CMD_HISTORY_MAX" and ?e = "sort_key done_key (evictable s)"
  obtain r0 where r0: "(cid, r0) \<in> set (take ?n ?e)" using old(2) unfolding victims_def by auto
  have "(cid, r0) \<in> set (a_commands s)" using subsetD [OF set_take_sort_key r0] by (simp add: evictable_def)
  then have "cmd_of s cid = Some r0" using dict_in_set_iff [OF ok] by blast
  then have "r0 = r" using old(1) by simp
  moreover have "(cid', r') \<in> set (drop ?n ?e)"
  proof -
    have "(cid', r') \<in> set (take ?n ?e @ drop ?n ?e)" using kept(1) by (simp only: append_take_drop_id set_sort)
    moreover have "(cid', r') \<notin> set (take ?n ?e)" using kept(2) unfolding victims_def by force
    ultimately show ?thesis unfolding set_append by blast
  qed
  ultimately show ?thesis using sorted_take_drop_le [of done_key ?e "(cid, r0)" ?n "(cid', r')"] r0 by simp
qed

text \<open>The history is bounded and the eviction is fair: what is evicted has ended and is not running, has ended no
  later than any other evictable command that stays, and exactly as many records go as are needed to reach
  \<open>CMD_HISTORY_MAX\<close>, or all that may go.\<close>

theorem evict_spec:
  assumes "dict_ok (a_commands s)" "CMD_HISTORY_MAX < length (a_commands s)"
  shows "length (a_commands (evict_commands_locked s)) = max CMD_HISTORY_MAX (length (a_commands s) - length (evictable s)) \<and>
    (\<forall>cid r. cmd_get cid s = Some r \<longrightarrow> cmd_get cid (evict_commands_locked s) = None \<longrightarrow>
       cr_done_at r \<noteq> None \<and> cid \<notin> snd ` set (a_running s) \<and>
       (\<forall>(cid', r') \<in> set (evictable (evict_commands_locked s)). done_key (cid, r) \<le> done_key (cid', r')))"
proof (intro conjI allI impI)
  note v = victims_distinct [OF assms(1)]
  have cmds: "a_commands (evict_commands_locked s) = filter (\<lambda>(cid, _). cid \<notin> set (victims s)) (a_commands s)"
    using assms(2) by (simp add: evict_commands_locked_def)
  have "length (evictable s) \<le> length (a_commands s)" by (simp add: evictable_def)
  then show "length (a_commands (evict_commands_locked s)) = max CMD_HISTORY_MAX (length (a_commands s) - length (evictable s))"
    using length_filter_victims [OF assms(1) v(2,1)] v(3) assms(2) by (simp add: cmds)
  fix cid r assume r: "cmd_get cid s = Some r" "cmd_get cid (evict_commands_locked s) = None"
  then have old: "cmd_of s cid = Some r" "cid \<in> set (victims s)"
    by (auto simp: cmd_get_def cmd_of_evict split: if_splits)
  show "cr_done_at r \<noteq> None" "cid \<notin> snd ` set (a_running s)" using victimsD [OF assms(1) old(2)] old(1) by auto
  show "\<forall>(cid', r') \<in> set (evictable (evict_commands_locked s)). done_key (cid, r) \<le> done_key (cid', r')"
    using evicted_oldest [OF assms(1) old] by (auto simp: evictable_def cmds arb_frame)
qed

definition run_full :: arb where
  "run_full = (arb_init None False)\<lparr>a_commands :=
     map (\<lambda>i. (replicate i (CHR ''a''), (new_rec run_args (replicate i (CHR ''a'')) 7)\<lparr>cr_status := Finished, cr_done_at := Some (int i)\<rparr>))
       [1..<601]\<rparr>"

theorem evict_spec_witness:
  "length (a_commands run_full) = 600 \<and> length (a_commands (evict_commands_locked run_full)) = 512"
proof -
  have "inj (\<lambda>i. replicate i (CHR ''a''))" by (rule injI) (metis length_replicate)
  then have ok: "dict_ok (a_commands run_full)"
    by (auto simp: run_full_def comp_def distinct_map intro: inj_on_subset)
  have ev: "evictable run_full = a_commands run_full"
    by (simp add: evictable_def run_full_def arb_init_def filter_id_conv)
  have len: "length (a_commands run_full) = 600" by (simp add: run_full_def)
  then show ?thesis using evict_spec [OF ok] ev by (simp add: CMD_HISTORY_MAX_def)
qed

definition gate_admits :: "submit_args \<Rightarrow> gate option \<Rightarrow> bool" where
  "gate_admits a g \<longleftrightarrow> (case g of None \<Rightarrow> True | Some gt \<Rightarrow> sa_admission_exempt a \<or> \<not> g_frozen gt)"

lemma submit_ticket_admits: "fst (submit_ticket a g) \<noteq> None \<longleftrightarrow> gate_admits a g"
  by (auto simp: submit_ticket_def gate_admits_def admit_def Let_def split: option.split)

lemma return_admitted:
  assumes "gate_inv g" "admit k c g = (Some t, g')"
  shows "g_tickets (gate_done t g') = g_tickets g"
proof -
  have "tk_seq t \<notin> dict_keys (g_tickets g)"
    using gate_inv_seq [OF assms(1), of "tk_seq t"] admit_Some(2) [OF assms(2)] dict_get_None_iff [of "g_tickets g" "tk_seq t"]
    by (cases "dict_get (g_tickets g) (tk_seq t)") auto
  then show ?thesis using admit_Some(1) [OF assms(2)] by (simp add: gate_done_def dict_pop_set_new)
qed

lemma return_ticket_tickets:
  assumes "books_ok (ts, g)" "submit_ticket a g = (Some t, g')"
  shows "map_option g_tickets (return_ticket t g') = map_option g_tickets g"
  using assms(2)
proof (cases rule: submit_ticket_cases)
  case (2 gt tk gt')
  then have "gate_inv gt" using assms(1) by (simp add: books_ok_def tickets_match_def)
  from return_admitted [OF this 2(4)] show ?thesis using 2 by (simp add: return_ticket_def)
qed (simp add: return_ticket_def)

lemma submit_check_rejects: "submit_check re a = Some e \<Longrightarrow> e \<noteq> Submit_accepted cid sid er w"
  by (auto simp: submit_check_def split: if_splits option.splits)

definition submit_ok :: "re_engine \<Rightarrow> submit_args \<Rightarrow> arb \<Rightarrow> bool" where
  "submit_ok re a s \<longleftrightarrow> submit_check re a = None \<and> gate_admits a (a_gate s) \<and> sa_session_id a \<in> dict_keys (a_queues s) \<and>
     count_pending_locked (sa_session_id a) s < CMD_PENDING_MAX"

lemma submit_result_cases:
  assumes sub: "submit re a cid now s = (res, t)" and books: "books_ok (a_tickets s, a_gate s)"
  shows "submit_ok re a s \<and> (\<exists>er w. res = Submit_accepted cid (sa_session_id a) er w) \<or>
     \<not> submit_ok re a s \<and> (\<forall>er w. res \<noteq> Submit_accepted cid (sa_session_id a) er w) \<and>
     (\<exists>g. t = s\<lparr>a_gate := g\<rparr> \<and> map_option g_tickets g = map_option g_tickets (a_gate s))"
proof (cases "submit_check re a")
  case (Some e)
  then have "res = e" "t = s\<lparr>a_gate := a_gate s\<rparr>" using sub by (simp_all add: submit_def)
  moreover have "\<not> submit_ok re a s" using Some by (simp add: submit_ok_def)
  ultimately show ?thesis using submit_check_rejects [OF Some] by blast
next
  case None
  obtain t0 g where st: "submit_ticket a (a_gate s) = (t0, g)" by force
  note adm = submit_ticket_admits [of a "a_gate s", unfolded st fst_conv]
  have pend: "count_pending_locked x (s\<lparr>a_gate := g\<rparr>) = count_pending_locked x s" for x
    by (simp add: count_pending_eq)
  show ?thesis
  proof (cases t0)
    assume t0: "t0 = None"
    then have "res = FLUSHED_BY_SHUTDOWN" "t = s\<lparr>a_gate := g\<rparr>" "g = a_gate s" "\<not> submit_ok re a s"
      using sub st None adm submit_ticket_refused by (auto simp: submit_def submit_ok_def)
    then show ?thesis by (intro disjI2 conjI exI [of _ g]) simp_all
  next
    fix tk assume t0: "t0 = Some tk"
    note ret = return_ticket_tickets [OF books st [unfolded t0]]
    show ?thesis
    proof (cases "dict_get (a_queues s) (sa_session_id a)")
      assume q: "dict_get (a_queues s) (sa_session_id a) = None"
      then have "\<not> submit_ok re a s" by (simp add: submit_ok_def flip: dict_get_None_iff)
      then show ?thesis using sub st t0 None q ret by (auto simp: submit_def submit_locked_def Let_def)
    next
      fix h assume q: "dict_get (a_queues s) (sa_session_id a) = Some h"
      then have "submit_ok re a s \<longleftrightarrow> count_pending_locked (sa_session_id a) s < CMD_PENDING_MAX"
        using None adm t0 dict_get_None_iff [of "a_queues s" "sa_session_id a"] by (simp add: submit_ok_def)
      then show ?thesis using sub st t0 None q ret
        by (auto simp: submit_def submit_locked_def Let_def pend split: if_splits)
    qed
  qed
qed

text \<open>C31. A submit is accepted exactly when its arguments are valid, the gate admits it, its session is registered
  and the session has fewer than \<open>CMD_PENDING_MAX\<close> commands; otherwise nothing changes: the records, the queues and the
  tickets are untouched, and the gate holds the same tickets as before.\<close>

theorem submit_decides:
  assumes "arb_reach s" "submit re a cid now s = (res, t)"
  shows "((\<exists>er w. res = Submit_accepted cid (sa_session_id a) er w) \<longleftrightarrow>
      submit_check re a = None \<and> gate_admits a (a_gate s) \<and> sa_session_id a \<in> dict_keys (a_queues s) \<and>
      count_pending_locked (sa_session_id a) s < CMD_PENDING_MAX) \<and>
    ((\<nexists>er w. res = Submit_accepted cid (sa_session_id a) er w) \<longrightarrow>
      (\<exists>g. t = s\<lparr>a_gate := g\<rparr> \<and> map_option g_tickets g = map_option g_tickets (a_gate s)))"
  using submit_result_cases [OF assms(2) arb_invD(9) [OF assms(1)]] unfolding submit_ok_def by blast

theorem submit_decides_witness:
  "(\<exists>g. snd (submit (\<lambda>_ _. Some False) (run_args\<lparr>sa_session_id := ''s:COM9''\<rparr>) ''c2'' 9 run_begun) = run_begun\<lparr>a_gate := g\<rparr>) \<and>
   fst (submit (\<lambda>_ _. Some False) run_args ''c1'' 7 run_registered) = Submit_accepted ''c1'' ''s:COM0'' False None"
proof
  have q: "a_queues run_begun = [(''s:COM0'', 0)]"
    by (simp add: run_begun_def worker_check_def run_taken_def worker_take_def arb_frame run_queued_eq pq_get_def)
  obtain res t where sub: "submit (\<lambda>_ _. Some False) (run_args\<lparr>sa_session_id := ''s:COM9''\<rparr>) ''c2'' 9 run_begun = (res, t)"
    by force
  show "\<exists>g. snd (submit (\<lambda>_ _. Some False) (run_args\<lparr>sa_session_id := ''s:COM9''\<rparr>) ''c2'' 9 run_begun) = run_begun\<lparr>a_gate := g\<rparr>"
    using submit_decides [OF run_reach(5) sub] sub by (auto simp: q)
  show "fst (submit (\<lambda>_ _. Some False) run_args ''c1'' 7 run_registered) = Submit_accepted ''c1'' ''s:COM0'' False None"
    by (simp add: run_defs Let_def length_warning_def)
qed

text \<open>A cancel that was answered \<open>ok\<close> while the command was running does not stay final when \<open>send_cb\<close> then raises: the
  worker's exception branch turns the record \<open>canceled\<close> into \<open>error\<close>, unlike the branch for a result, which keeps it.\<close>

theorem canceled_overwritten_by_exception:
  assumes "dict_ok (a_commands s)" "cmd_get (q_cmd_id x) s = Some r" "cr_status r = Canceled"
    and "length (a_commands s) \<le> CMD_HISTORY_MAX"
  shows "map_option cr_status (cmd_get (q_cmd_id x) (worker_finish h x Raised now s)) = Some Failed \<and>
    (\<forall>res. map_option cr_status (cmd_get (q_cmd_id x) (worker_finish h x (Answer res) now s)) = Some Canceled)"
proof -
  have len: "length (a_commands s) = length (dict_set (q_cmd_id x) y (a_commands s))" for y
    using assms(2) by (simp add: cmd_get_def length_dict_set)
  show ?thesis using assms len
    by (simp add: worker_finish_eq finish_cmds_def set_phase_def arb_frame cmd_get_def evict_commands_locked_def finish_rec_def)
qed

theorem canceled_overwritten_by_exception_witness:
  "map_option cr_status (cmd_get ''c1'' (worker_finish 0 (new_item run_args ''c1'' 1) Raised 10 (snd (cancel ''c1'' 9 run_begun)))) = Some Failed"
proof -
  have c: "a_commands (snd (cancel ''c1'' 9 run_begun)) =
      [(''c1'', (new_rec run_args ''c1'' 7)\<lparr>cr_status := Canceled, cr_started_at := Some 8, cr_done_at := Some 9\<rparr>)]"
    by (simp add: cancel_def run_begun_eq new_rec_def Let_def arb_frame evict_commands_locked_def CMD_HISTORY_MAX_def)
  have "q_cmd_id (new_item run_args ''c1'' 1) = ''c1''" by (simp add: new_item_def)
  then show ?thesis
    using canceled_overwritten_by_exception [of "snd (cancel ''c1'' 9 run_begun)" "new_item run_args ''c1'' 1" _ 0 10]
    by (simp add: c cmd_get_def CMD_HISTORY_MAX_def)
qed

end
