(* ===== verification/Telnet.thy ===== *)
theory Telnet
  imports Prelude
begin

text \<open>
  The Telnet layer of the TCP console, \<open>sw_core/telnet_console.py\<close>: the filter of the bytes a client
  sends (\<open>TelnetFilter.feed\<close>, one state machine per client that survives the boundaries of \<open>recv\<close>) and the
  escaping of the bytes sent to it. Bytes are 8-bit words.
\<close>

section \<open>Constants and state\<close>

definition IAC :: byte where "IAC = 0xFF"
definition SE :: byte where "SE = 0xF0"
definition SB :: byte where "SB = 0xFA"
definition WILL :: byte where "WILL = 0xFB"
definition WONT :: byte where "WONT = 0xFC"
definition DO :: byte where "DO = 0xFD"
definition DONT :: byte where "DONT = 0xFE"
definition OPT_BINARY :: byte where "OPT_BINARY = 0x00"
definition OPT_ECHO :: byte where "OPT_ECHO = 0x01"
definition OPT_SGA :: byte where "OPT_SGA = 0x03"

definition TELNET_GREETING :: "byte list" where
  "TELNET_GREETING = [IAC, WILL, OPT_ECHO, IAC, WILL, OPT_SGA, IAC, DO, OPT_SGA, IAC, WILL, OPT_BINARY]"

datatype tstate = T_DATA | T_DATA_CR | T_IAC | T_OPT_WILL | T_OPT_WONT | T_OPT_DO | T_OPT_DONT | T_SB | T_SB_IAC

record telnet_filter =
  tf_state :: tstate
  tf_local_on :: "byte list"

definition telnet_init :: telnet_filter where
  "telnet_init = \<lparr>tf_state = T_DATA, tf_local_on = [OPT_ECHO, OPT_SGA, OPT_BINARY]\<rparr>"

section \<open>Operations\<close>

definition escape_iac :: "byte list \<Rightarrow> byte list" where
  "escape_iac payload = (if 0xFF \<notin> set payload then payload
     else concat (map (\<lambda>b. if b = 0xFF then [0xFF, 0xFF] else [b]) payload))"

text \<open>The body of the loop on one byte: the new filter, the bytes for the UART and the reply.\<close>

definition feed_data :: "telnet_filter \<Rightarrow> byte \<Rightarrow> telnet_filter \<times> byte list \<times> byte list" where
  "feed_data f b =
     (if b = IAC then (f\<lparr>tf_state := T_IAC\<rparr>, [], [])
      else if b = 0x0D then (f\<lparr>tf_state := T_DATA_CR\<rparr>, [0x0D], [])
      else (f, [b], []))"

definition feed_iac :: "telnet_filter \<Rightarrow> byte \<Rightarrow> telnet_filter \<times> byte list \<times> byte list" where
  "feed_iac f b =
     (if b = IAC then (f\<lparr>tf_state := T_DATA\<rparr>, [0xFF], [])
      else if b = WILL then (f\<lparr>tf_state := T_OPT_WILL\<rparr>, [], [])
      else if b = WONT then (f\<lparr>tf_state := T_OPT_WONT\<rparr>, [], [])
      else if b = DO then (f\<lparr>tf_state := T_OPT_DO\<rparr>, [], [])
      else if b = DONT then (f\<lparr>tf_state := T_OPT_DONT\<rparr>, [], [])
      else if b = SB then (f\<lparr>tf_state := T_SB\<rparr>, [], [])
      else (f\<lparr>tf_state := T_DATA\<rparr>, [], []))"

definition feed_byte :: "telnet_filter \<Rightarrow> byte \<Rightarrow> telnet_filter \<times> byte list \<times> byte list" where
  "feed_byte f b =
     (case tf_state f of
        T_DATA \<Rightarrow> feed_data f b
      | T_DATA_CR \<Rightarrow>
          let f' = f\<lparr>tf_state := T_DATA\<rparr> in
          if b \<in> {0x00, 0x0A} then (f', [], []) else feed_data f' b
      | T_IAC \<Rightarrow> feed_iac f b
      | T_OPT_WILL \<Rightarrow> (f\<lparr>tf_state := T_DATA\<rparr>, [], if b \<noteq> OPT_SGA then [IAC, DONT, b] else [])
      | T_OPT_DO \<Rightarrow> (f\<lparr>tf_state := T_DATA\<rparr>, [], if b \<notin> set (tf_local_on f) then [IAC, WONT, b] else [])
      | T_OPT_DONT \<Rightarrow>
          if b \<in> set (tf_local_on f)
          then (f\<lparr>tf_state := T_DATA, tf_local_on := set_discard b (tf_local_on f)\<rparr>, [], [IAC, WONT, b])
          else (f\<lparr>tf_state := T_DATA\<rparr>, [], [])
      | T_OPT_WONT \<Rightarrow> (f\<lparr>tf_state := T_DATA\<rparr>, [], [])
      | T_SB \<Rightarrow> if b = IAC then (f\<lparr>tf_state := T_SB_IAC\<rparr>, [], []) else (f, [], [])
      | T_SB_IAC \<Rightarrow> (f\<lparr>tf_state := (if b = SE then T_DATA else T_SB)\<rparr>, [], []))"

fun feed :: "telnet_filter \<Rightarrow> byte list \<Rightarrow> telnet_filter \<times> byte list \<times> byte list" where
  "feed f [] = (f, [], [])"
| "feed f (b # bs) =
     (case feed_byte f b of (f1, u1, r1) \<Rightarrow> case feed f1 bs of (f2, u2, r2) \<Rightarrow> (f2, u1 @ u2, r1 @ r2))"

section \<open>A byte stream transducer\<close>

text \<open>What the callers of a per-byte filter rely on: the chunks in which the bytes arrive do not matter.\<close>

locale byte_transducer =
  fixes step :: "'s \<Rightarrow> 'b \<Rightarrow> 's \<times> 'o list \<times> 'r list"
    and run :: "'s \<Rightarrow> 'b list \<Rightarrow> 's \<times> 'o list \<times> 'r list"
  assumes run_Nil: "run s [] = (s, [], [])"
    and run_Cons: "run s (b # bs) = (case step s b of (s1, o1, r1) \<Rightarrow> case run s1 bs of (s2, o2, r2) \<Rightarrow> (s2, o1 @ o2, r1 @ r2))"
begin

lemma run_append:
  "run s (xs @ ys) = (case run s xs of (s1, o1, r1) \<Rightarrow> case run s1 ys of (s2, o2, r2) \<Rightarrow> (s2, o1 @ o2, r1 @ r2))"
  by (induction xs arbitrary: s) (auto simp: run_Nil run_Cons split: prod.split)

text \<open>A bound on the output that a potential of the state pays for.\<close>

lemma run_bounded:
  assumes "\<And>s b s' u r. step s b = (s', u, r) \<Longrightarrow> length u \<le> 1 \<and> length r + pot s' \<le> Suc (pot s)"
  shows "run s bs = (s', u, r) \<Longrightarrow> length u \<le> length bs \<and> length r + pot s' \<le> length bs + pot s"
proof (induction bs arbitrary: s u r)
  case (Cons b bs)
  obtain s1 o1 r1 where 1: "step s b = (s1, o1, r1)" by (cases "step s b")
  obtain s2 o2 r2 where 2: "run s1 bs = (s2, o2, r2)" by (cases "run s1 bs")
  have eq: "s2 = s'" "u = o1 @ o2" "r = r1 @ r2" using Cons.prems 1 2 by (auto simp: run_Cons)
  show ?case using assms [OF 1] Cons.IH [OF 2 [unfolded eq(1)]] eq by auto
qed (auto simp: run_Nil)

text \<open>An invariant of the state and a property of every piece of reply that the later states keep.\<close>

lemma run_replies:
  assumes "\<And>s b s' u r. step s b = (s', u, r) \<Longrightarrow> (r = [] \<or> P s' r) \<and> (\<forall>x. P s x \<longrightarrow> P s' x)"
  shows "run s bs = (s', u, r) \<Longrightarrow> (\<forall>x. P s x \<longrightarrow> P s' x) \<and> (\<exists>rs. r = concat rs \<and> (\<forall>x \<in> set rs. P s' x))"
proof (induction bs arbitrary: s u r)
  case (Cons b bs)
  obtain s1 o1 r1 where 1: "step s b = (s1, o1, r1)" by (cases "step s b")
  obtain s2 o2 r2 where 2: "run s1 bs = (s2, o2, r2)" by (cases "run s1 bs")
  have eq: "s2 = s'" "r = r1 @ r2" using Cons.prems 1 2 by (auto simp: run_Cons)
  obtain rs where rs: "r2 = concat rs" "\<forall>x \<in> set rs. P s' x" and mono: "\<forall>x. P s1 x \<longrightarrow> P s' x"
    using Cons.IH [OF 2 [unfolded eq(1)]] by blast
  have "\<exists>rs'. r = concat rs' \<and> (\<forall>x \<in> set rs'. P s' x)"
  proof (cases "r1 = []")
    case True
    then show ?thesis using rs eq by auto
  next
    case False
    then show ?thesis using rs eq assms [OF 1] mono by (intro exI [of _ "r1 # rs"]) auto
  qed
  then show ?case using assms [OF 1] mono by blast
qed (auto simp: run_Nil intro: exI [of _ "[]"])

end

interpretation telnet: byte_transducer feed_byte feed
  by unfold_locales simp_all

section \<open>Helpers\<close>

lemmas telnet_codes = IAC_def SE_def SB_def WILL_def WONT_def DO_def DONT_def OPT_BINARY_def OPT_ECHO_def OPT_SGA_def
lemmas feed_defs = feed_byte_def feed_data_def feed_iac_def

text \<open>What a client types, in Telnet's NVT form: CR is followed by NUL (or LF, the second form in use), 0xFF is doubled.\<close>

definition nvt_encode :: "byte \<Rightarrow> byte list \<Rightarrow> byte list" where
  "nvt_encode suf xs = concat (map (\<lambda>b. if b = 0xFF then [0xFF, 0xFF] else if b = 0x0D then [0x0D, suf] else [b]) xs)"

lemma feed_append:
  "feed f (xs @ ys) = (case feed f xs of (f1, u1, r1) \<Rightarrow> case feed f1 ys of (f2, u2, r2) \<Rightarrow> (f2, u1 @ u2, r1 @ r2))"
  by (rule telnet.run_append)

lemma feed_nvt:
  assumes "tf_state f = T_DATA" "suf \<in> {0x00, 0x0A}"
  shows "feed f (nvt_encode suf xs) = (f, xs, [])"
proof (induction xs)
  case (Cons b xs)
  have "feed f (if b = 0xFF then [0xFF, 0xFF] else if b = 0x0D then [0x0D, suf] else [b]) = (f, [b], [])"
    using assms by (auto simp: feed_defs telnet_codes Let_def)
  with Cons show ?case by (simp add: nvt_encode_def feed_append)
qed (simp add: nvt_encode_def)

lemma escape_iac_concat: "escape_iac xs = concat (map (\<lambda>b. if b = 0xFF then [0xFF, 0xFF] else [b]) xs)"
proof (cases "0xFF \<in> set xs")
  case False
  then show ?thesis unfolding escape_iac_def by (induction xs) auto
qed (simp add: escape_iac_def)

lemma feed_subnegotiation_body:
  assumes "tf_state f = T_SB"
  shows "feed f (escape_iac xs) = (f, [], [])"
  unfolding escape_iac_concat
proof (induction xs)
  case (Cons b xs)
  have "feed f (if b = 0xFF then [0xFF, 0xFF] else [b]) = (f, [], [])"
    using assms by (auto simp: feed_defs telnet_codes Let_def)
  with Cons show ?case by (simp add: feed_append)
qed simp

text \<open>How a compliant client answers a negotiation: DONT by WONT, WONT by DONT.\<close>

fun peer_answer :: "byte list \<Rightarrow> byte list" where
  "peer_answer (i # c # x # rest) =
     (if c = DONT then [IAC, WONT, x] else if c = WONT then [IAC, DONT, x] else []) @ peer_answer rest"
| "peer_answer _ = []"

text \<open>A reply that calls for no further reply: a DONT, or a WONT for an option that is off.\<close>

definition settled :: "telnet_filter \<Rightarrow> byte list \<Rightarrow> bool" where
  "settled f r \<longleftrightarrow> (\<exists>x. r = [IAC, DONT, x] \<or> r = [IAC, WONT, x] \<and> x \<notin> set (tf_local_on f))"

lemma feed_byte_settled:
  assumes "feed_byte f b = (f', u, r)"
  shows "(r = [] \<or> settled f' r) \<and> (\<forall>x. settled f x \<longrightarrow> settled f' x)"
  using assms by (auto simp: feed_defs Let_def settled_def split: tstate.splits if_splits)

lemma feed_peer_answers:
  assumes "tf_state f = T_DATA"
  shows "\<forall>r \<in> set rs. settled f r \<Longrightarrow> feed f (peer_answer (concat rs)) = (f, [], [])"
proof (induction rs)
  case (Cons r rs)
  obtain x where r: "r = [IAC, DONT, x] \<or> r = [IAC, WONT, x] \<and> x \<notin> set (tf_local_on f)"
    using Cons.prems by (auto simp: settled_def)
  then have "peer_answer (r @ ys) = (if r = [IAC, DONT, x] then [IAC, WONT, x] else [IAC, DONT, x]) @ peer_answer ys" for ys
    by (auto simp: telnet_codes)
  moreover have "feed f (if r = [IAC, DONT, x] then [IAC, WONT, x] else [IAC, DONT, x]) = (f, [], [])"
    using assms r by (auto simp: feed_defs telnet_codes)
  ultimately show ?case using Cons by (simp add: feed_append del: feed.simps)
qed simp

text \<open>How many of the three bytes of a negotiation have been read.\<close>

fun pending_bytes :: "tstate \<Rightarrow> nat" where
  "pending_bytes T_IAC = 1"
| "pending_bytes T_OPT_WILL = 2"
| "pending_bytes T_OPT_WONT = 2"
| "pending_bytes T_OPT_DO = 2"
| "pending_bytes T_OPT_DONT = 2"
| "pending_bytes _ = 0"

lemma feed_byte_pending:
  "feed_byte f b = (f', u, r) \<Longrightarrow>
   length u \<le> 1 \<and> length r + pending_bytes (tf_state f') \<le> Suc (pending_bytes (tf_state f))"
  by (auto simp: feed_defs Let_def split: tstate.splits if_splits)

section \<open>Properties\<close>

text \<open>The filter does not depend on where \<open>recv\<close> cuts the stream: feeding a stream in two pieces gives the same
  final state, UART bytes and replies as feeding it at once, wherever the cut falls.\<close>

theorem feed_chunks:
  "feed f (xs @ ys) =
     (case feed f xs of (f1, u1, r1) \<Rightarrow> case feed f1 ys of (f2, u2, r2) \<Rightarrow> (f2, u1 @ u2, r1 @ r2))"
  by (rule feed_append)

text \<open>C38. What a client types reaches the UART byte for byte, with CR NUL and CR LF folded to one CR and IAC IAC to 0xFF,
  and causes no reply; a subnegotiation is swallowed whole, whatever escaped bytes it carries.\<close>

theorem telnet_roundtrip:
  assumes "tf_state f = T_DATA" "suf \<in> {0x00, 0x0A}"
  shows "feed f (nvt_encode suf xs) = (f, xs, []) \<and>
     feed f ([IAC, SB] @ escape_iac opts @ [IAC, SE] @ nvt_encode suf xs) = (f, xs, [])"
proof -
  have "feed f [IAC, SB] = (f\<lparr>tf_state := T_SB\<rparr>, [], [])" using assms by (simp add: feed_defs telnet_codes)
  moreover have "feed (f\<lparr>tf_state := T_SB\<rparr>) (escape_iac opts) = (f\<lparr>tf_state := T_SB\<rparr>, [], [])"
    by (rule feed_subnegotiation_body) simp
  moreover have "feed (f\<lparr>tf_state := T_SB\<rparr>) [IAC, SE] = (f, [], [])" using assms by (simp add: feed_defs telnet_codes)
  ultimately show ?thesis using feed_nvt [OF assms] by (simp add: feed_append del: feed.simps append_Cons append_Nil)
qed

theorem telnet_roundtrip_witness:
  "feed telnet_init (nvt_encode 0x0A [0x6C, 0x73, 0x0D, 0xFF]) = (telnet_init, [0x6C, 0x73, 0x0D, 0xFF], []) \<and>
   nvt_encode 0x0A [0x6C, 0x73, 0x0D, 0xFF] = [0x6C, 0x73, 0x0D, 0x0A, 0xFF, 0xFF]"
  using telnet_roundtrip [of telnet_init "0x0A" "[0x6C, 0x73, 0x0D, 0xFF]"] by (simp add: telnet_init_def nvt_encode_def)

text \<open>C39. The negotiation cannot loop: when a compliant client answers all replies of the filter, the filter stays silent and
  unchanged; and a client can make it write no more than it sends: the replies are never longer than the bytes read.\<close>

theorem negotiation_terminates:
  assumes "feed f data = (f', u, r)" "tf_state f = T_DATA" "tf_state f' = T_DATA"
  shows "feed f' (peer_answer r) = (f', [], []) \<and> length r \<le> length data \<and> length u \<le> length data"
proof -
  obtain rs where "r = concat rs" "\<forall>x \<in> set rs. settled f' x"
    using telnet.run_replies [where P = settled, OF _ assms(1)] feed_byte_settled by blast
  then have "feed f' (peer_answer r) = (f', [], [])" using feed_peer_answers [OF assms(3)] by simp
  moreover have "length u \<le> length data \<and> length r + pending_bytes (tf_state f') \<le> length data + pending_bytes (tf_state f)"
    by (rule telnet.run_bounded [where pot = "\<lambda>f. pending_bytes (tf_state f)", OF _ assms(1)]) (rule feed_byte_pending)
  ultimately show ?thesis using assms(2,3) by simp
qed

theorem negotiation_terminates_witness:
  "feed telnet_init [IAC, DONT, OPT_ECHO, IAC, WILL, OPT_BINARY] =
     (telnet_init\<lparr>tf_local_on := [OPT_SGA, OPT_BINARY]\<rparr>, [], [IAC, WONT, OPT_ECHO, IAC, DONT, OPT_BINARY]) \<and>
   snd (feed (telnet_init\<lparr>tf_local_on := [OPT_SGA, OPT_BINARY]\<rparr>) [IAC, DONT, OPT_ECHO, IAC, WONT, OPT_BINARY]) = ([], [])"
proof -
  have f: "feed telnet_init [IAC, DONT, OPT_ECHO, IAC, WILL, OPT_BINARY] =
     (telnet_init\<lparr>tf_local_on := [OPT_SGA, OPT_BINARY]\<rparr>, [], [IAC, WONT, OPT_ECHO, IAC, DONT, OPT_BINARY])"
    by (simp add: telnet_init_def feed_defs telnet_codes set_discard_def)
  have "peer_answer [IAC, WONT, OPT_ECHO, IAC, DONT, OPT_BINARY] = [IAC, DONT, OPT_ECHO, IAC, WONT, OPT_BINARY]"
    by (simp add: telnet_codes)
  then show ?thesis using negotiation_terminates [OF f] f by (simp add: telnet_init_def)
qed

end
