(* ===== verification/Event_Rules.thy ===== *)
theory Event_Rules
  imports Requests
begin

text \<open>
  The rules of the event engine: the schema of a rule and the ReDoS guard
  (\<open>sw_core/event_engine/schema.py\<close>), the file-backed registry (\<open>registry.py\<close>) and the counters
  (\<open>counter.py\<close>). A JSON document is a \<^typ>\<open>pyval\<close>. The \<open>re\<close> and \<open>re2\<close> libraries are the
  argument \<open>re_lib\<close>: whether a pattern compiles, whether the linear engine takes it, and the parse tree
  that \<open>_sre_parse.parse\<close> returns, with the node kinds that the guard distinguishes.
\<close>

section \<open>The ReDoS guard\<close>

datatype re_max = MAXREPEAT | Max nat

datatype re_node =
    R_ATOM
  | R_GROUPREF
  | R_REPEAT nat re_max "re_node list" \<comment> \<open>\<open>MAX_REPEAT\<close> and \<open>MIN_REPEAT\<close>\<close>
  | R_POSSESSIVE_REPEAT nat re_max "re_node list"
  | R_BRANCH "re_node list option list"
  | R_SUBPATTERN "re_node list"
  | R_ATOMIC_GROUP "re_node list"
  | R_ASSERT "re_node list"
  | R_ASSERT_NOT "re_node list"
  | R_GROUPREF_EXISTS "re_node list" "re_node list option"

definition is_variable_repeat :: "nat \<Rightarrow> re_max \<Rightarrow> bool" where
  "is_variable_repeat mn mx \<longleftrightarrow> mx \<noteq> Max mn"

definition repeats_at_least_twice :: "nat \<Rightarrow> re_max \<Rightarrow> bool" where
  "repeats_at_least_twice mn mx \<longleftrightarrow> (case mx of MAXREPEAT \<Rightarrow> True | Max k \<Rightarrow> 2 \<le> k)"

fun child_subpatterns :: "re_node \<Rightarrow> re_node list list" where
  "child_subpatterns (R_REPEAT mn mx body) = [body]"
| "child_subpatterns (R_POSSESSIVE_REPEAT mn mx body) = [body]"
| "child_subpatterns (R_BRANCH bs) = List.map_filter id bs"
| "child_subpatterns (R_SUBPATTERN sp) = [sp]"
| "child_subpatterns (R_ASSERT sp) = [sp]"
| "child_subpatterns (R_ASSERT_NOT sp) = [sp]"
| "child_subpatterns (R_ATOMIC_GROUP sp) = [sp]"
| "child_subpatterns (R_GROUPREF_EXISTS yes no) = yes # (case no of None \<Rightarrow> [] | Some sp \<Rightarrow> [sp])"
| "child_subpatterns R_ATOM = []"
| "child_subpatterns R_GROUPREF = []"

lemma size_child: "sp \<in> set (child_subpatterns x) \<Longrightarrow> size_list size sp < size x"
proof (cases x)
  case (R_BRANCH bs)
  assume "sp \<in> set (child_subpatterns x)"
  then have "Some sp \<in> set bs" using R_BRANCH by (auto simp: List.map_filter_def)
  then show ?thesis using R_BRANCH by (induction bs arbitrary: x) auto
qed (auto split: option.splits)

lemma size_branch: "sp \<in> set (List.map_filter id (bs :: re_node list option list)) \<Longrightarrow>
    size_list size sp \<le> size_list (size_option (size_list size)) bs"
  using size_child [of sp "R_BRANCH bs"] by simp

function walk_ast :: "re_node list \<Rightarrow> re_node list" where
  "walk_ast [] = []"
| "walk_ast (x # xs) = x # concat (map walk_ast (child_subpatterns x)) @ walk_ast xs"
  by pat_completeness auto
termination by (relation "measure (size_list size)") (auto dest: size_child)

definition has_backref :: "re_node list \<Rightarrow> bool" where
  "has_backref parsed \<longleftrightarrow> R_GROUPREF \<in> set (walk_ast parsed)"

function ambiguity_score :: "re_node list \<Rightarrow> nat" where
  "ambiguity_score [] = 0"
| "ambiguity_score (x # xs) =
     (case x of
        R_REPEAT mn mx body \<Rightarrow>
          if is_variable_repeat mn mx then 1 + ambiguity_score body
          else if repeats_at_least_twice mn mx then 2 * ambiguity_score body
          else ambiguity_score body
      | R_BRANCH bs \<Rightarrow> 1 + fold max (map ambiguity_score (child_subpatterns x)) 0
      | _ \<Rightarrow> fold max (map ambiguity_score (child_subpatterns x)) 0) + ambiguity_score xs"
  by pat_completeness auto
termination by (relation "measure (size_list size)") (auto dest: size_child size_branch)

definition maybe_redos_suspicious :: "re_node list \<Rightarrow> bool" where
  "maybe_redos_suspicious parsed \<longleftrightarrow> 2 \<le> ambiguity_score parsed \<or> has_backref parsed"


section \<open>The schema of a rule\<close>

record re_lib =
  rl_compiles :: "string \<Rightarrow> nat \<Rightarrow> bool" \<comment> \<open>\<open>re.compile\<close> does not raise\<close>
  rl_re2 :: "string \<Rightarrow> string \<Rightarrow> bool" \<comment> \<open>\<open>_re2_compile\<close> is not \<open>None\<close>\<close>
  rl_parse :: "string \<Rightarrow> nat \<Rightarrow> re_node list" \<comment> \<open>\<open>_sre_parse.parse\<close>\<close>

record ev_pattern =
  pt_kind :: string
  pt_pattern :: string
  pt_flags :: string

record ev_handler =
  hd_exec :: "string list option"
  hd_shell :: "string option"

record ev_rule =
  ru_owner :: string
  ru_name :: string
  ru_rule_id :: string
  ru_kind :: string
  ru_selectors :: "string list"
  ru_profile :: string
  ru_level :: string
  ru_pattern :: ev_pattern
  ru_scope :: string
  ru_max_fires :: "int option"
  ru_cooldown_ms :: int
  ru_timeout_ms :: int
  ru_handler :: ev_handler
  ru_auto_enable :: bool
  ru_debug :: bool
  ru_raw :: "(pyval \<times> pyval) list"

datatype schema_error =
    E_NOT_OBJECT | E_SCHEMA_VERSION | E_OWNER | E_NAME | E_RULE_ID | E_KIND | E_SELECTORS | E_SELECTOR | E_LEVEL
  | E_PATTERN | E_PATTERN_KIND | E_PATTERN_VALUE | E_REGEX_TOO_LONG | E_REGEX_INVALID | E_REDOS | E_FLAG
  | E_SCOPE | E_MAX_FIRES | E_COOLDOWN | E_TIMEOUT | E_HANDLER | E_HANDLER_XOR | E_HANDLER_EXEC | E_HANDLER_SHELL
  | E_TYPE_ERROR | E_VALUE_ERROR

definition VALID_KIND :: "string list" where "VALID_KIND = [''tool'', ''agent'']"
definition VALID_SCOPE :: "string list" where "VALID_SCOPE = [''spontaneous'', ''command_output'', ''any'']"
definition VALID_LEVEL :: "string list" where
  "VALID_LEVEL = [''INFO'', ''NOTYS'', ''WARN'', ''ERR'', ''ENMR'', ''CRITL'']"
definition VALID_PATTERN_KIND :: "string list" where "VALID_PATTERN_KIND = [''contains'', ''regex'']"
definition REGEX_MAX_LEN :: nat where "REGEX_MAX_LEN = 512"
definition REGEX_MATCH_INPUT_MAX :: nat where "REGEX_MATCH_INPUT_MAX = 4096"

definition lower_alnum :: "char \<Rightarrow> bool" where
  "lower_alnum c \<longleftrightarrow> (let n = of_char c :: nat in 97 \<le> n \<and> n \<le> 122 \<or> 48 \<le> n \<and> n \<le> 57)"

text \<open>The expression \<open>[a-z0-9][a-z0-9-]{0,63}\<close> on a whole string; \<open>$\<close> also matches before a final newline,
  \<open>\Z\<close> does not.\<close>

definition slug :: "string \<Rightarrow> bool" where
  "slug s \<longleftrightarrow> (case s of [] \<Rightarrow> False
     | c # cs \<Rightarrow> lower_alnum c \<and> list_all (\<lambda>x. lower_alnum x \<or> x = CHR ''-'') cs \<and> length cs \<le> 63)"

definition NAME_RE_match :: "string \<Rightarrow> bool" where
  "NAME_RE_match s \<longleftrightarrow> slug s \<or> (s \<noteq> [] \<and> last s = CHR 0x0A \<and> slug (butlast s))"

text \<open>\<open>int(v)\<close> of a JSON value.\<close>

definition is_digit :: "char \<Rightarrow> bool" where
  "is_digit c \<longleftrightarrow> (let n = of_char c :: nat in 48 \<le> n \<and> n \<le> 57)"

fun int_digits :: "nat \<Rightarrow> bool \<Rightarrow> string \<Rightarrow> nat option" where
  "int_digits acc after_digit [] = (if after_digit then Some acc else None)"
| "int_digits acc after_digit (c # cs) =
     (if is_digit c then int_digits (10 * acc + (of_char c - 48)) True cs
      else if c = CHR ''_'' \<and> after_digit then int_digits acc False cs
      else None)"

definition py_int_str :: "string \<Rightarrow> int option" where
  "py_int_str s = (case py_strip s of
      [] \<Rightarrow> None
    | c # cs \<Rightarrow> if c = CHR ''-'' then map_option (\<lambda>n. - int n) (int_digits 0 False cs)
                else if c = CHR ''+'' then map_option int (int_digits 0 False cs)
                else map_option int (int_digits 0 False (c # cs)))"

definition rat_trunc :: "rat \<Rightarrow> int" where
  "rat_trunc x = (if x < 0 then - \<lfloor>- x\<rfloor> else \<lfloor>x\<rfloor>)"

fun py_int :: "pyval \<Rightarrow> schema_error + int" where
  "py_int (PBool b) = Inr (of_bool b)"
| "py_int (PInt n) = Inr n"
| "py_int (PFloat x) = Inr (rat_trunc x)"
| "py_int (PStr s) = (case py_int_str s of None \<Rightarrow> Inl E_VALUE_ERROR | Some n \<Rightarrow> Inr n)"
| "py_int _ = Inl E_TYPE_ERROR"

text \<open>\<open>obj.get(key)\<close>, \<open>obj.get(key, default)\<close>, and \<open>v in <set of strings>\<close>, which raises for an unhashable value.\<close>

definition obj_get :: "(pyval \<times> pyval) list \<Rightarrow> string \<Rightarrow> pyval" where
  "obj_get obj k = (case dict_get obj (PStr k) of None \<Rightarrow> PNone | Some v \<Rightarrow> v)"

definition obj_get_def :: "(pyval \<times> pyval) list \<Rightarrow> string \<Rightarrow> pyval \<Rightarrow> pyval" where
  "obj_get_def obj k d = (case dict_get obj (PStr k) of None \<Rightarrow> d | Some v \<Rightarrow> v)"

fun str_member :: "string list \<Rightarrow> pyval \<Rightarrow> schema_error \<Rightarrow> schema_error + string" where
  "str_member xs (PStr s) e = (if s \<in> set xs then Inr s else Inl e)"
| "str_member xs (PList _) e = Inl E_TYPE_ERROR"
| "str_member xs (PDict _) e = Inl E_TYPE_ERROR"
| "str_member xs _ e = Inl e"

definition require :: "bool \<Rightarrow> schema_error \<Rightarrow> schema_error + 'a \<Rightarrow> schema_error + 'a" where
  "require c e k = (if c then k else Inl e)"

definition bind_err :: "schema_error + 'a \<Rightarrow> ('a \<Rightarrow> schema_error + 'b) \<Rightarrow> schema_error + 'b" where
  "bind_err m f = (case m of Inl e \<Rightarrow> Inl e | Inr x \<Rightarrow> f x)"

fun flags_from_string :: "string \<Rightarrow> nat \<Rightarrow> schema_error + nat" where
  "flags_from_string [] acc = Inr acc"
| "flags_from_string (c # cs) acc =
     (if c = CHR ''i'' then flags_from_string cs (or acc 2)
      else if c = CHR ''s'' then flags_from_string cs (or acc 16)
      else if c = CHR ''m'' then flags_from_string cs (or acc 8)
      else Inl E_FLAG)"

fun is_str :: "pyval \<Rightarrow> bool" where "is_str (PStr _) = True" | "is_str _ = False"
fun the_str :: "pyval \<Rightarrow> string" where "the_str (PStr s) = s" | "the_str _ = []"
fun is_int :: "pyval \<Rightarrow> bool" where "is_int (PInt _) = True" | "is_int (PBool _) = True" | "is_int _ = False"
fun the_int :: "pyval \<Rightarrow> int" where "the_int (PInt n) = n" | "the_int (PBool b) = of_bool b" | "the_int _ = 0"

definition eq_one :: "pyval \<Rightarrow> bool" where
  "eq_one v \<longleftrightarrow> v = PInt 1 \<or> v = PFloat 1 \<or> v = PBool True"

definition check_selectors :: "pyval \<Rightarrow> schema_error + string list" where
  "check_selectors v = (case v of
      PList xs \<Rightarrow> require (xs \<noteq> []) E_SELECTORS
        (require (list_all (\<lambda>x. is_str x \<and> the_str x \<noteq> []) xs) E_SELECTOR (Inr (map the_str xs)))
    | _ \<Rightarrow> Inl E_SELECTORS)"

definition check_pattern :: "re_lib \<Rightarrow> (pyval \<Rightarrow> string) \<Rightarrow> pyval \<Rightarrow> schema_error + ev_pattern" where
  "check_pattern lib render v = (case v of
      PDict p \<Rightarrow>
        (let pvalue = obj_get p ''value''; pflags = py_str render (obj_get_def p ''flags'' (PStr [])) in
         bind_err (str_member VALID_PATTERN_KIND (obj_get p ''kind'') E_PATTERN_KIND) (\<lambda>pkind.
         require (is_str pvalue \<and> the_str pvalue \<noteq> []) E_PATTERN_VALUE
         (bind_err
           (if pkind = ''regex'' then
              require (length (the_str pvalue) \<le> REGEX_MAX_LEN) E_REGEX_TOO_LONG
              (bind_err (flags_from_string pflags 0) (\<lambda>fl.
               require (rl_compiles lib (the_str pvalue) fl) E_REGEX_INVALID
               (if rl_re2 lib (the_str pvalue) pflags then Inr fl
                else require (\<not> maybe_redos_suspicious (rl_parse lib (the_str pvalue) fl)) E_REDOS (Inr fl))))
            else flags_from_string pflags 0)
           (\<lambda>_. Inr \<lparr>pt_kind = pkind, pt_pattern = the_str pvalue, pt_flags = pflags\<rparr>))))
    | _ \<Rightarrow> Inl E_PATTERN)"

definition check_handler :: "pyval \<Rightarrow> schema_error + ev_handler" where
  "check_handler v = (case v of
      PDict h \<Rightarrow>
        (let h_exec = obj_get h ''exec''; h_shell = obj_get h ''shell'' in
         require (truthy h_exec \<noteq> truthy h_shell) E_HANDLER_XOR
         (if h_exec \<noteq> PNone then
            (case h_exec of
               PList xs \<Rightarrow> require (list_all (\<lambda>x. is_str x \<and> the_str x \<noteq> []) xs) E_HANDLER_EXEC
                 (Inr \<lparr>hd_exec = Some (map the_str xs), hd_shell = None\<rparr>)
             | _ \<Rightarrow> Inl E_HANDLER_EXEC)
          else require (is_str h_shell \<and> the_str h_shell \<noteq> []) E_HANDLER_SHELL
            (Inr \<lparr>hd_exec = None, hd_shell = Some (the_str h_shell)\<rparr>)))
    | _ \<Rightarrow> Inl E_HANDLER)"

definition or_empty :: "(pyval \<Rightarrow> string) \<Rightarrow> pyval \<Rightarrow> string" where
  "or_empty render v = (if truthy v then py_str render v else [])"

definition validate_rule_dict :: "re_lib \<Rightarrow> (pyval \<Rightarrow> string) \<Rightarrow> pyval \<Rightarrow> schema_error + ev_rule" where
  "validate_rule_dict lib render v = (case v of
      PDict obj \<Rightarrow>
        (let owner = or_empty render (obj_get obj ''owner''); name = or_empty render (obj_get obj ''name'');
             derived_id = owner @ ''.'' @ name; max_fires = obj_get obj ''max_fires'' in
         require (eq_one (obj_get obj ''schema_version'')) E_SCHEMA_VERSION
         (require (NAME_RE_match owner) E_OWNER
         (require (NAME_RE_match name) E_NAME
         (require (obj_get_def obj ''rule_id'' (PStr derived_id) = PStr derived_id) E_RULE_ID
         (bind_err (str_member VALID_KIND (obj_get obj ''kind'') E_KIND) (\<lambda>kind.
          bind_err (check_selectors (obj_get obj ''selectors'')) (\<lambda>selectors.
          let profile = py_str render (obj_get_def obj ''profile'' (PStr ''ALL''));
              level = py_str render (obj_get_def obj ''level'' (PStr ''INFO'')) in
          require (level \<in> set VALID_LEVEL) E_LEVEL
          (bind_err (check_pattern lib render (obj_get obj ''pattern'')) (\<lambda>pattern.
           let scope = py_str render (obj_get_def obj ''scope'' (PStr ''spontaneous'')) in
           require (scope \<in> set VALID_SCOPE) E_SCOPE
           (require (max_fires = PNone \<or> (is_int max_fires \<and> 0 \<le> the_int max_fires)) E_MAX_FIRES
           (bind_err (py_int (obj_get_def obj ''cooldown_ms'' (PInt 0))) (\<lambda>cooldown_ms.
            bind_err (py_int (obj_get_def obj ''timeout_ms'' (PInt 10000))) (\<lambda>timeout_ms.
            require (0 \<le> cooldown_ms) E_COOLDOWN
            (require (0 < timeout_ms) E_TIMEOUT
            (bind_err (check_handler (obj_get obj ''handler'')) (\<lambda>handler.
             Inr \<lparr>ru_owner = owner, ru_name = name, ru_rule_id = derived_id, ru_kind = kind,
                  ru_selectors = selectors, ru_profile = profile, ru_level = level, ru_pattern = pattern,
                  ru_scope = scope, ru_max_fires = (if max_fires = PNone then None else Some (the_int max_fires)),
                  ru_cooldown_ms = cooldown_ms, ru_timeout_ms = timeout_ms, ru_handler = handler,
                  ru_auto_enable = truthy (obj_get_def obj ''auto_enable_com_on_load'' (PBool True)),
                  ru_debug = truthy (obj_get_def obj ''debug'' (PBool False)), ru_raw = obj\<rparr>))))))))))))))))
    | _ \<Rightarrow> Inl E_NOT_OBJECT)"


section \<open>The registry\<close>

definition RULE_ID_RE_match :: "string \<Rightarrow> bool" where
  "RULE_ID_RE_match s = (case py_partition (CHR ''.'') s of (a, found, b) \<Rightarrow> found \<and> slug a \<and> slug b)"

definition valid_rule_id :: "pyval \<Rightarrow> bool" where
  "valid_rule_id v = (case v of PStr s \<Rightarrow> RULE_ID_RE_match s | _ \<Rightarrow> False)"

text \<open>The directory \<open>events.d\<close>: the JSON document in each file, \<open>None\<close> when the text is no JSON; the cache of the
  rules written by this process.\<close>

record registry =
  rg_files :: "(string, pyval option) dict"
  rg_cache :: "(string, ev_rule) dict"

definition path_for :: "string \<Rightarrow> string" where
  "path_for rule_id = rule_id @ ''.json''"

datatype load_failure = READ_FAILED | SCHEMA_FAILED schema_error

record load_result =
  ld_rules :: "ev_rule list"
  ld_failed :: "(string \<times> load_failure) list"

fun load_entries :: "(pyval \<Rightarrow> schema_error + ev_rule) \<Rightarrow> (string \<times> pyval option) list \<Rightarrow> load_result" where
  "load_entries validate [] = \<lparr>ld_rules = [], ld_failed = []\<rparr>"
| "load_entries validate ((entry, doc) # rest) =
     (let r = load_entries validate rest in
      if \<not> ends_with ''.json'' entry then r
      else case doc of
        None \<Rightarrow> r\<lparr>ld_failed := (entry, READ_FAILED) # ld_failed r\<rparr>
      | Some v \<Rightarrow> (case validate v of
            Inl e \<Rightarrow> r\<lparr>ld_failed := (entry, SCHEMA_FAILED e) # ld_failed r\<rparr>
          | Inr rule \<Rightarrow> r\<lparr>ld_rules := rule # ld_rules r\<rparr>))"

definition load_all :: "re_lib \<Rightarrow> (pyval \<Rightarrow> string) \<Rightarrow> registry \<Rightarrow> load_result" where
  "load_all lib render rg = load_entries (validate_rule_dict lib render) (sort_key fst (rg_files rg))"

datatype get_result = Get_none | Get_rule ev_rule | Get_error

definition rg_get :: "re_lib \<Rightarrow> (pyval \<Rightarrow> string) \<Rightarrow> string \<Rightarrow> registry \<Rightarrow> get_result" where
  "rg_get lib render rule_id rg =
     (case dict_get (rg_cache rg) rule_id of Some r \<Rightarrow> Get_rule r
      | None \<Rightarrow> (case dict_get (rg_files rg) (path_for rule_id) of
            None \<Rightarrow> Get_none
          | Some None \<Rightarrow> Get_error
          | Some (Some v) \<Rightarrow> (case validate_rule_dict lib render v of Inl _ \<Rightarrow> Get_error | Inr r \<Rightarrow> Get_rule r)))"

definition upsert :: "re_lib \<Rightarrow> (pyval \<Rightarrow> string) \<Rightarrow> pyval \<Rightarrow> registry \<Rightarrow> (schema_error + ev_rule) \<times> registry" where
  "upsert lib render v rg =
     (case validate_rule_dict lib render v of
        Inl e \<Rightarrow> (Inl e, rg)
      | Inr rule \<Rightarrow> (Inr rule, rg\<lparr>
          rg_files := dict_set (path_for (ru_rule_id rule)) (Some (PDict (ru_raw rule))) (rg_files rg),
          rg_cache := dict_set (ru_rule_id rule) rule (rg_cache rg)\<rparr>))"

definition rg_delete :: "pyval \<Rightarrow> registry \<Rightarrow> bool \<times> registry" where
  "rg_delete rule_id rg =
     (if \<not> valid_rule_id rule_id then (False, rg)
      else if path_for (the_str rule_id) \<in> dict_keys (rg_files rg) then
        (True, rg\<lparr>rg_files := dict_pop (path_for (the_str rule_id)) (rg_files rg),
                  rg_cache := dict_pop (the_str rule_id) (rg_cache rg)\<rparr>)
      else (False, rg))"

text \<open>\<open>{r.rule_id: r for r in rules}\<close> and the comparison of two rule sets. The order of the three lists is the
  order of a Python set and is not specified by the code.\<close>

definition by_id :: "ev_rule list \<Rightarrow> (string, ev_rule) dict" where
  "by_id rules = foldl (\<lambda>d r. dict_set (ru_rule_id r) r d) [] rules"

record diff_result =
  df_added :: "ev_rule list"
  df_removed :: "ev_rule list"
  df_changed :: "ev_rule list"

definition diff_rules :: "ev_rule list \<Rightarrow> ev_rule list \<Rightarrow> diff_result" where
  "diff_rules previous rules =
     (let prev_map = by_id previous; current = by_id rules in
      \<lparr>df_added = map snd (filter (\<lambda>(k, _). k \<notin> dict_keys prev_map) current),
       df_removed = map snd (filter (\<lambda>(k, _). k \<notin> dict_keys current) prev_map),
       df_changed = map snd (filter (\<lambda>(k, r). case dict_get prev_map k of None \<Rightarrow> False | Some p \<Rightarrow> ru_raw r \<noteq> ru_raw p) current)\<rparr>)"

definition diff_against :: "re_lib \<Rightarrow> (pyval \<Rightarrow> string) \<Rightarrow> ev_rule list \<Rightarrow> registry \<Rightarrow> diff_result" where
  "diff_against lib render previous rg = diff_rules previous (ld_rules (load_all lib render rg))"

section \<open>Counters\<close>

record counter =
  ct_fires :: int
  ct_last_fire_ts :: "int option"
  ct_exhausted :: bool

definition counter_zero :: counter where
  "counter_zero = \<lparr>ct_fires = 0, ct_last_fire_ts = None, ct_exhausted = False\<rparr>"

definition counter_to_json :: "counter \<Rightarrow> (pyval \<times> pyval) list" where
  "counter_to_json c = [(PStr ''fires'', PInt (ct_fires c)),
     (PStr ''last_fire_ts'', case ct_last_fire_ts c of None \<Rightarrow> PNone | Some t \<Rightarrow> PInt t),
     (PStr ''exhausted'', PBool (ct_exhausted c))]"

definition counter_from_json :: "(pyval \<times> pyval) list \<Rightarrow> schema_error + counter" where
  "counter_from_json obj =
     bind_err (py_int (obj_get_def obj ''fires'' (PInt 0))) (\<lambda>fires.
     bind_err (if obj_get obj ''last_fire_ts'' \<noteq> PNone
               then bind_err (py_int (obj_get obj ''last_fire_ts'')) (\<lambda>t. Inr (Some t)) else Inr None) (\<lambda>ts.
     Inr \<lparr>ct_fires = fires, ct_last_fire_ts = ts, ct_exhausted = truthy (obj_get_def obj ''exhausted'' (PBool False))\<rparr>))"

text \<open>The counter directory: one document per rule. A missing or unreadable file is a zero counter; a document with
  a malformed number makes \<open>int()\<close> raise through \<open>load\<close>.\<close>

type_synonym counter_store = "(string, (pyval \<times> pyval) list option) dict"

definition counter_load :: "string \<Rightarrow> counter_store \<Rightarrow> schema_error + counter" where
  "counter_load rule_id cs = (case dict_get cs rule_id of
      None \<Rightarrow> Inr counter_zero
    | Some None \<Rightarrow> Inr counter_zero
    | Some (Some obj) \<Rightarrow> counter_from_json obj)"

definition counter_save :: "string \<Rightarrow> counter \<Rightarrow> counter_store \<Rightarrow> counter_store" where
  "counter_save rule_id c cs = dict_set rule_id (Some (counter_to_json c)) cs"

definition counter_clear :: "string \<Rightarrow> counter_store \<Rightarrow> counter_store" where
  "counter_clear rule_id cs = dict_pop rule_id cs"


section \<open>What the guard measures\<close>

text \<open>The reference for the score: the number of sources of backtracking that one way of matching meets. A variable
  quantifier and an alternation are a source each; the body of a fixed repetition is gone through twice.\<close>

inductive match_path :: "re_node list \<Rightarrow> nat \<Rightarrow> bool" and match_node :: "re_node \<Rightarrow> nat \<Rightarrow> bool" where
  path_Nil: "match_path [] 0"
| path_Cons: "match_node x a \<Longrightarrow> match_path xs b \<Longrightarrow> match_path (x # xs) (a + b)"
| node_atom: "match_node R_ATOM 0"
| node_groupref: "match_node R_GROUPREF 0"
| node_variable: "is_variable_repeat mn mx \<Longrightarrow> match_path sp a \<Longrightarrow> match_node (R_REPEAT mn mx sp) (1 + a)"
| node_twice: "\<not> is_variable_repeat mn mx \<Longrightarrow> repeats_at_least_twice mn mx \<Longrightarrow> match_path sp a \<Longrightarrow> match_path sp b \<Longrightarrow>
    match_node (R_REPEAT mn mx sp) (a + b)"
| node_once: "\<not> is_variable_repeat mn mx \<Longrightarrow> \<not> repeats_at_least_twice mn mx \<Longrightarrow> match_path sp a \<Longrightarrow> match_node (R_REPEAT mn mx sp) a"
| node_possessive: "match_path sp a \<Longrightarrow> match_node (R_POSSESSIVE_REPEAT mn mx sp) a"
| node_branch: "Some sp \<in> set bs \<Longrightarrow> match_path sp a \<Longrightarrow> match_node (R_BRANCH bs) (1 + a)"
| node_branch_empty: "\<forall>sp. Some sp \<notin> set bs \<Longrightarrow> match_node (R_BRANCH bs) 1"
| node_subpattern: "match_path sp a \<Longrightarrow> match_node (R_SUBPATTERN sp) a"
| node_atomic: "match_path sp a \<Longrightarrow> match_node (R_ATOMIC_GROUP sp) a"
| node_assert: "match_path sp a \<Longrightarrow> match_node (R_ASSERT sp) a"
| node_assert_not: "match_path sp a \<Longrightarrow> match_node (R_ASSERT_NOT sp) a"
| node_exists_yes: "match_path sp a \<Longrightarrow> match_node (R_GROUPREF_EXISTS sp no) a"
| node_exists_no: "match_path sp a \<Longrightarrow> match_node (R_GROUPREF_EXISTS yes (Some sp)) a"

definition node_score :: "re_node \<Rightarrow> nat" where
  "node_score x = ambiguity_score [x]"

lemma score_Cons: "ambiguity_score (x # xs) = node_score x + ambiguity_score xs"
  by (simp add: node_score_def)

lemma fold_max_ge: "x \<in> set xs \<Longrightarrow> x \<le> fold max xs (n :: nat)"
proof (induction xs arbitrary: n)
  case (Cons y ys)
  have "y \<le> fold max ys (max y n)" for y n :: nat
    by (induction ys arbitrary: n y) (auto, metis max.commute max.left_commute)
  with Cons show ?case by auto
qed simp

lemma fold_max_in: "fold max xs (n :: nat) = n \<or> fold max xs n \<in> set xs"
  by (induction xs arbitrary: n) (auto simp: max_def)

lemma set_map_filter_id: "set (List.map_filter id bs) = {sp. Some sp \<in> set bs}"
  by (force simp: List.map_filter_def)

lemma path_le_score:
  "match_path sp n \<Longrightarrow> n \<le> ambiguity_score sp" "match_node x n \<Longrightarrow> n \<le> node_score x"
proof (induction rule: match_path_match_node.inducts)
  case (node_branch sp bs a)
  have "ambiguity_score sp \<in> set (map ambiguity_score (List.map_filter id bs))"
    using node_branch(1) by (simp add: set_map_filter_id)
  from fold_max_ge [OF this, of 0] show ?case using node_branch(3) by (simp add: node_score_def)
qed (auto simp: node_score_def score_Cons split: option.split)

lemma path_score: "match_path sp (ambiguity_score sp)"
proof (induction "size_list size sp" arbitrary: sp rule: less_induct)
  case less
  show ?case
  proof (cases sp)
    case Nil
    then show ?thesis by (simp add: path_Nil)
  next
    case (Cons x xs)
    have xs: "match_path xs (ambiguity_score xs)" using less Cons by simp
    have ch: "match_path c (ambiguity_score c)" if "c \<in> set (child_subpatterns x)" for c
      using size_child [OF that] less Cons by simp
    have "match_node x (node_score x)"
    proof (cases x)
      case (R_REPEAT mn mx body)
      have b: "match_path body (ambiguity_score body)" using ch R_REPEAT by simp
      have "match_node (R_REPEAT mn mx body) (ambiguity_score body + ambiguity_score body)"
        if "\<not> is_variable_repeat mn mx" "repeats_at_least_twice mn mx" using node_twice [OF that b b] .
      then show ?thesis using b node_variable [OF _ b] node_once [OF _ _ b] R_REPEAT
        by (auto simp: node_score_def mult_2)
    next
      case (R_BRANCH bs)
      let ?m = "fold max (map ambiguity_score (List.map_filter id bs)) 0"
      show ?thesis
      proof (cases "\<exists>c. Some c \<in> set bs \<and> ?m = ambiguity_score c")
        case True
        then obtain c where c: "Some c \<in> set bs" "?m = ambiguity_score c" by blast
        have "match_path c (ambiguity_score c)" using ch R_BRANCH c(1) by (simp add: set_map_filter_id)
        from node_branch [OF c(1) this] show ?thesis using R_BRANCH c(2) by (simp add: node_score_def)
      next
        case False
        have none: "\<forall>c. Some c \<notin> set bs"
        proof (rule ccontr)
          assume "\<not> (\<forall>c. Some c \<notin> set bs)"
          then obtain c where c: "Some c \<in> set bs" by blast
          then have "ambiguity_score c \<le> ?m" by (intro fold_max_ge) (simp add: set_map_filter_id)
          moreover have "?m = 0 \<or> ?m \<in> ambiguity_score ` {sp. Some sp \<in> set bs}"
            using fold_max_in [of "map ambiguity_score (List.map_filter id bs)" 0] by (simp add: set_map_filter_id)
          ultimately show False using False c by auto
        qed
        then have "set (List.map_filter id bs) = {}" unfolding set_map_filter_id by blast
        then have "List.map_filter id bs = []" by simp
        then show ?thesis using node_branch_empty [OF none] R_BRANCH by (simp add: node_score_def)
      qed
    next
      case (R_GROUPREF_EXISTS yes no)
      show ?thesis
      proof (cases no)
        case None
        then show ?thesis using ch R_GROUPREF_EXISTS by (auto simp: node_score_def intro: node_exists_yes)
      next
        case (Some sp')
        have "match_path yes (ambiguity_score yes)" "match_path sp' (ambiguity_score sp')" using ch R_GROUPREF_EXISTS Some by auto
        then show ?thesis using R_GROUPREF_EXISTS Some
          by (auto simp: node_score_def max_def intro: node_exists_yes node_exists_no)
      qed
    qed (use ch in \<open>auto simp: node_score_def intro: match_path_match_node.intros\<close>)
    from path_Cons [OF this xs] show ?thesis using Cons by (simp only: score_Cons)
  qed
qed

text \<open>The score of the ReDoS guard is exact for its reference: no way of matching meets more sources of
  backtracking than the score says, and one meets that many. A pattern the guard lets through (score below 2)
  therefore never meets two of them.\<close>

theorem redos_score_exact:
  "Collect (match_path sp) \<subseteq> {..ambiguity_score sp} \<and> match_path sp (ambiguity_score sp)"
  using path_le_score(1) path_score by auto


section \<open>What the schema accepts\<close>

lemma require_Inr: "require c e k = Inr x \<longleftrightarrow> c \<and> k = Inr x"
  by (simp add: require_def)

lemma bind_err_Inr: "bind_err m f = Inr x \<longleftrightarrow> (\<exists>y. m = Inr y \<and> f y = Inr x)"
  by (simp add: bind_err_def split: sum.split)

lemma str_member_Inr: "str_member xs v e = Inr s \<longleftrightarrow> v = PStr s \<and> s \<in> set xs"
  by (induction xs v e rule: str_member.induct) auto

lemmas err_Inr = require_Inr bind_err_Inr str_member_Inr

definition handler_ok :: "ev_handler \<Rightarrow> bool" where
  "handler_ok h \<longleftrightarrow> (case hd_exec h of
      Some argv \<Rightarrow> hd_shell h = None \<and> [] \<notin> set argv
    | None \<Rightarrow> (case hd_shell h of None \<Rightarrow> False | Some cmd \<Rightarrow> cmd \<noteq> []))"

lemma nonempty_strs: "\<forall>x \<in> set xs. is_str x \<and> the_str x \<noteq> [] \<Longrightarrow> [] \<notin> the_str ` set xs"
  by (metis imageE)

lemma check_handler_ok: "check_handler v = Inr h \<Longrightarrow> handler_ok h"
  by (cases v) (auto simp: check_handler_def Let_def err_Inr handler_ok_def list_all_iff split: pyval.splits if_splits simp del: image_iff dest: nonempty_strs)

text \<open>The pattern that a rule on the backtracking engine carries went through the guard.\<close>

definition pattern_safe :: "re_lib \<Rightarrow> ev_pattern \<Rightarrow> bool" where
  "pattern_safe lib p \<longleftrightarrow> pt_pattern p \<noteq> [] \<and> pt_kind p \<in> set VALID_PATTERN_KIND \<and>
     (case flags_from_string (pt_flags p) 0 of Inl _ \<Rightarrow> False
      | Inr fl \<Rightarrow> pt_kind p = ''regex'' \<longrightarrow>
          length (pt_pattern p) \<le> REGEX_MAX_LEN \<and> rl_compiles lib (pt_pattern p) fl \<and>
          (rl_re2 lib (pt_pattern p) (pt_flags p) \<or>
           ambiguity_score (rl_parse lib (pt_pattern p) fl) \<le> 1 \<and> \<not> has_backref (rl_parse lib (pt_pattern p) fl)))"

lemma check_pattern_safe: "check_pattern lib render v = Inr p \<Longrightarrow> pattern_safe lib p"
  by (cases v) (auto simp: check_pattern_def Let_def err_Inr pattern_safe_def maybe_redos_suspicious_def split: if_splits)

lemma check_selectors_ok: "check_selectors v = Inr xs \<Longrightarrow> xs \<noteq> [] \<and> [] \<notin> set xs"
  by (cases v) (auto simp: check_selectors_def err_Inr list_all_iff dest: nonempty_strs)

text \<open>A rule that the schema accepts is well formed: its id is derived from owner and name, its enumerations are
  valid, its numbers are in range, its selectors are non-empty, it has exactly one kind of handler, and a
  regex that the backtracking engine will run meets at most one source of backtracking and no back reference.\<close>

theorem validate_sound:
  assumes "validate_rule_dict lib render v = Inr r"
  shows "ru_rule_id r = ru_owner r @ ''.'' @ ru_name r \<and> NAME_RE_match (ru_owner r) \<and> NAME_RE_match (ru_name r) \<and>
    ru_kind r \<in> set VALID_KIND \<and> ru_level r \<in> set VALID_LEVEL \<and> ru_scope r \<in> set VALID_SCOPE \<and>
    ru_selectors r \<noteq> [] \<and> [] \<notin> set (ru_selectors r) \<and>
    (case ru_max_fires r of None \<Rightarrow> True | Some n \<Rightarrow> 0 \<le> n) \<and> 0 \<le> ru_cooldown_ms r \<and> 0 < ru_timeout_ms r \<and>
    handler_ok (ru_handler r) \<and> pattern_safe lib (ru_pattern r) \<and> v = PDict (ru_raw r)"
proof (cases v)
  case (PDict obj)
  then show ?thesis using assms
    by (clarsimp simp: validate_rule_dict_def Let_def err_Inr check_handler_ok check_pattern_safe check_selectors_ok)
qed (use assms in \<open>simp_all add: validate_rule_dict_def\<close>)

definition sample_lib :: re_lib where
  "sample_lib = \<lparr>rl_compiles = (\<lambda>_ _. True), rl_re2 = (\<lambda>_ _. False), rl_parse = (\<lambda>_ _. [R_ATOM, R_REPEAT 1 MAXREPEAT [R_ATOM]])\<rparr>"

definition sample_obj :: "string \<Rightarrow> pyval \<Rightarrow> (pyval \<times> pyval) list" where
  "sample_obj owner handler = [(PStr ''schema_version'', PInt 1), (PStr ''owner'', PStr owner), (PStr ''name'', PStr ''panic''),
     (PStr ''kind'', PStr ''tool''), (PStr ''selectors'', PList [PStr ''COM0'']),
     (PStr ''pattern'', PDict [(PStr ''kind'', PStr ''regex''), (PStr ''value'', PStr ''Oops a+'')]),
     (PStr ''max_fires'', PInt 1), (PStr ''handler'', handler)]"

definition sample_rule :: "string \<Rightarrow> pyval \<Rightarrow> ev_handler \<Rightarrow> ev_rule" where
  "sample_rule owner handler h = \<lparr>ru_owner = owner, ru_name = ''panic'', ru_rule_id = owner @ ''.panic'', ru_kind = ''tool'',
     ru_selectors = [''COM0''], ru_profile = ''ALL'', ru_level = ''INFO'',
     ru_pattern = \<lparr>pt_kind = ''regex'', pt_pattern = ''Oops a+'', pt_flags = []\<rparr>, ru_scope = ''spontaneous'',
     ru_max_fires = Some 1, ru_cooldown_ms = 0, ru_timeout_ms = 10000, ru_handler = h, ru_auto_enable = True, ru_debug = False,
     ru_raw = sample_obj owner handler\<rparr>"

lemma sample_validates:
  assumes "NAME_RE_match owner" "owner \<noteq> []" "check_handler handler = Inr h"
  shows "validate_rule_dict sample_lib render (PDict (sample_obj owner handler)) = Inr (sample_rule owner handler h)"
  using assms
  by (simp add: validate_rule_dict_def Let_def sample_obj_def sample_rule_def obj_get_def obj_get_def_def eq_one_def or_empty_def require_def bind_err_def
      NAME_RE_match_def slug_def lower_alnum_def check_selectors_def check_pattern_def sample_lib_def VALID_KIND_def VALID_LEVEL_def
      VALID_PATTERN_KIND_def VALID_SCOPE_def REGEX_MAX_LEN_def maybe_redos_suspicious_def has_backref_def is_variable_repeat_def)


theorem validate_sound_witness:
  "handler_ok (ru_handler (sample_rule ''ops'' (PDict [(PStr ''shell'', PStr ''true'')]) \<lparr>hd_exec = None, hd_shell = Some ''true''\<rparr>))"
proof -
  have "NAME_RE_match ''ops''" by code_simp
  moreover have "check_handler (PDict [(PStr ''shell'', PStr ''true'')]) = Inr \<lparr>hd_exec = None, hd_shell = Some ''true''\<rparr>"
    by (simp add: check_handler_def Let_def obj_get_def require_def)
  ultimately have "validate_rule_dict sample_lib (\<lambda>_. []) (PDict (sample_obj ''ops'' (PDict [(PStr ''shell'', PStr ''true'')]))) =
      Inr (sample_rule ''ops'' (PDict [(PStr ''shell'', PStr ''true'')]) \<lparr>hd_exec = None, hd_shell = Some ''true''\<rparr>)"
    by (intro sample_validates) simp_all
  from validate_sound [OF this] show ?thesis by blast
qed

text \<open>The schema accepts an owner with a trailing newline (\<open>$\<close> matches before it), and the rule id it derives is one that
  \<open>valid_rule_id\<close> refuses: such a rule is stored and runs, and \<open>delete\<close> never removes it.\<close>

theorem schema_accepts_newline_owner:
  "\<exists>v r. validate_rule_dict sample_lib (\<lambda>_. []) v = Inr r \<and> ru_owner r = ''ops'' @ [CHR 0x0A] \<and>
     \<not> valid_rule_id (PStr (ru_rule_id r)) \<and> (\<forall>rg. rg_delete (PStr (ru_rule_id r)) rg = (False, rg))"
proof -
  let ?h = "\<lparr>hd_exec = None, hd_shell = Some ''true''\<rparr>" and ?j = "PDict [(PStr ''shell'', PStr ''true'')]"
  let ?o = "''ops'' @ [CHR 0x0A]"
  have "NAME_RE_match ?o" by code_simp
  moreover have "check_handler ?j = Inr ?h" by (simp add: check_handler_def Let_def obj_get_def require_def)
  ultimately have v: "validate_rule_dict sample_lib (\<lambda>_. []) (PDict (sample_obj ?o ?j)) = Inr (sample_rule ?o ?j ?h)"
    by (intro sample_validates) simp_all
  have "\<not> RULE_ID_RE_match (?o @ ''.panic'')" by code_simp
  then have "\<not> valid_rule_id (PStr (ru_rule_id (sample_rule ?o ?j ?h)))" by (simp add: valid_rule_id_def sample_rule_def)
  then show ?thesis using v by (intro exI [of _ "PDict (sample_obj ?o ?j)"] exI [of _ "sample_rule ?o ?j ?h"])
    (simp add: rg_delete_def, simp add: sample_rule_def)
qed

text \<open>The schema accepts a handler with an empty \<open>exec\<close> list beside a \<open>shell\<close> command: the exclusive-or looks at the
  truth of the two values, the branch that follows at \<open>is not None\<close>. The accepted rule has no command to run.\<close>

theorem schema_accepts_empty_exec:
  "\<exists>v r. validate_rule_dict sample_lib (\<lambda>_. []) v = Inr r \<and> hd_exec (ru_handler r) = Some [] \<and> hd_shell (ru_handler r) = None"
proof -
  let ?h = "\<lparr>hd_exec = Some [], hd_shell = None\<rparr>" and ?j = "PDict [(PStr ''exec'', PList []), (PStr ''shell'', PStr ''true'')]"
  have "NAME_RE_match ''ops''" by code_simp
  moreover have "check_handler ?j = Inr ?h" by (simp add: check_handler_def Let_def obj_get_def require_def)
  ultimately have "validate_rule_dict sample_lib (\<lambda>_. []) (PDict (sample_obj ''ops'' ?j)) = Inr (sample_rule ''ops'' ?j ?h)"
    by (intro sample_validates) simp_all
  then show ?thesis by (intro exI [of _ "PDict (sample_obj ''ops'' ?j)"] exI [of _ "sample_rule ''ops'' ?j ?h"])
    (simp add: sample_rule_def)
qed

section \<open>Registry and counters as stores\<close>

text \<open>What a client of a keyed store relies on.\<close>

locale keyed_store =
  fixes load :: "'k \<Rightarrow> 's \<Rightarrow> 'r" and save :: "'k \<Rightarrow> 'v \<Rightarrow> 's \<Rightarrow> 's" and clear :: "'k \<Rightarrow> 's \<Rightarrow> 's"
    and ret :: "'v \<Rightarrow> 'r" and dflt :: 'r
  assumes load_save: "load k (save k' v s) = (if k = k' then ret v else load k s)"
    and load_clear: "load k (clear k' s) = (if k = k' then dflt else load k s)"
begin

lemma load_fold_clear: "load k (fold clear ks s) = (if k \<in> set ks then dflt else load k s)"
  by (induction ks arbitrary: s) (auto simp: load_clear)

lemma save_idem: "load k (save k' v (save k' w s)) = load k (save k' v s)"
  by (simp add: load_save)

end

lemma counter_json: "counter_from_json (counter_to_json c) = Inr c"
  by (cases c) (simp add: counter_from_json_def counter_to_json_def obj_get_def obj_get_def_def bind_err_def split: option.split)

interpretation counters: keyed_store counter_load counter_save counter_clear Inr "Inr counter_zero"
  by unfold_locales (simp_all add: counter_load_def counter_save_def counter_clear_def counter_json)

text \<open>A counter survives its file: what \<open>save\<close> wrote \<open>load\<close> returns, for that rule alone, and a cleared counter is zero.\<close>

theorem counter_roundtrip:
  "counter_load k (counter_save k' c cs) = (if k = k' then Inr c else counter_load k cs) \<and>
   counter_load k (counter_clear k' cs) = (if k = k' then Inr counter_zero else counter_load k cs)"
  by (simp add: counters.load_save counters.load_clear)

lemma load_entries_in:
  assumes "(path, Some v) \<in> set entries" "ends_with ''.json'' path" "validate v = Inr r"
  shows "r \<in> set (ld_rules (load_entries validate entries))"
  using assms by (induction validate entries rule: load_entries.induct) (auto simp: Let_def split: option.splits sum.splits)

text \<open>The registry round trip: an accepted rule is returned by \<open>get\<close> and by the next \<open>load_all\<close> of any process on the same
  directory; after a delete that succeeds, \<open>get\<close> finds nothing.\<close>

theorem registry_roundtrip:
  assumes "dict_ok (rg_files rg)" "upsert lib render v rg = (Inr r, rg')"
  shows "rg_get lib render (ru_rule_id r) rg' = Get_rule r \<and> r \<in> set (ld_rules (load_all lib render rg')) \<and>
    (valid_rule_id (PStr (ru_rule_id r)) \<longrightarrow>
       (\<exists>rg''. rg_delete (PStr (ru_rule_id r)) rg' = (True, rg'') \<and> rg_get lib render (ru_rule_id r) rg'' = Get_none))"
proof -
  have v: "validate_rule_dict lib render v = Inr r" using assms(2) by (auto simp: upsert_def split: sum.splits)
  have raw: "v = PDict (ru_raw r)" using v
    by (cases v) (auto simp: validate_rule_dict_def Let_def err_Inr)
  have rg': "rg' = rg\<lparr>rg_files := dict_set (path_for (ru_rule_id r)) (Some v) (rg_files rg),
      rg_cache := dict_set (ru_rule_id r) r (rg_cache rg)\<rparr>"
    using assms(2) v raw by (simp add: upsert_def)
  have "(path_for (ru_rule_id r), Some v) \<in> set (rg_files rg')"
    using assms(1) by (simp add: rg' in_set_dict_set)
  then have "r \<in> set (ld_rules (load_all lib render rg'))"
    unfolding load_all_def by (intro load_entries_in [where v = v and path = "path_for (ru_rule_id r)"]) (simp_all add: path_for_def v)
  then show ?thesis by (simp add: rg' rg_get_def rg_delete_def)
qed

theorem registry_roundtrip_witness:
  "\<exists>r rg'. upsert sample_lib (\<lambda>_. []) (PDict (sample_obj ''ops'' (PDict [(PStr ''shell'', PStr ''true'')]))) \<lparr>rg_files = [], rg_cache = []\<rparr> = (Inr r, rg') \<and>
     rg_get sample_lib (\<lambda>_. []) ''ops.panic'' rg' = Get_rule r"
proof -
  let ?j = "PDict [(PStr ''shell'', PStr ''true'')]" and ?h = "\<lparr>hd_exec = None, hd_shell = Some ''true''\<rparr>"
  have "NAME_RE_match ''ops''" by code_simp
  moreover have "check_handler ?j = Inr ?h" by (simp add: check_handler_def Let_def obj_get_def require_def)
  ultimately have v: "validate_rule_dict sample_lib (\<lambda>_. []) (PDict (sample_obj ''ops'' ?j)) = Inr (sample_rule ''ops'' ?j ?h)"
    by (intro sample_validates) simp_all
  obtain rg' where u: "upsert sample_lib (\<lambda>_. []) (PDict (sample_obj ''ops'' ?j)) \<lparr>rg_files = [], rg_cache = []\<rparr> =
      (Inr (sample_rule ''ops'' ?j ?h), rg')"
    using v by (simp add: upsert_def)
  have "ru_rule_id (sample_rule ''ops'' ?j ?h) = ''ops.panic''" by (simp add: sample_rule_def)
  then show ?thesis using registry_roundtrip [OF _ u] u by auto
qed

end
