(* ===== verification/Event_Streams.thy ===== *)
theory Event_Streams
  imports Event_Rules "HOL-Library.Sublist"
begin

text \<open>
  The two byte-level ends of the event engine: the splitter of the received bytes into lines
  (\<open>sw_core/event_engine/line_buffer.py\<close>) and the rotating event log (\<open>event_log.py\<close>).
  The UTF-8 decoder and \<open>strip_ansi\<close> are the argument \<open>clean\<close> of \<open>lb_finalize\<close>.
\<close>

section \<open>Line buffer\<close>

abbreviation LF :: byte where "LF \<equiv> 0x0A"
abbreviation CR :: byte where "CR \<equiv> 0x0D"

definition lb_finalize :: "(byte list \<Rightarrow> string) \<Rightarrow> byte list \<times> bool \<Rightarrow> string" where
  "lb_finalize clean p = clean (fst p) @ (if snd p then '' ...truncated'' else [])"

text \<open>The loop of \<open>feed\<close> on the buffer: the chunks it emits, with the truncation mark, and what stays.\<close>

function lb_loop :: "nat \<Rightarrow> byte list \<Rightarrow> (byte list \<times> bool) list \<times> byte list" where
  "lb_loop mx buf =
     (if LF \<notin> set buf then
        (if mx < length buf then ([(take mx buf, True)], drop mx buf) else ([], buf))
      else
        let idx = length (takeWhile (\<lambda>b. b \<noteq> LF) buf);
            chunk = take idx buf;
            out = (if mx < idx then (take mx buf, True)
                   else (if chunk \<noteq> [] \<and> last chunk = CR then butlast chunk else chunk, False))
        in case lb_loop mx (drop (Suc idx) buf) of (outs, rest) \<Rightarrow> (out # outs, rest))"
  by pat_completeness auto
termination
  by (relation "measure (\<lambda>(mx, buf). length buf)") (auto intro: diff_less length_pos_if_in_set)

declare lb_loop.simps [simp del]

definition lb_feed :: "(byte list \<Rightarrow> string) \<Rightarrow> nat \<Rightarrow> byte list \<Rightarrow> byte list \<Rightarrow> string list \<times> byte list" where
  "lb_feed clean mx buf data =
     (case lb_loop mx (buf @ data) of (outs, rest) \<Rightarrow> (map (lb_finalize clean) outs, rest))"

section \<open>Event log\<close>

text \<open>The log file and its backups \<open>path.1\<close>, \<open>path.2\<close>, \dots as lists of encoded lines; \<open>None\<close> is a file that is not there.\<close>

record evlog =
  el_current :: "string list option"
  el_backups :: "(nat, string list) dict"

definition log_size :: "string list \<Rightarrow> nat" where
  "log_size ls = sum_list (map utf8_len ls)"

fun rotate_backups :: "nat \<Rightarrow> (nat, string list) dict \<Rightarrow> (nat, string list) dict" where
  "rotate_backups 0 bs = bs"
| "rotate_backups (Suc i) bs =
     rotate_backups i (case dict_get bs (Suc i) of None \<Rightarrow> bs
        | Some c \<Rightarrow> dict_set (Suc (Suc i)) c (dict_pop (Suc i) bs))"

definition rotate_if_needed :: "nat \<Rightarrow> nat \<Rightarrow> nat \<Rightarrow> evlog \<Rightarrow> evlog" where
  "rotate_if_needed rotate_bytes backup_count incoming l =
     (case el_current l of None \<Rightarrow> l
      | Some c \<Rightarrow>
          if log_size c + incoming \<le> rotate_bytes then l
          else \<lparr>el_current = None, el_backups = dict_set 1 c (rotate_backups (backup_count - 1) (el_backups l))\<rparr>)"

definition log_write :: "nat \<Rightarrow> nat \<Rightarrow> string \<Rightarrow> evlog \<Rightarrow> evlog" where
  "log_write rotate_bytes backup_count line l =
     (let l' = rotate_if_needed rotate_bytes backup_count (utf8_len line) l
      in l'\<lparr>el_current := Some (case el_current l' of None \<Rightarrow> [line] | Some c \<Rightarrow> c @ [line])\<rparr>)"

text \<open>\<open>out[-n:]\<close>\<close>

definition py_last_n :: "int \<Rightarrow> 'a list \<Rightarrow> 'a list" where
  "py_last_n n xs = (if 0 < n then drop (length xs - nat n) xs else drop (nat (- n)) xs)"

definition log_tail ::
  "(string \<Rightarrow> (pyval \<times> pyval) list option) \<Rightarrow> string option \<Rightarrow> string option \<Rightarrow> int option \<Rightarrow> int option \<Rightarrow> evlog \<Rightarrow> (pyval \<times> pyval) list list" where
  "log_tail parse rule_id selector since_ts n l =
     (let objs = List.map_filter parse (case el_current l of None \<Rightarrow> [] | Some c \<Rightarrow> c);
          out = filter (\<lambda>obj.
             (case rule_id of None \<Rightarrow> True | Some r \<Rightarrow> obj_get obj ''rule_id'' = PStr r) \<and>
             (case selector of None \<Rightarrow> True | Some s \<Rightarrow> obj_get obj ''selector'' = PStr s) \<and>
             (case since_ts of None \<Rightarrow> True | Some t \<Rightarrow> t \<le> the_int (obj_get_def obj ''ts'' (PInt 0)))) objs
      in case n of None \<Rightarrow> out | Some k \<Rightarrow> py_last_n k out)"


section \<open>Lines\<close>

text \<open>The reference: cut a byte stream at every LF.\<close>

fun lf_split :: "byte list \<Rightarrow> byte list list \<times> byte list" where
  "lf_split [] = ([], [])"
| "lf_split (b # bs) =
     (case lf_split bs of (ls, r) \<Rightarrow>
        if b = LF then ([] # ls, r) else (case ls of [] \<Rightarrow> ([], b # r) | l # ls' \<Rightarrow> ((b # l) # ls', r)))"

definition strip_cr :: "byte list \<Rightarrow> byte list" where
  "strip_cr l = (if l \<noteq> [] \<and> last l = CR then butlast l else l)"

definition short :: "nat \<Rightarrow> byte list list \<times> byte list \<Rightarrow> bool" where
  "short mx p \<longleftrightarrow> (\<forall>l \<in> set (fst p). length l \<le> mx) \<and> length (snd p) \<le> mx"

lemma lf_split_no_lf: "LF \<notin> set bs \<Longrightarrow> lf_split bs = ([], bs)"
  by (induction bs) auto

lemma lf_split_line: "LF \<notin> set l \<Longrightarrow> lf_split (l @ LF # bs) = (case lf_split bs of (ls, r) \<Rightarrow> (l # ls, r))"
  by (induction l) (auto split: prod.split)

lemma lb_loop_line:
  assumes "LF \<notin> set l" "length l \<le> mx"
  shows "lb_loop mx (l @ LF # rest) = (case lb_loop mx rest of (outs, r) \<Rightarrow> ((strip_cr l, False) # outs, r))"
proof -
  have "takeWhile (\<lambda>b. b \<noteq> LF) (l @ LF # rest) = l" using assms(1) by (simp add: takeWhile_append)
  then show ?thesis using assms(2) by (subst lb_loop.simps) (auto simp: Let_def strip_cr_def)
qed

lemma lb_loop_short:
  "short mx (lf_split buf) \<Longrightarrow>
   lb_loop mx buf = (map (\<lambda>l. (strip_cr l, False)) (fst (lf_split buf)), snd (lf_split buf))"
proof (induction "length buf" arbitrary: buf rule: less_induct)
  case less
  show ?case
  proof (cases "LF \<in> set buf")
    case False
    then show ?thesis using less.prems by (subst lb_loop.simps) (auto simp: lf_split_no_lf short_def)
  next
    case True
    then obtain l rest where buf: "buf = l @ LF # rest" "LF \<notin> set l" using split_list_first by metis
    have sp: "lf_split buf = (l # fst (lf_split rest), snd (lf_split rest))"
      by (simp add: buf lf_split_line split: prod.split)
    then have "lb_loop mx rest = (map (\<lambda>l. (strip_cr l, False)) (fst (lf_split rest)), snd (lf_split rest))"
      using less buf by (simp add: short_def)
    moreover have "length l \<le> mx" using less.prems sp by (simp add: short_def)
    ultimately show ?thesis using sp buf lb_loop_line by simp
  qed
qed

lemma lf_split_rest: "lf_split bs = (ls, r) \<Longrightarrow> LF \<notin> set r"
  by (induction bs arbitrary: ls r) (auto split: prod.splits if_splits list.splits)

lemma lf_split_append:
  "lf_split (xs @ ys) = (fst (lf_split xs) @ fst (lf_split (snd (lf_split xs) @ ys)), snd (lf_split (snd (lf_split xs) @ ys)))"
proof (induction xs)
  case (Cons b xs)
  obtain ls r where s: "lf_split xs = (ls, r)" by force
  obtain ls2 r2 where s2: "lf_split (r @ ys) = (ls2, r2)" by force
  show ?case using Cons s s2 by (cases ls) (auto split: list.splits)
qed simp

lemma lf_split_prepend:
  "LF \<notin> set r \<Longrightarrow> lf_split (r @ ys) =
     (case lf_split ys of ([], q) \<Rightarrow> ([], r @ q) | (l # ls, q) \<Rightarrow> ((r @ l) # ls, q))"
  by (induction r) (auto split: prod.splits list.splits)

lemma lf_split_prefix:
  assumes "LF \<notin> set r" "short mx (lf_split (r @ ys))"
  shows "length r \<le> mx"
  using assms by (auto simp: lf_split_prepend short_def split: prod.splits list.splits)

text \<open>The buffer fed with the chunks of a stream, one \<open>recv\<close> after the other.\<close>

fun lb_feeds :: "(byte list \<Rightarrow> string) \<Rightarrow> nat \<Rightarrow> byte list \<Rightarrow> byte list list \<Rightarrow> string list \<times> byte list" where
  "lb_feeds clean mx buf [] = ([], buf)"
| "lb_feeds clean mx buf (d # ds) =
     (case lb_feed clean mx buf d of (out, buf') \<Rightarrow>
        case lb_feeds clean mx buf' ds of (outs, rest) \<Rightarrow> (out @ outs, rest))"

lemma lb_feeds_short:
  "LF \<notin> set buf \<Longrightarrow> short mx (lf_split (buf @ concat chunks)) \<Longrightarrow>
   lb_feeds clean mx buf chunks =
     (map (\<lambda>l. clean (strip_cr l)) (fst (lf_split (buf @ concat chunks))), snd (lf_split (buf @ concat chunks)))"
proof (induction chunks arbitrary: buf)
  case Nil
  then show ?case by (simp add: lf_split_no_lf)
next
  case (Cons d ds)
  obtain l1 r1 where 1: "lf_split (buf @ d) = (l1, r1)" by force
  note app = lf_split_append [of "buf @ d" "concat ds", unfolded 1, simplified]
  have r1: "LF \<notin> set r1" using lf_split_rest [OF 1] .
  have sh: "short mx (lf_split (r1 @ concat ds))" "\<forall>l \<in> set l1. length l \<le> mx"
    using Cons.prems(2) by (auto simp: app short_def)
  have "short mx (l1, r1)" using sh lf_split_prefix [OF r1 sh(1)] by (simp add: short_def)
  then have "lb_feed clean mx buf d = (map (\<lambda>l. clean (strip_cr l)) l1, r1)"
    using lb_loop_short [of mx "buf @ d"] 1 by (simp add: lb_feed_def lb_finalize_def comp_def)
  then show ?case using Cons.IH [OF r1 sh(1)] by (simp add: app)
qed

text \<open>Lines of at most \<open>max_line_bytes\<close> bytes come out exactly as sent, without CR and LF, in order, however the stream is
  cut into reads; what stays in the buffer is the unfinished line.\<close>

theorem line_buffer_lines:
  assumes "short mx (lf_split (concat chunks))"
  shows "lb_feeds clean mx [] chunks =
     (map (\<lambda>l. clean (strip_cr l)) (fst (lf_split (concat chunks))), snd (lf_split (concat chunks)))"
  using lb_feeds_short [of "[]" mx chunks clean] assms by simp

theorem line_buffer_lines_witness:
  "lb_feeds (map (\<lambda>b. char_of (unat b))) 8 [] [[0x61, 0x62], [0x0D], [0x0A, 0x63]] = ([''ab''], [0x63])"
proof -
  have sp: "lf_split (concat [[0x61, 0x62], [0x0D], [0x0A, 0x63]]) = ([[0x61, 0x62, 0x0D]], [0x63 :: byte])" by simp
  then have "short 8 (lf_split (concat [[0x61, 0x62], [0x0D], [0x0A, 0x63 :: byte]]))" by (simp add: short_def)
  from line_buffer_lines [OF this] show ?thesis unfolding sp by (simp add: strip_cr_def) code_simp
qed

text \<open>A line longer than the maximum is cut once and the rest of it, up to its LF, is discarded, not matched in further
  pieces; and a buffer without LF is cut once per \<open>feed\<close>, so after a long read it still holds more than the maximum.\<close>

theorem oversized_line_discarded:
  assumes "LF \<notin> set l" "mx < length l"
  shows "lb_loop mx (l @ [LF]) = ([(take mx l, True)], []) \<and> lb_loop mx l = ([(take mx l, True)], drop mx l)"
proof -
  have "takeWhile (\<lambda>b. b \<noteq> LF) (l @ [LF]) = l" using assms(1) by (simp add: takeWhile_append)
  then show ?thesis using assms by (subst (1 2) lb_loop.simps) (simp add: Let_def lb_loop.simps [of mx "[]"])
qed

theorem oversized_line_discarded_witness:
  "lb_loop 2 [0x61, 0x62, 0x63, LF] = ([([0x61, 0x62], True)], [])"
  using oversized_line_discarded [of "[0x61, 0x62, 0x63]" 2] by simp

section \<open>Retention of the log\<close>

lemma rotate_backups_get:
  "dict_get (rotate_backups n bs) k =
     (if k = 0 \<or> Suc n < k then dict_get bs k
      else if k = 1 then (if n = 0 then dict_get bs 1 else None)
      else case dict_get bs (k - 1) of Some c \<Rightarrow> Some c | None \<Rightarrow> if k = Suc n then dict_get bs k else None)"
proof (induction n arbitrary: bs)
  case (Suc n)
  show ?case by (subst rotate_backups.simps, subst Suc.IH) (auto split: option.split)
qed (cases "k = 1"; auto)

definition log_ok :: "nat \<Rightarrow> evlog \<Rightarrow> bool" where
  "log_ok bc l \<longleftrightarrow> (\<exists>m \<le> bc. \<forall>k. (dict_get (el_backups l) k \<noteq> None) = (1 \<le> k \<and> k \<le> m))"

text \<open>All lines on disk, oldest first.\<close>

definition backup_lines :: "(nat, string list) dict \<Rightarrow> nat \<Rightarrow> string list" where
  "backup_lines bs k = (case dict_get bs k of None \<Rightarrow> [] | Some c \<Rightarrow> c)"

definition log_lines :: "nat \<Rightarrow> evlog \<Rightarrow> string list" where
  "log_lines bc l = concat (map (backup_lines (el_backups l)) (rev [1..<Suc bc])) @
     (case el_current l of None \<Rightarrow> [] | Some c \<Rightarrow> c)"


definition rotated :: "nat \<Rightarrow> string list \<Rightarrow> (nat, string list) dict \<Rightarrow> (nat, string list) dict" where
  "rotated bc c bs = dict_set 1 c (rotate_backups (bc - 1) bs)"

lemma rotated_get:
  assumes "1 \<le> bc" "m \<le> bc" "\<forall>k. (dict_get bs k \<noteq> None) = (1 \<le> k \<and> k \<le> m)"
  shows "dict_get (rotated bc c bs) k =
    (if k = 1 then Some c else if 1 \<le> k \<and> k \<le> bc then dict_get bs (k - 1) else None)"
proof -
  have none: "dict_get bs k = None" if "k = 0 \<or> m < k" for k using assms(3) [THEN spec, of k] that by auto
  have some: "dict_get bs k = None" if "dict_get bs (k - 1) = None" "k \<noteq> 1" "k \<noteq> 0"
    using assms(3) [THEN spec, of "k - 1"] that none [of k] by fastforce
  show ?thesis using assms(1,2) none [of k] none [of "k - 1"] some
    by (auto simp: rotated_def rotate_backups_get split: option.split)
qed

lemma rotated_ok:
  assumes "1 \<le> bc" "log_ok bc l"
  shows "log_ok bc \<lparr>el_current = x, el_backups = rotated bc c (el_backups l)\<rparr>"
proof -
  obtain m where m: "m \<le> bc" "\<forall>k. (dict_get (el_backups l) k \<noteq> None) = (1 \<le> k \<and> k \<le> m)"
    using assms(2) by (auto simp: log_ok_def)
  have "(dict_get (rotated bc c (el_backups l)) k \<noteq> None) = (1 \<le> k \<and> k \<le> min bc (Suc m))" for k
    using m(2) assms(1) by (auto simp: rotated_get [OF assms(1) m])
  then show ?thesis unfolding log_ok_def by (intro exI [of _ "min bc (Suc m)"]) auto
qed

lemma rotated_lines:
  assumes "1 \<le> bc" "log_ok bc l"
  shows "concat (map (backup_lines (rotated bc c (el_backups l))) (rev [1..<Suc bc])) =
    concat (map (backup_lines (el_backups l)) (rev [1..<bc])) @ c"
proof -
  obtain m where m: "m \<le> bc" "\<forall>k. (dict_get (el_backups l) k \<noteq> None) = (1 \<le> k \<and> k \<le> m)"
    using assms(2) by (auto simp: log_ok_def)
  note get = rotated_get [OF assms(1) m]
  have upt: "[1..<Suc bc] = 1 # map Suc [1..<bc]" using assms(1) by (simp add: map_Suc_upt upt_conv_Cons del: upt_Suc)
  have "backup_lines (rotated bc c (el_backups l)) (Suc k) = backup_lines (el_backups l) k" if "k \<in> set [1..<bc]" for k
    using that by (simp add: backup_lines_def get)
  then have tl: "map (backup_lines (rotated bc c (el_backups l)) \<circ> Suc) [1..<bc] = map (backup_lines (el_backups l)) [1..<bc]"
    by (intro map_cong) simp_all
  have "backup_lines (rotated bc c (el_backups l)) 1 = c" by (simp add: backup_lines_def get)
  then have "map (backup_lines (rotated bc c (el_backups l))) [1..<Suc bc] = c # map (backup_lines (el_backups l)) [1..<bc]"
    unfolding upt by (simp only: list.map map_map tl)
  then show ?thesis unfolding rev_map [symmetric] by (simp only: rev.simps concat_append) simp
qed

lemma log_write_suffix:
  assumes "1 \<le> bc" "log_ok bc l"
  shows "log_ok bc (log_write rb bc line l) \<and> suffix (log_lines bc (log_write rb bc line l)) (log_lines bc l @ [line]) \<and>
    (\<exists>ls. log_lines bc (log_write rb bc line l) = ls @ [line])"
proof -
  consider (keep) "rotate_if_needed rb bc (utf8_len line) l = l"
    | (rot) c where "el_current l = Some c"
        "rotate_if_needed rb bc (utf8_len line) l = \<lparr>el_current = None, el_backups = rotated bc c (el_backups l)\<rparr>"
    by (cases "el_current l"; cases "log_size (the (el_current l)) + utf8_len line \<le> rb")
      (auto simp: rotate_if_needed_def rotated_def)
  then show ?thesis
  proof cases
    case keep
    then show ?thesis using assms(2) by (auto simp: log_write_def log_ok_def log_lines_def split: option.split)
  next
    case rot
    have "[1..<Suc bc] = [1..<bc] @ [bc]" using assms(1) by simp
    then have "log_lines bc l = backup_lines (el_backups l) bc @ concat (map (backup_lines (el_backups l)) (rev [1..<bc])) @ c"
      using rot(1) by (simp add: log_lines_def)
    moreover have "log_lines bc (log_write rb bc line l) =
        concat (map (backup_lines (el_backups l)) (rev [1..<bc])) @ c @ [line]"
      using rotated_lines [OF assms] by (simp add: log_write_def rot(2) log_lines_def del: upt_Suc)
    moreover have "log_ok bc (log_write rb bc line l)"
      using rotated_ok [OF assms] by (simp add: log_write_def rot(2) log_ok_def)
    ultimately show ?thesis by (auto simp: suffix_def)
  qed
qed

definition log_empty :: evlog where
  "log_empty = \<lparr>el_current = None, el_backups = []\<rparr>"

lemma log_writes:
  assumes "1 \<le> bc"
  shows "log_ok bc (fold (log_write rb bc) lines log_empty) \<and>
    suffix (log_lines bc (fold (log_write rb bc) lines log_empty)) lines \<and>
    (lines \<noteq> [] \<longrightarrow> suffix [last lines] (log_lines bc (fold (log_write rb bc) lines log_empty)))"
proof (induction lines rule: rev_induct)
  case Nil
  have "backup_lines (el_backups log_empty) = (\<lambda>_. [])" by (rule ext) (simp add: log_empty_def backup_lines_def)
  moreover have "log_ok bc log_empty" unfolding log_ok_def by (intro exI [of _ 0]) (simp add: log_empty_def)
  ultimately show ?case by (simp add: log_lines_def) (simp add: log_empty_def)
next
  case (snoc line lines)
  let ?l = "fold (log_write rb bc) lines log_empty"
  note w = log_write_suffix [OF assms, of ?l rb line]
  have "suffix (log_lines bc ?l @ [line]) (lines @ [line])" using snoc by (auto simp: suffix_def)
  then show ?case using w snoc suffix_order.trans by (auto simp: suffix_def)
qed

text \<open>The event log forgets only from the old end: whatever is written, the lines on disk, oldest backup first, are a
  contiguous tail of everything written that ends with the last line, in at most \<open>backup_count\<close> backups.\<close>

theorem event_log_keeps_tail:
  assumes "1 \<le> bc" "lines \<noteq> []"
  shows "suffix (log_lines bc (fold (log_write rb bc) lines log_empty)) lines \<and>
    suffix [last lines] (log_lines bc (fold (log_write rb bc) lines log_empty)) \<and>
    (\<forall>k. k \<in> dict_keys (el_backups (fold (log_write rb bc) lines log_empty)) \<longrightarrow> 1 \<le> k \<and> k \<le> bc)"
proof -
  have "1 \<le> k \<and> k \<le> bc" if "k \<in> dict_keys (el_backups l)" "log_ok bc l" for k l
    using that dict_get_None_iff [of "el_backups l" k] unfolding log_ok_def by (metis le_trans)
  then show ?thesis using log_writes [OF assms(1), of rb lines] assms(2) by blast
qed

theorem event_log_keeps_tail_witness:
  "log_lines 1 (fold (log_write 3 1) [''aa'', ''bb'', ''cc''] log_empty) = [''bb'', ''cc''] \<and>
   suffix [''bb'', ''cc''] [''aa'', ''bb'', ''cc'']"
proof -
  have e: "log_lines 1 (fold (log_write 3 1) [''aa'', ''bb'', ''cc''] log_empty) = [''bb'', ''cc'']" by code_simp
  show ?thesis using event_log_keeps_tail [of 1 "[''aa'', ''bb'', ''cc'']" 3] e by simp
qed

end
