(* ===== verification/Event_Engine.thy ===== *)
theory Event_Engine
  imports Event_Streams
begin

text \<open>
  The event engine of \<open>sw_core/event_engine\<close>: the matcher with its bounded queue and its gates
  (\<open>matcher.py\<close>), the dispatcher that runs the handlers (\<open>dispatcher.py\<close>) and the engine that
  owns the rules, the counters and the set of enabled COMs (\<open>engine.py\<close>).

  The regex engines are the argument \<open>search\<close>, which maps a compiled pattern and a text to the first match.
  What the matcher reads from its context while it evaluates a rule (the clock, the active command and the
  profile of the COM) is the argument \<open>match_env\<close>. Every entry of the event log is an \<open>ev_event\<close>. The handler
  processes are outside: a handler run is begun and ended by operations of its own, with its outcome as argument.
\<close>

section \<open>Matching\<close>

record match_result =
  mr_text :: string
  mr_groups :: "string list"

type_synonym re_search = "ev_pattern \<Rightarrow> string \<Rightarrow> match_result option"

definition pattern_eval :: "re_lib \<Rightarrow> re_search \<Rightarrow> ev_pattern \<Rightarrow> string \<Rightarrow> match_result option" where
  "pattern_eval lib search p line =
     (if pt_kind p = ''regex'' \<and> \<not> rl_re2 lib (pt_pattern p) (pt_flags p)
      then search p (take REGEX_MATCH_INPUT_MAX line) else search p line)"

definition apply_cooldown :: "ev_rule \<Rightarrow> counter \<Rightarrow> int \<Rightarrow> bool" where
  "apply_cooldown rule c now_ms =
     (if ru_cooldown_ms rule \<le> 0 then True
      else case ct_last_fire_ts c of None \<Rightarrow> True | Some t \<Rightarrow> ru_cooldown_ms rule \<le> now_ms - t)"

definition apply_max_fires :: "ev_rule \<Rightarrow> counter \<Rightarrow> bool" where
  "apply_max_fires rule c =
     (case ru_max_fires rule of None \<Rightarrow> True
      | Some m \<Rightarrow> if ct_exhausted c then False else ct_fires c < m)"

definition apply_scope :: "ev_rule \<Rightarrow> string option \<Rightarrow> bool" where
  "apply_scope rule active =
     (if ru_scope rule = ''any'' then True
      else if ru_scope rule = ''spontaneous'' then active = None
      else if ru_scope rule = ''command_output'' then active \<noteq> None
      else False)"

definition apply_profile :: "ev_rule \<Rightarrow> string option \<Rightarrow> bool" where
  "apply_profile rule prof = (if ru_profile rule = ''ALL'' then True else prof = Some (ru_profile rule))"

record match_item =
  it_selector :: string
  it_line :: string
  it_wal_seq :: int

record match_env =
  me_now :: int
  me_active :: "string option"
  me_profile :: "string option"

record match_fire =
  fi_rule :: ev_rule
  fi_selector :: string
  fi_match :: match_result
  fi_wal_seq :: int
  fi_matched_at :: int
  fi_active_cmd_id :: "string option"

datatype ev_event =
    Match_recorded string string int string
  | Match_skipped string string string
  | Event_dropped string string string
  | Queue_dropped string int
  | Fire_failed string string
  | Fire_completed string string int int
  | Fire_timeout string string int
  | Rule_loaded string
  | Rule_load_failed string
  | Rule_unloaded string
  | Counter_reset string int string
  | Com_enabled string string
  | Com_disabled string

section \<open>Dispatcher and counters\<close>

text \<open>A run of a handler: the fire, and the fire count once \<open>_run_handler\<close> has read the counter.\<close>

record handler_run =
  hr_fire :: match_fire
  hr_new_fires :: "int option"

text \<open>The dispatcher, the counters and the log. \<open>dp_runs\<close> is the history of the handler runs handed to the executor,
  \<open>dp_raised\<close> of those that ended by an unexpected exception, without a counter update.\<close>

record disp =
  dp_max :: nat
  dp_busy :: "string list"
  dp_inflight :: nat
  dp_handlers :: "handler_run list"
  dp_counters :: counter_store
  dp_log :: "ev_event list"
  dp_runs :: "string list"
  dp_raised :: "string list"

abbreviation fire_id :: "match_fire \<Rightarrow> string" where
  "fire_id f \<equiv> ru_rule_id (fi_rule f)"

definition emit :: "ev_event \<Rightarrow> disp \<Rightarrow> disp" where
  "emit e d = d\<lparr>dp_log := dp_log d @ [e]\<rparr>"

definition release :: "string \<Rightarrow> disp \<Rightarrow> disp" where
  "release rid d = d\<lparr>dp_busy := set_discard rid (dp_busy d), dp_inflight := dp_inflight d - 1\<rparr>"

text \<open>\<open>submit_ok\<close>: whether \<open>executor.submit\<close> takes the run.\<close>

definition dispatch :: "bool \<Rightarrow> match_fire \<Rightarrow> disp \<Rightarrow> disp" where
  "dispatch submit_ok fire d =
     (if fire_id fire \<in> set (dp_busy d) then
        emit (Event_dropped ''per_rule_busy'' (fire_id fire) (fi_selector fire)) d
      else if dp_max d \<le> dp_inflight d then
        emit (Event_dropped ''per_daemon_saturated'' (fire_id fire) (fi_selector fire)) d
      else
        let d1 = d\<lparr>dp_busy := set_add (fire_id fire) (dp_busy d), dp_inflight := Suc (dp_inflight d)\<rparr> in
        if submit_ok then
          d1\<lparr>dp_handlers := \<lparr>hr_fire = fire, hr_new_fires = None\<rparr> # dp_handlers d1, dp_runs := fire_id fire # dp_runs d1\<rparr>
        else emit (Fire_failed (fire_id fire) (fi_selector fire)) (release (fire_id fire) d1))"

text \<open>The start of \<open>_run_handler\<close>: the counter is read. When the read raises, the run ends in the \<open>finally\<close> block.\<close>

definition handler_begin :: "handler_run \<Rightarrow> disp \<Rightarrow> disp" where
  "handler_begin h d =
     (case counter_load (fire_id (hr_fire h)) (dp_counters d) of
        Inl _ \<Rightarrow> release (fire_id (hr_fire h)) (d\<lparr>dp_handlers := remove1 h (dp_handlers d),
                    dp_raised := fire_id (hr_fire h) # dp_raised d\<rparr>)
      | Inr c \<Rightarrow> d\<lparr>dp_handlers := h\<lparr>hr_new_fires := Some (ct_fires c + 1)\<rparr> # remove1 h (dp_handlers d)\<rparr>)"

definition post_fire_counter_update :: "string \<Rightarrow> int \<Rightarrow> int \<Rightarrow> counter_store \<Rightarrow> schema_error + counter_store" where
  "post_fire_counter_update rid new_fires now cs =
     (case counter_load rid cs of
        Inl e \<Rightarrow> Inl e
      | Inr c \<Rightarrow> Inr (counter_save rid (c\<lparr>ct_fires := new_fires, ct_last_fire_ts := Some now\<rparr>) cs))"

datatype handler_outcome = Spawn_failed | Completed int | Timed_out | Handler_raised

definition outcome_event :: "handler_outcome \<Rightarrow> match_fire \<Rightarrow> int \<Rightarrow> ev_event option" where
  "outcome_event out fire n = (case out of
      Spawn_failed \<Rightarrow> Some (Fire_failed (fire_id fire) (fi_selector fire))
    | Completed code \<Rightarrow> Some (Fire_completed (fire_id fire) (fi_selector fire) code n)
    | Timed_out \<Rightarrow> Some (Fire_timeout (fire_id fire) (fi_selector fire) n)
    | Handler_raised \<Rightarrow> None)"

text \<open>The end of \<open>_run_handler\<close>: the event, the counter, the release of the slot.\<close>

definition handler_end :: "handler_run \<Rightarrow> int \<Rightarrow> handler_outcome \<Rightarrow> int \<Rightarrow> disp \<Rightarrow> disp" where
  "handler_end h n out now d =
     (let fire = hr_fire h;
          d1 = d\<lparr>dp_handlers := remove1 h (dp_handlers d)\<rparr>;
          d2 = (case outcome_event out fire n of None \<Rightarrow> d1 | Some e \<Rightarrow> emit e d1);
          failed = d2\<lparr>dp_raised := fire_id fire # dp_raised d2\<rparr>;
          d3 = (if out = Handler_raised then failed
                else case post_fire_counter_update (fire_id fire) n now (dp_counters d2) of
                  Inl _ \<Rightarrow> failed | Inr cs \<Rightarrow> d2\<lparr>dp_counters := cs\<rparr>)
      in release (fire_id fire) d3)"

text \<open>\<open>MatcherContextImpl.emit_fire\<close>; the result is \<open>False\<close> when reading the counter raises.\<close>

definition emit_fire :: "bool \<Rightarrow> match_fire \<Rightarrow> disp \<Rightarrow> disp \<times> bool" where
  "emit_fire submit_ok fire d =
     (let d1 = emit (Match_recorded (fire_id fire) (fi_selector fire) (fi_wal_seq fire) (mr_text (fi_match fire))) d in
      case counter_load (fire_id fire) (dp_counters d1) of
        Inl _ \<Rightarrow> (d1, False)
      | Inr c \<Rightarrow>
          let d2 = (case ru_max_fires (fi_rule fire) of None \<Rightarrow> d1
                    | Some m \<Rightarrow> if m \<le> ct_fires c + 1
                        then d1\<lparr>dp_counters := counter_save (fire_id fire) (c\<lparr>ct_exhausted := True\<rparr>) (dp_counters d1)\<rparr>
                        else d1)
          in (dispatch submit_ok fire d2, True))"

definition rule_applies :: "ev_rule \<Rightarrow> string \<Rightarrow> bool" where
  "rule_applies rule sel \<longleftrightarrow> ''ALL'' \<in> set (ru_selectors rule) \<or> sel \<in> set (ru_selectors rule)"

definition skip :: "ev_rule \<Rightarrow> match_item \<Rightarrow> string \<Rightarrow> disp \<Rightarrow> disp" where
  "skip rule item reason d =
     (if ru_debug rule then emit (Match_skipped (ru_rule_id rule) (it_selector item) reason) d else d)"

text \<open>One round of the loop of \<open>_evaluate\<close>; the result is \<open>False\<close> when the counter store raises, which drops the rest of
  the item.\<close>

definition evaluate_rule ::
  "re_lib \<Rightarrow> re_search \<Rightarrow> bool \<Rightarrow> match_env \<Rightarrow> match_item \<Rightarrow> ev_rule \<Rightarrow> disp \<Rightarrow> disp \<times> bool" where
  "evaluate_rule lib search submit_ok env item rule d =
     (if \<not> rule_applies rule (it_selector item) then (d, True)
      else case counter_load (ru_rule_id rule) (dp_counters d) of
        Inl _ \<Rightarrow> (d, False)
      | Inr c \<Rightarrow>
          (case pattern_eval lib search (ru_pattern rule) (it_line item) of
             None \<Rightarrow> (d, True)
           | Some m \<Rightarrow>
               if \<not> apply_scope rule (me_active env) then (skip rule item ''scope_mismatch'' d, True)
               else if \<not> apply_profile rule (me_profile env) then (skip rule item ''profile_mismatch'' d, True)
               else if \<not> apply_max_fires rule c then (skip rule item ''exhausted'' d, True)
               else if \<not> apply_cooldown rule c (me_now env) then (skip rule item ''cooldown'' d, True)
               else emit_fire submit_ok \<lparr>fi_rule = rule, fi_selector = it_selector item, fi_match = m,
                      fi_wal_seq = it_wal_seq item, fi_matched_at = me_now env, fi_active_cmd_id = me_active env\<rparr> d))"

fun evaluate ::
  "re_lib \<Rightarrow> re_search \<Rightarrow> (ev_rule \<Rightarrow> bool \<times> match_env) \<Rightarrow> match_item \<Rightarrow> ev_rule list \<Rightarrow> disp \<Rightarrow> disp" where
  "evaluate lib search env item [] d = d"
| "evaluate lib search env item (rule # rules) d =
     (case evaluate_rule lib search (fst (env rule)) (snd (env rule)) item rule d of
        (d', False) \<Rightarrow> d' | (d', True) \<Rightarrow> evaluate lib search env item rules d')"

section \<open>The queue of the matcher\<close>

text \<open>\<open>feed_line\<close>: a full queue gives up its oldest item.\<close>

definition queue_feed :: "nat \<Rightarrow> match_item \<Rightarrow> match_item list \<Rightarrow> match_item list \<times> match_item list" where
  "queue_feed queue_max item q =
     (if queue_max = 0 \<or> length q < queue_max then (q @ [item], [])
      else case q of
        [] \<Rightarrow> ([], [item])
      | old # rest \<Rightarrow> if length rest < queue_max then (rest @ [item], [old]) else (rest, [old, item]))"

section \<open>The engine\<close>

record engine =
  en_registry :: registry
  en_rules :: "ev_rule list"
  en_enabled :: "string list"
  en_queue :: "match_item list"
  en_queue_max :: nat
  en_started :: bool
  en_disp :: disp

definition en_emit :: "ev_event \<Rightarrow> engine \<Rightarrow> engine" where
  "en_emit ev e = e\<lparr>en_disp := emit ev (en_disp e)\<rparr>"

definition mark_com_enabled :: "string \<Rightarrow> string \<Rightarrow> engine \<Rightarrow> engine" where
  "mark_com_enabled triggered_by com e =
     (if com \<in> set (en_enabled e) then e
      else en_emit (Com_enabled com triggered_by) (e\<lparr>en_enabled := set_add com (en_enabled e)\<rparr>))"

definition enable_selectors :: "string list \<Rightarrow> string \<Rightarrow> ev_rule \<Rightarrow> engine \<Rightarrow> engine" where
  "enable_selectors known triggered_by rule e =
     (if ru_auto_enable rule
      then fold (\<lambda>sel. if sel = ''ALL'' then fold (mark_com_enabled triggered_by) known
                       else mark_com_enabled triggered_by sel) (ru_selectors rule) e
      else e)"

definition en_start :: "re_lib \<Rightarrow> (pyval \<Rightarrow> string) \<Rightarrow> string list \<Rightarrow> engine \<Rightarrow> engine" where
  "en_start lib render known e =
     (if en_started e then e
      else let load = load_all lib render (en_registry e);
               e1 = fold (\<lambda>(p, _). en_emit (Rule_load_failed p)) (ld_failed load) e;
               e2 = e1\<lparr>en_rules := ld_rules load\<rparr>;
               e3 = fold (\<lambda>r x. enable_selectors known ''auto'' r (en_emit (Rule_loaded (ru_rule_id r)) x)) (ld_rules load) e2
           in e3\<lparr>en_started := True, en_queue := []\<rparr>)"

definition en_stop :: "engine \<Rightarrow> engine" where
  "en_stop e = (if \<not> en_started e then e else e\<lparr>en_started := False, en_queue := []\<rparr>)"

definition en_feed_line :: "string \<Rightarrow> string \<Rightarrow> int \<Rightarrow> engine \<Rightarrow> engine" where
  "en_feed_line com line wal_seq e =
     (if com \<notin> set (en_enabled e) then e
      else if \<not> en_started e then e
      else case queue_feed (en_queue_max e) \<lparr>it_selector = com, it_line = line, it_wal_seq = wal_seq\<rparr> (en_queue e) of
        (q, dropped) \<Rightarrow> fold (\<lambda>i. en_emit (Queue_dropped (it_selector i) (it_wal_seq i))) dropped (e\<lparr>en_queue := q\<rparr>))"

definition en_match :: "re_lib \<Rightarrow> re_search \<Rightarrow> (ev_rule \<Rightarrow> bool \<times> match_env) \<Rightarrow> engine \<Rightarrow> engine" where
  "en_match lib search env e =
     (case en_queue e of [] \<Rightarrow> e
      | item # rest \<Rightarrow> e\<lparr>en_queue := rest, en_disp := evaluate lib search env item (en_rules e) (en_disp e)\<rparr>)"

definition rule_set :: "re_lib \<Rightarrow> (pyval \<Rightarrow> string) \<Rightarrow> string list \<Rightarrow> pyval \<Rightarrow> engine \<Rightarrow> (schema_error + ev_rule) \<times> engine" where
  "rule_set lib render known obj e =
     (case upsert lib render obj (en_registry e) of
        (Inl err, rg) \<Rightarrow> (Inl err, e\<lparr>en_registry := rg\<rparr>)
      | (Inr rule, rg) \<Rightarrow>
          (let e1 = e\<lparr>en_registry := rg, en_rules := filter (\<lambda>r. ru_rule_id r \<noteq> ru_rule_id rule) (en_rules e) @ [rule]\<rparr>;
               e2 = enable_selectors known ''rule_set'' rule e1
           in (Inr rule, en_emit (Rule_loaded (ru_rule_id rule)) e2)))"

definition with_counters :: "(counter_store \<Rightarrow> counter_store) \<Rightarrow> engine \<Rightarrow> engine" where
  "with_counters f e = e\<lparr>en_disp := (en_disp e)\<lparr>dp_counters := f (dp_counters (en_disp e))\<rparr>\<rparr>"

definition rule_delete :: "pyval \<Rightarrow> engine \<Rightarrow> bool \<times> engine" where
  "rule_delete rule_id e =
     (if \<not> valid_rule_id rule_id then (False, e)
      else case rg_delete rule_id (en_registry e) of
        (False, rg) \<Rightarrow> (False, e\<lparr>en_registry := rg\<rparr>)
      | (True, rg) \<Rightarrow>
          (True, en_emit (Rule_unloaded (the_str rule_id))
             (with_counters (counter_clear (the_str rule_id))
               (e\<lparr>en_registry := rg, en_rules := filter (\<lambda>r. ru_rule_id r \<noteq> the_str rule_id) (en_rules e)\<rparr>))))"

record rule_row =
  rr_rule_id :: string
  rr_owner :: string
  rr_kind :: string
  rr_selectors :: "string list"
  rr_counter :: "schema_error + counter"

definition rule_list :: "string option \<Rightarrow> string option \<Rightarrow> engine \<Rightarrow> rule_row list" where
  "rule_list selector owner e =
     map (\<lambda>r. \<lparr>rr_rule_id = ru_rule_id r, rr_owner = ru_owner r, rr_kind = ru_kind r, rr_selectors = ru_selectors r,
                rr_counter = counter_load (ru_rule_id r) (dp_counters (en_disp e))\<rparr>)
       (filter (\<lambda>r. (case selector of None \<Rightarrow> True | Some s \<Rightarrow> s \<in> set (ru_selectors r) \<or> ''ALL'' \<in> set (ru_selectors r)) \<and>
                    (case owner of None \<Rightarrow> True | Some w \<Rightarrow> ru_owner r = w)) (en_rules e))"

definition rule_get :: "string \<Rightarrow> engine \<Rightarrow> ((pyval \<times> pyval) list \<times> (schema_error + counter)) option" where
  "rule_get rule_id e =
     (case find (\<lambda>r. ru_rule_id r = rule_id) (en_rules e) of None \<Rightarrow> None
      | Some r \<Rightarrow> Some (ru_raw r, counter_load rule_id (dp_counters (en_disp e))))"

definition reload :: "re_lib \<Rightarrow> (pyval \<Rightarrow> string) \<Rightarrow> string list \<Rightarrow> engine \<Rightarrow> (string list \<times> string list \<times> string list) \<times> engine" where
  "reload lib render known e =
     (let diff = diff_against lib render (en_rules e) (en_registry e);
          load = load_all lib render (en_registry e);
          e1 = fold (\<lambda>(p, _). en_emit (Rule_load_failed p)) (ld_failed load) e;
          e2 = e1\<lparr>en_rules := ld_rules load\<rparr>;
          e3 = with_counters (fold counter_clear (map ru_rule_id (df_removed diff))) e2;
          e4 = fold (enable_selectors known ''reload'') (df_added diff) e3;
          e5 = fold (\<lambda>r. en_emit (Rule_loaded (ru_rule_id r))) (df_added diff) e4;
          e6 = fold (\<lambda>r. en_emit (Rule_unloaded (ru_rule_id r))) (df_removed diff) e5;
          e7 = fold (\<lambda>r. en_emit (Rule_loaded (ru_rule_id r))) (df_changed diff) e6
      in ((map ru_rule_id (df_added diff), map ru_rule_id (df_removed diff), map ru_rule_id (df_changed diff)), e7))"

record com_state =
  cs_enabled :: bool
  cs_active_rules :: "string list"

definition affected_rules :: "string \<Rightarrow> engine \<Rightarrow> string list" where
  "affected_rules com e = map ru_rule_id (filter (\<lambda>r. com \<in> set (ru_selectors r) \<or> ''ALL'' \<in> set (ru_selectors r)) (en_rules e))"

definition com_status :: "string \<Rightarrow> engine \<Rightarrow> com_state" where
  "com_status com e = \<lparr>cs_enabled = (com \<in> set (en_enabled e)), cs_active_rules = affected_rules com e\<rparr>"

definition com_enable :: "string \<Rightarrow> engine \<Rightarrow> com_state \<times> engine" where
  "com_enable com e = (let e1 = mark_com_enabled ''manual'' com e in (com_status com e1, e1))"

text \<open>The loop that reads, clears and reports counters; it stops where reading a counter raises.\<close>

fun reset_counters :: "string \<Rightarrow> string list \<Rightarrow> engine \<Rightarrow> engine \<times> bool" where
  "reset_counters by [] e = (e, True)"
| "reset_counters by (rid # rids) e =
     (case counter_load rid (dp_counters (en_disp e)) of
        Inl _ \<Rightarrow> (e, False)
      | Inr prev \<Rightarrow> reset_counters by rids
          (en_emit (Counter_reset rid (ct_fires prev) by) (with_counters (counter_clear rid) e)))"

definition com_disable :: "string \<Rightarrow> engine \<Rightarrow> com_state option \<times> engine" where
  "com_disable com e =
     (let e1 = e\<lparr>en_enabled := set_discard com (en_enabled e)\<rparr> in
      case reset_counters ''com_disable'' (affected_rules com e1) e1 of
        (e2, False) \<Rightarrow> (None, e2)
      | (e2, True) \<Rightarrow> let e3 = en_emit (Com_disabled com) e2 in (Some (com_status com e3), e3))"

definition en_reset :: "pyval option \<Rightarrow> string option \<Rightarrow> engine \<Rightarrow> nat option \<times> engine" where
  "en_reset rule_id selector e =
     (case rule_id of
        Some rid \<Rightarrow>
          if \<not> valid_rule_id rid then (Some 0, e)
          else (case reset_counters ''reset'' [the_str rid] e of (e1, ok) \<Rightarrow> (if ok then Some 1 else None, e1))
      | None \<Rightarrow>
          (let ids = (case selector of None \<Rightarrow> [] | Some sel \<Rightarrow> affected_rules sel e) in
           case reset_counters ''reset'' ids e of (e1, ok) \<Rightarrow> (if ok then Some (length ids) else None, e1)))"


section \<open>The machine of fires and handlers\<close>

abbreviation run_id :: "handler_run \<Rightarrow> string" where
  "run_id h \<equiv> fire_id (hr_fire h)"

text \<open>For a fixed set of rules: matches, starts and ends of handlers, in any interleaving.\<close>

inductive fire_step :: "re_lib \<Rightarrow> re_search \<Rightarrow> ev_rule list \<Rightarrow> disp \<Rightarrow> disp \<Rightarrow> bool"
  for lib :: re_lib and search :: re_search and rules :: "ev_rule list" where
  step_match: "rule \<in> set rules \<Longrightarrow> fire_step lib search rules d (fst (evaluate_rule lib search ok env item rule d))"
| step_handler_begin: "h \<in> set (dp_handlers d) \<Longrightarrow> hr_new_fires h = None \<Longrightarrow> fire_step lib search rules d (handler_begin h d)"
| step_handler_end: "h \<in> set (dp_handlers d) \<Longrightarrow> hr_new_fires h = Some n \<Longrightarrow>
    fire_step lib search rules d (handler_end h n out now d)"

definition disp_init :: "nat \<Rightarrow> disp" where
  "disp_init mx = \<lparr>dp_max = mx, dp_busy = [], dp_inflight = 0, dp_handlers = [], dp_counters = [], dp_log = [],
     dp_runs = [], dp_raised = []\<rparr>"

definition fires :: "counter_store \<Rightarrow> string \<Rightarrow> int" where
  "fires cs rid = (case counter_load rid cs of Inl _ \<Rightarrow> 0 | Inr c \<Rightarrow> ct_fires c)"

definition all_load :: "counter_store \<Rightarrow> bool" where
  "all_load cs \<longleftrightarrow> (\<forall>rid. \<exists>c. counter_load rid cs = Inr c)"

definition slots_ok :: "disp \<Rightarrow> bool" where
  "slots_ok d \<longleftrightarrow> distinct (map run_id (dp_handlers d)) \<and> set (dp_busy d) = run_id ` set (dp_handlers d) \<and>
     dp_inflight d = length (dp_handlers d) \<and> dp_inflight d \<le> dp_max d"

definition counts_ok :: "disp \<Rightarrow> bool" where
  "counts_ok d \<longleftrightarrow> all_load (dp_counters d) \<and>
     (\<forall>rid. int (count_list (dp_runs d) rid) =
        fires (dp_counters d) rid + of_bool (rid \<in> set (dp_busy d)) + int (count_list (dp_raised d) rid)) \<and>
     (\<forall>h \<in> set (dp_handlers d). \<forall>n. hr_new_fires h = Some n \<longrightarrow> n = fires (dp_counters d) (run_id h) + 1)"

definition within_max :: "ev_rule list \<Rightarrow> disp \<Rightarrow> bool" where
  "within_max rules d \<longleftrightarrow> (\<forall>rule \<in> set rules. \<forall>m. ru_max_fires rule = Some m \<longrightarrow>
     fires (dp_counters d) (ru_rule_id rule) + of_bool (ru_rule_id rule \<in> set (dp_busy d)) \<le> max 0 m)"

definition fire_inv :: "ev_rule list \<Rightarrow> disp \<Rightarrow> bool" where
  "fire_inv rules d \<longleftrightarrow> slots_ok d \<and> counts_ok d \<and> within_max rules d"

lemmas fire_inv_defs = fire_inv_def slots_ok_def counts_ok_def within_max_def

lemma fire_inv_emit [simp]: "fire_inv rules (emit e d) = fire_inv rules d"
  by (simp add: fire_inv_defs emit_def)

lemma fire_inv_skip [simp]: "fire_inv rules (skip rule item reason d) = fire_inv rules d"
  by (simp add: skip_def)

lemma fires_save: "fires (counter_save rid c cs) k = (if k = rid then ct_fires c else fires cs k)"
  by (simp add: fires_def counters.load_save)

lemma all_load_save: "all_load cs \<Longrightarrow> all_load (counter_save rid c cs)"
  by (simp add: all_load_def counters.load_save)

lemma fires_exhaust: "counter_load rid cs = Inr c \<Longrightarrow> fires (counter_save rid (c\<lparr>ct_exhausted := True\<rparr>) cs) = fires cs"
  by (rule ext) (simp add: fires_def counters.load_save)

lemma fire_inv_loads: "fire_inv rules d \<Longrightarrow> \<exists>c. counter_load rid (dp_counters d) = Inr c"
  by (simp add: fire_inv_defs all_load_def)

lemma fire_inv_cong:
  assumes "dp_max t = dp_max d" "dp_busy t = dp_busy d" "dp_inflight t = dp_inflight d" "dp_handlers t = dp_handlers d"
    "dp_runs t = dp_runs d" "dp_raised t = dp_raised d" "fires (dp_counters t) = fires (dp_counters d)"
    "all_load (dp_counters t) \<longleftrightarrow> all_load (dp_counters d)"
  shows "fire_inv rules t \<longleftrightarrow> fire_inv rules d"
  unfolding fire_inv_defs assms ..

lemma fire_inv_exhaust:
  assumes "fire_inv rules d" "counter_load rid (dp_counters d) = Inr c"
  shows "fire_inv rules (d\<lparr>dp_counters := counter_save rid (c\<lparr>ct_exhausted := True\<rparr>) (dp_counters d)\<rparr>)"
proof -
  have "all_load (dp_counters d)" using assms(1) by (simp add: fire_inv_defs)
  then have "all_load (counter_save rid (c\<lparr>ct_exhausted := True\<rparr>) (dp_counters d))" by (rule all_load_save)
  then have "fire_inv rules (d\<lparr>dp_counters := counter_save rid (c\<lparr>ct_exhausted := True\<rparr>) (dp_counters d)\<rparr>) \<longleftrightarrow> fire_inv rules d"
    using \<open>all_load (dp_counters d)\<close> fires_exhaust [OF assms(2)] by (intro fire_inv_cong) simp_all
  then show ?thesis using assms(1) by simp
qed

lemma fire_inv_busy: "set b = set (dp_busy d) \<Longrightarrow> fire_inv rules (d\<lparr>dp_busy := b\<rparr>) = fire_inv rules d"
  by (simp add: fire_inv_defs)

lemma fire_inv_dispatch:
  assumes "fire_inv rules d"
    and room: "\<And>rule m. rule \<in> set rules \<Longrightarrow> ru_rule_id rule = fire_id fire \<Longrightarrow> ru_max_fires rule = Some m \<Longrightarrow>
      fires (dp_counters d) (fire_id fire) + 1 \<le> max 0 m"
  shows "fire_inv rules (dispatch ok fire d)"
proof (cases "fire_id fire \<in> set (dp_busy d) \<or> dp_max d \<le> dp_inflight d")
  case True
  then show ?thesis using assms(1) by (auto simp: dispatch_def)
next
  case False
  show ?thesis
  proof (cases ok)
    case True
    have "within_max rules (dispatch ok fire d)"
      using assms room False True by (auto simp: fire_inv_def within_max_def dispatch_def Let_def)
    moreover have "slots_ok (dispatch ok fire d)" "counts_ok (dispatch ok fire d)"
      using assms(1) False True by (auto simp: fire_inv_defs dispatch_def Let_def)
    ultimately show ?thesis by (simp add: fire_inv_def)
  next
    case False
    have "dispatch ok fire d = emit (Fire_failed (fire_id fire) (fi_selector fire)) (d\<lparr>dp_busy := set_discard (fire_id fire) (set_add (fire_id fire) (dp_busy d))\<rparr>)"
      using False \<open>\<not> (fire_id fire \<in> set (dp_busy d) \<or> dp_max d \<le> dp_inflight d)\<close>
      by (simp add: dispatch_def release_def Let_def)
    moreover have "set (set_discard (fire_id fire) (set_add (fire_id fire) (dp_busy d))) = set (dp_busy d)"
      using \<open>\<not> (fire_id fire \<in> set (dp_busy d) \<or> dp_max d \<le> dp_inflight d)\<close> by auto
    ultimately show ?thesis using assms(1) fire_inv_busy by simp
  qed
qed

lemma fire_inv_emit_fire:
  assumes inv: "fire_inv rules d"
    and room: "\<And>rule m. rule \<in> set rules \<Longrightarrow> ru_rule_id rule = fire_id fire \<Longrightarrow> ru_max_fires rule = Some m \<Longrightarrow>
      fires (dp_counters d) (fire_id fire) + 1 \<le> max 0 m"
  shows "fire_inv rules (fst (emit_fire ok fire d))"
proof -
  let ?d1 = "emit (Match_recorded (fire_id fire) (fi_selector fire) (fi_wal_seq fire) (mr_text (fi_match fire))) d"
  have inv1: "fire_inv rules ?d1" using inv by simp
  show ?thesis
  proof (cases "counter_load (fire_id fire) (dp_counters ?d1)")
    case (Inl e)
    then show ?thesis using inv1 by (simp add: emit_fire_def Let_def)
  next
    case (Inr c)
    let ?d2 = "?d1\<lparr>dp_counters := counter_save (fire_id fire) (c\<lparr>ct_exhausted := True\<rparr>) (dp_counters ?d1)\<rparr>"
    have inv2: "fire_inv rules ?d2" by (rule fire_inv_exhaust [OF inv1 Inr])
    have f1: "fires (dp_counters ?d1) = fires (dp_counters d)" by (simp add: emit_def)
    have f2: "fires (dp_counters ?d2) = fires (dp_counters d)" using fires_exhaust [OF Inr] by (simp add: emit_def)
    have "fire_inv rules (dispatch ok fire ?d1)" by (rule fire_inv_dispatch [OF inv1]) (simp only: f1 room)
    moreover have "fire_inv rules (dispatch ok fire ?d2)" by (rule fire_inv_dispatch [OF inv2]) (simp only: f2 room)
    ultimately show ?thesis using Inr by (auto simp: emit_fire_def Let_def split: option.split)
  qed
qed

lemma fire_inv_match:
  assumes inv: "fire_inv rules d" and rule: "rule \<in> set rules" "distinct (map ru_rule_id rules)"
  shows "fire_inv rules (fst (evaluate_rule lib search ok env item rule d))"
proof (cases "counter_load (ru_rule_id rule) (dp_counters d)")
  case (Inl e)
  then show ?thesis using inv by (simp add: evaluate_rule_def)
next
  case (Inr c)
  have room: "fires (dp_counters d) (ru_rule_id rule) + 1 \<le> max 0 m"
    if "apply_max_fires rule c" "r \<in> set rules" "ru_rule_id r = ru_rule_id rule" "ru_max_fires r = Some m" for r m
  proof -
    have "r = rule" using that(2,3) rule by (auto simp: distinct_map inj_on_def)
    then show ?thesis using that(1,4) Inr by (auto simp: apply_max_fires_def fires_def split: if_splits)
  qed
  then show ?thesis using inv Inr
    by (auto simp: evaluate_rule_def split: option.split intro!: fire_inv_emit_fire)
qed


lemma slots_release:
  assumes "slots_ok d" "h \<in> set (dp_handlers d)"
  shows "slots_ok (release (run_id h) (d\<lparr>dp_handlers := remove1 h (dp_handlers d)\<rparr>))"
    "set (dp_busy (release (run_id h) d)) = set (dp_busy d) - {run_id h}"
proof -
  have d: "distinct (dp_handlers d)" using assms(1) by (auto simp: slots_ok_def distinct_map)
  have "run_id ` set (remove1 h (dp_handlers d)) = run_id ` set (dp_handlers d) - {run_id h}"
    using assms d by (auto simp: slots_ok_def distinct_map inj_on_def)
  then show "slots_ok (release (run_id h) (d\<lparr>dp_handlers := remove1 h (dp_handlers d)\<rparr>))"
    using assms d by (auto simp: slots_ok_def release_def length_remove1 distinct_map distinct_remove1
        intro: inj_on_subset dest: length_pos_if_in_set)
  show "set (dp_busy (release (run_id h) d)) = set (dp_busy d) - {run_id h}" by (simp add: release_def)
qed

text \<open>The end of a run: the slot is free again, and the run is either counted as a fire or noted as raised.\<close>

lemma fire_inv_end:
  assumes inv: "fire_inv rules d" and h: "h \<in> set (dp_handlers d)"
    and counted: "(r = [] \<and> all_load cs \<and> fires cs = (fires (dp_counters d)) (run_id h := fires (dp_counters d) (run_id h) + 1)) \<or>
      (r = [run_id h] \<and> cs = dp_counters d)"
  shows "fire_inv rules (release (run_id h) (d\<lparr>dp_handlers := remove1 h (dp_handlers d), dp_counters := cs,
     dp_raised := r @ dp_raised d\<rparr>))"
    (is "fire_inv rules ?t")
proof -
  let ?rid = "run_id h"
  have sl: "slots_ok d" and co: "counts_ok d" and wi: "within_max rules d" using inv by (simp_all add: fire_inv_def)
  have busy: "?rid \<in> set (dp_busy d)" using sl h by (auto simp: slots_ok_def)
  have other: "run_id k \<noteq> ?rid" if "k \<in> set (remove1 h (dp_handlers d))" for k
  proof
    assume "run_id k = ?rid"
    moreover have "k \<in> set (dp_handlers d)" "k \<noteq> h"
      using that sl set_remove1_subset by (auto simp: slots_ok_def distinct_map)
    ultimately show False using sl h by (auto simp: slots_ok_def distinct_map inj_on_def)
  qed
  have "slots_ok ?t" using slots_release(1) [OF sl h] by (simp add: slots_ok_def release_def)
  moreover have f: "fires cs k + of_bool (k \<in> set (dp_busy d) - {?rid}) + int (count_list r k) =
      fires (dp_counters d) k + of_bool (k \<in> set (dp_busy d))" for k
    using counted busy by auto
  moreover have "counts_ok ?t" unfolding counts_ok_def
  proof (intro conjI allI ballI impI)
    show "all_load (dp_counters ?t)" using counted co by (auto simp: release_def counts_ok_def)
    show "int (count_list (dp_runs ?t) k) = fires (dp_counters ?t) k + of_bool (k \<in> set (dp_busy ?t)) + int (count_list (dp_raised ?t) k)" for k
      using f [of k] co by (simp add: release_def counts_ok_def count_list_append)
    show "n = fires (dp_counters ?t) (run_id k) + 1" if "k \<in> set (dp_handlers ?t)" "hr_new_fires k = Some n" for k n
    proof -
      have "k \<in> set (remove1 h (dp_handlers d))" using that(1) by (simp add: release_def)
      then show ?thesis using other [of k] that(2) co counted set_remove1_subset [of h "dp_handlers d"]
        by (auto simp: counts_ok_def release_def)
    qed
  qed
  moreover have "within_max rules ?t" unfolding within_max_def
  proof (intro ballI allI impI)
    fix rule m assume "rule \<in> set rules" "ru_max_fires rule = Some m"
    then show "fires (dp_counters ?t) (ru_rule_id rule) + of_bool (ru_rule_id rule \<in> set (dp_busy ?t)) \<le> max 0 m"
      using wi f [of "ru_rule_id rule"] by (fastforce simp: release_def within_max_def)
  qed
  ultimately show ?thesis by (simp add: fire_inv_def)
qed

lemma fire_inv_begin:
  assumes inv: "fire_inv rules d" and h: "h \<in> set (dp_handlers d)"
  shows "fire_inv rules (handler_begin h d)"
proof -
  obtain c where c: "counter_load (run_id h) (dp_counters d) = Inr c" using fire_inv_loads [OF inv] by blast
  have d: "distinct (dp_handlers d)" using inv by (auto simp: fire_inv_defs distinct_map)
  let ?h = "h\<lparr>hr_new_fires := Some (ct_fires c + 1)\<rparr>"
  have "run_id ` set (?h # remove1 h (dp_handlers d)) = run_id ` set (dp_handlers d)" using h d by auto
  moreover have "run_id h \<notin> run_id ` set (remove1 h (dp_handlers d))"
    using inv h d by (auto simp: fire_inv_defs distinct_map inj_on_def)
  moreover have "distinct (map run_id (remove1 h (dp_handlers d)))"
    using inv by (auto simp: fire_inv_defs distinct_map distinct_remove1 intro: inj_on_subset)
  moreover have "length (dp_handlers d) = Suc (length (remove1 h (dp_handlers d)))"
    using h length_pos_if_in_set [OF h] by (simp add: length_remove1)
  ultimately have "slots_ok (handler_begin h d)" using inv c by (simp add: handler_begin_def fire_inv_defs)
  moreover have "counts_ok (handler_begin h d)" "within_max rules (handler_begin h d)"
    using inv c set_remove1_subset [of h "dp_handlers d"] by (auto simp: handler_begin_def fire_inv_defs fires_def)
  ultimately show ?thesis by (simp add: fire_inv_def)
qed

lemma fire_inv_handler_end:
  assumes inv: "fire_inv rules d" and h: "h \<in> set (dp_handlers d)" "hr_new_fires h = Some n"
  shows "fire_inv rules (handler_end h n out now d)"
proof -
  let ?rid = "run_id h"
  obtain c where c: "counter_load ?rid (dp_counters d) = Inr c" using fire_inv_loads [OF inv] by blast
  define cs where "cs = counter_save ?rid (c\<lparr>ct_fires := n, ct_last_fire_ts := Some now\<rparr>) (dp_counters d)"
  have n: "n = fires (dp_counters d) ?rid + 1" using inv h by (auto simp: fire_inv_defs)
  have ok: "fires cs = (fires (dp_counters d)) (?rid := fires (dp_counters d) ?rid + 1)"
    by (intro ext) (simp add: cs_def fires_save n)
  have "all_load cs" using inv all_load_save by (auto simp: cs_def fire_inv_defs)
  have counted: "fire_inv rules (release ?rid (d\<lparr>dp_handlers := remove1 h (dp_handlers d), dp_counters := cs, dp_raised := [] @ dp_raised d\<rparr>))"
    using ok \<open>all_load cs\<close> by (intro fire_inv_end [OF inv h(1)]) blast
  have raised: "fire_inv rules (release ?rid (d\<lparr>dp_handlers := remove1 h (dp_handlers d), dp_counters := dp_counters d,
      dp_raised := [?rid] @ dp_raised d\<rparr>))"
    by (intro fire_inv_end [OF inv h(1)]) blast
  show ?thesis
  proof (cases "out = Handler_raised")
    case True
    then show ?thesis by (intro fire_inv_cong [THEN iffD2, OF _ _ _ _ _ _ _ _ raised])
      (simp_all add: handler_end_def Let_def outcome_event_def release_def)
  next
    case False
    then show ?thesis by (intro fire_inv_cong [THEN iffD2, OF _ _ _ _ _ _ _ _ counted])
      (cases out; simp add: handler_end_def Let_def outcome_event_def release_def emit_def post_fire_counter_update_def c cs_def)+
  qed
qed

definition rules_distinct :: "ev_rule list \<Rightarrow> bool" where
  "rules_distinct rules \<longleftrightarrow> distinct (map ru_rule_id rules)"

text \<open>The rules of an engine with distinct ids; a machine with two rules of one id would share their counter.\<close>

interpretation fire_machine: inductive_invariant
  "\<lambda>d. \<exists>mx. d = disp_init mx" "\<lambda>d t. rules_distinct rules \<and> fire_step lib search rules d t" "fire_inv rules"
  for lib search rules
proof
  show "\<exists>mx. d = disp_init mx \<Longrightarrow> fire_inv rules d" for d
    by (auto simp: disp_init_def fire_inv_defs all_load_def fires_def counter_load_def counter_zero_def)
  show "fire_inv rules d \<Longrightarrow> rules_distinct rules \<and> fire_step lib search rules d t \<Longrightarrow> fire_inv rules t" for d t
    by (auto elim!: fire_step.cases simp: rules_distinct_def intro: fire_inv_match fire_inv_begin fire_inv_handler_end)
qed

abbreviation fire_reach :: "re_lib \<Rightarrow> re_search \<Rightarrow> ev_rule list \<Rightarrow> disp \<Rightarrow> bool" where
  "fire_reach lib search rules \<equiv>
     reach (\<lambda>d. \<exists>mx. d = disp_init mx) (\<lambda>d t. rules_distinct rules \<and> fire_step lib search rules d t)"


section \<open>Properties\<close>


definition run_rule :: ev_rule where
  "run_rule = sample_rule ''ops'' (PDict [(PStr ''shell'', PStr ''true'')]) \<lparr>hd_exec = None, hd_shell = Some ''true''\<rparr>"

definition run_search :: re_search where
  "run_search p line = Some \<lparr>mr_text = line, mr_groups = []\<rparr>"

definition run_item :: match_item where
  "run_item = \<lparr>it_selector = ''COM0'', it_line = ''Oops a'', it_wal_seq = 1\<rparr>"

definition run_env :: match_env where
  "run_env = \<lparr>me_now = 5, me_active = None, me_profile = None\<rparr>"

definition run_fired :: "nat \<Rightarrow> disp" where
  "run_fired mx = fst (evaluate_rule sample_lib run_search True run_env run_item run_rule (disp_init mx))"

lemmas run_fire_defs = run_fired_def evaluate_rule_def rule_applies_def run_rule_def sample_rule_def run_item_def run_env_def run_search_def REGEX_MATCH_INPUT_MAX_def
  disp_init_def counter_load_def counter_zero_def pattern_eval_def sample_lib_def apply_scope_def apply_profile_def apply_max_fires_def
  apply_cooldown_def emit_fire_def Let_def emit_def dispatch_def set_add_def counter_save_def counter_to_json_def


lemma dispatch_runs:
  "dp_runs (dispatch ok fire d) = (if fire_id fire \<notin> set (dp_busy d) \<and> dp_inflight d < dp_max d \<and> ok
     then fire_id fire # dp_runs d else dp_runs d)"
  by (auto simp: dispatch_def Let_def emit_def release_def)

lemma emit_fire_runs:
  "dp_runs (fst (emit_fire ok fire d)) \<noteq> dp_runs d \<Longrightarrow>
   dp_runs (fst (emit_fire ok fire d)) = fire_id fire # dp_runs d \<and> fire_id fire \<notin> set (dp_busy d) \<and> dp_inflight d < dp_max d"
  by (cases "counter_load (fire_id fire) (dp_counters d)")
    (auto simp: emit_fire_def Let_def dispatch_runs emit_def split: option.splits if_splits)



text \<open>A fire that the dispatcher drops still uses up the rule: with \<open>max_fires\<close> at its last fire, \<open>emit_fire\<close> marks the counter
  exhausted before it knows whether the handler starts, so the handler never runs although \<open>fires\<close> stays below the limit.\<close>

theorem dropped_fire_exhausts:
  assumes "counter_load (fire_id fire) (dp_counters d) = Inr c" "ru_max_fires (fi_rule fire) = Some (ct_fires c + 1)"
    "dp_max d \<le> dp_inflight d"
  shows "dp_runs (fst (emit_fire ok fire d)) = dp_runs d \<and>
    counter_load (fire_id fire) (dp_counters (fst (emit_fire ok fire d))) = Inr (c\<lparr>ct_exhausted := True\<rparr>) \<and>
    (\<forall>c'. c' = c\<lparr>ct_exhausted := True\<rparr> \<longrightarrow> \<not> apply_max_fires (fi_rule fire) c')"
proof -
  have cs: "dp_counters (dispatch ok fire x) = dp_counters x" for x
    by (simp add: dispatch_def Let_def emit_def release_def)
  show ?thesis using assms
    by (simp add: emit_fire_def Let_def dispatch_runs cs emit_def counters.load_save apply_max_fires_def)
qed

theorem dropped_fire_exhausts_witness:
  "dp_runs (run_fired 0) = [] \<and>
   counter_load ''ops.panic'' (dp_counters (run_fired 0)) = Inr (counter_zero\<lparr>ct_exhausted := True\<rparr>)"
proof -
  let ?fire = "\<lparr>fi_rule = run_rule, fi_selector = ''COM0'', fi_match = \<lparr>mr_text = ''Oops a'', mr_groups = []\<rparr>,
      fi_wal_seq = 1, fi_matched_at = 5, fi_active_cmd_id = None\<rparr>"
  have e: "run_fired 0 = fst (emit_fire True ?fire (disp_init 0))"
    unfolding run_fired_def by (simp add: run_fire_defs)
  have "counter_load (fire_id ?fire) (dp_counters (disp_init 0)) = Inr counter_zero" by (simp add: disp_init_def counter_load_def)
  from dropped_fire_exhausts [OF this, of True] show ?thesis unfolding e
    by (simp add: disp_init_def run_rule_def sample_rule_def counter_zero_def)
qed

end
