(* ===== verification/Json.thy ===== *)
theory Json
  imports Prelude
begin

text \<open>
  JSON text as the program writes and reads it. \<open>dumps_stable\<close> (\<open>sw_core/util.py\<close>) is
  \<open>json.dumps(obj, ensure_ascii=False, sort_keys=True, separators=(",", ":"))\<close>; \<open>loads\<close> is \<open>json.loads\<close> of the
  standard library, with \<open>None\<close> for \<open>JSONDecodeError\<close>. A JSON object is an association list with string keys.
  The texts are strings of code points below U+0100; a file holds their UTF-8 bytes (\<open>utf8_encode\<close>), and
  \<open>utf8_decode\<close> reads them with \<open>errors="replace"\<close>, where \<open>?\<close> stands for every code point the model has not.
\<close>

datatype json =
    JNull
  | JBool bool
  | JInt int
  | JFloat rat
  | JNonFinite string
  | JStr string
  | JList "json list"
  | JObj "(string \<times> json) list"

section \<open>Printing\<close>

definition hex_digit :: "nat \<Rightarrow> char" where
  "hex_digit d = (if d < 10 then char_of (48 + d) else char_of (87 + d))"

definition escape_char :: "char \<Rightarrow> string" where
  "escape_char c = (let n = of_char c :: nat in
     if n = 34 then [CHR 0x5C, CHR 0x22] else if n = 92 then [CHR 0x5C, CHR 0x5C]
     else if n = 10 then [CHR 0x5C, CHR ''n''] else if n = 13 then [CHR 0x5C, CHR ''r'']
     else if n = 9 then [CHR 0x5C, CHR ''t''] else if n = 12 then [CHR 0x5C, CHR ''f'']
     else if n = 8 then [CHR 0x5C, CHR ''b'']
     else if n < 32 then [CHR 0x5C, CHR ''u'', CHR ''0'', CHR ''0'', hex_digit (n div 16), hex_digit (n mod 16)]
     else [c])"

definition json_str :: "string \<Rightarrow> string" where
  "json_str s = CHR 0x22 # concat (map escape_char s) @ [CHR 0x22]"

fun join :: "string \<Rightarrow> string list \<Rightarrow> string" where
  "join sep [] = []"
| "join sep [x] = x"
| "join sep (x # y # zs) = x @ sep @ join sep (y # zs)"

definition member_text :: "string \<times> string \<Rightarrow> string" where
  "member_text m = json_str (fst m) @ CHR '':'' # snd m"

text \<open>\<open>float.__repr__\<close> is the argument \<open>fl\<close>.\<close>

fun dumps_stable :: "(rat \<Rightarrow> string) \<Rightarrow> json \<Rightarrow> string" where
  "dumps_stable fl JNull = ''null''"
| "dumps_stable fl (JBool b) = (if b then ''true'' else ''false'')"
| "dumps_stable fl (JInt i) = show_int i"
| "dumps_stable fl (JFloat x) = fl x"
| "dumps_stable fl (JNonFinite s) = s"
| "dumps_stable fl (JStr s) = json_str s"
| "dumps_stable fl (JList vs) = ''['' @ join '','' (map (dumps_stable fl) vs) @ '']''"
| "dumps_stable fl (JObj d) =
     ''{'' @ join '','' (map member_text (sort_key fst (map (\<lambda>(k, v). (k, dumps_stable fl v)) d))) @ ''}''"

section \<open>Reading\<close>

definition json_ws :: "char \<Rightarrow> bool" where
  "json_ws c \<longleftrightarrow> c \<in> {CHR '' '', CHR 0x09, CHR 0x0A, CHR 0x0D}"

definition skip_ws :: "string \<Rightarrow> string" where
  "skip_ws s = dropWhile json_ws s"

definition is_dec :: "char \<Rightarrow> bool" where
  "is_dec c \<longleftrightarrow> 48 \<le> (of_char c :: nat) \<and> (of_char c :: nat) \<le> 57"

definition dec_val :: "char \<Rightarrow> nat" where
  "dec_val c = of_char c - 48"

definition read_nat :: "string \<Rightarrow> nat" where
  "read_nat s = foldl (\<lambda>a c. 10 * a + dec_val c) 0 s"

definition hex_val :: "char \<Rightarrow> nat option" where
  "hex_val c = (let n = of_char c :: nat in
     if 48 \<le> n \<and> n \<le> 57 then Some (n - 48) else if 97 \<le> n \<and> n \<le> 102 then Some (n - 87)
     else if 65 \<le> n \<and> n \<le> 70 then Some (n - 55) else None)"

definition code_char :: "nat \<Rightarrow> char" where
  "code_char n = (if n < 256 then char_of n else CHR ''?'')"

fun read_hex4 :: "string \<Rightarrow> (nat \<times> string) option" where
  "read_hex4 (a # b # c # d # r) =
     (case (hex_val a, hex_val b, hex_val c, hex_val d) of
        (Some p, Some q, Some s, Some t) \<Rightarrow> Some (((p * 16 + q) * 16 + s) * 16 + t, r)
      | _ \<Rightarrow> None)"
| "read_hex4 _ = None"

definition simple_escape :: "char \<Rightarrow> char option" where
  "simple_escape c = (
     if c = CHR 0x22 then Some (CHR 0x22) else if c = CHR 0x5C then Some (CHR 0x5C) else if c = CHR ''/'' then Some (CHR ''/'')
     else if c = CHR ''b'' then Some (CHR 0x08) else if c = CHR ''f'' then Some (CHR 0x0C) else if c = CHR ''n'' then Some (CHR 0x0A)
     else if c = CHR ''r'' then Some (CHR 0x0D) else if c = CHR ''t'' then Some (CHR 0x09) else None)"

text \<open>The rest of a string literal, after its opening quote: its value and what follows the closing quote. The first
  argument is fuel, at least the length of the text.\<close>

fun read_str :: "nat \<Rightarrow> string \<Rightarrow> (string \<times> string) option" where
  "read_str 0 s = None"
| "read_str (Suc n) [] = None"
| "read_str (Suc n) (c # r) =
     (if c = CHR 0x22 then Some ([], r)
      else if c = CHR 0x5C then
        (case r of [] \<Rightarrow> None
         | e # r' \<Rightarrow>
             (case simple_escape e of
                Some x \<Rightarrow> map_option (\<lambda>(s, t). (x # s, t)) (read_str n r')
              | None \<Rightarrow>
                  if e = CHR ''u'' then
                    (case read_hex4 r' of None \<Rightarrow> None
                     | Some (k, r'') \<Rightarrow> map_option (\<lambda>(s, t). (code_char k # s, t)) (read_str n r''))
                  else None))
      else if (of_char c :: nat) < 32 then None
      else map_option (\<lambda>(s, t). (c # s, t)) (read_str n r))"

text \<open>\<open>-?(0|[1-9][0-9]*)\<close>, then an optional fraction and exponent.\<close>

definition read_int_part :: "string \<Rightarrow> (string \<times> string) option" where
  "read_int_part s = (case s of [] \<Rightarrow> None
     | c # r \<Rightarrow> if c = CHR ''0'' then Some (''0'', r)
               else if is_dec c then Some (takeWhile is_dec s, dropWhile is_dec s) else None)"

definition read_frac :: "string \<Rightarrow> string \<times> string" where
  "read_frac s = (case s of c # d # r \<Rightarrow>
       if c = CHR ''.'' \<and> is_dec d then (takeWhile is_dec (d # r), dropWhile is_dec (d # r)) else ([], s)
     | _ \<Rightarrow> ([], s))"

definition read_exp :: "string \<Rightarrow> int option \<times> string" where
  "read_exp s = (case s of [] \<Rightarrow> (None, s)
     | c # r \<Rightarrow> if c \<noteq> CHR ''e'' \<and> c \<noteq> CHR ''E'' then (None, s)
       else let (neg, r') = (case r of x # r2 \<Rightarrow> if x = CHR ''-'' then (True, r2) else if x = CHR ''+'' then (False, r2) else (False, r)
                             | [] \<Rightarrow> (False, r));
                ds = takeWhile is_dec r'
            in if ds = [] then (None, s)
               else (Some (if neg then - int (read_nat ds) else int (read_nat ds)), dropWhile is_dec r'))"

definition ten_pow :: "int \<Rightarrow> rat" where
  "ten_pow e = (if 0 \<le> e then 10 ^ nat e else 1 / 10 ^ nat (- e))"

definition read_number :: "string \<Rightarrow> (json \<times> string) option" where
  "read_number s =
     (let (neg, s1) = (case s of c # r \<Rightarrow> if c = CHR ''-'' then (True, r) else (False, s) | [] \<Rightarrow> (False, s)) in
      case read_int_part s1 of None \<Rightarrow> None
      | Some (ds, s2) \<Rightarrow>
          let (fs, s3) = read_frac s2; (ex, s4) = read_exp s3 in
          if fs = [] \<and> ex = None then Some (JInt (if neg then - int (read_nat ds) else int (read_nat ds)), s2)
          else let m = of_nat (read_nat (ds @ fs)) / 10 ^ length fs * ten_pow (case ex of None \<Rightarrow> 0 | Some e \<Rightarrow> e)
               in Some (JFloat (if neg then - m else m), s4))"

definition read_word :: "string \<Rightarrow> json \<Rightarrow> string \<Rightarrow> (json \<times> string) option" where
  "read_word w v s = (if starts_with w s then Some (v, drop (length w) s) else None)"

definition first_of :: "'a option \<Rightarrow> 'a option \<Rightarrow> 'a option" where
  "first_of a b = (case a of None \<Rightarrow> b | Some x \<Rightarrow> Some x)"

definition read_const :: "string \<Rightarrow> (json \<times> string) option" where
  "read_const s = first_of (read_word ''null'' JNull s) (first_of (read_word ''true'' (JBool True) s)
     (first_of (read_word ''false'' (JBool False) s) (first_of (read_number s) (first_of (read_word ''NaN'' (JNonFinite ''NaN'') s)
     (first_of (read_word ''Infinity'' (JNonFinite ''Infinity'') s) (read_word ''-Infinity'' (JNonFinite ''-Infinity'') s))))))"

text \<open>A value, the elements of a list and the members of an object. The first argument is fuel: every call of a value consumes at
  least one character, so the length of the text is enough.\<close>

fun read_value :: "nat \<Rightarrow> string \<Rightarrow> (json \<times> string) option"
  and read_elements :: "nat \<Rightarrow> string \<Rightarrow> (json list \<times> string) option"
  and read_members :: "nat \<Rightarrow> string \<Rightarrow> ((string \<times> json) list \<times> string) option" where
  "read_value 0 s = None"
| "read_value (Suc n) s = (case s of [] \<Rightarrow> None
     | c # r \<Rightarrow>
         if c = CHR 0x22 then map_option (\<lambda>(x, t). (JStr x, t)) (read_str (length r) r)
         else if c = CHR ''['' then
           (case skip_ws r of [] \<Rightarrow> None
            | d # r' \<Rightarrow> if d = CHR '']'' then Some (JList [], r')
                       else map_option (\<lambda>(vs, t). (JList vs, t)) (read_elements n (d # r')))
         else if c = CHR ''{'' then
           (case skip_ws r of [] \<Rightarrow> None
            | d # r' \<Rightarrow> if d = CHR ''}'' then Some (JObj [], r')
                       else map_option (\<lambda>(ms, t). (JObj (foldl (\<lambda>d (k, v). dict_set k v d) [] ms), t)) (read_members n (d # r')))
         else read_const s)"
| "read_elements 0 s = None"
| "read_elements (Suc n) s =
     (case read_value n s of None \<Rightarrow> None
      | Some (v, t) \<Rightarrow>
          (case skip_ws t of [] \<Rightarrow> None
           | d # r \<Rightarrow> if d = CHR '']'' then Some ([v], r)
                     else if d = CHR '','' then map_option (\<lambda>(vs, t). (v # vs, t)) (read_elements n (skip_ws r))
                     else None))"
| "read_members 0 s = None"
| "read_members (Suc n) s =
     (case s of [] \<Rightarrow> None
      | q # r \<Rightarrow>
          if q \<noteq> CHR 0x22 then None
          else (case read_str (length r) r of None \<Rightarrow> None
            | Some (k, t) \<Rightarrow>
                (case skip_ws t of [] \<Rightarrow> None
                 | d # r1 \<Rightarrow>
                     if d \<noteq> CHR '':'' then None
                     else (case read_value n (skip_ws r1) of None \<Rightarrow> None
                       | Some (v, t1) \<Rightarrow>
                           (case skip_ws t1 of [] \<Rightarrow> None
                            | e # r2 \<Rightarrow>
                                if e = CHR ''}'' then Some ([(k, v)], r2)
                                else if e = CHR '','' then map_option (\<lambda>(ms, t). ((k, v) # ms, t)) (read_members n (skip_ws r2))
                                else None)))))"

definition loads :: "string \<Rightarrow> json option" where
  "loads s = (case read_value (Suc (length s)) (skip_ws s) of
     Some (v, r) \<Rightarrow> if skip_ws r = [] then Some v else None | None \<Rightarrow> None)"

section \<open>UTF-8\<close>

definition utf8_char :: "char \<Rightarrow> byte list" where
  "utf8_char c = (let n = of_char c :: nat in
     if n < 128 then [of_nat n] else [of_nat (192 + n div 64), of_nat (128 + n mod 64)])"

definition utf8_encode :: "string \<Rightarrow> byte list" where
  "utf8_encode s = concat (map utf8_char s)"

text \<open>How many continuation bytes a lead byte asks for; \<open>None\<close> for a byte that cannot start a sequence.\<close>

definition utf8_lead :: "byte \<Rightarrow> nat option" where
  "utf8_lead b = (if b < 0x80 then Some 0 else if b < 0xC2 then None else if b < 0xE0 then Some 1
     else if b < 0xF0 then Some 2 else if b < 0xF5 then Some 3 else None)"

fun utf8_decode :: "byte list \<Rightarrow> string" where
  "utf8_decode [] = []"
| "utf8_decode (b # bs) =
     (case utf8_lead b of
        Some 0 \<Rightarrow> char_of (unat b) # utf8_decode bs
      | Some (Suc k) \<Rightarrow>
          (let cont = takeWhile (\<lambda>x. 0x80 \<le> x \<and> x < 0xC0) (take (Suc k) bs) in
           (if length cont = Suc k \<and> k = 0 then code_char ((unat b - 192) * 64 + (unat (hd cont) - 128)) else CHR ''?'')
             # utf8_decode (drop (length cont) bs))
      | None \<Rightarrow> CHR ''?'' # utf8_decode bs)"


section \<open>What is printed is read back\<close>

text \<open>The values without floats whose objects have distinct keys, and the value as \<open>sort_keys\<close> orders it.\<close>

fun json_plain :: "json \<Rightarrow> bool" where
  "json_plain (JFloat _) = False"
| "json_plain (JNonFinite _) = False"
| "json_plain (JList vs) = list_all json_plain vs"
| "json_plain (JObj d) = (dict_ok d \<and> list_all (\<lambda>(k, v). json_plain v) d)"
| "json_plain _ = True"

fun canon :: "json \<Rightarrow> json" where
  "canon (JList vs) = JList (map canon vs)"
| "canon (JObj d) = JObj (sort_key fst (map (\<lambda>(k, v). (k, canon v)) d))"
| "canon v = v"

lemma show_nat_ne [simp]: "show_nat n \<noteq> []"
  by (subst show_nat.simps) simp

lemma is_dec_digit [simp]: "d < 10 \<Longrightarrow> is_dec (dec_digit d)"
  by (simp add: is_dec_def dec_digit_def)

lemma dec_val_digit [simp]: "d < 10 \<Longrightarrow> dec_val (dec_digit d) = d"
  by (simp add: dec_val_def dec_digit_def)

lemma dec_digit_zero [simp]: "d < 10 \<Longrightarrow> dec_digit d = CHR ''0'' \<longleftrightarrow> d = 0"
proof -
  assume d: "d < 10"
  have "dec_digit d = CHR ''0'' \<longleftrightarrow> (of_char (dec_digit d) :: nat) = of_char (CHR ''0'')"
    by (simp only: of_char_eq_iff)
  also have "\<dots> \<longleftrightarrow> d = 0" using d by (simp add: dec_digit_def)
  finally show ?thesis .
qed

lemma dec_digit_0 [simp]: "dec_digit 0 = CHR ''0''"
  by simp

lemma show_nat_dec: "list_all is_dec (show_nat n)"
  by (induction n rule: show_nat.induct) (subst show_nat.simps, simp)

lemma read_nat_snoc: "read_nat (s @ [c]) = 10 * read_nat s + dec_val c"
  by (simp add: read_nat_def)

lemma read_show_nat [simp]: "read_nat (show_nat n) = n"
proof (induction n rule: show_nat.induct)
  case (1 n)
  then show ?case
    by (subst show_nat.simps) (auto simp: read_nat_snoc, simp add: read_nat_def)
qed

lemma show_nat_hd: "0 < n \<Longrightarrow> hd (show_nat n) \<noteq> CHR ''0''"
proof (induction n rule: show_nat.induct)
  case (1 n)
  show ?case
  proof (cases "n < 10")
    case True
    then show ?thesis using "1.prems" by (simp add: show_nat.simps [of n])
  next
    case False
    then show ?thesis using "1.IH" by (subst show_nat.simps) (simp add: hd_append)
  qed
qed

text \<open>What may follow a number without becoming part of it.\<close>

definition ends_number :: "string \<Rightarrow> bool" where
  "ends_number r \<longleftrightarrow> r = [] \<or> \<not> is_dec (hd r) \<and> hd r \<notin> {CHR ''.'', CHR ''e'', CHR ''E''}"

lemma read_int_part_show: "ends_number r \<Longrightarrow> read_int_part (show_nat n @ r) = Some (show_nat n, r)"
proof -
  assume r: "ends_number r"
  show ?thesis
  proof (cases "n = 0")
    case True
    then show ?thesis by (simp add: show_nat.simps [of 0] read_int_part_def)
  next
    case False
    obtain c cs where e: "show_nat n = c # cs" by (cases "show_nat n") auto
    have c: "c \<noteq> CHR ''0''" using show_nat_hd [of n] False e by simp
    have d: "list_all is_dec (c # cs)" using show_nat_dec [of n] e by simp
    have t: "takeWhile is_dec (cs @ r) = cs" "dropWhile is_dec (cs @ r) = r"
      using d r by (auto simp: ends_number_def list_all_iff takeWhile_append dropWhile_append takeWhile_eq_all_conv
          dropWhile_eq_Nil_conv split: list.splits) (cases r; simp)+
    show ?thesis using c d t by (simp add: read_int_part_def e)
  qed
qed

lemma read_frac_ends: "ends_number r \<Longrightarrow> read_frac r = ([], r)"
  by (auto simp: read_frac_def ends_number_def split: list.splits)

lemma read_exp_ends: "ends_number r \<Longrightarrow> read_exp r = (None, r)"
  by (auto simp: read_exp_def ends_number_def split: list.splits)

lemma show_nat_Cons: "\<exists>c cs. show_nat n = c # cs \<and> is_dec c"
  using show_nat_dec [of n] by (cases "show_nat n") auto

lemma read_number_show: "ends_number r \<Longrightarrow> read_number (show_int i @ r) = Some (JInt i, r)"
proof -
  assume r: "ends_number r"
  show ?thesis
  proof (cases "i < 0")
    case True
    then show ?thesis
      by (simp add: show_int_def read_number_def read_int_part_show [OF r] read_frac_ends [OF r] read_exp_ends [OF r])
  next
    case False
    obtain c cs where e: "show_nat (nat i) = c # cs" and c: "is_dec c" using show_nat_Cons by blast
    have m: "c \<noteq> CHR ''-''" using c by (auto simp: is_dec_def)
    have "read_int_part (c # cs @ r) = Some (c # cs, r)" "read_nat (c # cs) = nat i"
      using read_int_part_show [OF r, of "nat i"] read_show_nat [of "nat i"] e by simp_all
    with m False show ?thesis
      by (simp add: show_int_def read_number_def e read_frac_ends [OF r] read_exp_ends [OF r])
  qed
qed


lemma hex_val_digit [simp]: "d < 16 \<Longrightarrow> hex_val (hex_digit d) = Some d"
  by (simp add: hex_val_def hex_digit_def)

lemma hex_val_0 [simp]: "hex_val (CHR ''0'') = Some 0"
  by (simp add: hex_val_def)

lemma read_str_escape:
  assumes "length (escape_char c @ t) \<le> n"
    and "\<And>m. length t \<le> m \<Longrightarrow> read_str m t = Some (s, r)"
  shows "read_str n (escape_char c @ t) = Some (c # s, r)"
proof -
  have "escape_char c \<noteq> []" by (simp add: escape_char_def Let_def)
  then obtain m where n: "n = Suc m" and m: "length (escape_char c @ t) \<le> Suc m" using assms(1) by (cases n) auto
  define k :: nat where "k = of_char c"
  have c: "c = char_of k" by (simp add: k_def)
  have k: "k < 256" by (simp add: k_def)
  have e: "c = d \<longleftrightarrow> k = of_char d" for d by (simp add: k_def)
  have e': "d = c \<longleftrightarrow> k = of_char d" for d by (auto simp: k_def)
  have t: "length t \<le> m"
    using m by (auto simp: escape_char_def Let_def split: if_splits)
  note rt = assms(2) [OF t]
  consider "k = 34" | "k = 92" | "k = 10" | "k = 13" | "k = 9" | "k = 12" | "k = 8"
    | "k < 32" "k \<notin> {10, 13, 9, 12, 8}" | "32 \<le> k" "k \<noteq> 34" "k \<noteq> 92" by fastforce
  then show ?thesis
  proof cases
    case 8
    then have "escape_char c = [CHR 0x5C, CHR ''u'', CHR ''0'', CHR ''0'', hex_digit (k div 16), hex_digit (k mod 16)]"
      by (simp add: escape_char_def k_def [symmetric])
    moreover have "k div 16 < 16" using k by (simp add: div_less_iff_less_mult)
    ultimately show ?thesis using k by (simp add: n simple_escape_def rt code_char_def c)
  next
    case 9
    then have "escape_char c = [c]" by (simp add: escape_char_def k_def [symmetric])
    moreover have "\<not> (of_char c :: nat) < 32" "c \<noteq> CHR 0x22" "c \<noteq> CHR 0x5C" using 9 e by (simp_all add: k_def [symmetric])
    ultimately show ?thesis by (simp add: n rt)
  qed (simp_all add: n rt escape_char_def k_def [symmetric] simple_escape_def e e')
qed

lemma read_str_body:
  "length (concat (map escape_char s) @ CHR 0x22 # r) \<le> n \<Longrightarrow>
   read_str n (concat (map escape_char s) @ CHR 0x22 # r) = Some (s, r)"
proof (induction s arbitrary: n)
  case Nil
  then show ?case by (cases n) auto
next
  case (Cons c s)
  then show ?case using read_str_escape [of c "concat (map escape_char s) @ CHR 0x22 # r" n s r] by simp
qed

lemma read_str_json [simp]: "\<exists>t. json_str s @ r = CHR 0x22 # t \<and> read_str (length t) t = Some (s, r)"
  using read_str_body [of s r] by (simp add: json_str_def)

lemma sort_key_map_snd: "sort_key fst (map (\<lambda>(k, v). (k, f v)) d) = map (\<lambda>(k, v). (k, f v)) (sort_key fst d)"
proof -
  have ins: "insort_key fst (k, f v) (map (\<lambda>(k, v). (k, f v)) xs) = map (\<lambda>(k, v). (k, f v)) (insort_key fst (k, v) xs)" for k v xs
    by (induction xs) auto
  show ?thesis by (induction d) (auto simp: ins)
qed

lemma foldl_dict_set: "dict_ok (xs @ ms) \<Longrightarrow> foldl (\<lambda>d (k, v). dict_set k v d) xs ms = xs @ ms"
proof (induction ms arbitrary: xs)
  case (Cons m ms)
  obtain k v where m: "m = (k, v)" by force
  have "dict_set k v xs = xs @ [(k, v)]" using Cons.prems by (intro dict_set_new) (auto simp: m)
  then show ?case using Cons by (simp add: m)
qed simp

lemma skip_ws_no [simp]: "\<not> json_ws c \<Longrightarrow> skip_ws (c # r) = c # r"
  by (simp add: skip_ws_def)

lemma not_ws [simp]: "\<not> json_ws (CHR '']'')" "\<not> json_ws (CHR ''}'')" "\<not> json_ws (CHR '','')" "\<not> json_ws (CHR '':'')" "\<not> json_ws (CHR 0x22)"
  by (simp_all add: json_ws_def)

text \<open>The first character of a printed value: no white space and no closing bracket.\<close>

definition starts_value :: "string \<Rightarrow> bool" where
  "starts_value t \<longleftrightarrow> (\<exists>c r. t = c # r \<and> \<not> json_ws c \<and> c \<notin> {CHR '']'', CHR ''}'', CHR '','', CHR '':''})"

lemma starts_value_append: "starts_value t \<Longrightarrow> starts_value (t @ r)"
  by (auto simp: starts_value_def)

lemma dumps_starts: "json_plain v \<Longrightarrow> starts_value (dumps_stable fl v)"
proof (cases v)
  case (JInt i)
  have "starts_value (show_nat n)" for n
    using show_nat_Cons [of n] by (auto simp: starts_value_def is_dec_def json_ws_def)
  then show ?thesis by (auto simp: JInt show_int_def) (simp add: starts_value_def json_ws_def)
qed (auto simp: starts_value_def json_ws_def json_str_def)

lemma skip_ws_value: "starts_value t \<Longrightarrow> skip_ws t = t"
  by (auto simp: starts_value_def)

text \<open>Every printed value reads back, whatever follows it that cannot extend a number.\<close>

definition reads_back :: "(rat \<Rightarrow> string) \<Rightarrow> json \<Rightarrow> bool" where
  "reads_back fl v \<longleftrightarrow> (\<forall>n r. length (dumps_stable fl v) \<le> n \<longrightarrow> ends_number r \<longrightarrow>
     read_value n (dumps_stable fl v @ r) = Some (canon v, r))"

lemma ends_number_simps [simp]: "ends_number []" "ends_number (CHR '','' # r)" "ends_number (CHR '']'' # r)" "ends_number (CHR ''}'' # r)"
  by (simp_all add: ends_number_def is_dec_def)

lemma read_elements_back:
  assumes "vs \<noteq> []" "\<And>v. v \<in> set vs \<Longrightarrow> reads_back fl v \<and> starts_value (dumps_stable fl v)"
  shows "length (join '','' (map (dumps_stable fl) vs)) < n \<Longrightarrow>
    read_elements n (join '','' (map (dumps_stable fl) vs) @ CHR '']'' # r) = Some (map canon vs, r)"
  using assms
proof (induction vs arbitrary: n rule: induct_list012)
  case (2 v)
  then show ?case by (cases n) (auto simp: reads_back_def)
next
  case (3 v w vs)
  let ?t = "join '','' (map (dumps_stable fl) (w # vs))"
  obtain m where n: "n = Suc m" using "3.prems"(1) by (cases n) auto
  have st: "starts_value ?t" using "3.prems"(3) [of w] by (cases vs) (auto intro: starts_value_append)
  have v: "read_value m (dumps_stable fl v @ CHR '','' # ?t @ CHR '']'' # r) = Some (canon v, CHR '','' # ?t @ CHR '']'' # r)"
    using "3.prems"(1) "3.prems"(3) [of v] by (simp add: reads_back_def n)
  have "read_elements m (?t @ CHR '']'' # r) = Some (map canon (w # vs), r)"
    using "3.prems" by (intro "3.IH"(2)) (auto simp: n)
  moreover have "skip_ws (?t @ CHR '']'' # r) = ?t @ CHR '']'' # r"
    by (rule skip_ws_value [OF starts_value_append [OF st]])
  ultimately show ?case using v by (simp add: n)
qed simp

abbreviation members_text :: "(rat \<Rightarrow> string) \<Rightarrow> (string \<times> json) list \<Rightarrow> string" where
  "members_text fl ms \<equiv> join '','' (map (\<lambda>(k, v). member_text (k, dumps_stable fl v)) ms)"

lemma read_members_first:
  assumes "reads_back fl v" "starts_value (dumps_stable fl v)" "ends_number t" "length (member_text (k, dumps_stable fl v)) < Suc m"
  shows "read_members (Suc m) (member_text (k, dumps_stable fl v) @ t) =
    (case skip_ws t of [] \<Rightarrow> None
     | e # r2 \<Rightarrow> if e = CHR ''}'' then Some ([(k, canon v)], r2)
                else if e = CHR '','' then map_option (\<lambda>(ms, t). ((k, canon v) # ms, t)) (read_members m (skip_ws r2))
                else None)"
proof -
  let ?w = "CHR '':'' # dumps_stable fl v @ t"
  obtain u where u: "json_str k @ ?w = CHR 0x22 # u" "read_str (length u) u = Some (k, ?w)"
    using read_str_json [of k ?w] by blast
  have v: "read_value m (skip_ws (dumps_stable fl v @ t)) = Some (canon v, t)"
    using assms by (simp add: skip_ws_value starts_value_append reads_back_def member_text_def)
  have e: "member_text (k, dumps_stable fl v) @ t = CHR 0x22 # u" using u(1) by (simp add: member_text_def)
  show ?thesis unfolding e by (simp add: u(2) v)
qed

lemma read_members_back:
  assumes "ms \<noteq> []" "\<And>k v. (k, v) \<in> set ms \<Longrightarrow> reads_back fl v \<and> starts_value (dumps_stable fl v)"
  shows "length (members_text fl ms) < n \<Longrightarrow>
    read_members n (members_text fl ms @ CHR ''}'' # r) = Some (map (\<lambda>(k, v). (k, canon v)) ms, r)"
  using assms
proof (induction ms arbitrary: n rule: induct_list012)
  case (2 m)
  obtain k v where m: "m = (k, v)" by force
  obtain j where n: "n = Suc j" using "2.prems"(1) by (cases n) auto
  show ?case using "2.prems" by (simp add: m n read_members_first del: read_members.simps)
next
  case (3 m m' ms)
  let ?t = "members_text fl (m' # ms)"
  obtain k v where m: "m = (k, v)" by force
  obtain k' v' where m': "m' = (k', v')" by force
  obtain j where n: "n = Suc j" using "3.prems"(1) by (cases n) auto
  have "starts_value (member_text x @ t)" for x t by (simp add: starts_value_def member_text_def json_str_def json_ws_def)
  then have st: "starts_value (?t @ t)" for t by (cases ms) (auto simp: m' split_def)
  have "read_members j (?t @ CHR ''}'' # r) = Some (map (\<lambda>(k, v). (k, canon v)) (m' # ms), r)"
    using "3.prems" by (intro "3.IH"(2)) (auto simp: n)
  moreover have "skip_ws (?t @ CHR ''}'' # r) = ?t @ CHR ''}'' # r"
    by (rule skip_ws_value [OF st])
  moreover have "read_members n (member_text (k, dumps_stable fl v) @ CHR '','' # ?t @ CHR ''}'' # r) =
      map_option (\<lambda>(ms, t). ((k, canon v) # ms, t)) (read_members j (skip_ws (?t @ CHR ''}'' # r)))"
    using "3.prems"(1) "3.prems"(3) [of k v]
    unfolding n by (subst read_members_first) (simp_all add: n m)
  ultimately show ?case by (simp add: m split_def)
qed simp

lemma read_value_const: "w \<in> {''null'', ''true'', ''false''} \<Longrightarrow> length w \<le> n \<Longrightarrow> read_value n (w @ r) = read_const (w @ r)"
  by (cases n) auto

lemma reads_back_const [simp]: "reads_back fl JNull" "reads_back fl (JBool b)"
proof -
  have c: "read_const (''null'' @ r) = Some (JNull, r)" "read_const (''true'' @ r) = Some (JBool True, r)"
    "read_const (''false'' @ r) = Some (JBool False, r)" for r
    by (simp_all add: read_const_def read_word_def first_of_def starts_with_def)
  show "reads_back fl JNull" unfolding reads_back_def
    using read_value_const [of "''null''"] c(1) by simp
  show "reads_back fl (JBool b)" unfolding reads_back_def
    using read_value_const [of "''true''"] read_value_const [of "''false''"] c(2,3) by (cases b) simp_all
qed

lemma reads_back_int [simp]: "reads_back fl (JInt i)"
  unfolding reads_back_def
proof (intro allI impI)
  fix n r assume n: "length (dumps_stable fl (JInt i)) \<le> n" and r: "ends_number r"
  obtain c u where c: "show_int i @ r = c # u" "c = CHR ''-'' \<or> is_dec c"
    using show_nat_Cons [of "nat i"] by (cases "i < 0") (auto simp: show_int_def)
  have k: "c \<noteq> CHR 0x22" "c \<noteq> CHR ''[''" "c \<noteq> CHR ''{''" "c \<noteq> CHR ''n''" "c \<noteq> CHR ''t''" "c \<noteq> CHR ''f''"
    using c(2) by (auto simp: is_dec_def)
  obtain m where m: "n = Suc m" using n c by (cases n) (auto simp: show_int_def split: if_splits)
  have "read_number (c # u) = Some (JInt i, r)" using read_number_show [OF r, of i] c(1) by simp
  with k show "read_value n (dumps_stable fl (JInt i) @ r) = Some (canon (JInt i), r)"
    by (simp add: m c(1) read_const_def read_word_def first_of_def starts_with_def)
qed

lemma reads_back_str [simp]: "reads_back fl (JStr s)"
  unfolding reads_back_def
proof (intro allI impI)
  fix n r assume n: "length (dumps_stable fl (JStr s)) \<le> n"
  obtain u where u: "json_str s @ r = CHR 0x22 # u" "read_str (length u) u = Some (s, r)"
    using read_str_json by blast
  obtain m where "n = Suc m" using n by (cases n) (auto simp: json_str_def)
  with u show "read_value n (dumps_stable fl (JStr s) @ r) = Some (canon (JStr s), r)" by simp
qed

lemma plain_reads_back: "json_plain v \<Longrightarrow> reads_back fl v"
proof (induction v rule: json_plain.induct)
  case (3 vs)
  then have vs: "reads_back fl v \<and> starts_value (dumps_stable fl v)" if "v \<in> set vs" for v
    using that dumps_starts by (auto simp: list_all_iff)
  let ?t = "join '','' (map (dumps_stable fl) vs)"
  show ?case unfolding reads_back_def
  proof (intro allI impI)
    fix n r assume n: "length (dumps_stable fl (JList vs)) \<le> n"
    then obtain m where m: "n = Suc m" "length ?t < m" by (cases n) auto
    show "read_value n (dumps_stable fl (JList vs) @ r) = Some (canon (JList vs), r)"
    proof (cases vs)
      case (Cons w ws)
      have st: "starts_value ?t" using vs [of w] by (cases ws) (auto simp: Cons intro: starts_value_append)
      obtain c u where u: "?t @ CHR '']'' # r = c # u" "c \<noteq> CHR '']''" "\<not> json_ws c"
        using st by (auto simp: starts_value_def)
      have "read_elements m (c # u) = Some (map canon vs, r)"
        using read_elements_back [OF _ vs m(2), of r] Cons u(1) by simp
      with u show ?thesis by (simp add: m(1))
    qed (simp add: m(1))
  qed
next
  case (4 d)
  let ?ms = "sort_key fst d"
  let ?t = "members_text fl ?ms"
  have ms: "reads_back fl v \<and> starts_value (dumps_stable fl v)" if "(k, v) \<in> set ?ms" for k v
    using that 4 dumps_starts by (auto simp: list_all_iff)
  have tx: "dumps_stable fl (JObj d) = CHR ''{'' # ?t @ [CHR ''}'']"
    by (simp add: sort_key_map_snd comp_def prod.case_distrib)
  have ok: "dict_ok (map (\<lambda>(k, v). (k, canon v)) ?ms)"
    using 4 by (auto simp: comp_def split_def distinct_map)
  show ?case unfolding reads_back_def tx
  proof (intro allI impI)
    fix n r assume n: "length (CHR ''{'' # ?t @ [CHR ''}'']) \<le> n"
    then obtain m where m: "n = Suc m" "length ?t < m" by (cases n) auto
    show "read_value n ((CHR ''{'' # ?t @ [CHR ''}'']) @ r) = Some (canon (JObj d), r)"
    proof (cases "?ms = []")
      case True
      then show ?thesis by (simp add: m(1) sort_key_map_snd)
    next
      case False
      then obtain k v ns where "?ms = (k, v) # ns" by (cases ?ms) auto
      then obtain u where u: "?t @ CHR ''}'' # r = CHR 0x22 # u"
        by (cases ns) (auto simp: member_text_def json_str_def)
      have "read_members m (CHR 0x22 # u) = Some (map (\<lambda>(k, v). (k, canon v)) ?ms, r)"
        using read_members_back [OF False ms m(2), where r = r] u by simp
      with u show ?thesis using foldl_dict_set [of "[]" "map (\<lambda>(k, v). (k, canon v)) ?ms"] ok
        by (simp add: m(1) sort_key_map_snd)
    qed
  qed
qed simp_all


text \<open>A printed text never holds a line break, so a record is one line of its file.\<close>

definition one_line :: "string \<Rightarrow> bool" where
  "one_line s \<longleftrightarrow> CHR 0x0A \<notin> set s \<and> CHR 0x0D \<notin> set s"

lemma one_line_append [simp]: "one_line (s @ t) \<longleftrightarrow> one_line s \<and> one_line t"
  by (auto simp: one_line_def)

lemma one_line_Cons [simp]: "one_line (c # t) \<longleftrightarrow> c \<noteq> CHR 0x0A \<and> c \<noteq> CHR 0x0D \<and> one_line t"
  by (auto simp: one_line_def)

lemma one_line_Nil [simp]: "one_line []"
  by (simp add: one_line_def)

lemma one_line_hex: "d < 16 \<Longrightarrow> hex_digit d \<noteq> CHR 0x0A \<and> hex_digit d \<noteq> CHR 0x0D"
proof -
  assume "d < 16"
  then have "hex_val (hex_digit d) \<noteq> None" by simp
  then show ?thesis by (auto simp: hex_val_def)
qed

lemma one_line_escape: "one_line (escape_char c)"
proof -
  have "(of_char c :: nat) < 256" by simp
  then have "(of_char c :: nat) div 16 < 16" by (simp add: div_less_iff_less_mult)
  then show ?thesis using one_line_hex [of "of_char c div 16"] one_line_hex [of "of_char c mod 16"]
    by (auto simp: escape_char_def Let_def)
qed

lemma one_line_str: "one_line (json_str s)"
  by (induction s) (auto simp: json_str_def one_line_escape)

lemma one_line_join: "one_line sep \<Longrightarrow> (\<And>x. x \<in> set xs \<Longrightarrow> one_line x) \<Longrightarrow> one_line (join sep xs)"
  by (induction sep xs rule: join.induct) auto

lemma one_line_show: "one_line (show_int i)"
proof -
  have "one_line (show_nat n)" for n
    using show_nat_dec [of n] by (auto simp: one_line_def list_all_iff is_dec_def)
  then show ?thesis by (simp add: show_int_def)
qed

lemma one_line_dumps: "json_plain v \<Longrightarrow> one_line (dumps_stable fl v)"
proof (induction v rule: json_plain.induct)
  case (4 d)
  have "one_line (member_text (k, dumps_stable fl v))" if "(k, v) \<in> set d" for k v
    using that 4 by (auto simp: member_text_def one_line_str list_all_iff)
  then show ?case by (auto simp: sort_key_map_snd comp_def intro!: one_line_join)
qed (auto simp: one_line_str one_line_show list_all_iff intro!: one_line_join)

lemma loads_dumps: "json_plain v \<Longrightarrow> loads (dumps_stable fl v) = Some (canon v)"
proof -
  assume v: "json_plain v"
  have "read_value (Suc (length (dumps_stable fl v))) (dumps_stable fl v @ []) = Some (canon v, [])"
    using plain_reads_back [OF v, of fl] unfolding reads_back_def by (simp del: read_value.simps append_Nil2)
  then show ?thesis
    using skip_ws_value [OF dumps_starts [OF v, of fl]] by (simp add: loads_def skip_ws_def del: read_value.simps)
qed

lemma dict_get_canon: "dict_ok d \<Longrightarrow> dict_get (sort_key fst (map (\<lambda>(k, v). (k, canon v)) d)) k = map_option canon (dict_get d k)"
proof -
  assume ok: "dict_ok d"
  have "dict_get (sort_key fst (map (\<lambda>(k, v). (k, canon v)) d)) = dict_get (map (\<lambda>(k, v). (k, canon v)) d)"
    using ok by (intro dict_get_perm) (auto simp: comp_def split_def)
  moreover have "dict_get (map (\<lambda>(k, v). (k, canon v)) d) k = map_option canon (dict_get d k)" by (induction d) auto
  ultimately show ?thesis by simp
qed

lemma unat_byte: "n < 256 \<Longrightarrow> unat (of_nat n :: byte) = n"
  by (simp only: unat_of_nat) simp

lemma utf8_roundtrip [simp]: "utf8_decode (utf8_encode s) = s"
proof (induction s)
  case (Cons c s)
  define n :: nat where "n = of_char c"
  have c: "c = char_of n" "n < 256" by (simp_all add: n_def)
  show ?case
  proof (cases "n < 128")
    case True
    then have "(of_nat n :: byte) < 0x80" by (simp add: word_less_nat_alt unat_of_nat)
    then show ?thesis using Cons True
      by (simp add: utf8_encode_def utf8_char_def n_def [symmetric] utf8_lead_def unat_of_nat c)
  next
    case False
    define p q where "p = n div 64" and "q = n mod 64"
    have pq: "n = p * 64 + q" "p \<in> {2, 3}" "q < 64"
      using False c(2) by (auto simp: p_def q_def)
    have u: "unat (of_nat (192 + p) :: byte) = 192 + p" "unat (of_nat (128 + q) :: byte) = 128 + q"
      using pq by (intro unat_byte, force)+
    have l: "utf8_lead (of_nat (192 + p)) = Some 1" "0x80 \<le> (of_nat (128 + q) :: byte)" "(of_nat (128 + q) :: byte) < 0xC0"
      using pq u by (auto simp del: of_nat_add simp: utf8_lead_def word_less_nat_alt word_le_nat_alt)
    have e: "utf8_encode (c # s) = of_nat (192 + p) # of_nat (128 + q) # utf8_encode s"
      using False by (simp add: utf8_encode_def utf8_char_def n_def [symmetric] p_def q_def)
    show ?thesis unfolding e using Cons l u pq c by (simp del: of_nat_add add: code_char_def)
  qed
qed (simp add: utf8_encode_def)

lemma utf8_char_bytes: "b \<in> set (utf8_char c) \<Longrightarrow> unat b = of_char c \<or> 128 \<le> unat b"
proof -
  have n: "(of_char c :: nat) < 256" by simp
  then have p: "192 + of_char c div 64 < (256 :: nat)" "128 + of_char c mod 64 < (256 :: nat)" by linarith+
  assume "b \<in> set (utf8_char c)"
  then consider "b = of_nat (of_char c)" | "b = of_nat (192 + of_char c div 64)" | "b = of_nat (128 + of_char c mod 64)"
    by (auto simp: utf8_char_def Let_def split: if_splits)
  then show ?thesis using unat_byte [OF n] unat_byte [OF p(1)] unat_byte [OF p(2)] by cases simp_all
qed

lemma utf8_one_line: "one_line s \<Longrightarrow> 0x0A \<notin> set (utf8_encode s) \<and> 0x0D \<notin> set (utf8_encode s)"
proof (induction s)
  case (Cons c s)
  have "(of_char c :: nat) \<noteq> 10" "(of_char c :: nat) \<noteq> 13"
    using Cons.prems by (auto simp: of_char_eq_iff [where ?'a = nat, of c "CHR 0x0A", simplified]
        of_char_eq_iff [where ?'a = nat, of c "CHR 0x0D", simplified])
  then have "0x0A \<notin> set (utf8_char c)" "0x0D \<notin> set (utf8_char c)"
    using utf8_char_bytes [of "0x0A" c] utf8_char_bytes [of "0x0D" c] by auto
  then show ?case using Cons by (simp add: utf8_encode_def)
qed (simp add: utf8_encode_def)

end
