(* ===== verification/State_Logic.thy ===== *)
theory State_Logic
  imports Prelude "HOL-Library.State_Monad"
begin

text \<open>
  Reasoning about programs of the state monad: weakest preconditions (\<open>wp\<close>), exceptions as the left side of a sum
  (\<open>and_then\<close>), and relations between the states before and after that every step of a program keeps (\<open>state_io_rel\<close> of the
  library, with its rules as the locale \<open>kept_relation\<close>).
\<close>

section \<open>Weakest preconditions and kept relations\<close>

definition wp :: "('s, 'a) state \<Rightarrow> ('a \<Rightarrow> 's \<Rightarrow> bool) \<Rightarrow> 's \<Rightarrow> bool" where
  "wp m Q s = (case run_state m s of (x, s') \<Rightarrow> Q x s')"

lemma wp_return [simp]: "wp (State_Monad.return x) Q = Q x"
  by (simp add: wp_def fun_eq_iff)

lemma wp_get [simp]: "wp State_Monad.get Q = (\<lambda>s. Q s s)"
  by (simp add: wp_def fun_eq_iff)

lemma wp_bind [simp]: "wp (State_Monad.bind m f) Q = wp m (\<lambda>x. wp (f x) Q)"
  by (simp add: wp_def fun_eq_iff split: prod.split)

lemma wp_update [simp]: "wp (State_Monad.update f) Q = (\<lambda>s. Q () (f s))"
  by (simp add: wp_def State_Monad.update_def fun_eq_iff)

lemma wp_mono: "wp m Q s \<Longrightarrow> (\<And>x s'. Q x s' \<Longrightarrow> R x s') \<Longrightarrow> wp m R s"
  by (auto simp: wp_def)

lemma wp_conj: "wp m Q s \<Longrightarrow> wp m R s \<Longrightarrow> wp m (\<lambda>x s'. Q x s' \<and> R x s') s"
  by (auto simp: wp_def)

lemma wp_run: "wp m Q s \<Longrightarrow> run_state m s = (x, s') \<Longrightarrow> Q x s'"
  by (simp add: wp_def)

lemma run_update [simp]: "run_state (State_Monad.update f) s = ((), f s)"
  by (simp add: State_Monad.update_def)

text \<open>Go on with the value, or keep the exception.\<close>

definition and_then :: "('s, 'e + 'a) state \<Rightarrow> ('a \<Rightarrow> ('s, 'e + 'b) state) \<Rightarrow> ('s, 'e + 'b) state" where
  "and_then m f = do { r \<leftarrow> m; case r of Inl e \<Rightarrow> State_Monad.return (Inl e) | Inr x \<Rightarrow> f x }"

lemma wp_and_then [simp]: "wp (and_then m f) Q = wp m (\<lambda>r w'. case r of Inl e \<Rightarrow> Q (Inl e) w' | Inr x \<Rightarrow> wp (f x) Q w')"
  by (auto simp: and_then_def wp_def fun_eq_iff split: prod.split sum.split)

text \<open>A relation between the states before and after that composes.\<close>

locale kept_relation =
  fixes R :: "'s \<Rightarrow> 's \<Rightarrow> bool"
  assumes kept_refl: "R s s"
    and kept_trans: "R s t \<Longrightarrow> R t u \<Longrightarrow> R s u"
begin

lemma kept_return: "state_io_rel R (State_Monad.return x)"
  by (simp add: state_io_rel_def kept_refl)

lemma kept_get: "state_io_rel R State_Monad.get"
  by (simp add: state_io_rel_def kept_refl)

lemma kept_bind: "state_io_rel R m \<Longrightarrow> (\<And>x. state_io_rel R (f x)) \<Longrightarrow> state_io_rel R (State_Monad.bind m f)"
  unfolding state_io_rel_def by (auto split: prod.split) (metis kept_trans snd_conv)

lemma kept_update: "(\<And>s. R s (f s)) \<Longrightarrow> state_io_rel R (State_Monad.update f)"
  by (simp add: state_io_rel_def)

lemma kept_if: "state_io_rel R a \<Longrightarrow> state_io_rel R b \<Longrightarrow> state_io_rel R (if c then a else b)"
  by simp

lemma kept_option: "state_io_rel R a \<Longrightarrow> (\<And>x. state_io_rel R (f x)) \<Longrightarrow> state_io_rel R (case_option a f v)"
  by (cases v) auto

lemma kept_sum: "(\<And>x. state_io_rel R (f x)) \<Longrightarrow> (\<And>x. state_io_rel R (g x)) \<Longrightarrow> state_io_rel R (case_sum f g v)"
  by (cases v) auto

lemma kept_prod: "(\<And>x y. state_io_rel R (f x y)) \<Longrightarrow> state_io_rel R (case_prod f v)"
  by (cases v) auto

lemma kept_and_then: "state_io_rel R m \<Longrightarrow> (\<And>x. state_io_rel R (f x)) \<Longrightarrow> state_io_rel R (and_then m f)"
  unfolding and_then_def by (intro kept_bind kept_sum kept_return)

lemma kept_let: "(\<And>x. state_io_rel R (f x)) \<Longrightarrow> state_io_rel R (Let v f)"
  by simp

lemmas kept_rules = kept_return kept_get kept_bind kept_if kept_option kept_sum kept_prod kept_let kept_and_then

end

end
