(* ===== verification/Wal_Os.thy ===== *)
theory Wal_Os
  imports Json State_Logic "HOL-Library.Sublist"
begin

text \<open>
  The file system seam of the write-ahead log, \<open>sw_core/wal_fs.py\<close>, over a model of the operating system: the names of the
  WAL directory, the bytes of every file by its identity (device, inode), and the answers that the system gives to the
  calls. A call may fail at any time: every call takes the next entry of \<open>os_answers\<close>, success when there is none left.
  A \<open>write\<close> may also be short. The theorems hold for every list of answers.

  Operations are in the state monad of the library. A call that may raise \<open>OSError\<close> returns a sum with the error on the
  left.
\<close>

section \<open>The operating system\<close>

type_synonym ident = "nat \<times> nat"

datatype errno = ENOENT | EACCES | EBUSY | EEXIST | EIO | ENOTSUP | EOTHER

text \<open>\<open>oe_sent\<close> is present in a \<open>PartialWriteError\<close>; \<open>oe_text\<close> is the text of the error that caused it.\<close>

record os_error =
  oe_errno :: errno
  oe_winerror :: "nat option"
  oe_sent :: "nat option"
  oe_text :: string

datatype os_answer = Ans_ok | Ans_short nat | Ans_err os_error

record os =
  os_dir :: bool
  os_names :: "(string, ident) dict"
  os_data :: "ident \<Rightarrow> byte list"
  os_next :: nat
  os_answers :: "os_answer list"
  os_clock :: "seconds list"
  os_mono :: int
  os_wall :: string
  os_stamp :: string

definition os_fail :: "errno \<Rightarrow> string \<Rightarrow> os_error" where
  "os_fail n t = \<lparr>oe_errno = n, oe_winerror = None, oe_sent = None, oe_text = t\<rparr>"

definition os_ask :: "os \<Rightarrow> os_answer \<times> os" where
  "os_ask s = (case os_answers s of [] \<Rightarrow> (Ans_ok, s) | a # r \<Rightarrow> (a, s\<lparr>os_answers := r\<rparr>))"

text \<open>A call that fails with the error it is given, or else does \<open>f\<close>. Only a \<open>write\<close> raises \<open>PartialWriteError\<close>.\<close>

definition os_call :: "(os \<Rightarrow> (os_error + 'a) \<times> os) \<Rightarrow> os \<Rightarrow> (os_error + 'a) \<times> os" where
  "os_call f s = (case os_ask s of (Ans_err e, s') \<Rightarrow> (Inl (e\<lparr>oe_sent := None\<rparr>), s') | (_, s') \<Rightarrow> f s')"

definition os_read_clock :: "os \<Rightarrow> seconds \<times> os" where
  "os_read_clock s = (case os_clock s of [] \<Rightarrow> (0, s) | t # r \<Rightarrow> (t, s\<lparr>os_clock := r\<rparr>))"

definition os_extend :: "ident \<Rightarrow> byte list \<Rightarrow> os \<Rightarrow> os" where
  "os_extend i bs s = s\<lparr>os_data := (os_data s)(i := os_data s i @ bs)\<rparr>"

section \<open>File handles\<close>

text \<open>\<open>write_all_flush\<close>: the loop over the bytes that are left, \<open>sent\<close> bytes having been written.\<close>

function write_loop :: "ident \<Rightarrow> nat \<Rightarrow> byte list \<Rightarrow> os \<Rightarrow> (os_error + unit) \<times> os" where
  "write_loop i sent data s =
     (if data = [] then (Inr (), s)
      else case os_ask s of
        (Ans_ok, s1) \<Rightarrow> (Inr (), os_extend i data s1)
      | (Ans_err e, s1) \<Rightarrow> (Inl (e\<lparr>oe_winerror := None, oe_sent := Some sent\<rparr>), s1)
      | (Ans_short n, s1) \<Rightarrow>
          if n = 0 then (Inl ((os_fail EIO ''short write'')\<lparr>oe_sent := Some sent\<rparr>), s1)
          else write_loop i (sent + min n (length data)) (drop n data) (os_extend i (take n data) s1))"
  by pat_completeness auto
termination by (relation "measure (\<lambda>(_, _, d, _). length d)") auto

declare write_loop.simps [simp del]

definition write_all_flush :: "ident \<Rightarrow> byte list \<Rightarrow> os \<Rightarrow> (os_error + unit) \<times> os" where
  "write_all_flush i data s = write_loop i 0 data s"

definition file_sync :: "ident \<Rightarrow> os \<Rightarrow> (os_error + unit) \<times> os" where
  "file_sync i s = os_call (\<lambda>s. (Inr (), s)) s"

definition file_close :: "ident \<Rightarrow> os \<Rightarrow> (os_error + unit) \<times> os" where
  "file_close i s = os_call (\<lambda>s. (Inr (), s)) s"

definition file_identity :: "ident \<Rightarrow> os \<Rightarrow> (os_error + ident) \<times> os" where
  "file_identity i s = os_call (\<lambda>s. (Inr i, s)) s"

definition file_unlinked :: "ident \<Rightarrow> os \<Rightarrow> (os_error + bool) \<times> os" where
  "file_unlinked i s = os_call (\<lambda>s. (Inr (i \<notin> snd ` set (os_names s)), s)) s"

section \<open>File names\<close>

definition open_append :: "string \<Rightarrow> os \<Rightarrow> (os_error + ident) \<times> os" where
  "open_append p = os_call (\<lambda>s.
     if \<not> os_dir s then (Inl (os_fail ENOENT p), s)
     else case dict_get (os_names s) p of
       Some i \<Rightarrow> (Inr i, s)
     | None \<Rightarrow> let i = (1, os_next s) in
         (Inr i, s\<lparr>os_names := dict_set p i (os_names s), os_data := (os_data s)(i := []), os_next := Suc (os_next s)\<rparr>))"

definition path_identity :: "string \<Rightarrow> os \<Rightarrow> (os_error + ident option) \<times> os" where
  "path_identity p = os_call (\<lambda>s. (Inr (dict_get (os_names s) p), s))"

definition file_size :: "string \<Rightarrow> os \<Rightarrow> (os_error + nat option) \<times> os" where
  "file_size p = os_call (\<lambda>s. (Inr (map_option (\<lambda>i. length (os_data s i)) (dict_get (os_names s) p)), s))"

definition ends_line :: "byte list \<Rightarrow> bool" where
  "ends_line bs \<longleftrightarrow> bs = [] \<or> last bs = 0x0A"

definition tail_needs_termination :: "string \<Rightarrow> os \<Rightarrow> (os_error + bool) \<times> os" where
  "tail_needs_termination p = os_call (\<lambda>s. (case dict_get (os_names s) p of
     None \<Rightarrow> Inl (os_fail ENOENT p) | Some i \<Rightarrow> Inr (\<not> ends_line (os_data s i)), s))"

definition archive_name :: "string \<Rightarrow> nat \<Rightarrow> string" where
  "archive_name base k = (if k = 0 then base else base @ CHR ''.'' # show_nat k)"

text \<open>\<open>_rename_noreplace\<close>: the atomic call of the system where there is one; \<open>ENOTSUP\<close> stands for the errors that say there is none, and
  then a hard link and the removal of the old name, or the plain \<open>rename\<close> where links are refused.\<close>

definition rename_noreplace_atomic :: "string \<Rightarrow> string \<Rightarrow> os \<Rightarrow> (os_error + unit) \<times> os" where
  "rename_noreplace_atomic src dst = os_call (\<lambda>s.
     if dict_get (os_names s) dst \<noteq> None then (Inl (os_fail EEXIST dst), s)
     else case dict_get (os_names s) src of
       None \<Rightarrow> (Inl (os_fail ENOENT src), s)
     | Some i \<Rightarrow> (Inr (), s\<lparr>os_names := dict_set dst i (dict_pop src (os_names s))\<rparr>))"

definition os_link :: "string \<Rightarrow> string \<Rightarrow> os \<Rightarrow> (os_error + unit) \<times> os" where
  "os_link src dst = os_call (\<lambda>s.
     if dict_get (os_names s) dst \<noteq> None then (Inl (os_fail EEXIST dst), s)
     else case dict_get (os_names s) src of
       None \<Rightarrow> (Inl (os_fail ENOENT src), s)
     | Some i \<Rightarrow> (Inr (), s\<lparr>os_names := dict_set dst i (os_names s)\<rparr>))"

definition os_unlink :: "string \<Rightarrow> os \<Rightarrow> (os_error + unit) \<times> os" where
  "os_unlink p = os_call (\<lambda>s.
     if dict_get (os_names s) p = None then (Inl (os_fail ENOENT p), s) else (Inr (), s\<lparr>os_names := dict_pop p (os_names s)\<rparr>))"

definition os_rename :: "string \<Rightarrow> string \<Rightarrow> os \<Rightarrow> (os_error + unit) \<times> os" where
  "os_rename src dst = os_call (\<lambda>s. case dict_get (os_names s) src of
       None \<Rightarrow> (Inl (os_fail ENOENT src), s)
     | Some i \<Rightarrow> (Inr (), s\<lparr>os_names := dict_set dst i (dict_pop src (os_names s))\<rparr>))"

definition rename_fallback :: "string \<Rightarrow> string \<Rightarrow> os \<Rightarrow> (os_error + unit) \<times> os" where
  "rename_fallback src dst s = (case os_link src dst s of
     (Inr _, s1) \<Rightarrow> (case os_unlink src s1 of
         (Inr _, s2) \<Rightarrow> (Inr (), s2)
       | (Inl e, s2) \<Rightarrow> (Inl e, snd (os_unlink dst s2)))
   | (Inl e, s1) \<Rightarrow>
       if oe_errno e = EEXIST then (Inl e, s1)
       else if dict_get (os_names s1) dst \<noteq> None then (Inl (os_fail EEXIST dst), s1)
       else os_rename src dst s1)"

definition rename_noreplace :: "string \<Rightarrow> string \<Rightarrow> os \<Rightarrow> (os_error + unit) \<times> os" where
  "rename_noreplace src dst s = (case rename_noreplace_atomic src dst s of
     (Inl e, s1) \<Rightarrow> if oe_errno e = ENOTSUP then rename_fallback src dst s1 else (Inl e, s1)
   | (Inr _, s1) \<Rightarrow> (Inr (), s1))"

function rename_from :: "nat \<Rightarrow> string \<Rightarrow> string \<Rightarrow> os \<Rightarrow> (os_error + string) \<times> os" where
  "rename_from k src base s =
     (if 1000 \<le> k then (Inl (os_fail EEXIST base), s)
      else if dict_get (os_names s) (archive_name base k) \<noteq> None then rename_from (Suc k) src base s
      else case rename_noreplace src (archive_name base k) s of
        (Inr _, s') \<Rightarrow> (Inr (archive_name base k), s')
      | (Inl e, s') \<Rightarrow> if oe_errno e = EEXIST then rename_from (Suc k) src base s' else (Inl e, s'))"
  by pat_completeness auto
termination by (relation "measure (\<lambda>(k, _). 1000 - k)") auto

declare rename_from.simps [simp del]

definition rename_noreplace_or_suffix :: "string \<Rightarrow> string \<Rightarrow> os \<Rightarrow> (os_error + string) \<times> os" where
  "rename_noreplace_or_suffix src base s = rename_from 0 src base s"

definition sync_dir :: "os \<Rightarrow> (os_error + unit) \<times> os" where
  "sync_dir = os_call (\<lambda>s. if os_dir s then (Inr (), s) else (Inl (os_fail ENOENT ''dir''), s))"

definition ensure_dir :: "os \<Rightarrow> (os_error + unit) \<times> os" where
  "ensure_dir = os_call (\<lambda>s. (Inr (), s\<lparr>os_dir := True\<rparr>))"

section \<open>What the calls keep\<close>

text \<open>The two current files; every other name of the directory is an archive.\<close>

definition WAL_NAME :: string where "WAL_NAME = ''raw.wal.ndjson''"
definition MIRROR_NAME :: string where "MIRROR_NAME = ''raw.mirror.log''"

text \<open>A directory that does not exist has no names.\<close>

definition dir_ok :: "os \<Rightarrow> bool" where
  "dir_ok s \<longleftrightarrow> os_dir s \<or> os_names s = []"

text \<open>Files only grow, a name other than the current two keeps its file, and a file that had a name has one still.\<close>

definition os_grows :: "os \<Rightarrow> os \<Rightarrow> bool" where
  "os_grows s t \<longleftrightarrow> (dir_ok s \<longrightarrow> dir_ok t) \<and> os_next s \<le> os_next t \<and>
     (\<forall>i. snd i < os_next s \<longrightarrow> prefix (os_data s i) (os_data t i)) \<and>
     (\<forall>p i. dict_get (os_names s) p = Some i \<longrightarrow> p \<notin> {WAL_NAME, MIRROR_NAME} \<longrightarrow> dict_get (os_names t) p = Some i) \<and>
     (\<forall>p i. dict_get (os_names s) p = Some i \<longrightarrow> (\<exists>q. dict_get (os_names t) q = Some i))"

lemma os_grows_refl: "os_grows s s"
  by (auto simp: os_grows_def)

lemma os_grows_trans: "os_grows s t \<Longrightarrow> os_grows t u \<Longrightarrow> os_grows s u"
  unfolding os_grows_def by (meson le_trans less_le_trans prefix_order.trans)

lemma os_grows_same: "os_names t = os_names s \<Longrightarrow> os_data t = os_data s \<Longrightarrow> os_next t = os_next s \<Longrightarrow> (os_dir s \<longrightarrow> os_dir t) \<Longrightarrow> os_grows s t"
  by (auto simp: os_grows_def dir_ok_def)

end
