(* ===== verification/Wal_Records.thy ===== *)
theory Wal_Records
  imports Wal_Os
begin

text \<open>
  The records of the write-ahead log (\<open>sw_core/wal.py\<close>): the fields of a record and its line of JSON, the payload as base64 with its
  CRC-32, and everything that reads the current WAL file: the last sequence number at start (\<open>_load_last_seq\<close>), the rows of
  \<open>tail_raw_with_meta\<close> and the text lines of \<open>rows_to_text_lines\<close>. The readers are functions of the bytes of the file.
\<close>

unbundle bit_operations_syntax

section \<open>Payloads\<close>

definition b64_char :: "nat \<Rightarrow> char" where
  "b64_char n = (if n < 26 then char_of (65 + n) else if n < 52 then char_of (71 + n) else if n < 62 then char_of (n - 4)
     else if n = 62 then CHR ''+'' else CHR ''/'')"

definition b64_val :: "char \<Rightarrow> nat option" where
  "b64_val c = (let n = of_char c :: nat in
     if 65 \<le> n \<and> n \<le> 90 then Some (n - 65) else if 97 \<le> n \<and> n \<le> 122 then Some (n - 71)
     else if 48 \<le> n \<and> n \<le> 57 then Some (n + 4) else if n = 43 then Some 62 else if n = 47 then Some 63 else None)"

fun b64_nats :: "nat list \<Rightarrow> string" where
  "b64_nats [] = []"
| "b64_nats [a] = [b64_char (a div 4), b64_char (a mod 4 * 16), CHR ''='', CHR ''='']"
| "b64_nats [a, b] = [b64_char (a div 4), b64_char (a mod 4 * 16 + b div 16), b64_char (b mod 16 * 4), CHR ''='']"
| "b64_nats (a # b # c # r) =
     [b64_char (a div 4), b64_char (a mod 4 * 16 + b div 16), b64_char (b mod 16 * 4 + c div 64), b64_char (c mod 64)] @ b64_nats r"

definition b64encode :: "byte list \<Rightarrow> string" where
  "b64encode bs = b64_nats (map unat bs)"

text \<open>\<open>base64.b64decode(s, validate=False)\<close>: characters outside the alphabet are skipped, padding ends the text. \<open>quad\<close> is the
  position in the group of four, \<open>left\<close> the bits not yet written.\<close>

fun b64_scan :: "nat \<Rightarrow> nat \<Rightarrow> nat \<Rightarrow> string \<Rightarrow> nat list option" where
  "b64_scan quad left pads [] = (if quad = 0 then Some [] else None)"
| "b64_scan quad left pads (c # r) =
     (if c = CHR ''='' then
        if 2 \<le> quad \<and> 4 \<le> quad + Suc pads then Some []
        else b64_scan quad left (if 2 \<le> quad then Suc pads else pads) r
      else case b64_val c of
        None \<Rightarrow> b64_scan quad left pads r
      | Some v \<Rightarrow>
          if quad = 0 then b64_scan 1 v 0 r
          else if quad = 1 then map_option ((#) (left * 4 + v div 16)) (b64_scan 2 (v mod 16) 0 r)
          else if quad = 2 then map_option ((#) (left * 16 + v div 4)) (b64_scan 3 (v mod 4) 0 r)
          else map_option ((#) (left * 64 + v)) (b64_scan 0 0 0 r))"

definition b64decode :: "string \<Rightarrow> byte list option" where
  "b64decode s = map_option (map of_nat) (b64_scan 0 0 0 s)"

definition crc_step :: "32 word \<Rightarrow> 32 word" where
  "crc_step c = (if bit c 0 then drop_bit 1 c XOR 0xEDB88320 else drop_bit 1 c)"

definition crc32 :: "byte list \<Rightarrow> 32 word" where
  "crc32 bs = foldl (\<lambda>c b. (crc_step ^^ 8) (c XOR ucast b)) 0xFFFFFFFF bs XOR 0xFFFFFFFF"

definition hex8 :: "32 word \<Rightarrow> string" where
  "hex8 w = map (\<lambda>k. hex_digit (unat (drop_bit (4 * k) w AND 0xF))) [7, 6, 5, 4, 3, 2, 1, 0]"

definition printable_byte :: "byte \<Rightarrow> string" where
  "printable_byte b = (let n = unat b in
     if 32 \<le> n \<and> n \<le> 126 \<or> n \<in> {9, 10, 13} then [char_of n] else [CHR 0x5C, CHR ''x'', hex_digit (n div 16), hex_digit (n mod 16)])"

definition to_printable :: "byte list \<Rightarrow> string" where
  "to_printable data = concat (map printable_byte data)"

section \<open>Records\<close>

record wal_rec =
  wr_seq :: int
  wr_mono_ts_ns :: int
  wr_wall_ts :: string
  wr_com :: string
  wr_dir :: string
  wr_source :: string
  wr_cmd_id :: "string option"
  wr_len :: nat
  wr_crc32 :: string
  wr_payload_b64 :: string
  wr_loss_flag :: bool
  wr_meta :: "(string \<times> json) list"
  wr_rotation_failed :: bool

definition rec_json :: "wal_rec \<Rightarrow> json" where
  "rec_json r = JObj ([
     (''seq'', JInt (wr_seq r)), (''mono_ts_ns'', JInt (wr_mono_ts_ns r)), (''wall_ts'', JStr (wr_wall_ts r)),
     (''com'', JStr (wr_com r)), (''dir'', JStr (wr_dir r)), (''source'', JStr (wr_source r)),
     (''cmd_id'', case wr_cmd_id r of None \<Rightarrow> JNull | Some c \<Rightarrow> JStr c), (''len'', JInt (int (wr_len r))),
     (''crc32'', JStr (wr_crc32 r)), (''payload_b64'', JStr (wr_payload_b64 r)), (''loss_flag'', JBool (wr_loss_flag r)),
     (''meta'', JObj (wr_meta r))]
     @ (if wr_rotation_failed r then [(''rotation_failed'', JBool True)] else []))"

text \<open>The line of \<open>_write_record_locked\<close>.\<close>

definition rec_line :: "(rat \<Rightarrow> string) \<Rightarrow> wal_rec \<Rightarrow> byte list" where
  "rec_line fl r = utf8_encode (dumps_stable fl (rec_json r)) @ [0x0A]"

section \<open>Reading the current file\<close>

text \<open>\<open>for raw_line in fp\<close> on a file opened in binary mode, without the line ends.\<close>

fun byte_lines :: "byte list \<Rightarrow> byte list list" where
  "byte_lines [] = []"
| "byte_lines (b # bs) = (if b = 0x0A then [] # byte_lines bs
     else case byte_lines bs of [] \<Rightarrow> [[b]] | l # ls \<Rightarrow> (b # l) # ls)"

text \<open>\<open>for line in fp\<close> in text mode with universal newlines, then \<open>rstrip\<close> of the line end.\<close>

fun universal :: "string \<Rightarrow> string" where
  "universal [] = []"
| "universal [c] = [if c = CHR 0x0D then CHR 0x0A else c]"
| "universal (c # d # s) =
     (if c = CHR 0x0D \<and> d = CHR 0x0A then CHR 0x0A # universal s
      else (if c = CHR 0x0D then CHR 0x0A else c) # universal (d # s))"

fun text_lines :: "string \<Rightarrow> string list" where
  "text_lines [] = []"
| "text_lines (c # s) = (if c = CHR 0x0A then [] # text_lines s
     else case text_lines s of [] \<Rightarrow> [[c]] | l # ls \<Rightarrow> (c # l) # ls)"

text \<open>\<open>isinstance(v, int)\<close>, which holds for \<open>bool\<close> too.\<close>

fun json_int :: "json option \<Rightarrow> int option" where
  "json_int (Some (JInt n)) = Some n"
| "json_int (Some (JBool b)) = Some (of_bool b)"
| "json_int _ = None"

fun json_obj :: "json option \<Rightarrow> (string \<times> json) list option" where
  "json_obj (Some (JObj d)) = Some d"
| "json_obj _ = None"

record last_seq =
  ls_seq :: int
  ls_first :: "int option"
  ls_pending :: bool
  ls_dirty :: bool

definition line_obj :: "string \<Rightarrow> (string \<times> json) list option" where
  "line_obj l = json_obj (loads l)"

definition line_seq :: "string \<Rightarrow> int option" where
  "line_seq l = (case line_obj l of None \<Rightarrow> None | Some d \<Rightarrow> json_int (dict_get d ''seq''))"

definition first_seq :: "string \<Rightarrow> int option" where
  "first_seq l = (case line_obj l of None \<Rightarrow> None
     | Some d \<Rightarrow> (case dict_get d ''seq'' of Some (JInt n) \<Rightarrow> Some n | _ \<Rightarrow> None))"

text \<open>\<open>_load_last_seq\<close>, given the bytes of the file; \<open>None\<close> when there is no file.\<close>

definition load_last_seq :: "byte list option \<Rightarrow> last_seq" where
  "load_last_seq file = (case file of
     None \<Rightarrow> \<lparr>ls_seq = 0, ls_first = None, ls_pending = True, ls_dirty = False\<rparr>
   | Some bs \<Rightarrow>
       let lines = filter (\<lambda>l. l \<noteq> []) (map (\<lambda>l. py_strip (utf8_decode l)) (byte_lines bs)) in
       \<lparr>ls_seq = foldl (\<lambda>last l. case line_seq l of None \<Rightarrow> last | Some s \<Rightarrow> if last < s then s else last) 0 lines,
        ls_first = (case lines of [] \<Rightarrow> None | l # _ \<Rightarrow> first_seq l), ls_pending = (lines = []), ls_dirty = (\<not> ends_line bs)\<rparr>)"

definition matches_com :: "string option \<Rightarrow> (string \<times> json) list \<Rightarrow> bool" where
  "matches_com com d \<longleftrightarrow> (case com of None \<Rightarrow> True | Some c \<Rightarrow> c = [] \<or> dict_get d ''com'' = Some (JStr c))"

definition iter_matching :: "string option \<Rightarrow> byte list \<Rightarrow> (string \<times> json) list list" where
  "iter_matching com bs =
     filter (\<lambda>d. json_int (dict_get d ''seq'') \<noteq> None \<and> matches_com com d)
       (List.map_filter (\<lambda>l. if l = [] then None else line_obj l) (text_lines (universal (utf8_decode bs))))"

abbreviation row_seq :: "(string \<times> json) list \<Rightarrow> int" where
  "row_seq d \<equiv> the (json_int (dict_get d ''seq''))"

fun range_scan :: "int \<Rightarrow> int \<Rightarrow> (string \<times> json) list list \<Rightarrow> (string \<times> json) list list \<Rightarrow> (string \<times> json) list list \<times> bool" where
  "range_scan from_seq limit out [] = (out, False)"
| "range_scan from_seq limit out (d # ds) =
     (if row_seq d \<le> from_seq then range_scan from_seq limit out ds
      else if limit \<le> int (length out) then (out, True)
      else range_scan from_seq limit (out @ [d]) ds)"

definition tail_raw_with_meta ::
  "int option \<Rightarrow> string option \<Rightarrow> int \<Rightarrow> byte list option \<Rightarrow> (string \<times> json) list list \<times> bool" where
  "tail_raw_with_meta from_seq com limit file = (case file of
     None \<Rightarrow> ([], False)
   | Some bs \<Rightarrow>
       (case from_seq of
          None \<Rightarrow>
            let rows = iter_matching com bs;
                window = foldl (\<lambda>q d. deque_append (nat limit) d q) [] rows
            in (window, length window < length rows)
        | Some n \<Rightarrow> range_scan n limit [] (iter_matching com bs)))"

definition tail_raw :: "int option \<Rightarrow> string option \<Rightarrow> int \<Rightarrow> byte list option \<Rightarrow> (string \<times> json) list list" where
  "tail_raw from_seq com limit file = fst (tail_raw_with_meta from_seq com limit file)"

definition available_from_seq :: "byte list option \<Rightarrow> int option" where
  "available_from_seq file = (case file of None \<Rightarrow> None
     | Some bs \<Rightarrow> (case iter_matching None bs of [] \<Rightarrow> None | d # _ \<Rightarrow> Some (row_seq d)))"

section \<open>Text lines\<close>

definition line_break :: "char \<Rightarrow> bool" where
  "line_break c \<longleftrightarrow> (of_char c :: nat) \<in> {10, 11, 12, 13, 28, 29, 30, 133}"

fun splitlines_from :: "string \<Rightarrow> string \<Rightarrow> string list" where
  "splitlines_from cur [] = (if cur = [] then [] else [rev cur])"
| "splitlines_from cur [c] = [if line_break c then rev cur else rev (c # cur)]"
| "splitlines_from cur (c # d # s) =
     (if c = CHR 0x0D \<and> d = CHR 0x0A then rev cur # splitlines_from [] s
      else if line_break c then rev cur # splitlines_from [] (d # s)
      else splitlines_from (c # cur) (d # s))"

definition py_splitlines :: "string \<Rightarrow> string list" where
  "py_splitlines s = splitlines_from [] s"

fun row_payload :: "(string \<times> json) list \<Rightarrow> byte list option" where
  "row_payload d = (case dict_get d ''payload_b64'' of None \<Rightarrow> Some [] | Some (JStr s) \<Rightarrow> b64decode s | Some _ \<Rightarrow> None)"

text \<open>The lines of a text, as \<open>rows_to_text_lines\<close> computes them.\<close>

definition text_to_lines :: "string \<Rightarrow> string list" where
  "text_to_lines t =
     (if t = [] then []
      else let lines = py_splitlines t in
        if last t = CHR 0x0A then lines
        else if lines = [] then [t]
        else let consumed = sum_list (map length lines) + (length lines - 1) in
          if consumed < length t then lines @ [drop consumed t] else lines)"

text \<open>\<open>None\<close> where decoding a payload raises.\<close>

definition rows_to_text_lines :: "(string \<times> json) list list \<Rightarrow> string list option" where
  "rows_to_text_lines rows =
     (if list_all (\<lambda>d. row_payload d \<noteq> None) rows
      then Some (text_to_lines (concat (map (\<lambda>d. to_printable (the (row_payload d))) rows))) else None)"

definition tail_text :: "int option \<Rightarrow> string option \<Rightarrow> int \<Rightarrow> byte list option \<Rightarrow> string list option" where
  "tail_text from_seq com limit file = rows_to_text_lines (tail_raw from_seq com limit file)"

end
