(* ===== verification/Wal.thy ===== *)
theory Wal
  imports Wal_Records
begin

text \<open>
  The write-ahead log writer \<open>WalWriter\<close> of \<open>sw_core/wal.py\<close>: appending with retry and termination of partial lines,
  rotation with bounded back-off, detection of a WAL file that vanished or was replaced, and its recreation.
  The state is a \<open>record\<close> with the operating system as one field; the methods are programs of the state monad, in the
  order of the source. Every public method holds the writer's lock, so a method is one atomic step.
  Log messages are not modelled; seconds are rationals.
\<close>

section \<open>State\<close>

datatype which = Wal_file | Mirror_file

record rotate_pending =
  rp_failures :: nat
  rp_next_at :: seconds
  rp_deferred :: bool
  rp_last_warning_at :: "seconds option"

record wal =
  wa_os :: os
  wa_rotate_bytes :: nat
  wa_seq :: int
  wa_fp :: "which \<Rightarrow> ident option"
  wa_closed :: bool
  wa_dirty :: "which \<Rightarrow> bool"
  wa_unhealthy :: bool
  wa_unhealthy_reason :: "string option"
  wa_write_failures :: nat
  wa_last_write_error :: "string option"
  wa_recreated_count :: nat
  wa_rotate_pending :: "(which, rotate_pending) dict"
  wa_rotate_retry_count :: nat
  wa_rotate_deferred_count :: nat
  wa_file_first_seq :: "int option"
  wa_file_first_seq_pending :: bool
  wa_last_identity_check :: "seconds option"
  wa_recreate_failures :: nat
  wa_next_recreate_at :: "seconds option"
  wa_wal_identity :: "ident option"
  wa_pending_recreate_reason :: "string option"
  wa_pending_previous_identity :: "string option"
  wa_pending_file_first_seq :: "int option"
  wa_wal_path_expected :: bool

type_synonym 'a wm = "(wal, 'a) state"

definition WAL_ROTATE_RETRY_BACKOFF_S :: "seconds list" where "WAL_ROTATE_RETRY_BACKOFF_S = [1 / 100, 1 / 20, 1 / 5]"
definition WAL_DEFERRED_DELETE_INTERVAL_S :: seconds where "WAL_DEFERRED_DELETE_INTERVAL_S = 1"
definition WAL_DEFERRED_WARNING_INTERVAL_S :: seconds where "WAL_DEFERRED_WARNING_INTERVAL_S = 60"
definition WAL_IDENTITY_CHECK_INTERVAL_S :: seconds where "WAL_IDENTITY_CHECK_INTERVAL_S = 1 / 20"
definition WAL_RECREATE_BACKOFF_S :: "seconds list" where "WAL_RECREATE_BACKOFF_S = [1 / 100, 1 / 20, 1 / 5]"
definition WAL_RECREATE_RETRY_INTERVALS_S :: "seconds list" where "WAL_RECREATE_RETRY_INTERVALS_S = [1, 2, 5]"

fun path_of :: "which \<Rightarrow> string" where
  "path_of Wal_file = WAL_NAME"
| "path_of Mirror_file = MIRROR_NAME"

text \<open>The bytes of the current file, when it exists.\<close>

definition wal_content :: "os \<Rightarrow> byte list option" where
  "wal_content s = map_option (os_data s) (dict_get (os_names s) WAL_NAME)"

text \<open>\<open>__init__\<close> on an operating system.\<close>

definition wal_init :: "nat \<Rightarrow> os \<Rightarrow> wal" where
  "wal_init rotate_bytes s =
     (let s' = s\<lparr>os_dir := True\<rparr>; l = load_last_seq (wal_content s') in
      \<lparr>wa_os = s', wa_rotate_bytes = rotate_bytes, wa_seq = ls_seq l, wa_fp = (\<lambda>_. None), wa_closed = False,
       wa_dirty = (\<lambda>w. w = Wal_file \<and> ls_dirty l), wa_unhealthy = False, wa_unhealthy_reason = None,
       wa_write_failures = 0, wa_last_write_error = None, wa_recreated_count = 0, wa_rotate_pending = [],
       wa_rotate_retry_count = 0, wa_rotate_deferred_count = 0, wa_file_first_seq = ls_first l,
       wa_file_first_seq_pending = ls_pending l, wa_last_identity_check = None, wa_recreate_failures = 0,
       wa_next_recreate_at = None, wa_wal_identity = None, wa_pending_recreate_reason = None,
       wa_pending_previous_identity = None, wa_pending_file_first_seq = None,
       wa_wal_path_expected = (wal_content s' \<noteq> None)\<rparr>)"

section \<open>Calls of the operating system\<close>

definition on_os :: "(os \<Rightarrow> 'a \<times> os) \<Rightarrow> 'a wm" where
  "on_os f = State (\<lambda>w. case f (wa_os w) of (r, s) \<Rightarrow> (r, w\<lparr>wa_os := s\<rparr>))"

abbreviation upd :: "(wal \<Rightarrow> wal) \<Rightarrow> unit wm" where
  "upd \<equiv> State_Monad.update"

abbreviation ret :: "'a \<Rightarrow> 'a wm" where
  "ret \<equiv> State_Monad.return"

definition clock :: "seconds wm" where
  "clock = on_os os_read_clock"

section \<open>Handles\<close>

definition set_handle :: "which \<Rightarrow> ident option \<Rightarrow> unit wm" where
  "set_handle which h = upd (\<lambda>w. w\<lparr>wa_fp := (wa_fp w)(which := h)\<rparr>)"

definition set_dirty :: "which \<Rightarrow> bool \<Rightarrow> unit wm" where
  "set_dirty which d = upd (\<lambda>w. w\<lparr>wa_dirty := (wa_dirty w)(which := d)\<rparr>)"

definition close_handle :: "which \<Rightarrow> bool \<Rightarrow> os_error option wm" where
  "close_handle which sync = do {
     w \<leftarrow> State_Monad.get;
     case wa_fp w which of
       None \<Rightarrow> ret None
     | Some h \<Rightarrow> do {
         set_handle which None;
         first_error \<leftarrow> (if sync then do { r \<leftarrow> on_os (file_sync h); ret (case r of Inl e \<Rightarrow> Some e | Inr _ \<Rightarrow> None) } else ret None);
         r \<leftarrow> on_os (file_close h);
         ret (case r of Inr _ \<Rightarrow> first_error | Inl e \<Rightarrow> (case first_error of None \<Rightarrow> Some e | Some e' \<Rightarrow> Some e'))
       }
   }"

definition open_handle :: "which \<Rightarrow> (os_error + ident) wm" where
  "open_handle which = do {
     w \<leftarrow> State_Monad.get;
     case wa_fp w which of
       Some h \<Rightarrow> ret (Inr h)
     | None \<Rightarrow> and_then (on_os (open_append (path_of which))) (\<lambda>h. do {
         set_handle which (Some h);
         (if which = Wal_file then do {
            upd (\<lambda>w. w\<lparr>wa_wal_path_expected := True\<rparr>);
            r \<leftarrow> on_os (file_identity h);
            upd (\<lambda>w. w\<lparr>wa_wal_identity := (case r of Inl _ \<Rightarrow> None | Inr i \<Rightarrow> Some i)\<rparr>);
            now \<leftarrow> clock;
            upd (\<lambda>w. w\<lparr>wa_last_identity_check := Some now\<rparr>)
          } else ret ());
         ret (Inr h)
       })
   }"

definition write_once :: "which \<Rightarrow> byte list \<Rightarrow> (os_error + unit) wm" where
  "write_once which data = and_then (open_handle which) (\<lambda>h. on_os (write_all_flush h data))"

definition sent_bytes :: "os_error \<Rightarrow> nat \<Rightarrow> nat" where
  "sent_bytes e attempted = (case oe_sent e of None \<Rightarrow> 0 | Some n \<Rightarrow> min n attempted)"

definition tail_is_dirty :: "nat \<Rightarrow> nat \<Rightarrow> nat \<Rightarrow> bool" where
  "tail_is_dirty sent data_length prefix_length =
     (if data_length \<le> sent then False
      else if prefix_length \<noteq> 0 then sent = 0 \<or> prefix_length < sent
      else 0 < sent)"

definition record_recreated :: "os_error \<Rightarrow> unit wm" where
  "record_recreated e = upd (\<lambda>w. w\<lparr>wa_recreated_count := Suc (wa_recreated_count w), wa_last_write_error := Some (oe_text e)\<rparr>)"

definition note_retry_succeeded :: "os_error \<Rightarrow> unit wm" where
  "note_retry_succeeded e = do {
     upd (\<lambda>w. w\<lparr>wa_last_write_error := Some (oe_text e)\<rparr>);
     if oe_errno e = ENOENT then record_recreated e else ret ()
   }"

section \<open>Writing one record\<close>

text \<open>The end of a second attempt, after \<open>sent\<close> of \<open>len\<close> bytes had been written. The result is the error, if any.\<close>

definition retry_finish :: "which \<Rightarrow> os_error \<Rightarrow> nat \<Rightarrow> nat \<Rightarrow> nat \<Rightarrow> os_error + unit \<Rightarrow> os_error option wm" where
  "retry_finish which first_exc sent len prefix_length r = (case r of
     Inl e \<Rightarrow> do { set_dirty which (tail_is_dirty (sent + sent_bytes e (len - sent)) len prefix_length); ret (Some e) }
   | Inr _ \<Rightarrow> do { set_dirty which False; note_retry_succeeded first_exc; ret None })"

definition retry_write :: "which \<Rightarrow> byte list \<Rightarrow> os_error \<Rightarrow> byte list \<Rightarrow> nat \<Rightarrow> os_error option wm" where
  "retry_write which data first_exc first_attempt prefix_length =
     (let sent = sent_bytes first_exc (length first_attempt) in
      if 0 < sent then
        if length first_attempt \<le> sent then do { set_dirty which False; note_retry_succeeded first_exc; ret None }
        else do {
          r \<leftarrow> write_once which (drop sent first_attempt);
          retry_finish which first_exc sent (length first_attempt) prefix_length r }
      else do {
        ce \<leftarrow> close_handle which False;
        case ce of
          Some e \<Rightarrow> do { set_dirty which (prefix_length \<noteq> 0); ret (Some e) }
        | None \<Rightarrow> do {
            r \<leftarrow> and_then (on_os ensure_dir) (\<lambda>_. write_once which data);
            retry_finish which first_exc 0 (length data) prefix_length r }
      })"

definition write_data :: "which \<Rightarrow> byte list \<Rightarrow> os_error option wm" where
  "write_data which data = do {
     r \<leftarrow> write_once which data;
     case r of Inl e \<Rightarrow> retry_write which data e data 0
     | Inr _ \<Rightarrow> do { set_dirty which False; ret None }
   }"

definition write_one :: "which \<Rightarrow> byte list \<Rightarrow> os_error option wm" where
  "write_one which data = do {
     w \<leftarrow> State_Monad.get;
     if wa_dirty w which then do {
       r \<leftarrow> write_once which [0x0A];
       case r of Inl e \<Rightarrow> retry_write which (0x0A # data) e [0x0A] 1
       | Inr _ \<Rightarrow> do { set_dirty which False; write_data which data }
     } else write_data which data
   }"

definition write_record :: "(rat \<Rightarrow> string) \<Rightarrow> wal_rec \<Rightarrow> byte list \<Rightarrow> (os_error option \<times> os_error option) wm" where
  "write_record fl r payload = do {
     wal_error \<leftarrow> write_one Wal_file (rec_line fl r);
     mirror_error \<leftarrow> (if to_printable payload \<noteq> [] then write_one Mirror_file (utf8_encode (to_printable payload))
                     else do { _ \<leftarrow> open_handle Mirror_file; ret None });
     ret (wal_error, mirror_error)
   }"

text \<open>What a caller gives for a record.\<close>

record rec_args =
  ra_com :: string
  ra_direction :: string
  ra_source :: string
  ra_payload :: "byte list"
  ra_cmd_id :: "string option"
  ra_meta :: "(string \<times> json) list"

definition new_record :: "rec_args \<Rightarrow> string \<Rightarrow> string \<Rightarrow> bool \<Rightarrow> wal_rec wm" where
  "new_record a payload_b64 crc loss_flag = do {
     upd (\<lambda>w. w\<lparr>wa_seq := wa_seq w + 1\<rparr>);
     w \<leftarrow> State_Monad.get;
     ret \<lparr>wr_seq = wa_seq w, wr_mono_ts_ns = os_mono (wa_os w), wr_wall_ts = os_wall (wa_os w), wr_com = ra_com a,
          wr_dir = ra_direction a, wr_source = ra_source a, wr_cmd_id = ra_cmd_id a, wr_len = length (ra_payload a),
          wr_crc32 = crc, wr_payload_b64 = payload_b64, wr_loss_flag = loss_flag, wr_meta = ra_meta a, wr_rotation_failed = False\<rparr>
   }"

definition meta_args :: "(string \<times> json) list \<Rightarrow> rec_args" where
  "meta_args meta = \<lparr>ra_com = ''WAL'', ra_direction = ''META'', ra_source = ''system'', ra_payload = [], ra_cmd_id = None, ra_meta = meta\<rparr>"

definition zero_crc :: string where "zero_crc = ''00000000''"

section \<open>Rotation\<close>

definition is_transient_rotate_error :: "os_error \<Rightarrow> bool" where
  "is_transient_rotate_error e \<longleftrightarrow> oe_errno e \<in> {EACCES, EBUSY} \<or> oe_winerror e \<in> {Some 5, Some 32}"

definition schedule_rotate_retry :: "which \<Rightarrow> bool wm" where
  "schedule_rotate_retry which = do {
     upd (\<lambda>w. w\<lparr>wa_rotate_retry_count := Suc (wa_rotate_retry_count w)\<rparr>);
     w \<leftarrow> State_Monad.get;
     let p = (case dict_get (wa_rotate_pending w) which of
                None \<Rightarrow> \<lparr>rp_failures = 1, rp_next_at = 0, rp_deferred = False, rp_last_warning_at = None\<rparr>
              | Some p \<Rightarrow> p\<lparr>rp_failures := Suc (rp_failures p)\<rparr>);
     now \<leftarrow> clock;
     if rp_failures p \<le> length WAL_ROTATE_RETRY_BACKOFF_S then do {
       upd (\<lambda>w. w\<lparr>wa_rotate_pending := dict_set which
         (p\<lparr>rp_deferred := False, rp_next_at := now + WAL_ROTATE_RETRY_BACKOFF_S ! (rp_failures p - 1)\<rparr>) (wa_rotate_pending w)\<rparr>);
       ret False }
     else do {
       upd (\<lambda>w. w\<lparr>wa_rotate_pending := dict_set which
           (p\<lparr>rp_deferred := True, rp_next_at := now + WAL_DEFERRED_DELETE_INTERVAL_S\<rparr>) (wa_rotate_pending w),
         wa_rotate_deferred_count := wa_rotate_deferred_count w + of_bool (\<not> rp_deferred p)\<rparr>);
       ret (\<not> rp_deferred p) }
   }"

text \<open>The \<open>except OSError\<close> block of \<open>_rotate_if_needed\<close>.\<close>

definition rotate_failed :: "which \<Rightarrow> os_error \<Rightarrow> unit wm" where
  "rotate_failed which e =
     (if is_transient_rotate_error e then do {
        newly_deferred \<leftarrow> schedule_rotate_retry which;
        now \<leftarrow> clock;
        w \<leftarrow> State_Monad.get;
        case dict_get (wa_rotate_pending w) which of None \<Rightarrow> ret ()
        | Some p \<Rightarrow>
            if newly_deferred \<or> rp_failures p = 1 \<or>
               (rp_deferred p \<and> (case rp_last_warning_at p of None \<Rightarrow> False | Some t \<Rightarrow> WAL_DEFERRED_WARNING_INTERVAL_S \<le> now - t))
            then do {
              now' \<leftarrow> clock;
              upd (\<lambda>w. w\<lparr>wa_rotate_pending := dict_set which (p\<lparr>rp_last_warning_at := Some now'\<rparr>) (wa_rotate_pending w)\<rparr>) }
            else ret () }
      else upd (\<lambda>w. w\<lparr>wa_rotate_pending := dict_pop which (wa_rotate_pending w)\<rparr>))"

text \<open>The body of the rotation proper: the handle is closed, the file is renamed.\<close>

definition rotate_file :: "which \<Rightarrow> (os_error + unit) wm" where
  "rotate_file which = do {
     ce \<leftarrow> close_handle which True;
     case ce of Some e \<Rightarrow> ret (Inl e)
     | None \<Rightarrow> do {
         w \<leftarrow> State_Monad.get;
         and_then (on_os (rename_noreplace_or_suffix (path_of which) (path_of which @ CHR ''.'' # os_stamp (wa_os w)))) (\<lambda>_. do {
           upd (\<lambda>w. w\<lparr>wa_rotate_pending := dict_pop which (wa_rotate_pending w)\<rparr>);
           set_dirty which False;
           (if which = Wal_file then
              upd (\<lambda>w. w\<lparr>wa_wal_path_expected := False, wa_wal_identity := None, wa_file_first_seq := Some (wa_seq w + 1),
                         wa_file_first_seq_pending := False\<rparr>) else ret ());
           on_os sync_dir })
       }
   }"

definition rotation_due :: "which \<Rightarrow> bool wm" where
  "rotation_due which = do {
     w \<leftarrow> State_Monad.get;
     case dict_get (wa_rotate_pending w) which of None \<Rightarrow> ret True
     | Some p \<Rightarrow> do { now \<leftarrow> clock; ret (\<not> now < rp_next_at p) }
   }"

definition rotate_one :: "(which, nat option) dict \<Rightarrow> which list \<Rightarrow> which \<Rightarrow> bool wm" where
  "rotate_one sizes skip_paths which =
     (if which \<in> set skip_paths then ret False
      else do {
        r \<leftarrow> and_then (case dict_get sizes which of Some sz \<Rightarrow> ret (Inr sz) | None \<Rightarrow> on_os (file_size (path_of which))) (\<lambda>size. do {
          w \<leftarrow> State_Monad.get;
          if (case size of None \<Rightarrow> True | Some n \<Rightarrow> n < wa_rotate_bytes w) then do {
            upd (\<lambda>w. w\<lparr>wa_rotate_pending := dict_pop which (wa_rotate_pending w)\<rparr>);
            ret (Inr ()) }
          else do {
            due \<leftarrow> rotation_due which;
            if due then rotate_file which else ret (Inr ()) }
        });
        case r of Inr _ \<Rightarrow> ret False | Inl e \<Rightarrow> do { rotate_failed which e; ret True }
      })"

definition wal_rotate_if_needed :: "(which, nat option) dict \<Rightarrow> which list \<Rightarrow> bool wm" where
  "wal_rotate_if_needed sizes skip_paths = do {
     a \<leftarrow> rotate_one sizes skip_paths Wal_file;
     b \<leftarrow> rotate_one sizes skip_paths Mirror_file;
     ret (a \<or> b)
   }"


section \<open>Ticks\<close>

definition write_failed :: "os_error \<Rightarrow> unit wm" where
  "write_failed e = upd (\<lambda>w. w\<lparr>wa_write_failures := Suc (wa_write_failures w), wa_last_write_error := Some (oe_text e),
     wa_unhealthy := True, wa_unhealthy_reason := Some ''write_failed''\<rparr>)"

definition mark_healthy :: "unit wm" where
  "mark_healthy = upd (\<lambda>w. w\<lparr>wa_unhealthy := False, wa_unhealthy_reason := None\<rparr>)"

definition write_rotation_continuity_meta :: "(rat \<Rightarrow> string) \<Rightarrow> unit wm" where
  "write_rotation_continuity_meta fl = do {
     r \<leftarrow> on_os (file_size WAL_NAME);
     case r of Inl _ \<Rightarrow> ret () | Inr (Some _) \<Rightarrow> ret ()
     | Inr None \<Rightarrow> do {
         w \<leftarrow> State_Monad.get;
         record \<leftarrow> new_record (meta_args [(''event'', JStr ''WAL_ROTATED_AFTER_DEFERRAL''), (''archived_through_seq'', JInt (wa_seq w))]) [] zero_crc False;
         (wal_error, _) \<leftarrow> write_record fl record [];
         case wal_error of
           Some e \<Rightarrow> write_failed e
         | None \<Rightarrow> do {
             upd (\<lambda>w. w\<lparr>wa_file_first_seq := Some (wr_seq record), wa_file_first_seq_pending := False, wa_wal_path_expected := True\<rparr>);
             mark_healthy }
       }
   }"

text \<open>\<open>lock_free\<close>: whether the lock could be taken without waiting.\<close>

definition tick :: "(rat \<Rightarrow> string) \<Rightarrow> bool \<Rightarrow> bool wm" where
  "tick fl lock_free =
     (if \<not> lock_free then ret False
      else do {
        w \<leftarrow> State_Monad.get;
        if wa_closed w \<or> wa_rotate_pending w = [] then ret False
        else do {
          failed \<leftarrow> wal_rotate_if_needed [] [];
          w' \<leftarrow> State_Monad.get;
          (if wa_wal_path_expected w \<and> \<not> wa_wal_path_expected w' then write_rotation_continuity_meta fl else ret ());
          ret failed }
      })"

section \<open>Detection of a missing or replaced file\<close>

definition identity_change :: "which \<Rightarrow> (string option \<times> bool) wm" where
  "identity_change which = do {
     w \<leftarrow> State_Monad.get;
     case wa_fp w which of
       None \<Rightarrow> ret (None, False)
     | Some h \<Rightarrow> do {
         r \<leftarrow> on_os (path_identity (path_of which));
         case r of Inl _ \<Rightarrow> ret (None, True)
         | Inr p \<Rightarrow>
             if p = None \<or> p = Some (0, 0) then ret (Some ''external_unlink'', False)
             else do {
               r2 \<leftarrow> on_os (file_identity h);
               case r2 of Inl _ \<Rightarrow> ret (None, True)
               | Inr hi \<Rightarrow> do {
                   (if which = Wal_file then upd (\<lambda>w. w\<lparr>wa_wal_identity := Some hi\<rparr>) else ret ());
                   if p \<noteq> Some hi then ret (Some ''replaced'', False)
                   else do {
                     r3 \<leftarrow> on_os (file_unlinked h);
                     ret (case r3 of Inl _ \<Rightarrow> (None, True) | Inr u \<Rightarrow> (if u then Some ''external_unlink'' else None, False)) }
                 }
             }
       }
   }"

definition drop_mirror :: "unit wm" where
  "drop_mirror = do { _ \<leftarrow> close_handle Mirror_file False; set_dirty Mirror_file False }"

text \<open>The name check of the first loop of \<open>_check_missing_names_locked\<close>: what is wrong with the WAL, and with the mirror.\<close>

definition missing_reason :: "bool \<Rightarrow> (which, nat option) dict \<Rightarrow> which \<Rightarrow> string option" where
  "missing_reason directory_missing sizes which =
     (if directory_missing then Some ''dir_missing''
      else if dict_get sizes which = Some None then Some ''external_unlink'' else None)"

definition wal_name_reason :: "(which, nat option) dict \<Rightarrow> wal \<Rightarrow> string option" where
  "wal_name_reason sizes w =
     (let wal_expected = wa_wal_path_expected w \<or> wa_fp w Wal_file \<noteq> None;
          history = wal_expected \<or> wa_fp w Mirror_file \<noteq> None \<or> 0 < wa_seq w;
          directory_missing = history \<and> \<not> os_dir (wa_os w)
      in if wal_expected then missing_reason directory_missing sizes Wal_file else None)"

definition mirror_name_reason :: "(which, nat option) dict \<Rightarrow> wal \<Rightarrow> string option" where
  "mirror_name_reason sizes w =
     (if wa_fp w Mirror_file = None then None else missing_reason (\<not> os_dir (wa_os w)) sizes Mirror_file)"

text \<open>The throttled second loop: the identities of the files behind the two names.\<close>

definition check_identities :: "string option \<Rightarrow> seconds \<Rightarrow> (string option \<times> which list) wm" where
  "check_identities wal_reason now = do {
     upd (\<lambda>w. w\<lparr>wa_last_identity_check := Some now\<rparr>);
     (reason, unknown) \<leftarrow> (if wal_reason \<noteq> None then ret (wal_reason, False) else identity_change Wal_file);
     (m_reason, m_unknown) \<leftarrow> identity_change Mirror_file;
     (if m_reason \<noteq> None then drop_mirror else ret ());
     ret (reason, (if unknown then [Wal_file] else []) @ (if m_unknown then [Mirror_file] else []))
   }"

definition check_missing_names :: "(which, nat option) dict \<Rightarrow> bool \<Rightarrow> (string option \<times> which list) wm" where
  "check_missing_names sizes force_identity = do {
     w \<leftarrow> State_Monad.get;
     (if mirror_name_reason sizes w \<noteq> None then drop_mirror else ret ());
     now \<leftarrow> clock;
     w1 \<leftarrow> State_Monad.get;
     if force_identity \<or> (case wa_last_identity_check w1 of None \<Rightarrow> True | Some t \<Rightarrow> WAL_IDENTITY_CHECK_INTERVAL_S \<le> now - t)
     then check_identities (wal_name_reason sizes w) now
     else ret (wal_name_reason sizes w, [])
   }"

definition identity_text :: "ident option \<Rightarrow> string option" where
  "identity_text i = map_option (\<lambda>(d, n). show_nat d @ CHR '':'' # show_nat n) i"

definition previous_wal_identity :: "string option wm" where
  "previous_wal_identity = do {
     w \<leftarrow> State_Monad.get;
     case wa_fp w Wal_file of
       None \<Rightarrow> ret (identity_text (wa_wal_identity w))
     | Some h \<Rightarrow> do {
         r \<leftarrow> on_os (file_identity h);
         case r of Inl _ \<Rightarrow> ret (identity_text (wa_wal_identity w))
         | Inr i \<Rightarrow> do { upd (\<lambda>w. w\<lparr>wa_wal_identity := Some i\<rparr>); ret (identity_text (Some i)) }
       }
   }"

section \<open>Recreation\<close>

definition recreate_delay :: "nat \<Rightarrow> seconds" where
  "recreate_delay failure_number =
     (if failure_number \<le> length WAL_RECREATE_BACKOFF_S then WAL_RECREATE_BACKOFF_S ! (failure_number - 1)
      else WAL_RECREATE_RETRY_INTERVALS_S !
        min (failure_number - length WAL_RECREATE_BACKOFF_S - 1) (length WAL_RECREATE_RETRY_INTERVALS_S - 1))"

definition schedule_recreate_retry :: "os_error \<Rightarrow> unit wm" where
  "schedule_recreate_retry e = do {
     upd (\<lambda>w. w\<lparr>wa_recreate_failures := Suc (wa_recreate_failures w)\<rparr>);
     now \<leftarrow> clock;
     upd (\<lambda>w. w\<lparr>wa_next_recreate_at := Some (now + recreate_delay (wa_recreate_failures w)), wa_unhealthy := True,
                wa_unhealthy_reason := Some ''recreate_failed'', wa_last_write_error := Some (oe_text e)\<rparr>)
   }"

text \<open>Terminating a partial last line that the file has.\<close>

definition recreate_terminate :: "ident \<Rightarrow> (os_error + unit) wm" where
  "recreate_terminate h = and_then (on_os (tail_needs_termination WAL_NAME)) (\<lambda>d. do {
     set_dirty Wal_file d;
     if d then and_then (on_os (write_all_flush h [0x0A])) (\<lambda>_. do { set_dirty Wal_file False; ret (Inr ()) })
     else ret (Inr ()) })"

definition recreate_open :: "seconds \<Rightarrow> (os_error + unit) wm" where
  "recreate_open now =
     and_then (and_then (on_os ensure_dir) (\<lambda>_. on_os (open_append WAL_NAME))) (\<lambda>h. do {
       set_handle Wal_file (Some h);
       upd (\<lambda>w. w\<lparr>wa_wal_path_expected := True\<rparr>);
       r \<leftarrow> on_os (file_identity h);
       upd (\<lambda>w. w\<lparr>wa_wal_identity := (case r of Inl _ \<Rightarrow> None | Inr i \<Rightarrow> Some i), wa_last_identity_check := Some now\<rparr>);
       r2 \<leftarrow> recreate_terminate h;
       case r2 of Inr _ \<Rightarrow> ret (Inr ())
       | Inl e \<Rightarrow> do { _ \<leftarrow> close_handle Wal_file False; ret (Inl e) }
     })"

definition recreate_meta :: "wal \<Rightarrow> (string \<times> json) list" where
  "recreate_meta w =
     (let range_known = (case wa_pending_file_first_seq w of None \<Rightarrow> False | Some f \<Rightarrow> f \<le> wa_seq w)
      in [(''event'', JStr ''WAL_RECREATED_AFTER_EXTERNAL_UNLINK''),
          (''reason'', case wa_pending_recreate_reason w of None \<Rightarrow> JNull | Some r \<Rightarrow> JStr r),
          (''previous_identity'', case wa_pending_previous_identity w of None \<Rightarrow> JNull | Some i \<Rightarrow> JStr i),
          (''potentially_lost_seq_range'',
             if range_known then JList [JInt (the (wa_pending_file_first_seq w)), JInt (wa_seq w)] else JNull),
          (''range_known'', JBool range_known)])"

definition attempt_recreate :: "(rat \<Rightarrow> string) \<Rightarrow> bool wm" where
  "attempt_recreate fl = do {
     w \<leftarrow> State_Monad.get;
     if wa_pending_recreate_reason w = None then ret False
     else do {
       now \<leftarrow> clock;
       if (case wa_next_recreate_at w of None \<Rightarrow> False | Some t \<Rightarrow> now < t) then ret False
       else do {
         r \<leftarrow> recreate_open now;
         case r of Inl e \<Rightarrow> do { schedule_recreate_retry e; ret False }
         | Inr _ \<Rightarrow> do {
             w1 \<leftarrow> State_Monad.get;
             meta \<leftarrow> new_record (meta_args (recreate_meta w1)) [] zero_crc True;
             (wal_error, _) \<leftarrow> write_record fl meta [];
             case wal_error of
               Some e \<Rightarrow> do { _ \<leftarrow> close_handle Wal_file False; schedule_recreate_retry e; ret False }
             | None \<Rightarrow> do {
                 upd (\<lambda>w. w\<lparr>wa_file_first_seq := Some (wr_seq meta), wa_file_first_seq_pending := False\<rparr>);
                 record_recreated (os_fail ENOENT WAL_NAME);
                 upd (\<lambda>w. w\<lparr>wa_pending_recreate_reason := None, wa_pending_previous_identity := None, wa_pending_file_first_seq := None,
                            wa_recreate_failures := 0, wa_next_recreate_at := None\<rparr>);
                 mark_healthy;
                 ret True }
           }
       }
     }
   }"

text \<open>\<open>_begin_recreate_locked\<close> with \<open>attempt=False\<close>, its only use.\<close>

definition begin_recreate :: "string \<Rightarrow> unit wm" where
  "begin_recreate reason = do {
     w \<leftarrow> State_Monad.get;
     if wa_pending_recreate_reason w \<noteq> None then ret ()
     else do {
       upd (\<lambda>w. w\<lparr>wa_pending_recreate_reason := Some reason\<rparr>);
       i \<leftarrow> previous_wal_identity;
       upd (\<lambda>w. w\<lparr>wa_pending_previous_identity := i, wa_pending_file_first_seq := wa_file_first_seq w,
                  wa_recreate_failures := 0, wa_next_recreate_at := None\<rparr>);
       _ \<leftarrow> close_handle Wal_file False;
       set_dirty Wal_file False }
   }"

section \<open>Append\<close>

definition observe_sizes :: "(which, nat option) dict wm" where
  "observe_sizes = do {
     a \<leftarrow> on_os (file_size WAL_NAME);
     b \<leftarrow> on_os (file_size MIRROR_NAME);
     ret ((case a of Inl _ \<Rightarrow> [] | Inr n \<Rightarrow> [(Wal_file, n)]) @ (case b of Inl _ \<Rightarrow> [] | Inr n \<Rightarrow> [(Mirror_file, n)]))
   }"

definition oversized :: "nat \<Rightarrow> (which, nat option) dict \<Rightarrow> bool" where
  "oversized rotate_bytes sizes \<longleftrightarrow> list_ex (\<lambda>(_, n). case n of None \<Rightarrow> False | Some k \<Rightarrow> rotate_bytes \<le> k) sizes"

text \<open>What \<open>append\<close> does before it writes, when no recreation is pending: the checks and the rotation.\<close>

definition append_prepare :: "(rat \<Rightarrow> string) \<Rightarrow> bool wm" where
  "append_prepare fl = do {
     w \<leftarrow> State_Monad.get;
     if wa_pending_recreate_reason w \<noteq> None then ret False
     else do {
       sizes \<leftarrow> observe_sizes;
       (reason, unknown) \<leftarrow> check_missing_names sizes (oversized (wa_rotate_bytes w) sizes);
       case reason of
         Some rs \<Rightarrow> do {
           begin_recreate rs;
           failed \<leftarrow> wal_rotate_if_needed sizes [];
           _ \<leftarrow> attempt_recreate fl;
           ret failed }
       | None \<Rightarrow> wal_rotate_if_needed sizes unknown }
   }"

text \<open>The bookkeeping of \<open>append\<close> after the two writes.\<close>

definition append_outcome :: "wal_rec \<Rightarrow> os_error option \<Rightarrow> os_error option \<Rightarrow> wal_rec wm" where
  "append_outcome record wal_error mirror_error = do {
     record' \<leftarrow> (case wal_error of
       None \<Rightarrow> do {
         upd (\<lambda>w. if wa_file_first_seq_pending w then w\<lparr>wa_file_first_seq := Some (wr_seq record), wa_file_first_seq_pending := False\<rparr> else w);
         mark_healthy;
         ret record }
     | Some e \<Rightarrow> do { write_failed e; ret (record\<lparr>wr_loss_flag := True\<rparr>) });
     (case mirror_error of None \<Rightarrow> ret ()
      | Some e \<Rightarrow> upd (\<lambda>w. w\<lparr>wa_write_failures := Suc (wa_write_failures w), wa_last_write_error := Some (oe_text e)\<rparr>));
     ret record'
   }"

definition append_write :: "(rat \<Rightarrow> string) \<Rightarrow> wal_rec \<Rightarrow> byte list \<Rightarrow> wal_rec wm" where
  "append_write fl record payload = do {
     (wal_error, mirror_error) \<leftarrow> write_record fl record payload;
     append_outcome record wal_error mirror_error
   }"

definition append_closed :: "wal_rec \<Rightarrow> wal_rec wm" where
  "append_closed record = do {
     upd (\<lambda>w. w\<lparr>wa_write_failures := Suc (wa_write_failures w), wa_last_write_error := Some ''WalClosed: writer closed''\<rparr>);
     ret (record\<lparr>wr_loss_flag := True\<rparr>)
   }"

definition append_pending :: "wal_rec \<Rightarrow> wal_rec wm" where
  "append_pending record = do {
     upd (\<lambda>w. w\<lparr>wa_write_failures := Suc (wa_write_failures w),
                wa_last_write_error := (case wa_last_write_error w of None \<Rightarrow> Some ''WAL recreation is pending'' | Some e \<Rightarrow> Some e)\<rparr>);
     ret record
   }"

definition payload_crc32 :: "byte list \<Rightarrow> string" where
  "payload_crc32 payload = hex8 (crc32 payload)"

definition wal_append :: "(rat \<Rightarrow> string) \<Rightarrow> rec_args \<Rightarrow> bool \<Rightarrow> wal_rec wm" where
  "wal_append fl a loss_flag = do {
     w \<leftarrow> State_Monad.get;
     let b64 = b64encode (ra_payload a);
     let crc = payload_crc32 (ra_payload a);
     if wa_closed w then do { record \<leftarrow> new_record a b64 crc loss_flag; append_closed record }
     else do {
       rotation_failed \<leftarrow> append_prepare fl;
       w1 \<leftarrow> State_Monad.get;
       recreated \<leftarrow> (if wa_pending_recreate_reason w1 = None then ret True else attempt_recreate fl);
       record \<leftarrow> new_record a b64 crc (if recreated then loss_flag else True);
       let record = record\<lparr>wr_rotation_failed := rotation_failed\<rparr>;
       if recreated then append_write fl record (ra_payload a) else append_pending record
     }
   }"

section \<open>Close, sync, reset and health\<close>

definition first_of_errors :: "os_error option \<Rightarrow> os_error option \<Rightarrow> os_error option" where
  "first_of_errors a b = (case a of None \<Rightarrow> b | Some e \<Rightarrow> Some e)"

definition wal_close :: "os_error option wm" where
  "wal_close = do {
     w \<leftarrow> State_Monad.get;
     if wa_closed w then ret None
     else do {
       upd (\<lambda>w. w\<lparr>wa_closed := True\<rparr>);
       a \<leftarrow> close_handle Wal_file True;
       b \<leftarrow> close_handle Mirror_file True;
       ret (first_of_errors a b) }
   }"

definition sync_one :: "which \<Rightarrow> os_error option wm" where
  "sync_one which = do {
     w \<leftarrow> State_Monad.get;
     case wa_fp w which of None \<Rightarrow> ret None
     | Some h \<Rightarrow> do { r \<leftarrow> on_os (file_sync h); ret (case r of Inl e \<Rightarrow> Some e | Inr _ \<Rightarrow> None) }
   }"

definition wal_sync :: "os_error option wm" where
  "wal_sync = do {
     w \<leftarrow> State_Monad.get;
     if wa_closed w then ret None
     else do { a \<leftarrow> sync_one Wal_file; b \<leftarrow> sync_one Mirror_file; ret (first_of_errors a b) }
   }"

text \<open>The loop body of \<open>reset\<close>; the result is the name the file got, if it was renamed.\<close>

definition reset_archive :: "which \<Rightarrow> (os_error + string option) wm" where
  "reset_archive which = do {
     ce \<leftarrow> close_handle which True;
     case ce of Some e \<Rightarrow> ret (Inl e)
     | None \<Rightarrow> do {
         w \<leftarrow> State_Monad.get;
         and_then (on_os (rename_noreplace_or_suffix (path_of which) (path_of which @ CHR ''.'' # os_stamp (wa_os w)))) (\<lambda>dst. do {
           (if which = Wal_file then
              upd (\<lambda>w. w\<lparr>wa_wal_path_expected := False, wa_wal_identity := None, wa_file_first_seq := Some (wa_seq w + 1),
                         wa_file_first_seq_pending := False\<rparr>) else ret ());
           set_dirty which False;
           ret (Inr (Some dst)) })
       }
   }"

definition reset_one :: "which \<Rightarrow> (os_error + string option) wm" where
  "reset_one which = and_then (on_os (file_size (path_of which))) (\<lambda>size.
     if (case size of None \<Rightarrow> True | Some n \<Rightarrow> n = 0) then ret (Inr None) else reset_archive which)"

text \<open>The result: the previous sequence number and the suffix of the archive.\<close>

definition wal_reset :: "(os_error + int \<times> string) wm" where
  "wal_reset = do {
     w \<leftarrow> State_Monad.get;
     and_then (reset_one Wal_file) (\<lambda>dst. and_then (reset_one Mirror_file) (\<lambda>_. and_then (on_os sync_dir) (\<lambda>_. do {
       upd (\<lambda>w. w\<lparr>wa_rotate_pending := [], wa_seq := 0, wa_wal_path_expected := False, wa_wal_identity := None,
                  wa_file_first_seq := Some 1, wa_file_first_seq_pending := False\<rparr>);
       ret (Inr (wa_seq w, case dst of None \<Rightarrow> os_stamp (wa_os w) | Some d \<Rightarrow> drop (Suc (length WAL_NAME)) d)) })))
   }"

record wal_health =
  wh_dir_exists :: bool
  wh_file_exists :: bool
  wh_dir_writable :: bool
  wh_current_seq :: int
  wh_write_failures :: nat
  wh_last_write_error :: "string option"
  wh_recreated_count :: nat
  wh_rotate_retry :: nat
  wh_rotate_deferred :: nat
  wh_deferred_delete_pending :: nat
  wh_healthy :: bool
  wh_unhealthy_reason :: "string option"

text \<open>\<open>access_ok\<close>: what \<open>os.access\<close> answers for the directory.\<close>

definition health :: "bool \<Rightarrow> wal \<Rightarrow> wal_health" where
  "health access_ok w =
     (let exists = dict_get (os_names (wa_os w)) WAL_NAME \<noteq> None; writable = os_dir (wa_os w) \<and> access_ok in
      \<lparr>wh_dir_exists = os_dir (wa_os w), wh_file_exists = exists, wh_dir_writable = writable, wh_current_seq = wa_seq w,
       wh_write_failures = wa_write_failures w, wh_last_write_error = wa_last_write_error w,
       wh_recreated_count = wa_recreated_count w, wh_rotate_retry = wa_rotate_retry_count w,
       wh_rotate_deferred = wa_rotate_deferred_count w,
       wh_deferred_delete_pending = length (filter (\<lambda>(_, p). rp_deferred p) (wa_rotate_pending w)),
       wh_healthy = (os_dir (wa_os w) \<and> writable \<and> \<not> (0 < wa_seq w \<and> \<not> exists) \<and> \<not> wa_unhealthy w),
       wh_unhealthy_reason = wa_unhealthy_reason w\<rparr>)"

end
