(* ===== verification/Wal_Invariants.thy ===== *)
theory Wal_Invariants
  imports Wal
begin

text \<open>
  What the writer of the write-ahead log guarantees: it never destroys bytes (\<open>never_destroys\<close>), a record that it reports
  as written is a line of its own in the file (\<open>append_is_a_line\<close>), also after writes that failed halfway, and a restart goes
  on after the last record. External programs may delete or replace the files between two operations.
\<close>

section \<open>The files only grow\<close>

definition wal_grows :: "wal \<Rightarrow> wal \<Rightarrow> bool" where
  "wal_grows w w' \<longleftrightarrow> os_grows (wa_os w) (wa_os w')"

interpretation grows: kept_relation wal_grows
  by unfold_locales (auto simp: wal_grows_def intro: os_grows_refl os_grows_trans)

lemma grows_ask: "os_grows s (snd (os_ask s))"
  by (auto simp: os_ask_def intro: os_grows_refl os_grows_same split: list.split)

lemma grows_call: "(\<And>s. os_grows s (snd (f s))) \<Longrightarrow> os_grows s (snd (os_call f s))"
  using grows_ask [of s] by (auto simp: os_call_def intro: os_grows_trans split: prod.split os_answer.split)

lemma grows_extend: "os_grows s (os_extend i bs s)"
  by (auto simp: os_grows_def os_extend_def dir_ok_def)

lemma grows_write: "os_grows s (snd (write_loop i sent data s))"
proof (induction i sent data s rule: write_loop.induct)
  case (1 i sent data s)
  obtain a s1 where a: "os_ask s = (a, s1)" by force
  have g: "os_grows s s1" using grows_ask [of s] by (simp add: a)
  show ?case
  proof (cases a)
    case (Ans_short n)
    have "data \<noteq> [] \<Longrightarrow> n \<noteq> 0 \<Longrightarrow> os_grows s (snd (write_loop i (sent + min n (length data)) (drop n data) (os_extend i (take n data) s1)))"
      using "1" [OF _ a [symmetric] Ans_short] os_grows_trans [OF os_grows_trans [OF g grows_extend]] by blast
    then show ?thesis using a g Ans_short by (subst write_loop.simps) (auto simp: os_grows_refl)
  qed (use a g os_grows_trans [OF g grows_extend] in \<open>auto simp: write_loop.simps [of i sent] os_grows_refl\<close>)
qed

lemma grows_new_file:
  assumes "dict_get (os_names s) p = None" "os_dir s"
  shows "os_grows s (s\<lparr>os_names := dict_set p (1, os_next s) (os_names s), os_data := (os_data s)((1, os_next s) := []),
    os_next := Suc (os_next s)\<rparr>)"
  unfolding os_grows_def
proof (intro conjI allI impI)
  fix q i assume q: "dict_get (os_names s) q = Some i"
  then have "q \<noteq> p" using assms by auto
  then show "dict_get (os_names (s\<lparr>os_names := dict_set p (1, os_next s) (os_names s), os_data := (os_data s)((1, os_next s) := []),
      os_next := Suc (os_next s)\<rparr>)) q = Some i" using q by simp
  then show "\<exists>q. dict_get (os_names (s\<lparr>os_names := dict_set p (1, os_next s) (os_names s),
      os_data := (os_data s)((1, os_next s) := []), os_next := Suc (os_next s)\<rparr>)) q = Some i" by blast
qed (use assms(2) in \<open>auto simp: dir_ok_def\<close>)

lemma grows_open: "os_grows s (snd (open_append p s))"
  unfolding open_append_def
  by (rule grows_call) (simp add: Let_def os_grows_refl grows_new_file del: One_nat_def split: option.split)

text \<open>Calls that change neither names nor data.\<close>

definition os_same :: "os \<Rightarrow> os \<Rightarrow> bool" where
  "os_same s t \<longleftrightarrow> os_names t = os_names s \<and> os_data t = os_data s \<and> os_next t = os_next s"

lemma os_same_ask: "os_same s (snd (os_ask s))"
  by (auto simp: os_ask_def os_same_def split: list.split)

lemma os_same_call: "(\<And>s. os_same s (snd (f s))) \<Longrightarrow> os_same s (snd (os_call f s))"
proof -
  assume f: "\<And>s. os_same s (snd (f s))"
  obtain a s1 where a: "os_ask s = (a, s1)" by force
  have "os_same s s1" using os_same_ask [of s] by (simp add: a)
  then show ?thesis using f [of s1] by (auto simp: os_call_def a os_same_def split: os_answer.split)
qed

text \<open>A call fails before it does anything, or does its work.\<close>

lemma os_call_cases:
  assumes "os_call f s = (r, s')"
  obtains (failed) e where "r = Inl e" "os_same s s'" "os_dir s' = os_dir s"
  | (did) s1 where "f s1 = (r, s')" "os_same s s1" "os_dir s1 = os_dir s"
proof -
  obtain a s1 where a: "os_ask s = (a, s1)" by force
  then have "os_dir s1 = os_dir s" by (auto simp: os_ask_def split: list.splits)
  moreover have "os_same s s1" using os_same_ask [of s] by (simp add: a)
  ultimately show thesis using assms failed did by (auto simp: os_call_def a split: os_answer.splits)
qed

text \<open>What a rename does to the names: nothing, one more name for the file, or the new name in place of the old one.\<close>

definition renamed :: "string \<Rightarrow> string \<Rightarrow> os \<Rightarrow> os_error + unit \<Rightarrow> os \<Rightarrow> bool" where
  "renamed src dst s r s' \<longleftrightarrow> os_data s' = os_data s \<and> os_next s' = os_next s \<and> os_dir s' = os_dir s \<and>
     ((\<exists>e. r = Inl e) \<and> os_names s' = os_names s \<or>
      (\<exists>i. dict_get (os_names s) src = Some i \<and> dict_get (os_names s) dst = None \<and>
        ((\<exists>e. r = Inl e) \<and> os_names s' = dict_set dst i (os_names s) \<or> r = Inr () \<and> os_names s' = dict_set dst i (dict_pop src (os_names s)))))"

lemma renamed_same: "renamed src dst s1 r s' \<Longrightarrow> os_same s s1 \<Longrightarrow> os_dir s1 = os_dir s \<Longrightarrow> renamed src dst s r s'"
  by (simp add: renamed_def os_same_def)

lemma renamed_atomic: "rename_noreplace_atomic src dst s = (r, s') \<Longrightarrow> renamed src dst s r s'"
  unfolding rename_noreplace_atomic_def
  by (erule os_call_cases) (auto simp: renamed_def os_same_def simp del: not_None_eq split: if_splits option.splits)

lemma renamed_plain: "os_rename src dst s = (r, s') \<Longrightarrow> dict_get (os_names s) dst = None \<Longrightarrow> renamed src dst s r s'"
  unfolding os_rename_def
  by (erule os_call_cases) (auto simp: renamed_def os_same_def split: option.splits)

lemma unlink_cases:
  assumes "os_unlink p s = (r, s')"
  shows "os_data s' = os_data s \<and> os_next s' = os_next s \<and> os_dir s' = os_dir s \<and>
    os_names s' = (case r of Inl _ \<Rightarrow> os_names s | Inr _ \<Rightarrow> dict_pop p (os_names s))"
  using assms unfolding os_unlink_def
  by (elim os_call_cases) (auto simp: os_same_def split: if_splits)

lemma link_cases:
  assumes "os_link src dst s = (r, s')"
  shows "os_data s' = os_data s \<and> os_next s' = os_next s \<and> os_dir s' = os_dir s \<and>
    (case r of Inl _ \<Rightarrow> os_names s' = os_names s
     | Inr _ \<Rightarrow> \<exists>i. dict_get (os_names s) src = Some i \<and> dict_get (os_names s) dst = None \<and> os_names s' = dict_set dst i (os_names s))"
  using assms unfolding os_link_def
  by (elim os_call_cases) (auto simp: os_same_def simp del: not_None_eq split: if_splits option.splits)

lemma dict_pop_set_other: "k \<notin> dict_keys d \<Longrightarrow> j \<noteq> k \<Longrightarrow> dict_pop j (dict_set k v d) = dict_set k v (dict_pop j d)"
  by (simp add: dict_set_new) (simp add: AList.delete_eq)

lemma renamed_fallback: "rename_fallback src dst s = (r, s') \<Longrightarrow> renamed src dst s r s'"
proof -
  assume r: "rename_fallback src dst s = (r, s')"
  obtain l s1 where l: "os_link src dst s = (l, s1)" by force
  note c = link_cases [OF l]
  show ?thesis
  proof (cases l)
    case (Inl e)
    then have same: "os_same s s1" "os_dir s1 = os_dir s" using c by (auto simp: os_same_def)
    have "renamed src dst s1 r s'"

    proof (cases "oe_errno e = EEXIST \<or> dict_get (os_names s1) dst \<noteq> None")
      case True
      then show ?thesis using r l Inl by (auto simp: rename_fallback_def renamed_def simp del: not_None_eq split: if_splits)
    next
      case False
      then show ?thesis using r l Inl by (intro renamed_plain) (simp_all add: rename_fallback_def del: not_None_eq)
    qed
    then show ?thesis using same by (rule renamed_same)
  next
    case (Inr x)
    then obtain i where i: "dict_get (os_names s) src = Some i" "dict_get (os_names s) dst = None" "os_names s1 = dict_set dst i (os_names s)"
      using c by auto
    then have n: "dst \<notin> dict_keys (os_names s)" "src \<noteq> dst" by (simp add: dict_get_None_iff) (use i in auto)
    obtain u s2 where u: "os_unlink src s1 = (u, s2)" by force
    obtain v s3 where v: "os_unlink dst s2 = (v, s3)" by force
    show ?thesis
      using r l Inr u v c i unlink_cases [OF u] unlink_cases [OF v] dict_pop_set_other [OF n, of i] dict_pop_set_new [OF n(1), of i]
      by (cases u; cases v) (auto simp: rename_fallback_def renamed_def)
  qed
qed

lemma rename_effect: "rename_noreplace src dst s = (r, s') \<Longrightarrow> renamed src dst s r s'"
proof -
  assume r: "rename_noreplace src dst s = (r, s')"
  obtain r1 s1 where r1: "rename_noreplace_atomic src dst s = (r1, s1)" by force
  note c = renamed_atomic [OF r1]
  show ?thesis
  proof (cases r1)
    case (Inl e)
    show ?thesis
    proof (cases "oe_errno e = ENOTSUP")
      case True
      then have f: "rename_fallback src dst s1 = (r, s')" using r r1 Inl by (simp add: rename_noreplace_def)
      have n: "os_names s1 = os_names s"
        using r1 unfolding rename_noreplace_atomic_def
        by (elim os_call_cases) (use Inl in \<open>auto simp: os_same_def split: if_splits option.splits\<close>)
      then show ?thesis using c by (intro renamed_same [OF renamed_fallback [OF f]]) (auto simp: renamed_def os_same_def)
    qed (use c r r1 Inl in \<open>auto simp: rename_noreplace_def\<close>)
  qed (use c r r1 in \<open>auto simp: rename_noreplace_def\<close>)
qed

lemma grows_linked:
  assumes "dict_get (os_names s) dst = None" "dict_get (os_names s) src = Some i" "os_names t = dict_set dst i (os_names s)"
    "os_data t = os_data s" "os_next t = os_next s" "os_dir t = os_dir s"
  shows "os_grows s t"
  unfolding os_grows_def
proof (intro conjI allI impI)
  fix q j assume q: "dict_get (os_names s) q = Some j"
  then have "q \<noteq> dst" using assms(1) by auto
  then show "dict_get (os_names t) q = Some j" using q by (simp add: assms(3))
  then show "\<exists>q. dict_get (os_names t) q = Some j" by blast
qed (use assms in \<open>auto simp: dir_ok_def\<close>)

lemma grows_moved:
  assumes "src \<in> {WAL_NAME, MIRROR_NAME}" "dict_get (os_names s) dst = None" "dict_get (os_names s) src = Some i"
    "os_names t = dict_set dst i (dict_pop src (os_names s))" "os_data t = os_data s" "os_next t = os_next s" "os_dir t = os_dir s"
  shows "os_grows s t"
  unfolding os_grows_def
proof (intro conjI allI impI)
  fix q j assume q: "dict_get (os_names s) q = Some j"
  then have d: "q \<noteq> dst" using assms(2) by auto
  show "q \<notin> {WAL_NAME, MIRROR_NAME} \<Longrightarrow> dict_get (os_names t) q = Some j" using d q assms(1) by (auto simp: assms(4))
  show "\<exists>q. dict_get (os_names t) q = Some j"
    using d q assms(3) by (cases "q = src") (auto simp: assms(4) intro: exI [of _ dst] exI [of _ q])
qed (use assms in \<open>auto simp: dir_ok_def\<close>)

lemma grows_rename: "src \<in> {WAL_NAME, MIRROR_NAME} \<Longrightarrow> os_grows s (snd (rename_noreplace src dst s))"
proof -
  assume c: "src \<in> {WAL_NAME, MIRROR_NAME}"
  obtain r t where r: "rename_noreplace src dst s = (r, t)" by force
  from rename_effect [OF r] consider "os_names t = os_names s" "os_data t = os_data s" "os_next t = os_next s" "os_dir t = os_dir s"
    | i where "dict_get (os_names s) dst = None" "dict_get (os_names s) src = Some i" "os_names t = dict_set dst i (os_names s)"
      "os_data t = os_data s" "os_next t = os_next s" "os_dir t = os_dir s"
    | i where "dict_get (os_names s) dst = None" "dict_get (os_names s) src = Some i" "os_names t = dict_set dst i (dict_pop src (os_names s))"
      "os_data t = os_data s" "os_next t = os_next s" "os_dir t = os_dir s"
    by (auto simp: renamed_def)
  then show ?thesis
  proof cases
    case 1
    then show ?thesis by (simp add: r os_grows_same)
  next
    case 2
    then show ?thesis using grows_linked [OF 2] by (simp add: r)
  next
    case 3
    then show ?thesis using grows_moved [OF c 3] by (simp add: r)
  qed
qed

lemma grows_rename_from: "src \<in> {WAL_NAME, MIRROR_NAME} \<Longrightarrow> os_grows s (snd (rename_from k src base s))"
proof (induction k src base s rule: rename_from.induct)
  case (1 k src base s)
  obtain r s1 where r: "rename_noreplace src (archive_name base k) s = (r, s1)" by force
  have g: "os_grows s s1" using grows_rename [OF "1.prems", of s "archive_name base k"] by (simp add: r)
  then show ?case using 1 r
    by (subst rename_from.simps) (auto intro: os_grows_refl os_grows_trans split: sum.split)
qed

lemma path_of_current: "path_of which \<in> {WAL_NAME, MIRROR_NAME}"
  by (cases which) auto

lemma kept_on_os: "(\<And>s. os_grows s (snd (f s))) \<Longrightarrow> state_io_rel wal_grows (on_os f)"
  by (auto simp: state_io_rel_def on_os_def wal_grows_def split: prod.split) (metis snd_conv)

lemma kept_upd: "(\<And>w. wa_os (f w) = wa_os w) \<Longrightarrow> state_io_rel wal_grows (upd f)"
  by (rule grows.kept_update) (simp add: wal_grows_def os_grows_refl)

lemma kept_calls:
  "state_io_rel wal_grows (on_os (file_sync h))" "state_io_rel wal_grows (on_os (file_close h))"
  "state_io_rel wal_grows (on_os (file_identity h))" "state_io_rel wal_grows (on_os (file_unlinked h))"
  "state_io_rel wal_grows (on_os (file_size p))" "state_io_rel wal_grows (on_os (path_identity p))"
  "state_io_rel wal_grows (on_os (tail_needs_termination p))" "state_io_rel wal_grows (on_os sync_dir)"
  "state_io_rel wal_grows (on_os ensure_dir)" "state_io_rel wal_grows (on_os (open_append p))"
  "state_io_rel wal_grows (on_os (write_all_flush h data))"
  "state_io_rel wal_grows (on_os (rename_noreplace_or_suffix (path_of which) base))"
  "state_io_rel wal_grows clock"
proof -
  note defs = file_sync_def file_close_def file_identity_def file_unlinked_def file_size_def path_identity_def
    tail_needs_termination_def sync_dir_def ensure_dir_def
  show "state_io_rel wal_grows (on_os (open_append p))" by (intro kept_on_os grows_open)
  show "state_io_rel wal_grows (on_os (write_all_flush h data))"
    by (intro kept_on_os) (simp add: write_all_flush_def grows_write)
  show "state_io_rel wal_grows (on_os (rename_noreplace_or_suffix (path_of which) base))"
    using path_of_current by (intro kept_on_os) (simp add: rename_noreplace_or_suffix_def grows_rename_from)
  show "state_io_rel wal_grows clock" unfolding clock_def
    by (intro kept_on_os) (auto simp: os_read_clock_def intro: os_grows_refl os_grows_same split: list.split)
qed (intro kept_on_os; simp add: file_sync_def file_close_def file_identity_def file_unlinked_def file_size_def path_identity_def
    tail_needs_termination_def sync_dir_def ensure_dir_def; rule grows_call; auto intro: os_grows_refl os_grows_same)+

named_theorems kept

declare grows.kept_rules [kept] kept_upd [kept] kept_calls [kept]

lemma kept_close [kept]: "state_io_rel wal_grows (close_handle which sync)"
  unfolding close_handle_def set_handle_def
  by (intro kept; simp)+

lemma kept_open [kept]: "state_io_rel wal_grows (open_handle which)"
  unfolding open_handle_def set_handle_def
  by (intro kept; simp)+

lemma kept_write_once [kept]: "state_io_rel wal_grows (write_once which data)"
  unfolding write_once_def by (intro kept; simp)+

lemma kept_dirty [kept]: "state_io_rel wal_grows (set_dirty which d)"
  unfolding set_dirty_def by (intro kept; simp)+

lemma kept_note [kept]: "state_io_rel wal_grows (note_retry_succeeded e)"
  unfolding note_retry_succeeded_def record_recreated_def by (intro kept; simp)+

lemma kept_retry [kept]: "state_io_rel wal_grows (retry_write which data e att n)"
  unfolding retry_write_def retry_finish_def Let_def by (intro kept; simp)+

lemma kept_write_data [kept]: "state_io_rel wal_grows (write_data which data)"
  unfolding write_data_def by (intro kept; simp)+

lemma kept_write_one [kept]: "state_io_rel wal_grows (write_one which data)"
  unfolding write_one_def by (intro kept; simp)+

lemma kept_write_record [kept]: "state_io_rel wal_grows (write_record fl r payload)"
  unfolding write_record_def by (intro kept; simp)+

lemma kept_new_record [kept]: "state_io_rel wal_grows (new_record a b c l)"
  unfolding new_record_def by (intro kept; simp)+

lemma kept_rotate_failed [kept]: "state_io_rel wal_grows (rotate_failed which e)"
  unfolding rotate_failed_def schedule_rotate_retry_def Let_def by (intro kept; simp)+

lemma kept_rotate_file [kept]: "state_io_rel wal_grows (rotate_file which)"
  unfolding rotate_file_def by (intro kept; simp)+

lemma kept_rotate [kept]: "state_io_rel wal_grows (wal_rotate_if_needed sizes skip)"
  unfolding wal_rotate_if_needed_def rotate_one_def rotation_due_def
  by (intro kept; simp)+

lemma kept_small [kept]: "state_io_rel wal_grows (write_failed e)" "state_io_rel wal_grows mark_healthy"
  "state_io_rel wal_grows (schedule_recreate_retry e)" "state_io_rel wal_grows (record_recreated e)"
  "state_io_rel wal_grows (append_closed r)" "state_io_rel wal_grows (append_pending r)" "state_io_rel wal_grows drop_mirror"
  "state_io_rel wal_grows observe_sizes"
  unfolding write_failed_def mark_healthy_def schedule_recreate_retry_def record_recreated_def append_closed_def append_pending_def
    drop_mirror_def observe_sizes_def
  by (intro kept; simp)+

lemma kept_tick [kept]: "state_io_rel wal_grows (tick fl lock_free)"
  unfolding tick_def write_rotation_continuity_meta_def by (intro kept; simp)+

lemma kept_identity [kept]: "state_io_rel wal_grows (identity_change which)"
  unfolding identity_change_def by (intro kept; simp)+

lemma kept_check [kept]: "state_io_rel wal_grows (check_missing_names sizes force)"
  unfolding check_missing_names_def check_identities_def Let_def by (intro kept; simp)+

lemma kept_begin [kept]: "state_io_rel wal_grows (begin_recreate reason)"
  unfolding begin_recreate_def previous_wal_identity_def by (intro kept; simp)+

lemma kept_recreate_open [kept]: "state_io_rel wal_grows (recreate_open now)"
  unfolding recreate_open_def recreate_terminate_def set_handle_def by (intro kept; simp)+

lemma kept_attempt [kept]: "state_io_rel wal_grows (attempt_recreate fl)"
  unfolding attempt_recreate_def by (intro kept; simp)+

lemma kept_prepare [kept]: "state_io_rel wal_grows (append_prepare fl)"
  unfolding append_prepare_def by (intro kept; simp)+

lemma kept_append_write [kept]: "state_io_rel wal_grows (append_write fl r payload)"
  unfolding append_write_def append_outcome_def by (intro kept; simp)+

lemma kept_append [kept]: "state_io_rel wal_grows (wal_append fl a l)"
  unfolding wal_append_def Let_def by (intro kept; simp)+

lemma kept_close_sync [kept]: "state_io_rel wal_grows wal_close" "state_io_rel wal_grows wal_sync"
  unfolding wal_close_def wal_sync_def sync_one_def by (intro kept; simp)+

lemma kept_reset [kept]: "state_io_rel wal_grows wal_reset"
  unfolding wal_reset_def reset_one_def reset_archive_def by (intro kept; simp)+


section \<open>The tail of the WAL file\<close>

text \<open>
  The file that the writer holds open and the file that the name \<open>raw.wal.ndjson\<close> refers to: each ends with a line end,
  unless the tail is marked dirty and the file is the one that the next write goes to. The mirror has files of its own.
\<close>

definition tail_inv ::
  "ident option \<Rightarrow> ident option \<Rightarrow> ident option \<Rightarrow> ident option \<Rightarrow> nat \<Rightarrow> (ident \<Rightarrow> byte list) \<Rightarrow> bool \<Rightarrow> bool" where
  "tail_inv fw fm nw nm nx data dirty \<longleftrightarrow>
     (\<forall>i \<in> set_option fw \<union> set_option fm \<union> set_option nw \<union> set_option nm. fst i = 1 \<and> snd i < nx) \<and>
     (set_option fw \<union> set_option nw) \<inter> (set_option fm \<union> set_option nm) = {} \<and>
     (\<forall>i \<in> set_option fw \<union> set_option nw. ends_line (data i) \<or> dirty \<and> (fw = Some i \<or> fw = None))"

abbreviation fw :: "wal \<Rightarrow> ident option" where "fw w \<equiv> wa_fp w Wal_file"
abbreviation fm :: "wal \<Rightarrow> ident option" where "fm w \<equiv> wa_fp w Mirror_file"
abbreviation nw :: "wal \<Rightarrow> ident option" where "nw w \<equiv> dict_get (os_names (wa_os w)) WAL_NAME"
abbreviation nm :: "wal \<Rightarrow> ident option" where "nm w \<equiv> dict_get (os_names (wa_os w)) MIRROR_NAME"

definition tail_ok :: "wal \<Rightarrow> bool" where
  "tail_ok w \<longleftrightarrow> tail_inv (fw w) (fm w) (nw w) (nm w) (os_next (wa_os w)) (os_data (wa_os w)) (wa_dirty w Wal_file)"

lemma tail_ok_cong: "fw w' = fw w \<Longrightarrow> fm w' = fm w \<Longrightarrow> nw w' = nw w \<Longrightarrow> nm w' = nm w \<Longrightarrow> os_next (wa_os w') = os_next (wa_os w) \<Longrightarrow>
    os_data (wa_os w') = os_data (wa_os w) \<Longrightarrow> wa_dirty w' Wal_file = wa_dirty w Wal_file \<Longrightarrow> tail_ok w' = tail_ok w"
  by (simp add: tail_ok_def)

text \<open>A step that leaves the WAL file alone.\<close>

definition wal_alone :: "wal \<Rightarrow> wal \<Rightarrow> bool" where
  "wal_alone w w' \<longleftrightarrow> (tail_ok w \<longrightarrow> tail_ok w' \<and> fw w' = fw w \<and> nw w' = nw w \<and> wa_dirty w' Wal_file = wa_dirty w Wal_file \<and>
     (\<forall>i \<in> set_option (fw w) \<union> set_option (nw w). os_data (wa_os w') i = os_data (wa_os w) i))"

interpretation alone: kept_relation wal_alone
  by unfold_locales (auto simp: wal_alone_def)

definition tail_kept :: "wal \<Rightarrow> wal \<Rightarrow> bool" where
  "tail_kept w w' \<longleftrightarrow> (tail_ok w \<longrightarrow> tail_ok w')"

interpretation tail: kept_relation tail_kept
  by unfold_locales (auto simp: tail_kept_def)

lemma alone_tail: "state_io_rel wal_alone m \<Longrightarrow> state_io_rel tail_kept m"
  by (auto simp: state_io_rel_def wal_alone_def tail_kept_def)

lemma wal_alone_upd: "wa_os w' = wa_os w \<Longrightarrow> fw w' = fw w \<Longrightarrow> fm w' = fm w \<Longrightarrow> wa_dirty w' Wal_file = wa_dirty w Wal_file \<Longrightarrow> wal_alone w w'"
  unfolding wal_alone_def by (subst tail_ok_cong [of w' w]) auto

lemma alone_upd: "(\<And>w. wa_os (f w) = wa_os w) \<Longrightarrow> (\<And>w. wa_fp (f w) = wa_fp w) \<Longrightarrow> (\<And>w. wa_dirty (f w) = wa_dirty w) \<Longrightarrow>
    state_io_rel wal_alone (upd f)"
  by (rule alone.kept_update) (rule wal_alone_upd; simp)

lemma alone_on_os: "(\<And>s. os_same s (snd (f s))) \<Longrightarrow> state_io_rel wal_alone (on_os f)"
proof -
  assume f: "\<And>s. os_same s (snd (f s))"
  have "wal_alone w (w\<lparr>wa_os := snd (f (wa_os w))\<rparr>)" for w
    using f [of "wa_os w"] unfolding wal_alone_def os_same_def by (subst tail_ok_cong [of _ w]) auto
  then show ?thesis by (simp add: state_io_rel_def on_os_def split: prod.split) (metis snd_conv)
qed

lemma alone_calls:
  "state_io_rel wal_alone (on_os (file_sync h))" "state_io_rel wal_alone (on_os (file_close h))"
  "state_io_rel wal_alone (on_os (file_identity h))" "state_io_rel wal_alone (on_os (file_unlinked h))"
  "state_io_rel wal_alone (on_os (file_size p))" "state_io_rel wal_alone (on_os (path_identity p))"
  "state_io_rel wal_alone (on_os (tail_needs_termination p))" "state_io_rel wal_alone (on_os sync_dir)"
  "state_io_rel wal_alone (on_os ensure_dir)" "state_io_rel wal_alone clock"
proof -
  show "state_io_rel wal_alone clock" unfolding clock_def
    by (rule alone_on_os) (auto simp: os_read_clock_def os_same_def split: list.split)
qed (rule alone_on_os; simp add: file_sync_def file_close_def file_identity_def file_unlinked_def file_size_def path_identity_def
    tail_needs_termination_def sync_dir_def ensure_dir_def; rule os_same_call; simp add: os_same_def)+


lemma wp_on_os [simp]: "wp (on_os f) Q = (\<lambda>w. case f (wa_os w) of (r, s) \<Rightarrow> Q r (w\<lparr>wa_os := s\<rparr>))"
  by (simp add: wp_def on_os_def fun_eq_iff split: prod.split)

lemma wp_alone: "state_io_rel wal_alone m \<Longrightarrow> tail_ok w \<Longrightarrow> wp m (\<lambda>_ w'. wal_alone w w' \<and> tail_ok w') w"
  by (auto simp: wp_def state_io_rel_def wal_alone_def split: prod.split)

lemma wp_kept: "state_io_rel tail_kept m \<Longrightarrow> tail_ok w \<Longrightarrow> wp m (\<lambda>_. tail_ok) w"
  by (auto simp: wp_def state_io_rel_def tail_kept_def split: prod.split)

subsection \<open>Opening\<close>

lemma open_append_cases:
  assumes "open_append p s = (r, s')"
  obtains (failed) e where "r = Inl e" "oe_sent e = None" "os_same s s'"
  | (found) i where "r = Inr i" "os_same s s'" "dict_get (os_names s) p = Some i"
  | (created) i where "r = Inr i" "i = (1, os_next s)" "dict_get (os_names s) p = None"
      "os_names s' = dict_set p i (os_names s)" "os_data s' = (os_data s)(i := [])" "os_next s' = Suc (os_next s)"
proof -
  obtain a s1 where a: "os_ask s = (a, s1)" by force
  have s1: "os_same s s1" using os_same_ask [of s] by (simp add: a)
  show thesis
  proof (cases "a \<in> range Ans_err")
    case True
    then obtain x where x: "a = Ans_err x" by auto
    show thesis using assms s1 by (intro failed [of "x\<lparr>oe_sent := None\<rparr>"]) (auto simp: open_append_def os_call_def a x)
  next
    case False
    then have e: "open_append p s = (if \<not> os_dir s1 then (Inl (os_fail ENOENT p), s1)
       else case dict_get (os_names s1) p of Some i \<Rightarrow> (Inr i, s1)
       | None \<Rightarrow> let i = (1, os_next s1) in
         (Inr i, s1\<lparr>os_names := dict_set p i (os_names s1), os_data := (os_data s1)(i := []), os_next := Suc (os_next s1)\<rparr>))"
      by (cases a) (auto simp: open_append_def os_call_def a)
    show thesis
    proof (cases "os_dir s1")
      case False
      then show thesis using assms e s1 by (intro failed) (auto simp: os_fail_def)
    next
      case True
      show thesis
      proof (cases "dict_get (os_names s1) p")
        case None
        then show thesis using assms e s1 True by (intro created) (auto simp: os_same_def Let_def)
      next
        case (Some i)
        then show thesis using assms e s1 True by (intro found) (auto simp: os_same_def)
      qed
    qed
  qed
qed

lemma names_differ [simp]: "WAL_NAME \<noteq> MIRROR_NAME" "MIRROR_NAME \<noteq> WAL_NAME"
  by (simp_all add: WAL_NAME_def MIRROR_NAME_def)

text \<open>The handle that the opened name gives is safe to write to.\<close>

lemma tail_open_wal:
  assumes ok: "tail_ok w" and o: "open_append WAL_NAME (wa_os w) = (Inr i, s')"
  shows "tail_ok (w\<lparr>wa_os := s', wa_fp := (wa_fp w)(Wal_file := Some i)\<rparr>)"
  using o
proof (cases rule: open_append_cases)
  case (found j)
  then show ?thesis using ok by (auto simp: tail_ok_def tail_inv_def os_same_def)
next
  case (created j)
  then show ?thesis using ok by (auto simp: tail_ok_def tail_inv_def ends_line_def)
qed simp

lemma alone_open_mirror:
  assumes o: "open_append MIRROR_NAME (wa_os w) = (Inr i, s')"
  shows "wal_alone w (w\<lparr>wa_os := s', wa_fp := (wa_fp w)(Mirror_file := Some i)\<rparr>)"
  using o
proof (cases rule: open_append_cases)
  case (found j)
  then show ?thesis by (auto simp: wal_alone_def tail_ok_def tail_inv_def os_same_def)
next
  case (created j)
  then show ?thesis by (auto simp: wal_alone_def tail_ok_def tail_inv_def)
qed simp

lemma alone_failed: "os_same (wa_os w) s' \<Longrightarrow> wal_alone w (w\<lparr>wa_os := s'\<rparr>)"
  unfolding wal_alone_def os_same_def by (subst tail_ok_cong [of _ w]) auto

subsection \<open>Writing\<close>

definition wrote :: "wal \<Rightarrow> ident \<Rightarrow> byte list \<Rightarrow> wal \<Rightarrow> bool" where
  "wrote w i bs w' \<longleftrightarrow> wa_fp w' = wa_fp w \<and> wa_dirty w' = wa_dirty w \<and> os_names (wa_os w') = os_names (wa_os w) \<and>
     os_next (wa_os w') = os_next (wa_os w) \<and> os_data (wa_os w') = (os_data (wa_os w))(i := os_data (wa_os w) i @ bs)"

text \<open>What a call of \<open>write_all_flush\<close> leaves behind: all of it, or a proper prefix that the error tells.\<close>

definition wrote_upto :: "wal \<Rightarrow> ident \<Rightarrow> byte list \<Rightarrow> os_error + unit \<Rightarrow> wal \<Rightarrow> bool" where
  "wrote_upto w i d r w' \<longleftrightarrow> (case r of Inr _ \<Rightarrow> wrote w i d w'
     | Inl e \<Rightarrow> (\<exists>n < length d. oe_sent e = Some n \<and> wrote w i (take n d) w'))"

lemma write_loop_effect:
  assumes "write_loop i sent d s = (r, s')"
  shows "\<exists>n. os_names s' = os_names s \<and> os_next s' = os_next s \<and> os_data s' = (os_data s)(i := os_data s i @ take n d) \<and>
    (case r of Inr _ \<Rightarrow> n = length d | Inl e \<Rightarrow> n < length d \<and> oe_sent e = Some (sent + n))"
  using assms
proof (induction i sent d s rule: write_loop.induct)
  case (1 i sent d s)
  obtain a s1 where a: "os_ask s = (a, s1)" by force
  have s1: "os_same s s1" using os_same_ask [of s] by (simp add: a)
  show ?case
  proof (cases "d = []")
    case True
    then show ?thesis using "1.prems" by (auto simp: write_loop.simps [of i sent])
  next
    case d: False
    show ?thesis
    proof (cases a)
      case Ans_ok
      then show ?thesis using "1.prems" d a s1
        by (auto simp: write_loop.simps [of i sent] os_extend_def os_same_def intro!: exI [of _ "length d"])
    next
      case (Ans_err e)
      then show ?thesis using "1.prems" d a s1
        by (auto simp: write_loop.simps [of i sent] os_same_def intro!: exI [of _ 0])
    next
      case (Ans_short n)
      show ?thesis
      proof (cases "n = 0")
        case True
        then show ?thesis using "1.prems" d a s1 Ans_short
          by (auto simp: write_loop.simps [of i sent] os_same_def os_fail_def intro!: exI [of _ 0])
      next
        case False
        then have "write_loop i (sent + min n (length d)) (drop n d) (os_extend i (take n d) s1) = (r, s')"
          using "1.prems" d a Ans_short by (simp add: write_loop.simps [of i sent d])
        from "1.IH" [OF d a [symmetric] Ans_short False this] obtain m where m:
          "os_names s' = os_names s1" "os_next s' = os_next s1"
          "os_data s' = (os_data s1)(i := (os_data s1 i @ take n d) @ take m (drop n d))"
          "case r of Inr _ \<Rightarrow> m = length (drop n d) | Inl e \<Rightarrow> m < length (drop n d) \<and> oe_sent e = Some (sent + min n (length d) + m)"
          by (fastforce simp: os_extend_def fun_upd_def)
        have "take n d @ take m (drop n d) = take (min n (length d) + m) d"
          by (metis min_def take_add take_all_iff nat_le_linear drop_all append_Nil2 take_Nil)
        then show ?thesis using m s1
          by (intro exI [of _ "min n (length d) + m"]) (auto simp: os_same_def min_def split: sum.splits)
      qed
    qed
  qed
qed


lemma write_loop_upto: "write_loop i 0 d (wa_os w) = (r, s') \<Longrightarrow> wrote_upto w i d r (w\<lparr>wa_os := s'\<rparr>)"
  by (drule write_loop_effect) (auto simp: wrote_upto_def wrote_def split: sum.splits)

lemma wp_write_open:
  assumes h: "wa_fp w which = Some i" and Q: "\<And>r w'. wrote_upto w i d r w' \<Longrightarrow> Q r w'"
  shows "wp (write_once which d) Q w"
proof -
  obtain r s' where e: "write_loop i 0 d (wa_os w) = (r, s')" by force
  from write_loop_upto [OF e] Q show ?thesis by (simp add: write_once_def open_handle_def h write_all_flush_def e)
qed

text \<open>With the WAL handle open or not: opening fails, or the write goes to a file whose tail is in order.\<close>

definition same_dirty :: "wal \<Rightarrow> wal \<Rightarrow> bool" where
  "same_dirty w w' \<longleftrightarrow> wa_dirty w' Wal_file = wa_dirty w Wal_file"

lemma alone_set_other:
  "wa_os w' = wa_os w \<Longrightarrow> wa_fp w' = wa_fp w \<Longrightarrow> wa_dirty w' = wa_dirty w \<Longrightarrow> tail_ok w' = tail_ok w"
  by (rule tail_ok_cong) simp_all

lemma open_handle_tail: "state_io_rel wal_alone (do {
    upd (\<lambda>w. w\<lparr>wa_wal_path_expected := True\<rparr>);
    r \<leftarrow> on_os (file_identity h);
    upd (\<lambda>w. w\<lparr>wa_wal_identity := (case r of Inl _ \<Rightarrow> None | Inr i \<Rightarrow> Some i)\<rparr>);
    now \<leftarrow> clock;
    upd (\<lambda>w. w\<lparr>wa_last_identity_check := Some now\<rparr>) })"
  by (intro alone.kept_rules alone_upd alone_calls; simp)

lemma wp_open_wal:
  assumes ok: "tail_ok w"
    and failed: "\<And>e w'. tail_ok w' \<Longrightarrow> same_dirty w w' \<Longrightarrow> oe_sent e = None \<Longrightarrow> Q (Inl e) w'"
    and opened: "\<And>i w'. tail_ok w' \<Longrightarrow> same_dirty w w' \<Longrightarrow> fw w' = Some i \<Longrightarrow> Q (Inr i) w'"
  shows "wp (open_handle Wal_file) Q w"
proof (cases "fw w")
  case (Some i)
  then show ?thesis using ok opened by (simp add: open_handle_def same_dirty_def)
next
  case None
  obtain r s' where o: "open_append WAL_NAME (wa_os w) = (r, s')" by force
  show ?thesis
  proof (cases r)
    case (Inl e)
    from o [unfolded Inl] have "os_same (wa_os w) s'" "oe_sent e = None" by (auto elim: open_append_cases)
    then have "tail_ok (w\<lparr>wa_os := s'\<rparr>)" "oe_sent e = None" using alone_failed [of w s'] ok by (auto simp: wal_alone_def)
    then show ?thesis using failed by (simp add: open_handle_def None o Inl same_dirty_def)
  next
    case (Inr i)
    let ?w = "w\<lparr>wa_os := s', wa_fp := (wa_fp w)(Wal_file := Some i)\<rparr>"
    have t: "tail_ok ?w" using tail_open_wal [OF ok] o Inr by simp
    have "wp (do { upd (\<lambda>w. w\<lparr>wa_wal_path_expected := True\<rparr>); r \<leftarrow> on_os (file_identity i);
        upd (\<lambda>w. w\<lparr>wa_wal_identity := (case r of Inl _ \<Rightarrow> None | Inr i \<Rightarrow> Some i)\<rparr>); now \<leftarrow> clock;
        upd (\<lambda>w. w\<lparr>wa_last_identity_check := Some now\<rparr>) }) (\<lambda>_. Q (Inr i)) ?w"
      using wp_alone [OF open_handle_tail t]
      by (rule wp_mono) (use opened t in \<open>auto simp: wal_alone_def same_dirty_def\<close>)
    then show ?thesis by (simp add: open_handle_def None o Inr set_handle_def)
  qed
qed

lemma wp_write_wal:
  assumes ok: "tail_ok w"
    and failed: "\<And>e w'. tail_ok w' \<Longrightarrow> same_dirty w w' \<Longrightarrow> oe_sent e = None \<Longrightarrow> Q (Inl e) w'"
    and wrote: "\<And>r w1 i w'. tail_ok w1 \<Longrightarrow> same_dirty w w1 \<Longrightarrow> fw w1 = Some i \<Longrightarrow> wrote_upto w1 i d r w' \<Longrightarrow> Q r w'"
  shows "wp (write_once Wal_file d) Q w"
proof -
  have "wp (open_handle Wal_file) (\<lambda>r w'. case r of Inl e \<Rightarrow> Q (Inl e) w' | Inr h \<Rightarrow> wp (on_os (write_all_flush h d)) Q w') w"
  proof (rule wp_open_wal [OF ok])
    fix i w' assume w': "tail_ok w'" "same_dirty w w'" "fw w' = Some i"
    have "wp (write_once Wal_file d) Q w'"
      by (rule wp_write_open [OF w'(3)]) (rule wrote [OF w'])
    then show "case Inr i of Inl e \<Rightarrow> Q (Inl e) w' | Inr h \<Rightarrow> wp (on_os (write_all_flush h d)) Q w'"
      by (simp add: write_once_def open_handle_def w'(3))
  qed (simp add: failed)
  then show ?thesis by (simp add: write_once_def)
qed

text \<open>Setting the mark after a write.\<close>

lemma tail_wrote:
  assumes "tail_ok w" "fw w = Some i" "wrote w i bs w'" "b \<or> ends_line (os_data (wa_os w) i @ bs)"
  shows "tail_ok (w'\<lparr>wa_dirty := (wa_dirty w')(Wal_file := b)\<rparr>)"
  using assms by (auto simp: tail_ok_def tail_inv_def wrote_def)

lemma tail_wrote_nothing: "tail_ok w \<Longrightarrow> wrote w i [] w' \<Longrightarrow> tail_ok w'"
  by (subst tail_ok_cong [of w' w]) (simp_all add: wrote_def)

definition holds_line :: "wal \<Rightarrow> byte list \<Rightarrow> bool" where
  "holds_line w d \<longleftrightarrow> (\<exists>i pre. fw w = Some i \<and> os_data (wa_os w) i = pre @ d \<and> ends_line pre)"

lemma holds_line_alone: "wal_alone w w' \<Longrightarrow> tail_ok w \<Longrightarrow> holds_line w d \<Longrightarrow> holds_line w' d"
  by (auto simp: holds_line_def wal_alone_def)

lemma alone_note: "state_io_rel wal_alone (note_retry_succeeded e)"
  unfolding note_retry_succeeded_def record_recreated_def by (intro alone.kept_rules alone_upd; simp)

lemma wp_note:
  assumes "tail_ok w" "holds_line w d"
  shows "wp (note_retry_succeeded e) (\<lambda>_ w'. tail_ok w' \<and> holds_line w' d) w"
  using wp_alone [OF alone_note assms(1), of e] by (rule wp_mono) (use assms holds_line_alone in blast)


lemma tail_close_wal: "tail_ok w \<Longrightarrow> tail_ok (w\<lparr>wa_fp := (wa_fp w)(Wal_file := None)\<rparr>)"
  by (auto simp: tail_ok_def tail_inv_def)

lemma wp_close_wal:
  assumes ok: "tail_ok w" and Q: "\<And>r w'. tail_ok w' \<Longrightarrow> same_dirty w w' \<Longrightarrow> fw w' = None \<Longrightarrow> nw w' = nw w \<Longrightarrow> Q r w'"
  shows "wp (close_handle Wal_file sync) Q w"
proof (cases "fw w")
  case None
  then show ?thesis using ok Q by (simp add: close_handle_def same_dirty_def)
next
  case (Some h)
  let ?w = "w\<lparr>wa_fp := (wa_fp w)(Wal_file := None)\<rparr>"
  have "state_io_rel wal_alone (do {
      first_error \<leftarrow> (if sync then do { r \<leftarrow> on_os (file_sync h); ret (case r of Inl e \<Rightarrow> Some e | Inr _ \<Rightarrow> None) } else ret None);
      r \<leftarrow> on_os (file_close h);
      ret (case r of Inr _ \<Rightarrow> first_error | Inl e \<Rightarrow> (case first_error of None \<Rightarrow> Some e | Some e' \<Rightarrow> Some e')) })"
    by (intro alone.kept_rules alone_calls)
  from wp_alone [OF this tail_close_wal [OF ok]]
  have "wp (do {
      first_error \<leftarrow> (if sync then do { r \<leftarrow> on_os (file_sync h); ret (case r of Inl e \<Rightarrow> Some e | Inr _ \<Rightarrow> None) } else ret None);
      r \<leftarrow> on_os (file_close h);
      ret (case r of Inr _ \<Rightarrow> first_error | Inl e \<Rightarrow> (case first_error of None \<Rightarrow> Some e | Some e' \<Rightarrow> Some e')) }) Q ?w"
    by (rule wp_mono) (use Q tail_close_wal [OF ok] in \<open>auto simp: wal_alone_def same_dirty_def\<close>)
  then show ?thesis by (simp add: close_handle_def Some set_handle_def)
qed

subsection \<open>Retrying\<close>

abbreviation line_written :: "byte list \<Rightarrow> os_error option \<Rightarrow> wal \<Rightarrow> bool" where
  "line_written d r w \<equiv> tail_ok w \<and> (r = None \<longrightarrow> holds_line w d)"

lemma wp_set_dirty [simp]: "wp (set_dirty which b) Q = (\<lambda>w. Q () (w\<lparr>wa_dirty := (wa_dirty w)(which := b)\<rparr>))"
  by (simp add: set_dirty_def)

lemma tail_same_mark: "tail_ok w \<Longrightarrow> wa_dirty w Wal_file = b \<Longrightarrow> tail_ok (w\<lparr>wa_dirty := (wa_dirty w)(Wal_file := b)\<rparr>)"
  by (subst tail_ok_cong [of _ w]) auto

lemma tail_clean: "tail_ok w \<Longrightarrow> \<not> wa_dirty w Wal_file \<Longrightarrow> fw w = Some i \<Longrightarrow> ends_line (os_data (wa_os w) i)"
  by (auto simp: tail_ok_def tail_inv_def)

lemma ends_line_append: "d \<noteq> [] \<Longrightarrow> ends_line (a @ d) \<longleftrightarrow> ends_line d"
  by (simp add: ends_line_def)

text \<open>The whole line went to a file whose tail was in order.\<close>

lemma wp_line_done:
  assumes "tail_ok w" "fw w = Some i" "wrote w i bs w'" "bs = p @ d" "ends_line (os_data (wa_os w) i @ p)" "d \<noteq> []" "ends_line d"
  shows "wp (do { set_dirty Wal_file False; note_retry_succeeded e; ret None }) (line_written d) w'"
    and "wp (do { set_dirty Wal_file False; ret None }) (line_written d) w'"
proof -
  let ?w = "w'\<lparr>wa_dirty := (wa_dirty w')(Wal_file := False)\<rparr>"
  have "ends_line (os_data (wa_os w) i @ bs)" using assms by (metis append.assoc ends_line_append)
  then have t: "tail_ok ?w" using tail_wrote [OF assms(1-3)] by blast
  have h: "holds_line ?w d" using assms by (auto simp: holds_line_def wrote_def)
  show "wp (do { set_dirty Wal_file False; note_retry_succeeded e; ret None }) (line_written d) w'"
    using wp_note [OF t h, of e] by simp
  show "wp (do { set_dirty Wal_file False; ret None }) (line_written d) w'"
    using t h by simp
qed

text \<open>A second attempt that starts in a file whose tail is in order: \<open>p\<close> is the line end that a dirty tail gets first.\<close>

lemma wp_retry_finish:
  assumes w2: "tail_ok w2" "fw w2 = Some i" and wr: "wrote_upto w2 i (p @ d) r w'"
    and p: "p = (if wa_dirty w2 Wal_file then [0x0A] else [])" and d: "d \<noteq> []" "ends_line d"
  shows "wp (retry_finish Wal_file e 0 (length (p @ d)) (length p) r) (line_written d) w'"
proof -
  have clean: "ends_line (os_data (wa_os w2) i @ p)"
    using tail_clean [OF w2(1) _ w2(2)] p by (auto simp: ends_line_def)
  show ?thesis
  proof (cases r)
    case (Inr u)
    then have "wrote w2 i (p @ d) w'" using wr by (simp add: wrote_upto_def)
    from wp_line_done(1) [OF w2 this refl clean d, of e] show ?thesis by (simp add: Inr retry_finish_def)
  next
    case (Inl e')
    then obtain n where n: "n < length (p @ d)" "oe_sent e' = Some n" "wrote w2 i (take n (p @ d)) w'"
      using wr by (auto simp: wrote_upto_def)
    let ?b = "tail_is_dirty n (length (p @ d)) (length p)"
    have "?b \<or> ends_line (os_data (wa_os w2) i @ take n (p @ d))"
    proof (cases "length p = 0")
      case True
      then show ?thesis using n(1) clean by (cases n) (auto simp: tail_is_dirty_def)
    next
      case False
      then have "length p = 1" by (auto simp: p split: if_splits)
      then show ?thesis using n(1) clean False by (cases "n = 1") (auto simp: tail_is_dirty_def)
    qed
    then have "tail_ok (w'\<lparr>wa_dirty := (wa_dirty w')(Wal_file := ?b)\<rparr>)" by (rule tail_wrote [OF w2 n(3)])
    then show ?thesis using n(1,2) by (simp add: Inl sent_bytes_def retry_finish_def min_absorb1)
  qed
qed

lemma wp_retry_unopened:
  assumes "tail_ok w" "oe_sent e' = None" "wa_dirty w Wal_file \<longleftrightarrow> length p \<noteq> 0" "d \<noteq> []"
  shows "wp (retry_finish Wal_file e 0 (length (p @ d)) (length p) (Inl e')) (line_written d) w"
  using tail_same_mark [OF assms(1,3)] assms(2,4) by (cases p) (simp_all add: retry_finish_def sent_bytes_def tail_is_dirty_def)

text \<open>Nothing of the first attempt was written: the handle is reopened and everything is written again.\<close>

lemma wp_retry_from_start:
  assumes ok: "tail_ok w" and sent: "sent_bytes e (length att) = 0" and d: "d \<noteq> []" "ends_line d"
    and p: "p = (if wa_dirty w Wal_file then [0x0A] else [])"
  shows "wp (retry_write Wal_file (p @ d) e att (length p)) (line_written d) w"
proof -
  have pd: "wa_dirty w Wal_file \<longleftrightarrow> length p \<noteq> 0" by (simp add: p)
  have again: "wp (write_once Wal_file (p @ d)) (\<lambda>r. wp (retry_finish Wal_file e 0 (length (p @ d)) (length p) r) (line_written d)) w1"
    if w1: "tail_ok w1" "same_dirty w w1" for w1
  proof (rule wp_write_wal [OF w1(1)])
    show "wp (retry_finish Wal_file e 0 (length (p @ d)) (length p) (Inl e')) (line_written d) w'"
      if "tail_ok w'" "same_dirty w1 w'" "oe_sent e' = None" for e' w'
      using that w1 pd d by (intro wp_retry_unopened) (auto simp: same_dirty_def)
    show "wp (retry_finish Wal_file e 0 (length (p @ d)) (length p) r) (line_written d) w'"
      if "tail_ok w2" "same_dirty w1 w2" "fw w2 = Some i" "wrote_upto w2 i (p @ d) r w'" for r w2 i w'
      using that w1 p d by (intro wp_retry_finish [of w2 i]) (auto simp: same_dirty_def)
  qed
  show ?thesis unfolding retry_write_def Let_def sent
  proof (simp del: wp_and_then length_append, rule wp_close_wal [OF ok])
    fix r :: "os_error option" and w' assume w': "tail_ok w'" "same_dirty w w'"
    have dir: "wp (and_then (on_os ensure_dir) (\<lambda>_. write_once Wal_file (p @ d)))
        (\<lambda>r. wp (retry_finish Wal_file e 0 (length (p @ d)) (length p) r) (line_written d)) w'"
    proof -
      obtain r1 s1 where e1: "ensure_dir (wa_os w') = (r1, s1)" by force
      have same: "os_same (wa_os w') s1" "\<And>x. r1 = Inl x \<Longrightarrow> oe_sent x = None"
        using os_same_call [of "\<lambda>s. (Inr (), s\<lparr>os_dir := True\<rparr>)" "wa_os w'"] e1
        by (auto simp: ensure_dir_def os_same_def os_call_def split: os_answer.splits prod.splits)
      then have t: "tail_ok (w'\<lparr>wa_os := s1\<rparr>)" "same_dirty w (w'\<lparr>wa_os := s1\<rparr>)"
        using alone_failed [of w' s1] w' by (auto simp: wal_alone_def same_dirty_def)
      show ?thesis
      proof (cases r1)
        case (Inl x)
        then show ?thesis using t pd d same(2) by (simp add: e1 del: length_append) (rule wp_retry_unopened; simp add: same_dirty_def)
      next
        case (Inr u)
        then show ?thesis using again [OF t] by (simp add: e1)
      qed
    qed
    show "wp (case r of None \<Rightarrow> do { r \<leftarrow> and_then (on_os ensure_dir) (\<lambda>_. write_once Wal_file (p @ d));
          retry_finish Wal_file e 0 (length (p @ d)) (length p) r }
      | Some e \<Rightarrow> do { set_dirty Wal_file (p \<noteq> []); ret (Some e) }) (line_written d) w'"
      using dir tail_same_mark [OF w'(1), of "p \<noteq> []"] w'(2) pd
      by (cases r) (auto simp: same_dirty_def simp del: wp_and_then)
  qed
qed


text \<open>A part of the line was written: the rest of it goes to the same handle.\<close>

lemma wrote_wrote: "wrote w i a w1 \<Longrightarrow> wrote w1 i b w2 \<Longrightarrow> wrote w i (a @ b) w2"
  by (auto simp: wrote_def)

lemma wp_retry_rest:
  assumes w1: "tail_ok w1" "\<not> wa_dirty w1 Wal_file" "fw w1 = Some i" and n: "n < length d" "0 < n" "oe_sent e = Some n"
    and wr: "wrote w1 i (take n d) w" and d: "ends_line d"
  shows "wp (retry_write Wal_file d e d 0) (line_written d) w"
proof -
  have clean: "ends_line (os_data (wa_os w1) i)" by (rule tail_clean [OF w1(1,2,3)])
  have h: "wa_fp w Wal_file = Some i" using wr w1(3) by (simp add: wrote_def)
  have "wp (write_once Wal_file (drop n d)) (\<lambda>r. wp (retry_finish Wal_file e n (length d) 0 r) (line_written d)) w"
  proof (rule wp_write_open [OF h])
    fix r w' assume r: "wrote_upto w i (drop n d) r w'"
    show "wp (retry_finish Wal_file e n (length d) 0 r) (line_written d) w'"
    proof (cases r)
      case (Inr u)
      then have "wrote w1 i ([] @ d) w'" using wrote_wrote [OF wr, of "drop n d"] r by (simp add: wrote_upto_def)
      moreover have "d \<noteq> []" using n by auto
      ultimately show ?thesis using wp_line_done(1) [OF w1(1,3) _ refl _ _ d, of "[]" w' e] clean by (simp add: Inr retry_finish_def)
    next
      case (Inl e')
      then obtain m where m: "m < length (drop n d)" "oe_sent e' = Some m" "wrote w i (take m (drop n d)) w'"
        using r by (auto simp: wrote_upto_def)
      have "tail_ok (w'\<lparr>wa_dirty := (wa_dirty w')(Wal_file := True)\<rparr>)"
        by (rule tail_wrote [OF w1(1,3) wrote_wrote [OF wr m(3)]]) simp
      moreover have "tail_is_dirty (n + m) (length d) 0" using m(1) n by (auto simp: tail_is_dirty_def)
      ultimately show ?thesis using m(1,2) by (simp add: Inl retry_finish_def sent_bytes_def min_absorb1)
    qed
  qed
  then show ?thesis using n by (simp add: retry_write_def sent_bytes_def Let_def min_absorb1)
qed

lemma wp_write_data:
  assumes ok: "tail_ok w" "\<not> wa_dirty w Wal_file" and d: "d \<noteq> []" "ends_line d"
  shows "wp (write_data Wal_file d) (line_written d) w"
  unfolding write_data_def wp_bind
proof (rule wp_write_wal [OF ok(1)])
  fix e :: os_error and w' assume w': "tail_ok w'" "same_dirty w w'" "oe_sent e = None"
  then show "wp (case Inl e of Inl e \<Rightarrow> retry_write Wal_file d e d 0 | Inr _ \<Rightarrow> do { set_dirty Wal_file False; ret None }) (line_written d) w'"
    using wp_retry_from_start [OF w'(1) _ d, where e = e and att = d and p = "[]"] ok(2) by (simp add: sent_bytes_def same_dirty_def)
next
  fix r w1 i w' assume w1: "tail_ok w1" "same_dirty w w1" "fw w1 = Some i" and r: "wrote_upto w1 i d r w'"
  have nd: "\<not> wa_dirty w1 Wal_file" using w1(2) ok(2) by (simp add: same_dirty_def)
  have clean: "ends_line (os_data (wa_os w1) i @ [])" using tail_clean [OF w1(1) nd w1(3)] by simp
  show "wp (case r of Inl e \<Rightarrow> retry_write Wal_file d e d 0 | Inr _ \<Rightarrow> do { set_dirty Wal_file False; ret None }) (line_written d) w'"
  proof (cases r)
    case (Inr u)
    then have "wrote w1 i ([] @ d) w'" using r by (simp add: wrote_upto_def)
    from wp_line_done(2) [OF w1(1,3) this refl clean d] show ?thesis by (simp add: Inr)
  next
    case (Inl e)
    then obtain n where n: "n < length d" "oe_sent e = Some n" "wrote w1 i (take n d) w'" using r by (auto simp: wrote_upto_def)
    show ?thesis
    proof (cases "n = 0")
      case True
      then have w': "tail_ok w'" "\<not> wa_dirty w' Wal_file" using tail_wrote_nothing [OF w1(1), of i w'] n(3) nd by (auto simp: wrote_def)
      show ?thesis using wp_retry_from_start [OF w'(1) _ d, where e = e and att = d and p = "[]"] w'(2) n(2) True
        by (simp add: Inl sent_bytes_def)
    next
      case False
      then show ?thesis using wp_retry_rest [OF w1(1) nd w1(3) n(1) _ n(2,3) d(2)] by (simp add: Inl)
    qed
  qed
qed

lemma wp_write_one:
  assumes ok: "tail_ok w" and d: "d \<noteq> []" "ends_line d"
  shows "wp (write_one Wal_file d) (line_written d) w"
proof (cases "wa_dirty w Wal_file")
  case False
  then show ?thesis using wp_write_data [OF ok _ d] by (simp add: write_one_def)
next
  case True
  let ?Q = "\<lambda>r. wp (case r of Inl e \<Rightarrow> retry_write Wal_file (0x0A # d) e [0x0A] 1
      | Inr _ \<Rightarrow> do { set_dirty Wal_file False; write_data Wal_file d }) (line_written d)"
  have again: "?Q (Inl e) w'" if "tail_ok w'" "wa_dirty w' Wal_file" "sent_bytes e 1 = 0" for e w'
    using wp_retry_from_start [OF that(1) _ d, where e = e and att = "[0x0A]" and p = "[0x0A]"] that by simp
  have "wp (write_once Wal_file [0x0A]) ?Q w"
  proof (rule wp_write_wal [OF ok])
    show "?Q (Inl e) w'" if "tail_ok w'" "same_dirty w w'" "oe_sent e = None" for e w'
      using that True by (intro again) (auto simp: same_dirty_def sent_bytes_def)
    show "?Q r w'" if w1: "tail_ok w1" "same_dirty w w1" "fw w1 = Some i" and r: "wrote_upto w1 i [0x0A] r w'" for r w1 i w'
    proof (cases r)
      case (Inl e)
      then have e: "oe_sent e = Some 0" and wr: "wrote w1 i [] w'" using r by (auto simp: wrote_upto_def)
      have "tail_ok w'" by (rule tail_wrote_nothing [OF w1(1) wr])
      moreover have "wa_dirty w' Wal_file" using wr w1(2) True by (simp add: wrote_def same_dirty_def)
      ultimately show ?thesis unfolding Inl by (rule again) (simp add: sent_bytes_def e)
    next
      case (Inr u)
      then have "wrote w1 i [0x0A] w'" using r by (simp add: wrote_upto_def)
      then have "tail_ok (w'\<lparr>wa_dirty := (wa_dirty w')(Wal_file := False)\<rparr>)"
        by (rule tail_wrote [OF w1(1,3)]) (simp add: ends_line_def)
      then show ?thesis using wp_write_data [OF _ _ d] by (simp add: Inr)
    qed
  qed
  then show ?thesis using True by (simp add: write_one_def del: One_nat_def)
qed


subsection \<open>The mirror\<close>

named_theorems alone_rules

declare alone.kept_rules [alone_rules] alone_upd [alone_rules] alone_calls [alone_rules]

lemma alone_set_dirty [alone_rules]: "state_io_rel wal_alone (set_dirty Mirror_file b)"
  unfolding set_dirty_def by (rule alone.kept_update) (rule wal_alone_upd; simp)

lemma alone_close [alone_rules]: "state_io_rel wal_alone (close_handle Mirror_file sync)"
proof -
  have "state_io_rel wal_alone (set_handle Mirror_file None)"
    unfolding set_handle_def by (rule alone.kept_update) (auto simp: wal_alone_def tail_ok_def tail_inv_def)
  then show ?thesis unfolding close_handle_def by (intro alone_rules)
qed

lemma wp_io_rel: "(\<And>w. wp m (\<lambda>_. R w) w) \<Longrightarrow> state_io_rel R m"
  by (auto simp: state_io_rel_def wp_def split_def)

lemma wp_open_mirror:
  "wp (open_handle Mirror_file) (\<lambda>r w'. wal_alone w w' \<and> (\<forall>i. r = Inr i \<longrightarrow> fm w' = Some i)) w"
proof (cases "fm w")
  case (Some i)
  then show ?thesis by (simp add: open_handle_def alone.kept_refl)
next
  case None
  obtain r s' where o: "open_append MIRROR_NAME (wa_os w) = (r, s')" by force
  show ?thesis
  proof (cases r)
    case (Inl e)
    then have "os_same (wa_os w) s'" using o by (auto elim: open_append_cases)
    then show ?thesis by (simp add: open_handle_def None o Inl alone_failed)
  next
    case (Inr i)
    then show ?thesis using alone_open_mirror [of w i s'] o by (simp add: open_handle_def None set_handle_def)
  qed
qed

lemma alone_open [alone_rules]: "state_io_rel wal_alone (open_handle Mirror_file)"
  by (rule wp_io_rel) (rule wp_mono [OF wp_open_mirror], simp)

lemma alone_wrote: "fm w = Some i \<Longrightarrow> wrote w i bs w' \<Longrightarrow> wal_alone w w'"
  by (auto simp: wal_alone_def tail_ok_def tail_inv_def wrote_def)

lemma alone_write_once [alone_rules]: "state_io_rel wal_alone (write_once Mirror_file d)"
proof (rule wp_io_rel)
  fix w
  have "wp (open_handle Mirror_file) (\<lambda>r w'. case r of Inl _ \<Rightarrow> wal_alone w w'
      | Inr h \<Rightarrow> wp (on_os (write_all_flush h d)) (\<lambda>_. wal_alone w) w') w"
  proof (rule wp_mono [OF wp_open_mirror])
    fix r w' assume r: "wal_alone w w' \<and> (\<forall>i. r = Inr i \<longrightarrow> fm w' = Some i)"
    show "case r of Inl _ \<Rightarrow> wal_alone w w' | Inr h \<Rightarrow> wp (on_os (write_all_flush h d)) (\<lambda>_. wal_alone w) w'"
    proof (cases r)
      case (Inr i)
      then have f: "fm w' = Some i" using r by simp
      have "wp (write_once Mirror_file d) (\<lambda>_. wal_alone w) w'"
      proof (rule wp_write_open [OF f])
        fix r' w'' assume "wrote_upto w' i d r' w''"
        then obtain bs where "wrote w' i bs w''" by (auto simp: wrote_upto_def split: sum.splits)
        from alone_wrote [OF f this] show "wal_alone w w''" using r alone.kept_trans by blast
      qed
      then show ?thesis by (simp add: Inr write_once_def open_handle_def f)
    qed (use r in simp)
  qed
  then show "wp (write_once Mirror_file d) (\<lambda>_. wal_alone w) w"
    by (simp add: write_once_def split_def cong: sum.case_cong)
qed

declare alone_note [alone_rules]

lemma alone_write_one [alone_rules]: "state_io_rel wal_alone (write_one Mirror_file d)"
  unfolding write_one_def write_data_def retry_write_def retry_finish_def Let_def by (intro alone_rules)

lemma alone_drop [alone_rules]: "state_io_rel wal_alone drop_mirror"
  unfolding drop_mirror_def by (intro alone_rules)

subsection \<open>A record\<close>

lemma rec_line_ne [simp]: "rec_line fl r \<noteq> []" "ends_line (rec_line fl r)"
  by (simp_all add: rec_line_def ends_line_def)

lemma wp_write_record:
  assumes "tail_ok w"
  shows "wp (write_record fl r payload) (\<lambda>x w'. line_written (rec_line fl r) (fst x) w') w"
proof -
  have "wp (do { mirror_error \<leftarrow> (if to_printable payload \<noteq> [] then write_one Mirror_file (utf8_encode (to_printable payload))
                  else do { _ \<leftarrow> open_handle Mirror_file; ret None }); ret (we, mirror_error) })
      (\<lambda>x w'. line_written (rec_line fl r) (fst x) w') w1"
    if w1: "line_written (rec_line fl r) we w1" for we w1
  proof -
    have "state_io_rel wal_alone (do { mirror_error \<leftarrow> (if to_printable payload \<noteq> [] then write_one Mirror_file (utf8_encode (to_printable payload))
                  else do { _ \<leftarrow> open_handle Mirror_file; ret None }); ret (we, mirror_error) })"
      by (intro alone_rules)
    note wp_alone [OF this, of w1]
    then show ?thesis using w1
      by (auto simp: wp_def holds_line_alone split: prod.splits)
  qed
  note rest = this
  have "wp (write_one Wal_file (rec_line fl r)) (\<lambda>we. wp (do { mirror_error \<leftarrow> (if to_printable payload \<noteq> [] then write_one Mirror_file (utf8_encode (to_printable payload))
                  else do { _ \<leftarrow> open_handle Mirror_file; ret None }); ret (we, mirror_error) })
      (\<lambda>x w'. line_written (rec_line fl r) (fst x) w')) w"
    by (rule wp_mono [OF wp_write_one [OF assms rec_line_ne]]) (rule rest)
  then show ?thesis by (simp add: write_record_def)
qed


lemma tail_write_record: "state_io_rel tail_kept (write_record fl r payload)"
  by (rule wp_io_rel) (auto simp: tail_kept_def wp_def dest: wp_write_record [of _ fl r payload] split: prod.splits)

subsection \<open>Rotation and recreation\<close>

named_theorems tail_rules

declare tail.kept_rules [tail_rules] tail_write_record [tail_rules]

lemmas tail_alone [tail_rules] = alone_calls [THEN alone_tail] alone_upd [THEN alone_tail] alone_set_dirty [THEN alone_tail]
  alone_close [THEN alone_tail] alone_open [THEN alone_tail] alone_write_one [THEN alone_tail] alone_drop [THEN alone_tail]
  alone_note [THEN alone_tail]

lemma tail_io: "(\<And>w. tail_ok w \<Longrightarrow> wp m (\<lambda>_. tail_ok) w) \<Longrightarrow> state_io_rel tail_kept m"
  by (auto simp: state_io_rel_def tail_kept_def wp_def split_def)

lemma tail_close [tail_rules]: "state_io_rel tail_kept (close_handle which sync)"
proof (cases which)
  case Wal_file
  then show ?thesis by (auto intro!: tail_io wp_close_wal)
qed (use tail_rules in simp)

lemma all_which: "(\<forall>v. P v) \<longleftrightarrow> P Wal_file \<and> P Mirror_file"
  by (metis which.exhaust)

lemma archive_name_differs: "archive_name (path_of which @ CHR ''.'' # st) k \<notin> {WAL_NAME, MIRROR_NAME}"
  by (cases which) (auto simp: archive_name_def WAL_NAME_def MIRROR_NAME_def)

lemma rename_from_effect:
  assumes "rename_from k (path_of which) (path_of which @ CHR ''.'' # st) s = (r, s')"
  shows "os_data s' = os_data s \<and> os_next s' = os_next s \<and>
    dict_get (os_names s') (path_of which) = (case r of Inl _ \<Rightarrow> dict_get (os_names s) (path_of which) | Inr _ \<Rightarrow> None) \<and>
    (\<forall>v. v \<noteq> which \<longrightarrow> dict_get (os_names s') (path_of v) = dict_get (os_names s) (path_of v))"
  using assms
proof (induction k "path_of which" "path_of which @ CHR ''.'' # st" s rule: rename_from.induct)
  case (1 k s)
  let ?a = "archive_name (path_of which @ CHR ''.'' # st) k"
  obtain r1 s1 where r1: "rename_noreplace (path_of which) ?a s = (r1, s1)" by force
  have an: "?a \<noteq> path_of v" for v using archive_name_differs [of which st k] by (cases v) auto
  have pv: "v \<noteq> which \<Longrightarrow> path_of v \<noteq> path_of which" for v by (cases v; cases which) auto
  have eff: "os_data s1 = os_data s" "os_next s1 = os_next s" "v \<noteq> which \<Longrightarrow> dict_get (os_names s1) (path_of v) = dict_get (os_names s) (path_of v)"
      "dict_get (os_names s1) (path_of which) = (case r1 of Inl _ \<Rightarrow> dict_get (os_names s) (path_of which) | Inr _ \<Rightarrow> None)" for v
    using rename_effect [OF r1] an an [THEN not_sym] pv [of v] by (auto simp: renamed_def)
  show ?case
  proof (cases "1000 \<le> k \<or> dict_get (os_names s) ?a \<noteq> None")
    case True
    then show ?thesis using "1.prems" "1.hyps"(1) by (auto simp: rename_from.simps [of k] split: if_splits)
  next
    case False
    show ?thesis
    proof (cases r1)
      case (Inl e)
      show ?thesis
      proof (cases "oe_errno e = EEXIST")
        case True
        then have "rename_from (Suc k) (path_of which) (path_of which @ CHR ''.'' # st) s1 = (r, s')"
          using "1.prems" False Inl r1 by (simp add: rename_from.simps [of k])
        from "1.hyps"(2) [OF _ _ r1 [symmetric] Inl True this] False eff Inl show ?thesis by (cases r) auto
      qed (use "1.prems" False Inl r1 eff in \<open>auto simp: rename_from.simps [of k]\<close>)
    qed (use "1.prems" False r1 eff in \<open>auto simp: rename_from.simps [of k]\<close>)
  qed
qed

text \<open>Taking the name of a file away, with its handle closed and its mark cleared.\<close>

abbreviation moved_away :: "which \<Rightarrow> os \<Rightarrow> wal \<Rightarrow> wal" where
  "moved_away which s w \<equiv> w\<lparr>wa_os := s, wa_dirty := (wa_dirty w)(which := False)\<rparr>"

lemma tail_rename:
  assumes ok: "tail_ok w" and h: "wa_fp w which = None"
    and r: "rename_noreplace_or_suffix (path_of which) (path_of which @ CHR ''.'' # st) (wa_os w) = (r, s)"
  shows "tail_ok (w\<lparr>wa_os := s\<rparr>)" "r = Inr x \<Longrightarrow> tail_ok (moved_away which s w)"
proof -
  note e = rename_from_effect [OF r [unfolded rename_noreplace_or_suffix_def]]
  show "tail_ok (w\<lparr>wa_os := s\<rparr>)"
    using ok e by (cases which; cases r) (auto simp: tail_ok_def tail_inv_def all_which)
  show "r = Inr x \<Longrightarrow> tail_ok (moved_away which s w)"
    using ok e h by (cases which) (auto simp: tail_ok_def tail_inv_def all_which)
qed

lemma wp_close_any:
  assumes ok: "tail_ok w" and Q: "\<And>r w'. tail_ok w' \<Longrightarrow> wa_fp w' which = None \<Longrightarrow> Q r w'"
  shows "wp (close_handle which sync) Q w"
proof (cases which)
  case Wal_file
  then show ?thesis using ok Q by (auto intro: wp_close_wal)
next
  case Mirror_file
  have "wp (close_handle which sync) (\<lambda>_ w'. wa_fp w' which = None) w"
    by (auto simp: close_handle_def set_handle_def split: option.splits prod.splits)
  moreover have "wp (close_handle which sync) (\<lambda>_. tail_ok) w"
    by (rule wp_kept [OF tail_close ok])
  ultimately have "wp (close_handle which sync) (\<lambda>r w'. wa_fp w' which = None \<and> tail_ok w') w" by (rule wp_conj)
  then show ?thesis by (rule wp_mono) (use Q in blast)
qed

lemma tail_other_fields: "tail_ok w \<Longrightarrow> wa_os w' = wa_os w \<Longrightarrow> wa_fp w' = wa_fp w \<Longrightarrow> wa_dirty w' = wa_dirty w \<Longrightarrow> tail_ok w'"
  using alone_set_other by blast

lemma tail_os_same: "tail_ok w \<Longrightarrow> os_same (wa_os w) (wa_os w') \<Longrightarrow> wa_fp w' = wa_fp w \<Longrightarrow> wa_dirty w' = wa_dirty w \<Longrightarrow> tail_ok w'"
  by (simp add: tail_ok_def os_same_def)

lemma os_same_sync [simp]: "os_same s (snd (sync_dir s))"
  unfolding sync_dir_def by (rule os_same_call) (simp add: os_same_def)

text \<open>The body shared by rotation and reset: close, rename, go on in a state whose tail is in order.\<close>

lemma wp_archive:
  assumes ok: "tail_ok w"
    and failed: "\<And>e w'. tail_ok w' \<Longrightarrow> Q (Inl e) w'"
    and moved: "\<And>dst w'. tail_ok (w'\<lparr>wa_dirty := (wa_dirty w')(which := False)\<rparr>) \<Longrightarrow> wp (f dst) Q w'"
  shows "wp (do { ce \<leftarrow> close_handle which True; case ce of Some e \<Rightarrow> ret (Inl e) | None \<Rightarrow> do {
      w \<leftarrow> State_Monad.get;
      and_then (on_os (rename_noreplace_or_suffix (path_of which) (path_of which @ CHR ''.'' # os_stamp (wa_os w)))) f } }) Q w"
  unfolding wp_bind
proof (rule wp_close_any [OF ok])
  fix ce w' assume w': "tail_ok w'" "wa_fp w' which = None"
  obtain r s where r: "rename_noreplace_or_suffix (path_of which) (path_of which @ CHR ''.'' # os_stamp (wa_os w')) (wa_os w') = (r, s)" by force
  show "wp (case ce of None \<Rightarrow> do { w \<leftarrow> State_Monad.get;
      and_then (on_os (rename_noreplace_or_suffix (path_of which) (path_of which @ CHR ''.'' # os_stamp (wa_os w)))) f }
    | Some e \<Rightarrow> ret (Inl e)) Q w'"
  proof (cases ce)
    case None
    show ?thesis
    proof (cases r)
      case (Inl e)
      then show ?thesis using failed tail_rename(1) [OF w' r] by (simp add: None r)
    next
      case (Inr dst)
      then show ?thesis using moved [of "w'\<lparr>wa_os := s\<rparr>"] tail_rename(2) [OF w' r Inr] by (simp add: None r)
    qed
  qed (use w' failed in simp)
qed

lemma tail_rotate_file [tail_rules]: "state_io_rel tail_kept (rotate_file which)"
proof (rule tail_io)
  fix w assume ok: "tail_ok w"
  show "wp (rotate_file which) (\<lambda>_. tail_ok) w"
    unfolding rotate_file_def
  proof (rule wp_archive [OF ok])
    fix dst w' assume t: "tail_ok (w'\<lparr>wa_dirty := (wa_dirty w')(which := False)\<rparr>)"
    show "wp (do { upd (\<lambda>w. w\<lparr>wa_rotate_pending := dict_pop which (wa_rotate_pending w)\<rparr>); set_dirty which False;
        (if which = Wal_file then upd (\<lambda>w. w\<lparr>wa_wal_path_expected := False, wa_wal_identity := None,
           wa_file_first_seq := Some (wa_seq w + 1), wa_file_first_seq_pending := False\<rparr>) else ret ());
        on_os sync_dir }) (\<lambda>_. tail_ok) w'"
      by (auto simp: split_def intro!: tail_os_same [OF t])
  qed simp
qed

lemma tail_rotate [tail_rules]: "state_io_rel tail_kept (wal_rotate_if_needed sizes skip)"
  unfolding wal_rotate_if_needed_def rotate_one_def rotation_due_def rotate_failed_def schedule_rotate_retry_def Let_def
  by (intro tail_rules; simp)


subsection \<open>Detection\<close>

definition name_clean :: "wal \<Rightarrow> bool" where
  "name_clean w \<longleftrightarrow> (\<forall>j. nw w = Some j \<longrightarrow> ends_line (os_data (wa_os w) j))"

lemma name_clean_alone: "wal_alone w w' \<Longrightarrow> tail_ok w \<Longrightarrow> name_clean w' = name_clean w"
  by (auto simp: name_clean_def wal_alone_def)

lemma wp_alone_bind:
  assumes "state_io_rel wal_alone m" "tail_ok w" "\<And>x w'. wal_alone w w' \<Longrightarrow> tail_ok w' \<Longrightarrow> wp (f x) Q w'"
  shows "wp (State_Monad.bind m f) Q w"
  unfolding wp_bind using wp_alone [OF assms(1,2)] by (rule wp_mono) (use assms(3) in blast)

lemma call_results:
  "path_identity p s = (Inr x, s') \<Longrightarrow> x = dict_get (os_names s) p"
  "file_identity h s = (Inr i, s') \<Longrightarrow> i = h"
  "file_unlinked h s = (Inr u, s') \<Longrightarrow> u = (h \<notin> snd ` set (os_names s))"
  "file_size p s = (Inr n, s') \<Longrightarrow> n = map_option (\<lambda>i. length (os_data s i)) (dict_get (os_names s) p)"
  "tail_needs_termination p s = (Inr d, s') \<Longrightarrow> \<exists>i. dict_get (os_names s) p = Some i \<and> d = (\<not> ends_line (os_data s i))"
proof -
  obtain a s1 where a: "os_ask s = (a, s1)" by force
  have s1: "os_names s1 = os_names s" "os_data s1 = os_data s" using os_same_ask [of s] by (simp_all add: a os_same_def)
  note defs = path_identity_def file_identity_def file_unlinked_def file_size_def tail_needs_termination_def os_call_def
  show "path_identity p s = (Inr x, s') \<Longrightarrow> x = dict_get (os_names s) p" using a s1 by (auto simp: defs split: os_answer.splits)
  show "file_identity h s = (Inr i, s') \<Longrightarrow> i = h" using a by (auto simp: defs split: os_answer.splits)
  show "file_unlinked h s = (Inr u, s') \<Longrightarrow> u = (h \<notin> snd ` set (os_names s))" using a s1 by (auto simp: defs split: os_answer.splits)
  show "file_size p s = (Inr n, s') \<Longrightarrow> n = map_option (\<lambda>i. length (os_data s i)) (dict_get (os_names s) p)"
    using a s1 by (auto simp: defs split: os_answer.splits)
  show "tail_needs_termination p s = (Inr d, s') \<Longrightarrow> \<exists>i. dict_get (os_names s) p = Some i \<and> d = (\<not> ends_line (os_data s i))"
    using a s1 by (auto simp: defs split: os_answer.splits option.splits)
qed

lemma calls_same:
  "path_identity p s = (r1, s') \<Longrightarrow> os_same s s'" "file_identity h s = (r2, s') \<Longrightarrow> os_same s s'"
  "file_unlinked h s = (r3, s') \<Longrightarrow> os_same s s'" "file_size p s = (r4, s') \<Longrightarrow> os_same s s'"
  "tail_needs_termination p s = (r5, s') \<Longrightarrow> os_same s s'" "ensure_dir s = (r6, s') \<Longrightarrow> os_same s s'"
  using os_same_call [of "\<lambda>s. (Inr (dict_get (os_names s) p), s)" s]
    os_same_call [of "\<lambda>s. (Inr h, s)" s] os_same_call [of "\<lambda>s. (Inr (h \<notin> snd ` set (os_names s)), s)" s]
    os_same_call [of "\<lambda>s. (Inr (map_option (\<lambda>i. length (os_data s i)) (dict_get (os_names s) p)), s)" s]
    os_same_call [of "\<lambda>s. (case dict_get (os_names s) p of None \<Rightarrow> Inl (os_fail ENOENT p) | Some i \<Rightarrow> Inr (\<not> ends_line (os_data s i)), s)" s]
    os_same_call [of "\<lambda>s. (Inr (), s\<lparr>os_dir := True\<rparr>)" s]
  by (simp_all add: path_identity_def file_identity_def file_unlinked_def file_size_def tail_needs_termination_def ensure_dir_def os_same_def)

lemma alone_identity [alone_rules]: "state_io_rel wal_alone (identity_change which)"
  unfolding identity_change_def by (intro alone_rules; simp)

lemma wp_identity_wal:
  assumes ok: "tail_ok w"
  shows "wp (identity_change Wal_file) (\<lambda>(reason, _) _. reason \<noteq> None \<longrightarrow> name_clean w) w"
proof (cases "fw w")
  case None
  then show ?thesis by (simp add: identity_change_def)
next
  case (Some h)
  obtain r s1 where r: "path_identity WAL_NAME (wa_os w) = (r, s1)" by force
  obtain r2 s2 where r2: "file_identity h s1 = (r2, s2)" by force
  obtain r3 s3 where r3: "file_unlinked h s2 = (r3, s3)" by force
  have n: "os_names s1 = os_names (wa_os w)" "os_names s2 = os_names (wa_os w)"
    using calls_same(1) [OF r] calls_same(2) [OF r2] by (simp_all add: os_same_def)
  show ?thesis
  proof (cases r)
    case (Inr p)
    then have p: "p = nw w" using call_results(1) r by blast
    have zero: "nw w \<noteq> Some (0, 0)" using ok by (auto simp: tail_ok_def tail_inv_def)
    have other: "nw w \<noteq> Some h \<Longrightarrow> name_clean w"
      using ok Some by (auto simp: name_clean_def tail_ok_def tail_inv_def)
    have linked: "nw w = Some h \<Longrightarrow> r3 = Inr u \<Longrightarrow> \<not> u" for u
      using call_results(3) [of h s2 u s3] r3 n map_of_SomeD [of "os_names (wa_os w)" WAL_NAME h] by force
    show ?thesis
    proof (cases r2)
      case r2': (Inr x)
      then have "x = h" using call_results(2) r2 by blast
      then show ?thesis using other linked
        by (auto simp: identity_change_def Some r r2 r2' r3 Inr p zero split: sum.splits)
    qed (auto simp: identity_change_def Some r r2 Inr p zero name_clean_def)
  qed (simp add: identity_change_def Some r)
qed

lemma name_reason_clean:
  assumes "dir_ok (wa_os w)" "dict_get sizes Wal_file = Some None \<longrightarrow> nw w = None" "wal_name_reason sizes w \<noteq> None"
  shows "name_clean w"
  using assms by (auto simp: wal_name_reason_def missing_reason_def name_clean_def dir_ok_def Let_def split: if_splits)

lemma wp_alone_post:
  assumes "state_io_rel wal_alone m" "tail_ok w" "wp m P w" "\<And>x w'. wal_alone w w' \<Longrightarrow> tail_ok w' \<Longrightarrow> P x w' \<Longrightarrow> Q x w'"
  shows "wp m Q w"
  using wp_conj [OF wp_alone [OF assms(1,2)] assms(3)] by (rule wp_mono) (use assms(4) in blast)

abbreviation reason_clean :: "string option \<times> 'a \<Rightarrow> wal \<Rightarrow> bool" where
  "reason_clean r w \<equiv> tail_ok w \<and> (fst r \<noteq> None \<longrightarrow> name_clean w)"

lemma wp_check_identities:
  assumes ok: "tail_ok w" and wr: "wr \<noteq> None \<longrightarrow> name_clean w"
  shows "wp (check_identities wr now) reason_clean w"
proof -
  let ?w = "w\<lparr>wa_last_identity_check := Some now\<rparr>"
  have w: "tail_ok ?w" "wr \<noteq> None \<longrightarrow> name_clean ?w"
    using ok wr by (auto intro: tail_other_fields simp: name_clean_def)
  have first: "wp (if wr \<noteq> None then ret (wr, False) else identity_change Wal_file) reason_clean ?w"
  proof (cases "wr = None")
    case True
    show ?thesis using True wp_alone_post [OF alone_identity w(1) wp_identity_wal [OF w(1)], of reason_clean] w(1)
      by (auto simp: name_clean_alone split: prod.splits)
  qed (use w in simp)
  have rest: "wp (do { (m_reason, m_unknown) \<leftarrow> identity_change Mirror_file; (if m_reason \<noteq> None then drop_mirror else ret ());
      ret (reason, f m_unknown) }) reason_clean w1"
    if "tail_ok w1" "reason \<noteq> None \<longrightarrow> name_clean w1" for reason :: "string option" and w1 and f :: "bool \<Rightarrow> which list"
  proof -
    have a: "state_io_rel wal_alone (do { (m_reason, m_unknown) \<leftarrow> identity_change Mirror_file;
        (if m_reason \<noteq> None then drop_mirror else ret ()); ret (reason, f m_unknown) })" by (intro alone_rules)
    have "wp (do { (m_reason, m_unknown) \<leftarrow> identity_change Mirror_file;
        (if m_reason \<noteq> None then drop_mirror else ret ()); ret (reason, f m_unknown) }) (\<lambda>r _. fst r = reason) w1"
      by (simp add: wp_def split_def)
    from wp_alone_post [OF a that(1) this] show ?thesis using that by (auto simp: name_clean_alone)
  qed
  have "wp (if wr \<noteq> None then ret (wr, False) else identity_change Wal_file) (\<lambda>x. wp (case x of (reason, unknown) \<Rightarrow> do {
      (m_reason, m_unknown) \<leftarrow> identity_change Mirror_file; (if m_reason \<noteq> None then drop_mirror else ret ());
      ret (reason, (if unknown then [Wal_file] else []) @ (if m_unknown then [Mirror_file] else [])) }) reason_clean) ?w"
  proof (rule wp_mono [OF first])
    fix x :: "string option \<times> bool" and w1 assume x: "reason_clean x w1"
    show "wp (case x of (reason, unknown) \<Rightarrow> do {
      (m_reason, m_unknown) \<leftarrow> identity_change Mirror_file; (if m_reason \<noteq> None then drop_mirror else ret ());
      ret (reason, (if unknown then [Wal_file] else []) @ (if m_unknown then [Mirror_file] else [])) }) reason_clean w1"
    proof (cases x)
      case (Pair reason unknown)
      then show ?thesis using x rest [of w1 reason "\<lambda>m. (if unknown then [Wal_file] else []) @ (if m then [Mirror_file] else [])"]
        by (simp del: wp_bind)
    qed
  qed
  then show ?thesis by (simp add: check_identities_def)
qed

lemma wp_check_missing:
  assumes ok: "tail_ok w" and dir: "dir_ok (wa_os w)" and sz: "dict_get sizes Wal_file = Some None \<longrightarrow> nw w = None"
  shows "wp (check_missing_names sizes force) reason_clean w"
proof -
  have d: "state_io_rel wal_alone (do { (if mirror_name_reason sizes w \<noteq> None then drop_mirror else ret ()); clock })"
    by (intro alone_rules)
  have "wp (do { (if mirror_name_reason sizes w \<noteq> None then drop_mirror else ret ()); clock })
      (\<lambda>now w1. wp (if force \<or> (case wa_last_identity_check w1 of None \<Rightarrow> True | Some t \<Rightarrow> WAL_IDENTITY_CHECK_INTERVAL_S \<le> now - t)
        then check_identities (wal_name_reason sizes w) now else ret (wal_name_reason sizes w, [])) reason_clean w1) w"
  proof (rule wp_mono [OF wp_alone [OF d ok]])
    fix now w1 assume w1: "wal_alone w w1 \<and> tail_ok w1"
    then have "wal_name_reason sizes w \<noteq> None \<longrightarrow> name_clean w1"
      using name_reason_clean [OF dir sz] name_clean_alone [of w w1] ok by blast
    then show "wp (if force \<or> (case wa_last_identity_check w1 of None \<Rightarrow> True | Some t \<Rightarrow> WAL_IDENTITY_CHECK_INTERVAL_S \<le> now - t)
        then check_identities (wal_name_reason sizes w) now else ret (wal_name_reason sizes w, [])) reason_clean w1"
      using w1 wp_check_identities [of w1] by simp
  qed
  then show ?thesis by (simp add: check_missing_names_def)
qed


subsection \<open>Recreation\<close>

lemma wp_begin_recreate:
  assumes ok: "tail_ok w" and n: "name_clean w"
  shows "wp (begin_recreate reason) (\<lambda>_. tail_ok) w"
proof -
  have a: "state_io_rel wal_alone (do { upd (\<lambda>w. w\<lparr>wa_pending_recreate_reason := Some reason\<rparr>); i \<leftarrow> previous_wal_identity;
      upd (\<lambda>w. w\<lparr>wa_pending_previous_identity := i, wa_pending_file_first_seq := wa_file_first_seq w,
                  wa_recreate_failures := 0, wa_next_recreate_at := None\<rparr>) })"
    unfolding previous_wal_identity_def by (intro alone_rules; simp)
  have "wp (do { _ \<leftarrow> close_handle Wal_file False; set_dirty Wal_file False }) (\<lambda>_. tail_ok) w1"
    if w1: "tail_ok w1" "name_clean w1" for w1
  proof -
    have c: "wp (close_handle Wal_file False) (\<lambda>_ w'. os_data (wa_os w') = os_data (wa_os w1)) w1"
      by (auto simp: close_handle_def set_handle_def split: option.split prod.split)
        (auto simp: file_close_def os_call_def os_ask_def split: prod.splits os_answer.splits list.splits if_splits)
    have "wp (close_handle Wal_file False) (\<lambda>_ w'. tail_ok w' \<and> fw w' = None \<and> nw w' = nw w1) w1"
      by (rule wp_close_wal [OF w1(1)]) simp
    from wp_conj [OF c this] show ?thesis
      unfolding wp_bind
      by (rule wp_mono) (use w1 in \<open>auto simp: tail_ok_def tail_inv_def name_clean_def\<close>)
  qed
  then have "wp (do { upd (\<lambda>w. w\<lparr>wa_pending_recreate_reason := Some reason\<rparr>); i \<leftarrow> previous_wal_identity;
      upd (\<lambda>w. w\<lparr>wa_pending_previous_identity := i, wa_pending_file_first_seq := wa_file_first_seq w,
                  wa_recreate_failures := 0, wa_next_recreate_at := None\<rparr>) })
      (\<lambda>_. wp (do { _ \<leftarrow> close_handle Wal_file False; set_dirty Wal_file False }) (\<lambda>_. tail_ok)) w"
    using wp_alone [OF a ok] n name_clean_alone [OF _ ok] by (blast intro: wp_mono)
  then show ?thesis using ok by (simp add: begin_recreate_def)
qed

text \<open>After the new file was opened: its tail is looked at and, where it is a partial line, terminated.\<close>

lemma wp_terminate:
  assumes ok: "tail_ok w" and h: "fw w = Some h" "nw w = Some h"
  shows "wp (recreate_terminate h) (\<lambda>_. tail_ok) w"
proof -
  obtain r s where r: "tail_needs_termination WAL_NAME (wa_os w) = (r, s)" by force
  have same: "os_same (wa_os w) s" by (rule calls_same(5) [OF r])
  have w1: "tail_ok (w\<lparr>wa_os := s\<rparr>)" by (rule tail_os_same [OF ok]) (simp_all add: same)
  show ?thesis
  proof (cases r)
    case (Inl e)
    then show ?thesis using r w1 by (simp add: recreate_terminate_def)
  next
    case (Inr d)
    then have d: "d = (\<not> ends_line (os_data (wa_os w) h))" using call_results(5) [of WAL_NAME "wa_os w" d s] r h by auto
    let ?w = "w\<lparr>wa_os := s, wa_dirty := (wa_dirty w)(Wal_file := d)\<rparr>"
    have e: "os_names s = os_names (wa_os w)" "os_data s = os_data (wa_os w)" "os_next s = os_next (wa_os w)"
      using same by (simp_all add: os_same_def)
    have w2: "tail_ok ?w" using ok h by (simp add: tail_ok_def tail_inv_def e d)
    obtain r2 s2 where r2: "write_loop h 0 [0x0A] s = (r2, s2)" by force
    have wr: "wrote_upto ?w h [0x0A] r2 (?w\<lparr>wa_os := s2\<rparr>)"
      by (rule write_loop_upto) (simp add: r2)
    have fin: "tail_ok (w\<lparr>wa_os := s2, wa_dirty := (wa_dirty w)(Wal_file := case r2 of Inl _ \<Rightarrow> d | Inr _ \<Rightarrow> False)\<rparr>)"
    proof (cases r2)
      case (Inl e)
      then have "wrote ?w h [] (?w\<lparr>wa_os := s2\<rparr>)" using wr by (auto simp: wrote_upto_def)
      from tail_wrote_nothing [OF w2 this] show ?thesis by (simp add: Inl tail_ok_def)
    next
      case (Inr u)
      then have "wrote ?w h [0x0A] (?w\<lparr>wa_os := s2\<rparr>)" using wr by (simp add: wrote_upto_def)
      from tail_wrote [OF w2 _ this, of False] show ?thesis using h(1) by (simp add: Inr ends_line_def tail_ok_def)
    qed
    then show ?thesis using w2 by (cases d; cases r2) (simp_all add: tail_ok_def recreate_terminate_def r Inr r2 write_all_flush_def)
  qed
qed

lemma tail_recreate_open [tail_rules]: "state_io_rel tail_kept (recreate_open now)"
proof (rule tail_io)
  fix w assume ok: "tail_ok w"
  obtain r s where r: "ensure_dir (wa_os w) = (r, s)" by force
  have same: "os_same (wa_os w) s" by (rule calls_same(6) [OF r])
  have w1: "tail_ok (w\<lparr>wa_os := s\<rparr>)" by (rule tail_os_same [OF ok]) (simp_all add: same)
  obtain o1 s1 where o: "open_append WAL_NAME s = (o1, s1)" by force
  show "wp (recreate_open now) (\<lambda>_. tail_ok) w"
  proof (cases "\<exists>h. r = Inr () \<and> o1 = Inr h")
    case False
    have "tail_ok (w\<lparr>wa_os := s1\<rparr>)" if "o1 = Inl e" for e
    proof -
      have "os_same s s1" using o that by (auto elim: open_append_cases)
      then show ?thesis using tail_os_same [OF w1, of "w\<lparr>wa_os := s1\<rparr>"] by simp
    qed
    then show ?thesis using False w1 by (auto simp: recreate_open_def r o split: sum.split)
  next
    case True
    then obtain h where h: "r = Inr ()" "o1 = Inr h" by blast
    let ?w = "w\<lparr>wa_os := s1, wa_fp := (wa_fp w)(Wal_file := Some h)\<rparr>"
    have t: "tail_ok ?w" using tail_open_wal [OF w1] o h by simp
    have n: "nw ?w = Some h" using o [unfolded h] by (cases rule: open_append_cases) (simp_all add: os_same_def)
    obtain r2 s2 where r2: "file_identity h s1 = (r2, s2)" by force
    have same2: "os_same s1 s2" by (rule calls_same(2) [OF r2])
    let ?w2 = "w\<lparr>wa_fp := (wa_fp w)(Wal_file := Some h), wa_wal_path_expected := True, wa_os := s2,
      wa_wal_identity := (case r2 of Inl _ \<Rightarrow> None | Inr i \<Rightarrow> Some i), wa_last_identity_check := Some now\<rparr>"
    have t2: "tail_ok ?w2" by (rule tail_os_same [OF t]) (simp_all add: same2)
    have n2: "nw ?w2 = Some h" using n same2 by (simp add: os_same_def)
    have "wp (recreate_terminate h) (\<lambda>r2. wp (case r2 of Inr _ \<Rightarrow> ret (Inr ()) | Inl e \<Rightarrow> do { _ \<leftarrow> close_handle Wal_file False; ret (Inl e) }) (\<lambda>_. tail_ok)) ?w2"
    proof (rule wp_mono [OF wp_terminate [OF t2 _ n2]])
      fix r3 :: "os_error + unit" and w3 assume "tail_ok w3"
      then show "wp (case r3 of Inr _ \<Rightarrow> ret (Inr ()) | Inl e \<Rightarrow> do { _ \<leftarrow> close_handle Wal_file False; ret (Inl e) }) (\<lambda>_. tail_ok) w3"
        by (cases r3) (auto intro: wp_close_wal)
    qed simp
    then show ?thesis by (simp add: recreate_open_def r o h set_handle_def r2)
  qed
qed

lemma tail_small [tail_rules]: "state_io_rel tail_kept (write_failed e)" "state_io_rel tail_kept mark_healthy"
  "state_io_rel tail_kept (schedule_recreate_retry e)" "state_io_rel tail_kept (record_recreated e)"
  "state_io_rel tail_kept (append_closed r)" "state_io_rel tail_kept (append_pending r)"
  "state_io_rel tail_kept observe_sizes" "state_io_rel tail_kept (new_record a b c l)"
  unfolding write_failed_def mark_healthy_def schedule_recreate_retry_def record_recreated_def append_closed_def append_pending_def
    observe_sizes_def new_record_def
  by (intro tail_rules; simp)+

lemma tail_attempt [tail_rules]: "state_io_rel tail_kept (attempt_recreate fl)"
  unfolding attempt_recreate_def by (intro tail_rules; simp)

lemma tail_tick: "state_io_rel tail_kept (tick fl lock_free)"
  unfolding tick_def write_rotation_continuity_meta_def by (intro tail_rules; simp)

lemma tail_close_sync: "state_io_rel tail_kept wal_close" "state_io_rel tail_kept wal_sync"
  unfolding wal_close_def wal_sync_def sync_one_def by (intro tail_rules; simp)+


lemma tail_reset_archive [tail_rules]: "state_io_rel tail_kept (reset_archive which)"
  unfolding reset_archive_def
proof (rule tail_io, rule wp_archive)
  fix dst w' assume t: "tail_ok (w'\<lparr>wa_dirty := (wa_dirty w')(which := False)\<rparr>)"
  show "wp (do { (if which = Wal_file then
         upd (\<lambda>w. w\<lparr>wa_wal_path_expected := False, wa_wal_identity := None, wa_file_first_seq := Some (wa_seq w + 1),
                    wa_file_first_seq_pending := False\<rparr>) else ret ());
      set_dirty which False; ret (Inr (Some dst)) }) (\<lambda>_. tail_ok) w'"
    by (auto intro: tail_other_fields [OF t])
qed

lemma tail_reset: "state_io_rel tail_kept wal_reset"
  unfolding wal_reset_def reset_one_def by (intro tail_rules; simp)

section \<open>Append\<close>

lemma alone_outcome: "state_io_rel wal_alone (append_outcome record we me)"
  unfolding append_outcome_def mark_healthy_def write_failed_def by (intro alone_rules; simp)

abbreviation reported :: "(rat \<Rightarrow> string) \<Rightarrow> wal_rec \<Rightarrow> wal \<Rightarrow> bool" where
  "reported fl r w \<equiv> tail_ok w \<and> (\<not> wr_loss_flag r \<longrightarrow> holds_line w (rec_line fl r))"

lemma wp_outcome:
  assumes w: "line_written (rec_line fl record) we w"
  shows "wp (append_outcome record we me) (reported fl) w"
proof -
  have "wp (append_outcome record we me) (\<lambda>r _. wr_loss_flag r \<or> (we = None \<and> r = record)) w"
    by (cases we; cases me) (simp_all add: append_outcome_def mark_healthy_def write_failed_def)
  note post = this
  show ?thesis by (rule wp_alone_post [OF alone_outcome _ post]) (use w in \<open>auto simp: holds_line_alone\<close>)
qed

lemma wp_append_write:
  assumes "tail_ok w"
  shows "wp (append_write fl record payload) (reported fl) w"
proof -
  have "wp (write_record fl record payload) (\<lambda>x. wp (case x of (we, me) \<Rightarrow> append_outcome record we me) (reported fl)) w"
  proof (rule wp_mono [OF wp_write_record [OF assms]])
    fix x :: "os_error option \<times> os_error option" and w' assume "line_written (rec_line fl record) (fst x) w'"
    then show "wp (case x of (we, me) \<Rightarrow> append_outcome record we me) (reported fl) w'"
      by (simp add: split_def wp_outcome)
  qed
  then show ?thesis by (simp add: append_write_def)
qed


lemma wp_observe:
  assumes "tail_ok w"
  shows "wp observe_sizes (\<lambda>sizes w'. tail_ok w' \<and> os_same (wa_os w) (wa_os w') \<and>
    (dict_get sizes Wal_file = Some None \<longrightarrow> nw w' = None)) w"
proof -
  obtain r1 s1 where r1: "file_size WAL_NAME (wa_os w) = (r1, s1)" by force
  obtain r2 s2 where r2: "file_size MIRROR_NAME s1 = (r2, s2)" by force
  have same: "os_same (wa_os w) s1" "os_same (wa_os w) s2"
    using calls_same(4) [OF r1] calls_same(4) [OF r2] by (simp_all add: os_same_def)
  have "tail_ok (w\<lparr>wa_os := s2\<rparr>)" by (rule tail_os_same [OF assms]) (simp_all add: same)
  then show ?thesis using same r1 call_results(4) [of WAL_NAME "wa_os w"]
    by (auto simp: observe_sizes_def r2 os_same_def split: sum.splits)
qed

lemma dir_ok_kept: "state_io_rel wal_grows m \<Longrightarrow> dir_ok (wa_os w) \<Longrightarrow> wp m (\<lambda>_ w'. dir_ok (wa_os w')) w"
  by (auto simp: wp_def state_io_rel_def wal_grows_def os_grows_def split_def)

lemma wp_prepare:
  assumes ok: "tail_ok w" and dir: "dir_ok (wa_os w)"
  shows "wp (append_prepare fl) (\<lambda>_. tail_ok) w"
proof (cases "wa_pending_recreate_reason w = None")
  case False
  then show ?thesis using ok by (simp add: append_prepare_def)
next
  case True
  let ?rest = "\<lambda>sizes x. case x of (reason, unknown) \<Rightarrow> (case reason of
         Some rs \<Rightarrow> do { begin_recreate rs; failed \<leftarrow> wal_rotate_if_needed sizes []; _ \<leftarrow> attempt_recreate fl; ret failed }
       | None \<Rightarrow> wal_rotate_if_needed sizes unknown)"
  have begun: "wp (do { begin_recreate rs; failed \<leftarrow> wal_rotate_if_needed sizes []; _ \<leftarrow> attempt_recreate fl; ret failed }) (\<lambda>_. tail_ok) w2"
    if "tail_ok w2" "name_clean w2" for rs sizes w2
  proof -
    have "state_io_rel tail_kept (do { failed \<leftarrow> wal_rotate_if_needed sizes []; _ \<leftarrow> attempt_recreate fl; ret failed })"
      by (intro tail_rules)
    note rest = wp_kept [OF this]
    have "wp (begin_recreate rs) (\<lambda>_. wp (do { failed \<leftarrow> wal_rotate_if_needed sizes []; _ \<leftarrow> attempt_recreate fl; ret failed }) (\<lambda>_. tail_ok)) w2"
      by (rule wp_mono [OF wp_begin_recreate [OF that]]) (rule rest)
    then show ?thesis by (simp only: wp_bind)
  qed
  have checked: "wp (check_missing_names sizes f) (\<lambda>x. wp (?rest sizes x) (\<lambda>_. tail_ok)) w1"
    if "tail_ok w1" "dir_ok (wa_os w1)" "dict_get sizes Wal_file = Some None \<longrightarrow> nw w1 = None" for sizes f w1
  proof (rule wp_mono [OF wp_check_missing [OF that]])
    fix x :: "string option \<times> which list" and w2 assume x: "reason_clean x w2"
    show "wp (?rest sizes x) (\<lambda>_. tail_ok) w2"
      using x begun wp_kept [OF tail_rotate] by (cases x; cases "fst x") (simp_all del: wp_bind)
  qed
  have "wp observe_sizes (\<lambda>sizes. wp (check_missing_names sizes (oversized (wa_rotate_bytes w) sizes)) (\<lambda>x. wp (?rest sizes x) (\<lambda>_. tail_ok))) w"
    by (rule wp_mono [OF wp_conj [OF wp_observe [OF ok] dir_ok_kept [OF kept_small(8) dir]]]) (rule checked; simp)
  then show ?thesis using True by (simp add: append_prepare_def)
qed

text \<open>\<open>append\<close> keeps the tail in order, and a record it returns without \<open>loss_flag\<close> is the last line of the file it holds.\<close>

lemma wp_append:
  assumes ok: "tail_ok w" and dir: "dir_ok (wa_os w)"
  shows "wp (wal_append fl a loss_flag) (reported fl) w"
proof (cases "wa_closed w")
  case True
  then show ?thesis using ok
    by (auto simp: wal_append_def new_record_def append_closed_def Let_def intro!: tail_other_fields [OF ok])
next
  case False
  let ?b64 = "b64encode (ra_payload a)" and ?crc = "payload_crc32 (ra_payload a)"
  let ?last = "\<lambda>failed recreated. do {
       record \<leftarrow> new_record a ?b64 ?crc (if recreated then loss_flag else True);
       let record = record\<lparr>wr_rotation_failed := failed\<rparr>;
       if recreated then append_write fl record (ra_payload a) else append_pending record }"
  have last: "wp (?last failed recreated) (reported fl) w2" if w2: "tail_ok w2" for failed recreated w2
  proof -
    let ?w = "w2\<lparr>wa_seq := wa_seq w2 + 1\<rparr>"
    have t: "tail_ok ?w" by (rule tail_other_fields [OF w2]) simp_all
    show ?thesis
    proof (cases recreated)
      case True
      then show ?thesis using wp_append_write [OF t] by (simp add: new_record_def Let_def)
    next
      case False
      then show ?thesis by (auto simp: new_record_def append_pending_def Let_def intro!: tail_other_fields [OF t])
    qed
  qed
  have "wp (append_prepare fl) (\<lambda>failed w1. wp (do {
      recreated \<leftarrow> (if wa_pending_recreate_reason w1 = None then ret True else attempt_recreate fl); ?last failed recreated }) (reported fl) w1) w"
  proof (rule wp_mono [OF wp_prepare [OF ok dir]])
    fix failed w1 assume w1: "tail_ok w1"
    have "state_io_rel tail_kept (if wa_pending_recreate_reason w1 = None then ret True else attempt_recreate fl)" by (intro tail_rules)
    from wp_kept [OF this w1] show "wp (do { recreated \<leftarrow> (if wa_pending_recreate_reason w1 = None then ret True else attempt_recreate fl);
        ?last failed recreated }) (reported fl) w1"
      unfolding wp_bind [of "if wa_pending_recreate_reason w1 = None then ret True else attempt_recreate fl"] by (rule wp_mono) (rule last)
  qed
  then show ?thesis using False by (simp add: wal_append_def Let_def)
qed

end
