(* ===== verification/Wal_Reading.thy ===== *)
theory Wal_Reading
  imports Wal_Records
begin

text \<open>
  Facts about the readers of the WAL file: a complete line at the end of a file is read back as the last row, whatever junk lines
  precede it; the window of \<open>tail_raw_with_meta\<close> is what its documentation says; a payload survives base64; and what
  \<open>rows_to_text_lines\<close> makes of a text.
\<close>

section \<open>Lines\<close>

lemma byte_lines_Nil [simp]: "byte_lines a = [] \<longleftrightarrow> a = []"
  by (cases a) (auto split: list.split)

lemma byte_lines_append: "ends_line a \<Longrightarrow> byte_lines (a @ b) = byte_lines a @ byte_lines b"
proof (induction a)
  case (Cons x a)
  then have a: "ends_line a" by (auto simp: ends_line_def split: if_splits)
  show ?case
  proof (cases "x = 0x0A")
    case False
    then have "a \<noteq> []" using Cons.prems by (auto simp: ends_line_def)
    then obtain l ls where "byte_lines a = l # ls" by (cases "byte_lines a") auto
    then show ?thesis using Cons.IH [OF a] False by simp
  qed (use Cons.IH [OF a] in simp)
qed simp

lemma byte_lines_one: "0x0A \<notin> set l \<Longrightarrow> byte_lines (l @ [0x0A]) = [l]"
  by (induction l) auto

lemma takeWhile_take: "takeWhile P (take n xs) = take n (takeWhile P xs)"
  by (induction xs arbitrary: n) (auto simp: take_Cons split: nat.splits)

abbreviation continuation :: "byte \<Rightarrow> bool" where
  "continuation y \<equiv> 0x80 \<le> y \<and> y < 0xC0"

text \<open>A sequence of continuation bytes never reaches over a line end.\<close>

lemma continuation_stops:
  fixes n :: nat
  assumes a: "a \<noteq> []" "last a = 0x0A"
  defines "c \<equiv> takeWhile continuation (take n a)"
  shows "takeWhile continuation (take n (a @ b)) = c" "length c < length a" "drop (length c) a \<noteq> []" "last (drop (length c) a) = 0x0A"
proof -
  have t: "takeWhile continuation (a @ b) = takeWhile continuation a"
    using last_in_set [OF a(1)] a(2) by (intro takeWhile_append1 [of "0x0A"]) auto
  show "takeWhile continuation (take n (a @ b)) = c" by (simp only: takeWhile_take t c_def)
  have "takeWhile continuation a \<noteq> a"
  proof
    assume "takeWhile continuation a = a"
    then have "continuation (last a)" using a(1) set_takeWhileD [of "last a" continuation a] by auto
    then show False by (simp add: a(2))
  qed
  then have "length (takeWhile continuation a) \<noteq> length a" using takeWhile_eq_take [of continuation a] by (metis take_all_iff order_refl)
  then have "length (takeWhile continuation a) < length a" using length_takeWhile_le [of continuation a] by linarith
  then show l: "length c < length a" by (simp add: takeWhile_take c_def)
  show "drop (length c) a \<noteq> []" "last (drop (length c) a) = 0x0A" using a l by simp_all
qed

lemma lead_not_lf: "utf8_lead x = None \<or> utf8_lead x = Some (Suc k) \<Longrightarrow> x \<noteq> 0x0A"
  by (auto simp: utf8_lead_def)

lemma ends_line_tl: "ends_line (x # a) \<Longrightarrow> ends_line a"
  by (auto simp: ends_line_def split: if_splits)

lemma ends_line_more: "ends_line (x # a) \<Longrightarrow> x \<noteq> 0x0A \<Longrightarrow> a \<noteq> [] \<and> last a = 0x0A"
  by (auto simp: ends_line_def split: if_splits)

lemma utf8_decode_append: "ends_line a \<Longrightarrow> utf8_decode (a @ b) = utf8_decode a @ utf8_decode b"
proof (induction a rule: utf8_decode.induct)
  case (2 x a)
  show ?case
  proof (cases "utf8_lead x")
    case None
    then show ?thesis using "2.IH"(1) [OF None ends_line_tl [OF "2.prems"]] by simp
  next
    case (Some k)
    show ?thesis
    proof (cases k)
      case 0
      then show ?thesis using "2.IH"(2) [OF Some 0 ends_line_tl [OF "2.prems"]] Some by simp
    next
      case (Suc m)
      have a: "a \<noteq> []" "last a = 0x0A" using ends_line_more [OF "2.prems"] lead_not_lf [of x m] Some Suc by auto
      let ?c = "takeWhile continuation (take (Suc m) a)"
      note c = continuation_stops [OF a, of "Suc m"]
      have "ends_line (drop (length ?c) a)" using c(4) by (simp add: ends_line_def)
      then show ?thesis using "2.IH"(3) [OF Some Suc refl] Some Suc c(1) [of b] c(2) by (simp add: Let_def)
    qed
  qed
qed simp

abbreviation ends_text :: "string \<Rightarrow> bool" where
  "ends_text s \<equiv> s = [] \<or> last s = CHR 0x0A"

lemma char_of_lf: "char_of (10 :: nat) = CHR 0x0A"
  by (rule of_char_eqI [where ?'a = nat]) simp

lemma utf8_decode_last: "a \<noteq> [] \<Longrightarrow> last a = 0x0A \<Longrightarrow> utf8_decode a \<noteq> [] \<and> last (utf8_decode a) = CHR 0x0A"
proof (induction a rule: utf8_decode.induct)
  case (2 x a)
  have x: "x \<noteq> 0x0A \<Longrightarrow> a \<noteq> [] \<and> last a = 0x0A" using "2.prems" by (auto split: if_splits)
  show ?case
  proof (cases "utf8_lead x")
    case None
    then show ?thesis using "2.IH"(1) [OF None] x lead_not_lf [of x] by simp
  next
    case (Some k)
    show ?thesis
    proof (cases k)
      case 0
      show ?thesis
      proof (cases "a = []")
        case True
        then show ?thesis using "2.prems" by (simp add: utf8_lead_def char_of_lf)
      next
        case False
        then show ?thesis using "2.IH"(2) [OF Some 0] "2.prems" Some 0 by simp
      qed
    next
      case (Suc m)
      have a: "a \<noteq> []" "last a = 0x0A" using x lead_not_lf [of x m] Some Suc by auto
      note c = continuation_stops [OF a, of "Suc m"]
      show ?thesis using "2.IH"(3) [OF Some Suc refl c(3,4)] Some Suc by (simp add: Let_def)
    qed
  qed
qed simp

lemma universal_append: "ends_text a \<Longrightarrow> universal (a @ b) = universal a @ universal b"
proof (induction a rule: universal.induct)
  case (2 c)
  then show ?case by (cases b) auto
next
  case (3 c d s)
  show ?case
  proof (cases "c = CHR 0x0D \<and> d = CHR 0x0A")
    case True
    then show ?thesis using 3 by (auto split: if_splits)
  next
    case False
    then show ?thesis using "3.IH"(2) "3.prems" by auto
  qed
qed simp

lemma universal_last: "s \<noteq> [] \<Longrightarrow> last s = CHR 0x0A \<Longrightarrow> universal s \<noteq> [] \<and> last (universal s) = CHR 0x0A"
proof (induction s rule: universal.induct)
  case (3 c d s)
  show ?case
  proof (cases "c = CHR 0x0D \<and> d = CHR 0x0A")
    case True
    then show ?thesis using 3 by (cases "s = []") auto
  next
    case False
    then show ?thesis using "3.IH"(2) "3.prems" by auto
  qed
qed auto

lemma universal_one_line: "one_line s \<Longrightarrow> universal s = s"
  by (induction s rule: universal.induct) auto

lemma text_lines_Nil [simp]: "text_lines s = [] \<longleftrightarrow> s = []"
  by (cases s) (auto split: list.split)

lemma text_lines_append: "ends_text a \<Longrightarrow> text_lines (a @ b) = text_lines a @ text_lines b"
proof (induction a)
  case (Cons x a)
  then have a: "ends_text a" by (auto split: if_splits)
  show ?case
  proof (cases "x = CHR 0x0A")
    case False
    then have "a \<noteq> []" using Cons.prems by auto
    then obtain l ls where "text_lines a = l # ls" by (cases "text_lines a") auto
    then show ?thesis using Cons.IH [OF a] False by simp
  qed (use Cons.IH [OF a] in simp)
qed simp

lemma text_lines_one: "one_line s \<Longrightarrow> text_lines (s @ [CHR 0x0A]) = [s]"
  by (induction s) auto

text \<open>A text line at the end of a file is the last line that is read.\<close>

lemma text_lines_snoc:
  assumes "ends_line pre" "one_line s"
  shows "text_lines (universal (utf8_decode (pre @ utf8_encode s @ [0x0A]))) = text_lines (universal (utf8_decode pre)) @ [s]"
proof -
  have enc: "utf8_encode s @ [0x0A] = utf8_encode (s @ [CHR 0x0A])"
    by (simp add: utf8_encode_def utf8_char_def)
  have l: "ends_text (utf8_decode pre)" using assms(1) utf8_decode_last [of pre] by (cases "pre = []") (auto simp: ends_line_def)
  then have u: "ends_text (universal (utf8_decode pre))" using universal_last [of "utf8_decode pre"] by (cases "utf8_decode pre = []") auto
  have "universal (s @ [CHR 0x0A]) = s @ [CHR 0x0A]"
  proof (cases s rule: rev_cases)
    case (snoc t c)
    have "universal (t @ [c, CHR 0x0A]) = t @ [c, CHR 0x0A]" if "one_line (t @ [c])" for t
      using that by (induction t rule: universal.induct) auto
    then show ?thesis using assms(2) snoc by simp
  qed simp
  then show ?thesis
    by (simp only: enc utf8_decode_append [OF assms(1)] utf8_roundtrip universal_append [OF l] text_lines_append [OF u] text_lines_one [OF assms(2)])
qed


section \<open>Records\<close>

text \<open>The object of a record and the row that is read back from its line.\<close>

definition rec_obj :: "wal_rec \<Rightarrow> (string \<times> json) list" where
  "rec_obj r = (case rec_json r of JObj d \<Rightarrow> d | _ \<Rightarrow> [])"

definition rec_row :: "wal_rec \<Rightarrow> (string \<times> json) list" where
  "rec_row r = (case canon (rec_json r) of JObj d \<Rightarrow> d | _ \<Rightarrow> [])"

lemma rec_json_obj: "rec_json r = JObj (rec_obj r)"
  by (simp add: rec_obj_def rec_json_def)

lemma canon_rec_json: "canon (rec_json r) = JObj (rec_row r)"
  by (simp add: rec_row_def rec_json_def)

lemma dict_ok_rec: "dict_ok (rec_obj r)"
  by (simp add: rec_obj_def rec_json_def)

lemma rec_plain: "json_plain (JObj (wr_meta r)) \<Longrightarrow> json_plain (rec_json r)"
proof -
  assume m: "json_plain (JObj (wr_meta r))"
  have "list_all (\<lambda>(k, v). json_plain v) (rec_obj r)"
    using m by (simp add: rec_obj_def rec_json_def split: option.split)
  then show ?thesis using dict_ok_rec by (simp add: rec_json_obj)
qed

lemma rec_row_get: "dict_get (rec_row r) k = map_option canon (dict_get (rec_obj r) k)"
proof -
  have "rec_row r = sort_key fst (map (\<lambda>(k, v). (k, canon v)) (rec_obj r))"
    unfolding rec_row_def rec_json_obj [of r] by (simp del: sort_key_simps)
  then show ?thesis using dict_get_canon [OF dict_ok_rec] by simp
qed

lemma rec_row_fields:
  "dict_get (rec_row r) ''seq'' = Some (JInt (wr_seq r))"
  "dict_get (rec_row r) ''com'' = Some (JStr (wr_com r))"
  "dict_get (rec_row r) ''payload_b64'' = Some (JStr (wr_payload_b64 r))"
  by (simp_all add: rec_row_get rec_obj_def rec_json_def)

lemma rec_line_obj: "json_plain (JObj (wr_meta r)) \<Longrightarrow> line_obj (dumps_stable fl (rec_json r)) = Some (rec_row r)"
  by (simp add: line_obj_def loads_dumps [OF rec_plain] canon_rec_json)

lemma rec_text_ne: "dumps_stable fl (rec_json r) \<noteq> []"
  by (simp add: rec_json_def)

text \<open>The readers of a file that ends with the line of a record.\<close>

lemma iter_matching_rec:
  assumes m: "json_plain (JObj (wr_meta r))" and pre: "ends_line pre"
  shows "iter_matching com (pre @ rec_line fl r) = iter_matching com pre @ (if matches_com com (rec_row r) then [rec_row r] else [])"
proof -
  let ?t = "dumps_stable fl (rec_json r)"
  have l: "text_lines (universal (utf8_decode (pre @ rec_line fl r))) = text_lines (universal (utf8_decode pre)) @ [?t]"
    unfolding rec_line_def by (rule text_lines_snoc [OF pre one_line_dumps [OF rec_plain [OF m]]])
  show ?thesis
    unfolding iter_matching_def l using rec_line_obj [OF m, of fl] rec_text_ne [of fl r]
    by (simp add: map_filter_def rec_row_fields)
qed

lemma fold_seq_ge:
  fixes z :: int
  shows "z \<le> foldl (\<lambda>last l. case f l of None \<Rightarrow> last | Some s \<Rightarrow> if last < s then s else last) z ls"
proof (induction ls arbitrary: z)
  case (Cons l ls)
  show ?case using Cons [of z] Cons [of "the (f l)"] by (auto split: option.split)
qed simp

lemma strip_object: "py_strip (CHR ''{'' # s @ [CHR ''}'']) = CHR ''{'' # s @ [CHR ''}'']"
  by (simp add: py_strip_def py_lstrip_def py_rstrip_def py_space_def)

lemma load_last_seq_rec:
  assumes m: "json_plain (JObj (wr_meta r))" and pre: "ends_line pre"
  shows "wr_seq r \<le> ls_seq (load_last_seq (Some (pre @ rec_line fl r)))"
proof -
  let ?t = "dumps_stable fl (rec_json r)"
  have "0x0A \<notin> set (utf8_encode ?t)" using utf8_one_line [OF one_line_dumps [OF rec_plain [OF m]]] by blast
  then have b: "byte_lines (pre @ rec_line fl r) = byte_lines pre @ [utf8_encode ?t]"
    unfolding rec_line_def by (simp add: byte_lines_append [OF pre] byte_lines_one)
  have s: "py_strip ?t = ?t" by (simp add: rec_json_def strip_object del: append_assoc flip: append_assoc)
  have "line_seq ?t = Some (wr_seq r)" by (simp add: line_seq_def rec_line_obj [OF m] rec_row_fields)
  then show ?thesis using rec_text_ne [of fl r]
    by (auto simp: load_last_seq_def Let_def b s)
qed


section \<open>Base64\<close>

lemma of_char_char_of_small: "n < 256 \<Longrightarrow> (of_char (char_of (n :: nat)) :: nat) = n"
  by (simp add: of_char_of take_bit_eq_mod)

lemma b64_val_char: "n < 64 \<Longrightarrow> b64_val (b64_char n) = Some n"
  by (auto simp: b64_char_def b64_val_def Let_def of_char_char_of_small)

lemma b64_char_pad: "n < 64 \<Longrightarrow> b64_char n \<noteq> CHR ''=''"
proof
  assume n: "n < 64" and e: "b64_char n = CHR ''=''"
  have "b64_val (CHR ''='') = None" by (simp add: b64_val_def)
  then show False using b64_val_char [OF n] e by simp
qed

lemma b64_scan_char: "n < 64 \<Longrightarrow> b64_scan quad left pads (b64_char n # r) =
    (if quad = 0 then b64_scan 1 n 0 r
     else if quad = 1 then map_option ((#) (left * 4 + n div 16)) (b64_scan 2 (n mod 16) 0 r)
     else if quad = 2 then map_option ((#) (left * 16 + n div 4)) (b64_scan 3 (n mod 4) 0 r)
     else map_option ((#) (left * 64 + n)) (b64_scan 0 0 0 r))"
  by (simp add: b64_val_char b64_char_pad)

text \<open>The three bytes of a group are put together again from its four digits.\<close>

lemma b64_digits:
  fixes a b c :: nat
  assumes "a < 256" "b < 256" "c < 256"
  shows "a div 4 < 64" "a mod 4 * 16 + b div 16 < 64" "b mod 16 * 4 + c div 64 < 64" "c mod 64 < 64"
    "a mod 4 * 16 < 64" "b mod 16 * 4 < 64"
    "a div 4 * 4 + (a mod 4 * 16 + b div 16) div 16 = a" "(a mod 4 * 16 + b div 16) mod 16 = b div 16"
    "b div 16 * 16 + (b mod 16 * 4 + c div 64) div 4 = b" "(b mod 16 * 4 + c div 64) mod 4 = c div 64"
    "c div 64 * 64 + c mod 64 = c" "a div 4 * 4 + (a mod 4 * 16) div 16 = a" "b div 16 * 16 + (b mod 16 * 4) div 4 = b"
proof -
  have d: "a div 4 < 64" "b div 16 < 16" "c div 64 < 4" using assms by auto
  have m: "a mod 4 < 4" "b mod 16 < 16" by auto
  show "a div 4 < 64" "a mod 4 * 16 + b div 16 < 64" "b mod 16 * 4 + c div 64 < 64" "c mod 64 < 64"
    "a mod 4 * 16 < 64" "b mod 16 * 4 < 64" using d m by linarith+
  have e: "(a mod 4 * 16 + b div 16) div 16 = a mod 4" "(b mod 16 * 4 + c div 64) div 4 = b mod 16" using d by simp_all
  show "(a mod 4 * 16 + b div 16) mod 16 = b div 16" "(b mod 16 * 4 + c div 64) mod 4 = c div 64" using d by simp_all
  show "a div 4 * 4 + (a mod 4 * 16 + b div 16) div 16 = a" "b div 16 * 16 + (b mod 16 * 4 + c div 64) div 4 = b"
    unfolding e by (rule div_mult_mod_eq)+
  show "c div 64 * 64 + c mod 64 = c" "a div 4 * 4 + (a mod 4 * 16) div 16 = a" "b div 16 * 16 + (b mod 16 * 4) div 4 = b"
    by simp_all
qed

lemma b64_scan_nats: "list_all (\<lambda>n. n < 256) ns \<Longrightarrow> b64_scan 0 0 0 (b64_nats ns) = Some ns"
proof (induction ns rule: b64_nats.induct)
  case (2 a)
  then show ?case using b64_digits [of a 0 0] by (simp add: b64_scan_char del: b64_scan.simps(2)) (simp add: b64_scan.simps)
next
  case (3 a b)
  then show ?case using b64_digits [of a b 0] by (simp add: b64_scan_char del: b64_scan.simps(2)) (simp add: b64_scan.simps)
next
  case (4 a b c r)
  then have b: "b div 16 < 16" by auto
  then have "b div 16 mod 16 = b div 16" by simp
  then show ?case using 4 b b64_digits [of a b c] by (simp add: b64_scan_char del: b64_scan.simps(2))
qed simp

lemma b64decode_b64encode: "b64decode (b64encode bs) = Some bs"
proof -
  have "list_all (\<lambda>n. n < 256) (map unat bs)"
    using unsigned_less [where 'b = 8 and 'a = nat] by (simp add: list_all_iff)
  then show ?thesis by (simp add: b64decode_def b64encode_def b64_scan_nats comp_def)
qed

section \<open>The window of a query\<close>

abbreviation rows_after :: "int \<Rightarrow> (string \<times> json) list list \<Rightarrow> (string \<times> json) list list" where
  "rows_after n rows \<equiv> filter (\<lambda>d. n < row_seq d) rows"

lemma range_scan_window:
  "range_scan n limit out ds =
     (out @ take (nat limit - length out) (rows_after n ds), nat limit - length out < length (rows_after n ds))"
proof (induction n limit out ds rule: range_scan.induct)
  case (2 n limit out d ds)
  show ?case
  proof (cases "limit \<le> int (length out)")
    case False
    then have "nat limit - length out = Suc (nat limit - Suc (length out))" by linarith
    then show ?thesis using 2 False by auto
  qed (use 2 in auto)
qed simp

lemma tail_range: "tail_raw (Some n) com limit (Some bs) = take (nat limit) (rows_after n (iter_matching com bs))"
  by (simp add: tail_raw_def tail_raw_with_meta_def range_scan_window)

lemma rows_after_page:
  assumes "sorted_wrt (\<lambda>d e. row_seq d < row_seq e) rows" "p = take k (rows_after n rows)" "p \<noteq> []"
  shows "rows_after n rows = p @ rows_after (row_seq (last p)) rows"
proof -
  let ?R = "rows_after n rows"
  obtain q where q: "?R = p @ q" using assms(2) by (metis append_take_drop_id)
  have s: "sorted_wrt (\<lambda>d e. row_seq d < row_seq e) ?R" using assms(1) sorted_wrt_filter by blast
  have l: "last p \<in> set p" using assms(3) by simp
  have n: "n < row_seq (last p)" 
  proof -
    have "last p \<in> set ?R" unfolding q using l by simp
    then show ?thesis by simp
  qed
  have "rows_after (row_seq (last p)) rows = rows_after (row_seq (last p)) ?R"
    using n by (auto simp: filter_filter intro!: filter_cong)
  also have "\<dots> = rows_after (row_seq (last p)) p @ rows_after (row_seq (last p)) q" by (simp add: q)
  also have "rows_after (row_seq (last p)) p = []"
  proof -
    obtain r x where r: "p = r @ [x]" using assms(3) by (cases p rule: rev_cases) auto
    then have "\<forall>d \<in> set r. row_seq d < row_seq x" using s q by (simp add: sorted_wrt_append)
    then have "\<forall>d \<in> set p. row_seq d \<le> row_seq (last p)" using r by auto
    then show ?thesis by (auto simp: filter_empty_conv)
  qed
  also have "rows_after (row_seq (last p)) q = q"
    using s l by (auto simp: q sorted_wrt_append intro: filter_True)
  finally show ?thesis using q by simp
qed

section \<open>Text lines\<close>

lemma splitlines_lf: "(\<And>c. c \<in> set s \<Longrightarrow> line_break c \<Longrightarrow> c = CHR 0x0A) \<Longrightarrow> splitlines_from cur s =
   (case text_lines s of [] \<Rightarrow> if cur = [] then [] else [rev cur] | l # ls \<Rightarrow> (rev cur @ l) # ls)"
proof (induction cur s rule: splitlines_from.induct)
  case (2 cur c)
  have "line_break c \<longleftrightarrow> c = CHR 0x0A" using "2.prems" [of c] by (auto simp: line_break_def)
  then show ?case by simp
next
  case (3 cur c d s)
  have sub: "e \<in> set (d # s) \<Longrightarrow> line_break e \<Longrightarrow> e = CHR 0x0A" for e using "3.prems" by simp
  have c: "line_break c \<longleftrightarrow> c = CHR 0x0A" using "3.prems" [of c] by (auto simp: line_break_def)
  have ne: "text_lines (d # s) \<noteq> []" by (simp only: text_lines_Nil list.distinct not_False_eq_True)
  have cr: "\<not> line_break c \<or> c \<noteq> CHR 0x0D" using c by auto
  have cr': "c \<noteq> CHR 0x0D" using cr by (auto simp: line_break_def)
  then have nn: "\<not> (c = CHR 0x0D \<and> d = CHR 0x0A)" by simp
  obtain l ls where l: "text_lines (d # s) = l # ls" using ne by (cases "text_lines (d # s)") auto
  show ?case
  proof (cases "line_break c")
    case True
    have "splitlines_from [] (d # s) = l # ls" using "3.IH"(2) [OF nn True sub] l by simp
    moreover have "text_lines (c # d # s) = [] # l # ls" using True c l by (simp only: text_lines.simps(2) [of c]) simp
    ultimately show ?thesis using cr' True by (simp del: text_lines.simps(2))
  next
    case False
    have "splitlines_from (c # cur) (d # s) = (rev (c # cur) @ l) # ls" using "3.IH"(3) [OF nn False sub] l by simp
    moreover have "text_lines (c # d # s) = (c # l) # ls" using False c l by (simp only: text_lines.simps(2) [of c]) simp
    ultimately show ?thesis using cr' False by (simp del: text_lines.simps(2))
  qed
qed simp

lemma text_lines_length: "s \<noteq> [] \<Longrightarrow> last s \<noteq> CHR 0x0A \<Longrightarrow>
   length s = sum_list (map length (text_lines s)) + (length (text_lines s) - 1)"
proof (induction s)
  case (Cons c s)
  show ?case
  proof (cases "s = []")
    case False
    then obtain l ls where "text_lines s = l # ls" by (cases "text_lines s") auto
    then show ?thesis using Cons False by auto
  qed (use Cons in auto)
qed simp

lemma text_to_lines_lf:
  assumes "\<And>c. c \<in> set t \<Longrightarrow> line_break c \<Longrightarrow> c = CHR 0x0A"
  shows "text_to_lines t = text_lines t"
proof -
  have "py_splitlines t = text_lines t" unfolding py_splitlines_def using splitlines_lf [of t "[]"] assms by (simp split: list.split)
  then show ?thesis using text_lines_length [of t] by (auto simp: text_to_lines_def Let_def)
qed

lemma hex_digit_plain: "n < 16 \<Longrightarrow> \<not> line_break (hex_digit n)"
proof -
  have "n < 16 \<Longrightarrow> (of_char (hex_digit n) :: nat) = (if n < 10 then 48 + n else 87 + n)"
    by (simp add: hex_digit_def of_char_char_of_small)
  then show "n < 16 \<Longrightarrow> \<not> line_break (hex_digit n)" by (auto simp: line_break_def)
qed

lemma printable_breaks: "c \<in> set (printable_byte b) \<Longrightarrow> line_break c \<Longrightarrow> c = char_of (unat b) \<and> b \<in> {0x0A, 0x0D}"
proof -
  assume c: "c \<in> set (printable_byte b)" and l: "line_break c"
  have u: "unat b < 256" using unsigned_less [where 'b = 8 and 'a = nat, of b] by simp
  then have h: "\<not> line_break (hex_digit (unat b div 16))" "\<not> line_break (hex_digit (unat b mod 16))" by (simp_all add: hex_digit_plain)
  have k: "\<not> line_break (CHR 0x5C)" "\<not> line_break (CHR ''x'')" by (simp_all add: line_break_def)
  have p: "printable_byte b = [char_of (unat b)]" using c l h k by (cases "printable_byte b = [char_of (unat b)]") (auto simp: printable_byte_def Let_def split: if_splits)
  then have e: "c = char_of (unat b)" using c by simp
  then have "unat b \<in> {10, 11, 12, 13, 28, 29, 30, 133}" using l u by (simp add: line_break_def of_char_char_of_small)
  moreover have "32 \<le> unat b \<and> unat b \<le> 126 \<or> unat b \<in> {9, 10, 13}" using p by (auto simp: printable_byte_def Let_def split: if_splits)
  ultimately have "unat b = 10 \<or> unat b = 13" by auto
  then show ?thesis using e by (auto simp: word_unat_eq_iff)
qed

lemma to_printable_lf:
  assumes "0x0D \<notin> set data" "c \<in> set (to_printable data)" "line_break c"
  shows "c = CHR 0x0A"
proof -
  obtain b where b: "b \<in> set data" "c \<in> set (printable_byte b)" using assms(2) by (auto simp: to_printable_def)
  then have "c = char_of (unat b)" "b = 0x0A" using printable_breaks [OF b(2) assms(3)] assms(1) by auto
  then show ?thesis by (simp add: char_of_lf)
qed

lemma to_printable_append [simp]: "to_printable (a @ b) = to_printable a @ to_printable b"
  by (simp add: to_printable_def)

lemma splitlines_crlf:
  assumes "\<And>c. c \<in> set l1 \<Longrightarrow> \<not> line_break c" "\<And>c. c \<in> set l2 \<Longrightarrow> \<not> line_break c" "l2 \<noteq> []"
  shows "splitlines_from cur (l1 @ CHR 0x0D # CHR 0x0A # l2) = [rev cur @ l1, l2]"
  using assms(1)
proof (induction l1 arbitrary: cur)
  case Nil
  have "text_lines l2 = [l2]" using assms(2,3)
  proof (induction l2)
    case (Cons c s)
    have "c \<noteq> CHR 0x0A" using Cons.prems(1) [of c] by (auto simp: line_break_def)
    then show ?case using Cons by (cases "s = []") auto
  qed simp
  then show ?case using splitlines_lf [of l2 "[]"] assms(2,3) by simp
next
  case (Cons c l1)
  have c: "\<not> line_break c" using Cons.prems by simp
  then have cr: "c \<noteq> CHR 0x0D" by (auto simp: line_break_def)
  have IH: "splitlines_from (c # cur) (l1 @ CHR 0x0D # CHR 0x0A # l2) = [rev (c # cur) @ l1, l2]"
    using Cons.IH [of "c # cur"] Cons.prems by simp
  have "splitlines_from cur (c # l1 @ CHR 0x0D # CHR 0x0A # l2) = splitlines_from (c # cur) (l1 @ CHR 0x0D # CHR 0x0A # l2)"
    using c cr by (cases l1) auto
  then show ?case using IH by simp
qed

end
