(* ===== verification/Wal_Theorems.thy ===== *)
theory Wal_Theorems
  imports Wal_Invariants Wal_Reading
begin

text \<open>
  The writer among other programs: a state machine whose steps are the public methods of \<open>WalWriter\<close>, the things that other
  programs do to the directory, and restarts of the process. The invariant of \<open>Wal_Invariants\<close> holds in every state that is
  reached, which gives the guarantees of an append. The second half has the properties of the queries.
\<close>

section \<open>The numbers of the records\<close>

text \<open>No operation but \<open>reset\<close> takes the sequence number back, and only new records advance it.\<close>

definition seq_up :: "wal \<Rightarrow> wal \<Rightarrow> bool" where
  "seq_up w w' \<longleftrightarrow> wa_seq w \<le> wa_seq w'"

definition seq_same :: "wal \<Rightarrow> wal \<Rightarrow> bool" where
  "seq_same w w' \<longleftrightarrow> wa_seq w' = wa_seq w"

interpretation up: kept_relation seq_up
  by unfold_locales (auto simp: seq_up_def)

interpretation same: kept_relation seq_same
  by unfold_locales (auto simp: seq_same_def)

lemma same_up: "state_io_rel seq_same m \<Longrightarrow> state_io_rel seq_up m"
  by (simp add: state_io_rel_def seq_same_def seq_up_def)

lemma same_on_os: "state_io_rel seq_same (on_os f)"
  by (simp add: state_io_rel_def on_os_def seq_same_def split: prod.split)

lemma same_upd: "(\<And>w. wa_seq (f w) = wa_seq w) \<Longrightarrow> state_io_rel seq_same (upd f)"
  by (rule same.kept_update) (simp add: seq_same_def)

named_theorems seq_rules

declare same.kept_rules [seq_rules] same_on_os [seq_rules] same_upd [seq_rules]

lemma same_handles [seq_rules]: "state_io_rel seq_same (set_handle which h)" "state_io_rel seq_same (set_dirty which b)"
    "state_io_rel seq_same (record_recreated e)" "state_io_rel seq_same mark_healthy" "state_io_rel seq_same clock"
    "state_io_rel seq_same (write_failed e)"
  by (simp_all add: set_handle_def set_dirty_def record_recreated_def mark_healthy_def clock_def write_failed_def) (intro seq_rules; simp)+

lemma same_close_handle [seq_rules]: "state_io_rel seq_same (close_handle which sync)"
  unfolding close_handle_def by (intro seq_rules; simp)

lemma same_open_handle [seq_rules]: "state_io_rel seq_same (open_handle which)"
  unfolding open_handle_def by (intro seq_rules; simp)

lemma same_write_one [seq_rules]: "state_io_rel seq_same (write_one which d)"
  unfolding write_one_def write_data_def retry_write_def retry_finish_def note_retry_succeeded_def write_once_def
  by (intro seq_rules; simp)

lemma same_write_record [seq_rules]: "state_io_rel seq_same (write_record fl r payload)"
  unfolding write_record_def by (intro seq_rules)

lemma same_rotate [seq_rules]: "state_io_rel seq_same (wal_rotate_if_needed sizes skip)"
  unfolding wal_rotate_if_needed_def rotate_one_def rotation_due_def rotate_file_def rotate_failed_def schedule_rotate_retry_def
  by (intro seq_rules; simp)

lemma same_check [seq_rules]: "state_io_rel seq_same (check_missing_names sizes force)"
  unfolding check_missing_names_def check_identities_def identity_change_def drop_mirror_def by (intro seq_rules; simp)

lemma same_begin [seq_rules]: "state_io_rel seq_same (begin_recreate reason)" "state_io_rel seq_same observe_sizes"
    "state_io_rel seq_same (recreate_open now)" "state_io_rel seq_same (schedule_recreate_retry e)"
  unfolding begin_recreate_def previous_wal_identity_def observe_sizes_def recreate_open_def recreate_terminate_def schedule_recreate_retry_def
  by (intro seq_rules; simp)+

lemma same_outcome [seq_rules]: "state_io_rel seq_same (append_write fl r payload)"
  unfolding append_write_def append_outcome_def by (intro seq_rules; simp)

lemma up_new_record: "state_io_rel seq_up (new_record a b c l)"
  unfolding new_record_def by (intro up.kept_rules up.kept_update; simp add: seq_up_def)

lemma up_attempt: "state_io_rel seq_up (attempt_recreate fl)"
  unfolding attempt_recreate_def by (intro up.kept_rules up_new_record same_up; (intro seq_rules)?; simp)

lemma up_prepare: "state_io_rel seq_up (append_prepare fl)"
  unfolding append_prepare_def by (intro up.kept_rules up_attempt same_up; (intro seq_rules)?; simp)

lemma wp_up: "state_io_rel seq_up m \<Longrightarrow> wp m (\<lambda>_ w'. wa_seq w \<le> wa_seq w') w"
  by (auto simp: wp_def state_io_rel_def seq_up_def split_def)

lemma wp_same: "state_io_rel seq_same m \<Longrightarrow> wp m (\<lambda>_ w'. wa_seq w' = wa_seq w) w"
  by (auto simp: wp_def state_io_rel_def seq_same_def split_def)

text \<open>The fields of the record that \<open>append\<close> returns.\<close>

definition record_of :: "rec_args \<Rightarrow> int \<Rightarrow> wal_rec \<Rightarrow> bool" where
  "record_of a n r \<longleftrightarrow> wr_seq r = n \<and> wr_com r = ra_com a \<and> wr_payload_b64 r = b64encode (ra_payload a) \<and> wr_meta r = ra_meta a \<and>
     wr_len r = length (ra_payload a) \<and> wr_crc32 r = payload_crc32 (ra_payload a)"

lemma wp_outcome_value: "wp (append_outcome record we me) (\<lambda>r _. r = record \<or> r = record\<lparr>wr_loss_flag := True\<rparr>) w"
  by (cases we; cases me) (simp_all add: append_outcome_def mark_healthy_def write_failed_def)

lemma wp_true: "wp m (\<lambda>_ _. True) w"
  by (simp add: wp_def split: prod.split)

lemma wp_write_value: "wp (append_write fl record payload) (\<lambda>r w'. (r = record \<or> r = record\<lparr>wr_loss_flag := True\<rparr>) \<and> wa_seq w' = wa_seq w) w"
proof -
  have "wp (append_write fl record payload) (\<lambda>r _. r = record \<or> r = record\<lparr>wr_loss_flag := True\<rparr>) w"
    unfolding append_write_def wp_bind
    by (rule wp_mono [OF wp_true]) (simp add: split_def wp_outcome_value)
  from wp_conj [OF this wp_same [OF same_outcome]] show ?thesis .
qed

lemma wp_append_record:
  "wp (wal_append fl a loss_flag) (\<lambda>r w'. record_of a (wa_seq w') r \<and> wa_seq w < wa_seq w') w"
proof (cases "wa_closed w")
  case True
  then show ?thesis by (simp add: wal_append_def new_record_def append_closed_def record_of_def Let_def)
next
  case False
  let ?b64 = "b64encode (ra_payload a)" and ?crc = "payload_crc32 (ra_payload a)"
  let ?last = "\<lambda>failed recreated. do {
       record \<leftarrow> new_record a ?b64 ?crc (if recreated then loss_flag else True);
       let record = record\<lparr>wr_rotation_failed := failed\<rparr>;
       if recreated then append_write fl record (ra_payload a) else append_pending record }"
  let ?Q = "\<lambda>r w'. record_of a (wa_seq w') r \<and> wa_seq w < wa_seq w'"
  have last: "wp (?last failed recreated) ?Q w2" if w2: "wa_seq w \<le> wa_seq w2" for failed recreated w2
  proof (cases recreated)
    case True
    have "wp (append_write fl rec (ra_payload a)) ?Q w3" if "record_of a (wa_seq w3) rec" "wa_seq w < wa_seq w3" for rec w3
      by (rule wp_mono [OF wp_write_value]) (use that in \<open>auto simp: record_of_def\<close>)
    then show ?thesis using True w2 by (simp add: new_record_def Let_def record_of_def)
  next
    case False
    then show ?thesis using w2 by (simp add: new_record_def append_pending_def Let_def record_of_def)
  qed
  have "wp (append_prepare fl) (\<lambda>failed w1. wp (do {
      recreated \<leftarrow> (if wa_pending_recreate_reason w1 = None then ret True else attempt_recreate fl); ?last failed recreated }) ?Q w1) w"
  proof (rule wp_mono [OF wp_up [OF up_prepare]])
    fix failed :: bool and w1 :: wal assume w1: "wa_seq w \<le> wa_seq w1"
    let ?m = "if wa_pending_recreate_reason w1 = None then ret True else attempt_recreate fl"
    have "state_io_rel seq_up ?m" by (intro up.kept_rules up_attempt)
    from wp_up [OF this] show "wp (do { recreated \<leftarrow> ?m; ?last failed recreated }) ?Q w1"
      unfolding wp_bind [of ?m] by (rule wp_mono) (rule last, use w1 in simp)
  qed
  then show ?thesis using False by (simp add: wal_append_def Let_def)
qed

section \<open>The writer among other programs\<close>

datatype wal_op = Op_append rec_args bool | Op_tick bool | Op_close | Op_sync | Op_reset

fun run_op :: "(rat \<Rightarrow> string) \<Rightarrow> wal_op \<Rightarrow> wal \<Rightarrow> wal" where
  "run_op fl (Op_append a loss_flag) w = snd (run_state (wal_append fl a loss_flag) w)"
| "run_op fl (Op_tick lock_free) w = snd (run_state (tick fl lock_free) w)"
| "run_op fl Op_close w = snd (run_state wal_close w)"
| "run_op fl Op_sync w = snd (run_state wal_sync w)"
| "run_op fl Op_reset w = snd (run_state wal_reset w)"

text \<open>
  Other programs delete, move or replace files, remove or create the directory; time passes and the system
  answers later calls as it likes. They do not write into the files that the writer uses, and a file that they put in the place of the
  WAL ends with a line end.
\<close>

inductive os_step :: "os \<Rightarrow> os \<Rightarrow> bool" where
  ext_unlink: "os_step s (s\<lparr>os_names := dict_pop p (os_names s)\<rparr>)"
| ext_move: "dict_get (os_names s) p = Some i \<Longrightarrow> q \<notin> {WAL_NAME, MIRROR_NAME} \<Longrightarrow>
    os_step s (s\<lparr>os_names := dict_set q i (dict_pop p (os_names s))\<rparr>)"
| ext_put: "os_dir s \<Longrightarrow> (p = WAL_NAME \<Longrightarrow> ends_line bs) \<Longrightarrow>
    os_step s (s\<lparr>os_names := dict_set p (1, os_next s) (os_names s), os_data := (os_data s)((1, os_next s) := bs), os_next := Suc (os_next s)\<rparr>)"
| ext_rmdir: "os_step s (s\<lparr>os_dir := False, os_names := []\<rparr>)"
| ext_mkdir: "os_step s (s\<lparr>os_dir := True\<rparr>)"
| ext_world: "os_step s (s\<lparr>os_answers := ans, os_clock := clk, os_mono := mono_ns, os_wall := wall, os_stamp := stamp\<rparr>)"

inductive wal_step :: "(rat \<Rightarrow> string) \<Rightarrow> wal \<Rightarrow> wal \<Rightarrow> bool" for fl where
  step_op: "wal_step fl w (run_op fl op w)"
| step_os: "os_step (wa_os w) s \<Longrightarrow> wal_step fl w (w\<lparr>wa_os := s\<rparr>)"
| step_restart: "wal_step fl w (wal_init rotate_bytes (wa_os w))"

text \<open>The directory that the first process finds.\<close>

definition os_clean :: "os \<Rightarrow> bool" where
  "os_clean s \<longleftrightarrow> dir_ok s \<and>
     (\<forall>p \<in> {WAL_NAME, MIRROR_NAME}. case dict_get (os_names s) p of None \<Rightarrow> True | Some i \<Rightarrow> fst i = 1 \<and> snd i < os_next s) \<and>
     (dict_get (os_names s) WAL_NAME = None \<or> dict_get (os_names s) WAL_NAME \<noteq> dict_get (os_names s) MIRROR_NAME)"

definition wal_start :: "wal \<Rightarrow> bool" where
  "wal_start w \<longleftrightarrow> (\<exists>n s. os_clean s \<and> w = wal_init n s)"

definition wal_inv :: "wal \<Rightarrow> bool" where
  "wal_inv w \<longleftrightarrow> tail_ok w \<and> dir_ok (wa_os w)"

lemma init_fields [simp]: "wa_os (wal_init n s) = s\<lparr>os_dir := True\<rparr>" "wa_fp (wal_init n s) = (\<lambda>_. None)"
    "wa_seq (wal_init n s) = ls_seq (load_last_seq (wal_content s))"
    "wa_dirty (wal_init n s) Wal_file = ls_dirty (load_last_seq (wal_content s))"
  by (simp_all add: wal_init_def Let_def wal_content_def)

lemma init_tail:
  assumes "tail_inv None None (dict_get (os_names s) WAL_NAME) (dict_get (os_names s) MIRROR_NAME) (os_next s) (os_data s) True"
  shows "wal_inv (wal_init n s)"
  using assms by (auto simp: wal_inv_def dir_ok_def tail_ok_def tail_inv_def wal_content_def load_last_seq_def Let_def)

lemma tail_unheld: "tail_inv h g a b nx d k \<Longrightarrow> tail_inv None None a b nx d True"
  by (auto simp: tail_inv_def)

lemma tail_unnamed: "tail_inv h g a b nx d k \<Longrightarrow> a' \<in> {a, None} \<Longrightarrow> b' \<in> {b, None} \<Longrightarrow> tail_inv h g a' b' nx d k"
  by (auto simp: tail_inv_def)

lemma tail_new_file:
  assumes "tail_inv h g a b nx d k"
  shows "ends_line bs \<Longrightarrow> tail_inv h g (Some (1, nx)) b (Suc nx) (d((1, nx) := bs)) k"
    and "tail_inv h g a (Some (1, nx)) (Suc nx) (d((1, nx) := bs)) k"
    and "tail_inv h g a b (Suc nx) (d((1, nx) := bs)) k"
  using assms by (fastforce simp: tail_inv_def simp del: One_nat_def)+

lemma inv_os: "wal_inv w \<Longrightarrow> os_step (wa_os w) s \<Longrightarrow> wal_inv (w\<lparr>wa_os := s\<rparr>)"
proof -
  assume w: "wal_inv w" and s: "os_step (wa_os w) s"
  from w have t: "tail_inv (fw w) (fm w) (nw w) (nm w) (os_next (wa_os w)) (os_data (wa_os w)) (wa_dirty w Wal_file)"
    and d: "dir_ok (wa_os w)" by (simp_all add: wal_inv_def tail_ok_def)
  from s show ?thesis
  proof cases
    case (ext_unlink p)
    then show ?thesis using d by (auto simp: wal_inv_def tail_ok_def dir_ok_def intro: t tail_unnamed [OF t])
  next
    case (ext_move p i q)
    then show ?thesis using d by (auto simp: wal_inv_def tail_ok_def dir_ok_def intro: t tail_unnamed [OF t])
  next
    case (ext_put p bs)
    then show ?thesis using d by (auto simp: wal_inv_def tail_ok_def dir_ok_def intro: tail_new_file [OF t] simp del: One_nat_def)
  next
    case ext_rmdir
    then show ?thesis by (auto simp: wal_inv_def tail_ok_def dir_ok_def intro: tail_unnamed [OF t])
  qed (use t d in \<open>auto simp: wal_inv_def tail_ok_def dir_ok_def\<close>)
qed

lemma inv_kept: "state_io_rel tail_kept m \<Longrightarrow> state_io_rel wal_grows m \<Longrightarrow> wal_inv w \<Longrightarrow> wal_inv (snd (run_state m w))"
  using wp_conj [OF wp_kept dir_ok_kept, of m w] by (simp add: wp_def wal_inv_def split_def)

lemma inv_op: "wal_inv w \<Longrightarrow> wal_inv (run_op fl op w)"
proof -
  assume w: "wal_inv w"
  then have t: "tail_ok w" and d: "dir_ok (wa_os w)" by (simp_all add: wal_inv_def)
  show ?thesis
  proof (cases op)
    case (Op_append a l)
    show ?thesis using wp_conj [OF wp_append [OF t d] dir_ok_kept [OF kept_append d]] Op_append by (simp add: wp_def wal_inv_def split_def)
  qed (simp_all add: w inv_kept kept_tick kept_close_sync kept_reset tail_tick tail_close_sync tail_reset)
qed

interpretation wal_machine: inductive_invariant wal_start "wal_step fl" wal_inv for fl
proof
  fix w assume "wal_start w"
  then obtain n s where "os_clean s" "w = wal_init n s" by (auto simp: wal_start_def)
  then show "wal_inv w" by (auto intro!: init_tail simp: os_clean_def tail_inv_def split: option.splits)
next
  fix w w' assume w: "wal_inv w" and "wal_step fl w w'"
  from this(2) show "wal_inv w'"
  proof cases
    case (step_restart n)
    have "tail_inv None None (nw w) (nm w) (os_next (wa_os w)) (os_data (wa_os w)) True"
      using w by (auto intro: tail_unheld simp: wal_inv_def tail_ok_def)
    then show ?thesis unfolding step_restart by (rule init_tail)
  qed (use w inv_op inv_os in auto)
qed

section \<open>What an append guarantees\<close>

abbreviation no_floats :: "rat \<Rightarrow> string" where
  "no_floats \<equiv> \<lambda>_. ''0.0''"

text \<open>An empty directory and a short payload, for the examples.\<close>

definition os_empty :: os where
  "os_empty = \<lparr>os_dir = False, os_names = [], os_data = (\<lambda>_. []), os_next = 0, os_answers = [], os_clock = [], os_mono = 7,
     os_wall = ''t'', os_stamp = ''20250101-000000''\<rparr>"

definition args_hi :: rec_args where
  "args_hi = \<lparr>ra_com = ''COM0'', ra_direction = ''RX'', ra_source = ''uart'', ra_payload = [0x68, 0x69], ra_cmd_id = None, ra_meta = []\<rparr>"

text \<open>The first write of the record fails; the second attempt succeeds.\<close>

definition os_rough :: os where
  "os_rough = os_empty\<lparr>os_answers := [Ans_ok, Ans_ok, Ans_ok, Ans_ok, Ans_err (os_fail EIO ''disk'')]\<rparr>"

lemma start_rough: "wal_start (wal_init 100000 os_rough)"
  unfolding wal_start_def by (intro exI conjI) (simp_all add: os_clean_def os_rough_def os_empty_def dir_ok_def)

lemma reach_rough: "reach wal_start (wal_step fl) (wal_init 100000 os_rough)"
  using start_rough by (rule reach_init)

lemmas append_steps = wal_append_def append_prepare_def observe_sizes_def check_missing_names_def check_identities_def mirror_name_reason_def
  wal_name_reason_def identity_change_def wal_rotate_if_needed_def rotate_one_def oversized_def new_record_def append_write_def write_record_def
  write_one_def write_data_def write_once_def open_handle_def retry_write_def retry_finish_def note_retry_succeeded_def record_recreated_def
  append_outcome_def mark_healthy_def close_handle_def set_handle_def set_dirty_def clock_def missing_reason_def

lemmas os_steps = file_size_def os_call_def os_ask_def os_read_clock_def open_append_def path_identity_def file_identity_def file_close_def
  ensure_dir_def write_all_flush_def write_loop.simps os_extend_def os_fail_def sent_bytes_def

lemma append_rough: "wp (wal_append no_floats args_hi False) (\<lambda>r w'. \<not> wr_loss_flag r \<and> nw w' = fw w') (wal_init 100000 os_rough)"
  by (simp add: append_steps os_steps wal_init_def wal_content_def load_last_seq_def os_rough_def os_empty_def WAL_NAME_def MIRROR_NAME_def Let_def)

lemma append_rough_fst: "\<not> wr_loss_flag (fst (run_state (wal_append no_floats args_hi False) (wal_init 100000 os_rough)))"
  and append_rough_snd: "nw (snd (run_state (wal_append no_floats args_hi False) (wal_init 100000 os_rough))) =
    fw (snd (run_state (wal_append no_floats args_hi False) (wal_init 100000 os_rough)))"
  using append_rough by (simp_all add: wp_def split_def)



text \<open>C10. No method of the writer destroys bytes: files only grow, an archive keeps its name and its file, and a file that
  had a name in the directory still has one. Rotation and reset move the current files away and never over another file.\<close>

theorem never_destroys: "os_grows (wa_os w) (wa_os (run_op fl op w))"
proof (cases op)
  case (Op_append a l)
  then show ?thesis using kept_append [of fl a l] by (simp add: state_io_rel_def wal_grows_def)
next
  case (Op_tick b)
  then show ?thesis using kept_tick [of fl b] by (simp add: state_io_rel_def wal_grows_def)
qed (use kept_close_sync kept_reset in \<open>simp_all add: state_io_rel_def wal_grows_def\<close>)

text \<open>\<open>append\<close> numbers its records upwards: a record has the number that the writer then stands at, above every number it had given
  before, also when a rotation or a recreation wrote a record of its own in between.\<close>

theorem append_numbers:
  assumes "run_state (wal_append fl a loss_flag) w = (r, w')"
  shows "wa_seq w < wr_seq r \<and> wr_seq r = wa_seq w'"
  using wp_run [OF wp_append_record assms] by (simp add: record_of_def)

theorem append_numbers_witness:
  "wa_seq (wal_init 5 os_empty) < wr_seq (fst (run_state (wal_append no_floats args_hi False) (wal_init 5 os_empty))) \<and>
   wr_seq (fst (run_state (wal_append no_floats args_hi False) (wal_init 5 os_empty))) =
     wa_seq (snd (run_state (wal_append no_floats args_hi False) (wal_init 5 os_empty)))"
  by (rule append_numbers [OF surjective_pairing])

text \<open>A record reported as written, in a file that still has its name, is the last line of the current file.\<close>

lemma append_content:
  assumes "reach wal_start (wal_step fl) w" "run_state (wal_append fl a loss_flag) w = (r, w')" "\<not> wr_loss_flag r"
    "dict_get (os_names (wa_os w')) WAL_NAME = wa_fp w' Wal_file"
  obtains before where "wal_content (wa_os w') = Some (before @ rec_line fl r)" "ends_line before"
proof -
  have "wal_inv w" by (rule wal_machine.reach_inv [OF assms(1)])
  then have "wp (wal_append fl a loss_flag) (reported fl) w" by (simp add: wal_inv_def wp_append)
  from wp_run [OF this assms(2)] assms(3) have "holds_line w' (rec_line fl r)" by simp
  then obtain i pre where "wa_fp w' Wal_file = Some i" "os_data (wa_os w') i = pre @ rec_line fl r" "ends_line pre"
    by (auto simp: holds_line_def)
  then show thesis using assms(4) by (intro that [of pre]) (simp_all add: wal_content_def)
qed





section \<open>Queries\<close>

text \<open>C33. The window of a query, as documented: without a start, the latest \<open>limit\<close> matching rows of the current file, cut off exactly when
  there are older ones; with a start \<open>n\<close>, the oldest \<open>limit\<close> rows with a number above \<open>n\<close>, cut off exactly when there are newer
  ones. Unreadable lines, lines without an integer number and other channels do not count.\<close>

theorem tail_window:
  "tail_raw_with_meta from_seq com limit (Some bs) = (let rows = iter_matching com bs in
     case from_seq of
       None \<Rightarrow> (drop (length rows - nat limit) rows, nat limit < length rows)
     | Some n \<Rightarrow> (take (nat limit) (filter (\<lambda>d. n < row_seq d) rows), nat limit < length (filter (\<lambda>d. n < row_seq d) rows)))"
  by (cases from_seq) (auto simp: tail_raw_with_meta_def deque_window range_scan_window Let_def)

text \<open>A reader that follows the log: each query starts at the number of the last row of the one before (\<open>last_seq\<close>).\<close>

fun follow :: "nat \<Rightarrow> int \<Rightarrow> string option \<Rightarrow> int \<Rightarrow> byte list \<Rightarrow> (string \<times> json) list list" where
  "follow 0 n com limit bs = []"
| "follow (Suc k) n com limit bs =
     (let page = tail_raw (Some n) com limit (Some bs) in
      if page = [] then [] else page @ follow k (row_seq (last page)) com limit bs)"

text \<open>Following the log with any positive limit reads every matching row after the start exactly once and in order, and ends, when
  the numbers in the file increase.\<close>

theorem follow_reads_all:
  assumes "0 < limit" "sorted_wrt (\<lambda>d e. row_seq d < row_seq e) (iter_matching com bs)" "length (iter_matching com bs) \<le> k"
  shows "follow k n com limit bs = filter (\<lambda>d. n < row_seq d) (iter_matching com bs)"
proof -
  have "length (rows_after n (iter_matching com bs)) \<le> k \<Longrightarrow> ?thesis"
  proof (induction k arbitrary: n)
    case (Suc k)
    let ?rows = "iter_matching com bs"
    let ?page = "tail_raw (Some n) com limit (Some bs)"
    show ?case
    proof (cases "?page = []")
      case True
      then have "rows_after n ?rows = []" using assms(1) by (simp add: tail_range)
      then show ?thesis using True by (simp add: Let_def)
    next
      case False
      note split = rows_after_page [OF assms(2) tail_range False]
      have "0 < length ?page" using False by simp
      then have "length (rows_after (row_seq (last ?page)) ?rows) \<le> k" using Suc.prems unfolding split length_append by linarith
      from Suc.IH [OF this] show ?thesis using False split by (simp add: Let_def)
    qed
  qed simp
  then show ?thesis using assms(3) length_filter_le [of "\<lambda>d. n < row_seq d" "iter_matching com bs"] by linarith
qed

definition two_lines :: "byte list" where
  "two_lines = utf8_encode (''{'' @ [CHR 0x22] @ ''seq'' @ [CHR 0x22] @ '':1}'') @ [0x0A] @ utf8_encode ''junk'' @ [0x0A]
     @ utf8_encode (''{'' @ [CHR 0x22] @ ''seq'' @ [CHR 0x22] @ '':2}'') @ [0x0A]"

lemma two_rows: "iter_matching None two_lines = [[(''seq'', JInt 1)], [(''seq'', JInt 2)]]"
  by code_simp

theorem follow_reads_all_witness:
  "follow 2 0 None 1 two_lines = [[(''seq'', JInt 1)], [(''seq'', JInt 2)]]"
  using follow_reads_all [of 1 None two_lines 2 0] by (simp add: two_rows)

text \<open>The text lines of rows whose payloads have no carriage return are the lines of the decoded text; a part
  without a line end at the end of the text is the last line.\<close>

theorem text_lines_of_rows:
  assumes "list_all (\<lambda>d. case row_payload d of None \<Rightarrow> False | Some p \<Rightarrow> 0x0D \<notin> set p) rows"
  shows "rows_to_text_lines rows = Some (text_lines (concat (map (\<lambda>d. to_printable (the (row_payload d))) rows)))"
proof -
  have "c = CHR 0x0A" if "d \<in> set rows" "c \<in> set (to_printable (the (row_payload d)))" "line_break c" for d c
    using to_printable_lf [OF _ that(2,3)] assms that(1) by (auto simp: list_all_iff split: option.splits)
  then have "text_to_lines (concat (map (\<lambda>d. to_printable (the (row_payload d))) rows)) =
      text_lines (concat (map (\<lambda>d. to_printable (the (row_payload d))) rows))"
    by (intro text_to_lines_lf) auto
  moreover have "list_all (\<lambda>d. row_payload d \<noteq> None) rows" using assms by (auto simp: list_all_iff split: option.splits)
  ultimately show ?thesis by (simp add: rows_to_text_lines_def)
qed

theorem text_lines_of_rows_witness:
  "rows_to_text_lines [[(''payload_b64'', JStr ''YQpi'')]] = Some [''a'', ''b'']"
proof -
  have "rows_to_text_lines [[(''payload_b64'', JStr ''YQpi'')]]
      = Some (text_lines (concat (map (\<lambda>d. to_printable (the (row_payload d))) [[(''payload_b64'', JStr ''YQpi'')]])))"
    by (rule text_lines_of_rows) code_simp
  also have "\<dots> = Some [''a'', ''b'']" by code_simp
  finally show ?thesis .
qed

text \<open>With a carriage return the partial last line is wrong: the length of a text is counted with one character per line end,
  so after a line that ends in CR LF the last character of the partial line is returned once more as a line of its own.\<close>

theorem crlf_duplicates_tail:
  assumes "list_all (\<lambda>c. \<not> line_break c) l1" "list_all (\<lambda>c. \<not> line_break c) l2" "l2 \<noteq> []"
  shows "text_to_lines (l1 @ [CHR 0x0D, CHR 0x0A] @ l2) = [l1, l2, [last l2]]"
proof -
  have "py_splitlines (l1 @ CHR 0x0D # CHR 0x0A # l2) = [l1, l2]"
    unfolding py_splitlines_def using splitlines_crlf [of l1 l2 "[]"] assms by (simp add: list_all_iff)
  moreover have "last l2 \<noteq> CHR 0x0A" 
  proof
    assume "last l2 = CHR 0x0A"
    then have "line_break (last l2)" by (simp add: line_break_def)
    then show False using assms(2,3) last_in_set [of l2] by (simp add: list_all_iff)
  qed
  moreover have "drop (length l2 - Suc 0) l2 = [last l2]" using assms(3) by (cases l2 rule: rev_cases) auto
  ultimately show ?thesis using assms(3) by (cases l2) (auto simp: text_to_lines_def Let_def)
qed

theorem crlf_duplicates_tail_witness:
  "text_to_lines (''ok'' @ [CHR 0x0D, CHR 0x0A] @ ''root#'') = [''ok'', ''root#'', ''#'']"
  using crlf_duplicates_tail [of "''ok''" "''root#''"] by (simp add: line_break_def)

end
