(* ===== verification/Console_Text.thy ===== *)
theory Console_Text
  imports Prelude
begin

text \<open>
  Console text (\<open>sw_core/util.py\<close>): removing terminal control sequences (\<open>clean_text\<close>, \<open>strip_ansi\<close>) and the guard that
  tells a shell command line that is not complete (\<open>shell_command_incomplete_reason\<close>). The regular expressions of the module are
  written out as matchers that return the rest of the text after a match at its start.
\<close>

section \<open>Control sequences\<close>

abbreviation esc :: char where "esc \<equiv> CHR 0x1B"
abbreviation bel :: char where "bel \<equiv> CHR 0x07"

definition char_in :: "nat \<Rightarrow> nat \<Rightarrow> char \<Rightarrow> bool" where
  "char_in a b c \<longleftrightarrow> a \<le> (of_char c :: nat) \<and> (of_char c :: nat) \<le> b"

text \<open>\<open>re.sub("", text)\<close>: leftmost matches, one after the other. The guard on the length keeps the recursion well-founded; every matcher
  below satisfies it.\<close>

function re_remove :: "(string \<Rightarrow> string option) \<Rightarrow> string \<Rightarrow> string" where
  "re_remove m [] = []"
| "re_remove m (c # s) = (case m (c # s) of
     Some r \<Rightarrow> if length r < length (c # s) then re_remove m r else c # re_remove m s
   | None \<Rightarrow> c # re_remove m s)"
  by pat_completeness auto
termination by (relation "measure (length \<circ> snd)") auto

declare re_remove.simps(2) [simp del]

text \<open>\<open>_ANSI_RE\<close>: ESC, an opening bracket, digits, semicolons and question marks, a letter.\<close>

definition match_ansi :: "string \<Rightarrow> string option" where
  "match_ansi s = (case s of
     e # b # r \<Rightarrow>
       if e = esc \<and> b = CHR ''['' then
         (case dropWhile (\<lambda>c. char_in 48 57 c \<or> c = CHR '';'' \<or> c = CHR ''?'') r of
            c # r' \<Rightarrow> if char_in 65 90 c \<or> char_in 97 122 c then Some r' else None
          | [] \<Rightarrow> None)
       else None
   | _ \<Rightarrow> None)"

text \<open>The text after the last ESC and backslash.\<close>

fun after_last_st :: "string \<Rightarrow> string option" where
  "after_last_st (a # b # r) = (case after_last_st (b # r) of
     Some t \<Rightarrow> Some t | None \<Rightarrow> if a = esc \<and> b = CHR 0x5C then Some r else None)"
| "after_last_st _ = None"

text \<open>\<open>_OSC_RE\<close>: ESC, a closing bracket, anything but BEL (as much as possible), then BEL or ESC and a backslash.\<close>

definition match_osc :: "string \<Rightarrow> string option" where
  "match_osc s = (case s of
     e # b # r \<Rightarrow>
       if e = esc \<and> b = CHR '']'' then
         (if bel \<in> set r then Some (tl (dropWhile (\<lambda>c. c \<noteq> bel) r)) else after_last_st r)
       else None
   | _ \<Rightarrow> None)"

text \<open>\<open>_ESC_RE\<close>, its three alternatives in order.\<close>

definition match_esc :: "string \<Rightarrow> string option" where
  "match_esc s = (case s of
     e # b # r \<Rightarrow>
       if e \<noteq> esc then None
       else if b = CHR ''['' then
         (case dropWhile (char_in 32 47) (dropWhile (char_in 48 63) r) of
            c # r' \<Rightarrow> if char_in 64 126 c then Some r' else None
          | [] \<Rightarrow> None)
       else if b = CHR '']'' \<and> bel \<in> set r then Some (tl (dropWhile (\<lambda>c. c \<noteq> bel) r))
       else if char_in 64 90 b \<or> char_in 92 95 b then Some r
       else None
   | _ \<Rightarrow> None)"

text \<open>\<open>text.replace("\r\n", "\n").replace("\r", "")\<close>: every carriage return goes.\<close>

definition drop_cr :: "string \<Rightarrow> string" where
  "drop_cr s = filter (\<lambda>c. c \<noteq> CHR 0x0D) s"

text \<open>The loop of \<open>clean_text\<close>; \<open>out\<close> in reverse order.\<close>

fun erase_loop :: "string \<Rightarrow> string \<Rightarrow> string" where
  "erase_loop out [] = rev out"
| "erase_loop out (c # s) =
     (if c = CHR 0x08 \<or> c = CHR 0x7F then erase_loop (tl out) s
      else if c = bel then erase_loop out s
      else erase_loop (c # out) s)"

definition clean_text :: "string \<Rightarrow> string" where
  "clean_text text = erase_loop [] (re_remove match_osc (re_remove match_ansi (drop_cr text)))"

definition strip_ansi :: "string \<Rightarrow> string" where
  "strip_ansi text = re_remove match_esc text"

section \<open>Incomplete commands\<close>

datatype quoting = Q_none | Q_single | Q_double | Q_backtick

text \<open>The body of the loop: the quote that is open and whether the next character is escaped.\<close>

fun quote_step :: "quoting \<times> bool \<Rightarrow> char \<Rightarrow> quoting \<times> bool" where
  "quote_step (Q_single, e) c = (if c = CHR 0x27 then Q_none else Q_single, e)"
| "quote_step (Q_double, e) c =
     (if e then (Q_double, False) else if c = CHR 0x5C then (Q_double, True) else if c = CHR 0x22 then (Q_none, False) else (Q_double, False))"
| "quote_step (Q_backtick, e) c =
     (if e then (Q_backtick, False) else if c = CHR 0x5C then (Q_backtick, True) else if c = CHR 0x60 then (Q_none, False) else (Q_backtick, False))"
| "quote_step (Q_none, e) c =
     (if c = CHR 0x27 then (Q_single, e) else if c = CHR 0x22 then (Q_double, e) else if c = CHR 0x60 then (Q_backtick, e) else (Q_none, e))"

definition quote_scan :: "string \<Rightarrow> quoting" where
  "quote_scan s = fst (foldl quote_step (Q_none, False) s)"

datatype incomplete = Empty_command | Nul_byte | Unbalanced_single | Unbalanced_double | Unbalanced_backtick | Trailing_operator | Trailing_backslash

definition shell_command_incomplete_reason :: "string \<Rightarrow> incomplete option" where
  "shell_command_incomplete_reason command = (let text = py_rstrip command in
     if text = [] then Some Empty_command
     else if CHR 0x00 \<in> set text then Some Nul_byte
     else case quote_scan text of
       Q_single \<Rightarrow> Some Unbalanced_single
     | Q_double \<Rightarrow> Some Unbalanced_double
     | Q_backtick \<Rightarrow> Some Unbalanced_backtick
     | Q_none \<Rightarrow>
         if last text = CHR ''|'' \<or> ends_with ''&&'' text then Some Trailing_operator
         else if odd (length (takeWhile (\<lambda>c. c = CHR 0x5C) (rev text))) then Some Trailing_backslash
         else None)"

section \<open>Facts\<close>

lemma re_remove_none: "(\<And>a r. s = a @ r \<Longrightarrow> m r = None) \<Longrightarrow> re_remove m s = s"
proof (induction s)
  case (Cons c s)
  have "m (c # s) = None" using Cons.prems [of "[]"] by simp
  moreover have "re_remove m s = s" using Cons.prems by (intro Cons.IH) (metis append_Cons)
  ultimately show ?case by (simp add: re_remove.simps)
qed simp

lemma re_remove_match: "m (c # s) = Some r \<Longrightarrow> length r \<le> length s \<Longrightarrow> re_remove m (c # s) = re_remove m r"
  by (simp add: re_remove.simps)

lemma match_none: "s = [] \<or> hd s \<noteq> esc \<Longrightarrow> match_ansi s = None \<and> match_osc s = None \<and> match_esc s = None"
  by (cases s) (auto simp: match_ansi_def match_osc_def match_esc_def split: list.split)

lemma re_remove_no_esc:
  assumes "esc \<notin> set s"
  shows "re_remove match_ansi s = s" "re_remove match_osc s = s" "re_remove match_esc s = s"
proof -
  have "r = [] \<or> hd r \<noteq> esc" if "s = a @ r" for a r using that assms by (cases r) auto
  then show "re_remove match_ansi s = s" "re_remove match_osc s = s" "re_remove match_esc s = s"
    using match_none by (auto intro!: re_remove_none)
qed

lemma set_re_remove:
  assumes "\<And>t r. m t = Some r \<Longrightarrow> set r \<subseteq> set t"
  shows "set (re_remove m s) \<subseteq> set s"
  using assms
proof (induction m s rule: re_remove.induct)
  case (2 m c s)
  show ?case
  proof (cases "m (c # s)")
    case (Some r)
    then have r: "set r \<subseteq> set (c # s)" using "2.prems" by blast
    show ?thesis
    proof (cases "length r < length (c # s)")
      case True
      have "set (re_remove m r) \<subseteq> set r" using "2.IH"(2) [OF Some True] "2.prems" by blast
      then show ?thesis using Some True r by (auto simp: re_remove.simps)
    next
      case False
      have "set (re_remove m s) \<subseteq> set s" using "2.IH"(3) [OF Some False] "2.prems" by blast
      then show ?thesis using Some False by (auto simp: re_remove.simps)
    qed
  next
    case None
    have "set (re_remove m s) \<subseteq> set s" using "2.IH"(1) [OF None] "2.prems" by blast
    then show ?thesis using None by (auto simp: re_remove.simps)
  qed
qed simp

lemma set_after_last_st: "after_last_st s = Some r \<Longrightarrow> set r \<subseteq> set s"
  by (induction s rule: after_last_st.induct) (auto split: option.splits if_splits)

lemma set_tl_dropWhile: "set (tl (dropWhile P s)) \<subseteq> set s"
  by (metis list.set_sel(2) set_dropWhileD subsetI tl_Nil)

lemma set_match_ansi: "match_ansi s = Some r \<Longrightarrow> set r \<subseteq> set s"
proof -
  assume "match_ansi s = Some r"
  then obtain e b t c where "s = e # b # t" "dropWhile (\<lambda>c. char_in 48 57 c \<or> c = CHR '';'' \<or> c = CHR ''?'') t = c # r"
    by (auto simp: match_ansi_def split: list.splits if_splits)
  then show ?thesis using set_dropWhileD [of _ "\<lambda>c. char_in 48 57 c \<or> c = CHR '';'' \<or> c = CHR ''?''" t] by auto
qed

lemma set_match_osc: "match_osc s = Some r \<Longrightarrow> set r \<subseteq> set s"
  using set_tl_dropWhile set_after_last_st by (fastforce simp: match_osc_def split: list.splits if_splits)

lemma set_erase: "set (erase_loop out s) \<subseteq> set out \<union> (set s - {CHR 0x08, CHR 0x7F, bel})"
proof (induction out s rule: erase_loop.induct)
  case (2 out c s)
  have "set (tl out) \<subseteq> set out" by (cases out) auto
  with 2 show ?case by auto
qed simp

lemma erase_plain: "CHR 0x08 \<notin> set s \<Longrightarrow> CHR 0x7F \<notin> set s \<Longrightarrow> bel \<notin> set s \<Longrightarrow> erase_loop out s = rev out @ s"
  by (induction out s rule: erase_loop.induct) auto

text \<open>Cleaned text has no carriage return, no bell and no erasing character left, whatever the console sent.\<close>

theorem clean_text_clean: "set (clean_text t) \<inter> {CHR 0x0D, bel, CHR 0x08, CHR 0x7F} = {}"
proof -
  have "set (clean_text t) \<subseteq> set (drop_cr t) - {CHR 0x08, CHR 0x7F, bel}"
    using set_erase [of "[]" "re_remove match_osc (re_remove match_ansi (drop_cr t))"] set_re_remove [of match_ansi "drop_cr t"] set_match_ansi
      set_re_remove [of match_osc "re_remove match_ansi (drop_cr t)"] set_match_osc by (auto simp: clean_text_def)
  then show ?thesis by (auto simp: drop_cr_def)
qed

lemma after_last_st_snoc: "after_last_st (s @ [esc, CHR 0x5C]) = Some []"
proof (induction s)
  case (Cons c s)
  then show ?case by (cases s) auto
qed simp

lemma re_remove_skip: "hd (c # s) \<noteq> esc \<Longrightarrow> re_remove match_ansi (c # s) = c # re_remove match_ansi s"
  using match_none [of "c # s"] by (simp add: re_remove.simps)

lemma remove_ansi_prefix: "esc \<notin> set a \<Longrightarrow> re_remove match_ansi (a @ s) = a @ re_remove match_ansi s"
  by (induction a) (auto simp: re_remove_skip)

lemma remove_ansi_other: "b \<noteq> CHR ''['' \<Longrightarrow> b \<noteq> esc \<Longrightarrow> re_remove match_ansi (esc # b # s) = esc # b # re_remove match_ansi s"
  using re_remove_skip [of b s] by (simp add: re_remove.simps(2) [of _ esc] match_ansi_def)

text \<open>An operating system command that ends with ESC and a backslash takes everything with it up to the last such ending: the visible text
  between two window titles is lost.\<close>

theorem clean_text_swallows:
  assumes "\<forall>x \<in> {a, v, b}. set x \<inter> {esc, bel, CHR 0x0D} = {}"
  shows "clean_text ([esc, CHR '']''] @ a @ [esc, CHR 0x5C] @ v @ [esc, CHR '']''] @ b @ [esc, CHR 0x5C]) = []"
proof -
  let ?t = "[esc, CHR '']''] @ a @ [esc, CHR 0x5C] @ v @ [esc, CHR '']''] @ b @ [esc, CHR 0x5C]"
  have "filter (\<lambda>c. c \<noteq> CHR 0x0D) x = x" if "x \<in> {a, v, b}" for x using assms that by (auto intro!: filter_True)
  then have cr: "drop_cr ?t = ?t" by (simp add: drop_cr_def)
  have ansi: "re_remove match_ansi ?t = ?t"
    using assms by (simp add: remove_ansi_other remove_ansi_prefix)
  have "match_osc ?t = after_last_st (a @ [esc, CHR 0x5C] @ v @ [esc, CHR '']''] @ b @ [esc, CHR 0x5C])"
    using assms by (auto simp: match_osc_def)
  also have "\<dots> = Some []"
    using after_last_st_snoc [of "a @ [esc, CHR 0x5C] @ v @ [esc, CHR '']''] @ b"] by simp
  finally have "re_remove match_osc ?t = []" by (simp add: re_remove.simps(2) [of _ esc])
  then show ?thesis unfolding clean_text_def cr ansi by simp
qed

theorem clean_text_swallows_witness:
  "clean_text ([esc, CHR '']''] @ ''0;a'' @ [esc, CHR 0x5C] @ ''ready'' @ [esc, CHR '']''] @ ''0;b'' @ [esc, CHR 0x5C]) = []"
  by (rule clean_text_swallows) simp

section \<open>Quotes\<close>

text \<open>A reference grammar for text whose quotes are all closed: plain characters, and segments in single quotes, double quotes or
  backticks; inside the latter two a backslash takes the next character with it.\<close>

inductive inner :: "char \<Rightarrow> string \<Rightarrow> bool" for q where
  inner_end: "inner q []"
| inner_char: "inner q s \<Longrightarrow> c \<noteq> q \<Longrightarrow> c \<noteq> CHR 0x5C \<Longrightarrow> inner q (c # s)"
| inner_escape: "inner q s \<Longrightarrow> inner q (CHR 0x5C # c # s)"

inductive closed_quotes :: "string \<Rightarrow> bool" where
  cq_end: "closed_quotes []"
| cq_plain: "closed_quotes s \<Longrightarrow> c \<notin> {CHR 0x27, CHR 0x22, CHR 0x60} \<Longrightarrow> closed_quotes (c # s)"
| cq_single: "closed_quotes s \<Longrightarrow> CHR 0x27 \<notin> set a \<Longrightarrow> closed_quotes (CHR 0x27 # a @ CHR 0x27 # s)"
| cq_double: "closed_quotes s \<Longrightarrow> inner (CHR 0x22) a \<Longrightarrow> closed_quotes (CHR 0x22 # a @ CHR 0x22 # s)"
| cq_backtick: "closed_quotes s \<Longrightarrow> inner (CHR 0x60) a \<Longrightarrow> closed_quotes (CHR 0x60 # a @ CHR 0x60 # s)"

lemma scan_single: "CHR 0x27 \<notin> set a \<Longrightarrow> foldl quote_step (Q_single, e) a = (Q_single, e)"
  by (induction a) auto

lemma scan_double: "inner (CHR 0x22) a \<Longrightarrow> foldl quote_step (Q_double, False) a = (Q_double, False)"
  by (induction rule: inner.induct) auto

lemma scan_backtick: "inner (CHR 0x60) a \<Longrightarrow> foldl quote_step (Q_backtick, False) a = (Q_backtick, False)"
  by (induction rule: inner.induct) auto

lemma closed_scan: "closed_quotes s \<Longrightarrow> foldl quote_step (Q_none, False) s = (Q_none, False)"
  by (induction rule: closed_quotes.induct) (auto simp: scan_single scan_double scan_backtick)

text \<open>What a scan that ends without an open quote has read, from each state.\<close>

definition ends_quote :: "char \<Rightarrow> bool \<Rightarrow> string \<Rightarrow> bool" where
  "ends_quote q e s \<longleftrightarrow> (\<exists>a t. s = a @ q # t \<and> inner q (if e then CHR 0x5C # a else a) \<and> closed_quotes t)"

fun closes :: "quoting \<times> bool \<Rightarrow> string \<Rightarrow> bool" where
  "closes (Q_none, e) s = closed_quotes s"
| "closes (Q_single, e) s = (\<exists>a t. s = a @ CHR 0x27 # t \<and> CHR 0x27 \<notin> set a \<and> closed_quotes t)"
| "closes (Q_double, e) s = ends_quote (CHR 0x22) e s"
| "closes (Q_backtick, e) s = ends_quote (CHR 0x60) e s"

lemma ends_quote_now: "closed_quotes t \<Longrightarrow> ends_quote q False (q # t)"
  unfolding ends_quote_def by (intro exI [of _ "[]"] exI [of _ t]) (simp add: inner_end)

lemma ends_quote_escape: "ends_quote q True s \<Longrightarrow> q \<noteq> CHR 0x5C \<Longrightarrow> ends_quote q False (CHR 0x5C # s)"
  unfolding ends_quote_def by (metis append_Cons)

lemma ends_quote_escaped: "ends_quote q False s \<Longrightarrow> ends_quote q True (c # s)"
  unfolding ends_quote_def by (metis append_Cons inner_escape)

lemma ends_quote_char: "ends_quote q False s \<Longrightarrow> c \<noteq> q \<Longrightarrow> c \<noteq> CHR 0x5C \<Longrightarrow> ends_quote q False (c # s)"
  unfolding ends_quote_def by (metis append_Cons inner_char)

lemma closes_step: "closes (quote_step (k, e) c) s \<Longrightarrow> e \<longrightarrow> k \<in> {Q_double, Q_backtick} \<Longrightarrow> closes (k, e) (c # s)"
proof (cases k)
  case Q_none
  assume "closes (quote_step (k, e) c) s" "e \<longrightarrow> k \<in> {Q_double, Q_backtick}"
  with Q_none show ?thesis
    by (auto simp: ends_quote_def intro: closed_quotes.intros split: if_splits)
next
  case Q_single
  assume "closes (quote_step (k, e) c) s"
  with Q_single show ?thesis
    by (auto split: if_splits) (metis append_Cons set_ConsD append_Nil empty_iff empty_set)+
next
  case Q_double
  assume "closes (quote_step (k, e) c) s"
  with Q_double show ?thesis
    by (auto simp: ends_quote_now ends_quote_escape ends_quote_escaped ends_quote_char split: if_splits)
next
  case Q_backtick
  assume "closes (quote_step (k, e) c) s"
  with Q_backtick show ?thesis
    by (auto simp: ends_quote_now ends_quote_escape ends_quote_escaped ends_quote_char split: if_splits)
qed

lemma quote_step_escape: "quote_step (k, e) c = (k', e') \<Longrightarrow> e \<longrightarrow> k \<in> {Q_double, Q_backtick} \<Longrightarrow> e' \<longrightarrow> k' \<in> {Q_double, Q_backtick}"
  by (cases k) (auto split: if_splits)

lemma scan_closes: "fst (foldl quote_step (k, e) s) = Q_none \<Longrightarrow> e \<longrightarrow> k \<in> {Q_double, Q_backtick} \<Longrightarrow> closes (k, e) s"
proof (induction s arbitrary: k e)
  case Nil
  then show ?case by (auto intro: cq_end)
next
  case (Cons c s)
  obtain k' e' where st: "quote_step (k, e) c = (k', e')" by force
  have "closes (k', e') s" using Cons.prems st quote_step_escape [OF st] by (intro Cons.IH) auto
  then show ?case using closes_step [of k e c s] Cons.prems(2) st by simp
qed

lemma quote_scan_closed: "quote_scan s = Q_none \<longleftrightarrow> closed_quotes s"
  using closed_scan [of s] scan_closes [of Q_none False s] by (auto simp: quote_scan_def)

text \<open>The guard for incomplete commands accepts a line exactly when it is not blank, has no NUL, all its quotes are closed in the sense of the
  grammar above, it does not end with a pipe or a conjunction, and does not end with an odd number of backslashes.\<close>

theorem guard_accepts:
  "shell_command_incomplete_reason command = None \<longleftrightarrow> (let text = py_rstrip command in
     text \<noteq> [] \<and> CHR 0x00 \<notin> set text \<and> closed_quotes text \<and> last text \<noteq> CHR ''|'' \<and> \<not> ends_with ''&&'' text \<and>
     even (length (takeWhile (\<lambda>c. c = CHR 0x5C) (rev text))))"
  by (cases "quote_scan (py_rstrip command)")
    (auto simp: shell_command_incomplete_reason_def Let_def simp flip: quote_scan_closed)

text \<open>A backslash outside quotes does not protect a quote: a line whose only quote is escaped is complete for the shell, and refused.\<close>

theorem escaped_quote_refused:
  assumes "list_all (\<lambda>c. c \<notin> {CHR 0x27, CHR 0x22, CHR 0x60, CHR 0x00, CHR 0x5C}) w"
  shows "shell_command_incomplete_reason (w @ [CHR 0x5C, CHR 0x27]) = Some Unbalanced_single"
proof -
  have "foldl quote_step (Q_none, False) w = (Q_none, False)" using assms by (induction w) auto
  then have "quote_scan (w @ [CHR 0x5C, CHR 0x27]) = Q_single" by (simp add: quote_scan_def)
  moreover have "py_rstrip (w @ [CHR 0x5C, CHR 0x27]) = w @ [CHR 0x5C, CHR 0x27]" by (simp add: py_rstrip_def py_space_def)
  moreover have "CHR 0x00 \<notin> set w" using assms by (auto simp: list_all_iff)
  ultimately show ?thesis by (simp add: shell_command_incomplete_reason_def)
qed

theorem escaped_quote_refused_witness: "shell_command_incomplete_reason (''echo it'' @ [CHR 0x5C, CHR 0x27]) = Some Unbalanced_single"
  by (rule escaped_quote_refused) simp

end
