(* ===== verification/Rx_Buffer.thy ===== *)
theory Rx_Buffer
  imports Json State_Logic Console_Text
begin

text \<open>
  The receive buffer of the UART bridge (\<open>sw_core/uart_io.py\<close>, class \<open>UARTBridge\<close>): a window on the text that the device has
  sent, addressed by absolute offsets, with the counters that the health and login code read; and the two loops that wait for a
  regular expression. The buffer refines the whole stream: that is the first theorem.

  The reader thread and the other threads run between the calls: \<open>bw_env\<close> lists what happens before each call, how much time
  passes and which bytes arrive. A regular expression is a function \<open>re\<close> that says whether a text matches, or \<open>None\<close> where
  \<open>re\<close> raises.
\<close>

section \<open>The buffer\<close>

definition RX_MAX_CHARS :: nat where "RX_MAX_CHARS = 131072"
definition RX_WINDOW_MAX_ENTRIES :: nat where "RX_WINDOW_MAX_ENTRIES = 4096"
definition RX_RATE_WINDOW_S :: seconds where "RX_RATE_WINDOW_S = 10"

record rxbuf =
  rb_text :: string
  rb_trimmed :: nat
  rb_window :: "(seconds \<times> nat) list"
  rb_total :: nat
  rb_last_rx :: seconds

definition rxbuf_init :: "seconds \<Rightarrow> rxbuf" where
  "rxbuf_init now = \<lparr>rb_text = [], rb_trimmed = 0, rb_window = [], rb_total = 0, rb_last_rx = now\<rparr>"

definition prune_rx_window :: "seconds \<Rightarrow> rxbuf \<Rightarrow> rxbuf" where
  "prune_rx_window now b = b\<lparr>rb_window := dropWhile (\<lambda>(t, _). RX_RATE_WINDOW_S < now - t) (rb_window b)\<rparr>"

definition append_rx_text :: "seconds \<Rightarrow> byte list \<Rightarrow> rxbuf \<Rightarrow> rxbuf" where
  "append_rx_text now payload b =
     (let b1 = b\<lparr>rb_total := rb_total b + length payload, rb_last_rx := now,
                 rb_window := deque_append RX_WINDOW_MAX_ENTRIES (now, length payload) (rb_window b)\<rparr>;
          b2 = prune_rx_window now b1;
          text = rb_text b2 @ utf8_decode payload;
          overflow = length text - RX_MAX_CHARS
      in b2\<lparr>rb_text := drop overflow text, rb_trimmed := rb_trimmed b2 + overflow\<rparr>)"

definition clear_rx_buffer :: "rxbuf \<Rightarrow> rxbuf" where
  "clear_rx_buffer b = b\<lparr>rb_trimmed := rb_trimmed b + length (rb_text b), rb_text := []\<rparr>"

definition rx_snapshot_len :: "rxbuf \<Rightarrow> nat" where
  "rx_snapshot_len b = rb_trimmed b + length (rb_text b)"

definition rx_bytes_last_10s :: "seconds \<Rightarrow> rxbuf \<Rightarrow> nat" where
  "rx_bytes_last_10s now b = sum_list (map snd (rb_window (prune_rx_window now b)))"

definition rx_total_bytes :: "rxbuf \<Rightarrow> nat" where
  "rx_total_bytes b = rb_total b"

definition rx_idle_s :: "seconds \<Rightarrow> rxbuf \<Rightarrow> seconds" where
  "rx_idle_s now b = max 0 (now - rb_last_rx b)"

definition rx_text_from :: "nat \<Rightarrow> rxbuf \<Rightarrow> string" where
  "rx_text_from from_offset b = (if from_offset \<le> rb_trimmed b then rb_text b else drop (from_offset - rb_trimmed b) (rb_text b))"

definition rx_tail :: "nat \<Rightarrow> rxbuf \<Rightarrow> string" where
  "rx_tail max_chars b = drop (length (rb_text b) - max_chars) (rb_text b)"

section \<open>The stream that the buffer is a window of\<close>

text \<open>The specification: all text that ever arrived and how much of it is gone.\<close>

datatype rx_event = Rx_arrive seconds "byte list" | Rx_clear

fun rx_apply :: "rxbuf \<Rightarrow> rx_event \<Rightarrow> rxbuf" where
  "rx_apply b (Rx_arrive now bs) = append_rx_text now bs b"
| "rx_apply b Rx_clear = clear_rx_buffer b"

definition rx_stream :: "rx_event list \<Rightarrow> string" where
  "rx_stream es = concat (map (\<lambda>e. case e of Rx_arrive _ bs \<Rightarrow> utf8_decode bs | Rx_clear \<Rightarrow> []) es)"

definition refines_stream :: "string \<Rightarrow> rxbuf \<Rightarrow> bool" where
  "refines_stream s b \<longleftrightarrow> rb_text b = drop (rb_trimmed b) s \<and> rb_trimmed b \<le> length s \<and> length (rb_text b) \<le> RX_MAX_CHARS"

lemma refines_append: "refines_stream s b \<Longrightarrow> refines_stream (s @ utf8_decode bs) (append_rx_text now bs b)"
proof -
  assume r: "refines_stream s b"
  let ?t = "rb_text b @ utf8_decode bs"
  let ?o = "length ?t - RX_MAX_CHARS"
  have t: "?t = drop (rb_trimmed b) (s @ utf8_decode bs)" using r by (simp add: refines_stream_def)
  have "drop ?o ?t = drop (rb_trimmed b + ?o) (s @ utf8_decode bs)" by (subst (2) t) (simp only: drop_drop add.commute)
  moreover have "rb_trimmed b + ?o \<le> length (s @ utf8_decode bs)" using r by (auto simp: refines_stream_def)
  moreover have "length (drop ?o ?t) \<le> RX_MAX_CHARS" by simp
  moreover have "rb_text (append_rx_text now bs b) = drop ?o ?t" "rb_trimmed (append_rx_text now bs b) = rb_trimmed b + ?o"
    by (simp_all add: append_rx_text_def prune_rx_window_def Let_def)
  ultimately show ?thesis by (simp only: refines_stream_def)
qed

lemma refines_clear: "refines_stream s b \<Longrightarrow> refines_stream s (clear_rx_buffer b)"
  by (simp add: refines_stream_def clear_rx_buffer_def)

lemma refines_run: "refines_stream s b \<Longrightarrow> refines_stream (s @ rx_stream es) (foldl rx_apply b es)"
proof (induction es arbitrary: s b)
  case (Cons e es)
  have "refines_stream (s @ rx_stream [e]) (rx_apply b e)"
    using Cons.prems refines_append refines_clear by (cases e) (auto simp: rx_stream_def)
  from Cons.IH [OF this] show ?case by (simp add: rx_stream_def)
qed (simp add: rx_stream_def)

lemma refines_init: "refines_stream [] (rxbuf_init now)"
  by (simp add: refines_stream_def rxbuf_init_def)

text \<open>C15. The buffer implements the stream of everything the device has sent: whatever arrives, is trimmed and is cleared, an offset is a
  position in that stream, the current offset is the length of the stream, and reading from an offset returns the stream from there on,
  or from the oldest character that is kept when that part is gone.\<close>

theorem rx_buffer_refines:
  "let b = foldl rx_apply (rxbuf_init t0) es; s = rx_stream es in
     rx_snapshot_len b = length s \<and> rx_text_from n b = drop (max n (rb_trimmed b)) s \<and> length (rb_text b) \<le> RX_MAX_CHARS"
proof -
  have "refines_stream (rx_stream es) (foldl rx_apply (rxbuf_init t0) es)" using refines_run [OF refines_init] by simp
  then show ?thesis by (auto simp: refines_stream_def rx_snapshot_len_def rx_text_from_def Let_def max_def)
qed

text \<open>What arrives after an offset was taken is what reading from it returns, as long as no more than the capacity of the buffer arrived
  and nothing was cleared: text from before the offset is never mistaken for an answer.\<close>

theorem rx_text_since:
  assumes "\<forall>e \<in> set es'. e \<noteq> Rx_clear" "length (rx_stream es') \<le> RX_MAX_CHARS"
  shows "rx_text_from (rx_snapshot_len (foldl rx_apply (rxbuf_init t0) es)) (foldl rx_apply (rxbuf_init t0) (es @ es')) = rx_stream es'"
proof -
  let ?b = "foldl rx_apply (rxbuf_init t0) es" and ?c = "foldl rx_apply (rxbuf_init t0) (es @ es')"
  have b: "refines_stream (rx_stream es) ?b" and c: "refines_stream (rx_stream (es @ es')) ?c"
    using refines_run [OF refines_init] by (metis append_Nil)+
  have app: "rx_stream (es @ es') = rx_stream es @ rx_stream es'" by (simp add: rx_stream_def)
  have len: "rx_snapshot_len ?b = length (rx_stream es)" using b by (simp add: refines_stream_def rx_snapshot_len_def)
  have "rb_trimmed ?c \<le> length (rx_stream es)"
    using assms
  proof (induction es' rule: rev_induct)
    case Nil
    then show ?case using b by (simp add: refines_stream_def)
  next
    case (snoc e es')
    obtain now bs where e: "e = Rx_arrive now bs" using snoc.prems(1) by (cases e) auto
    let ?d = "foldl rx_apply (rxbuf_init t0) (es @ es')"
    have d: "refines_stream (rx_stream (es @ es')) ?d" using refines_run [OF refines_init] by (metis append_Nil)
    have IH: "rb_trimmed ?d \<le> length (rx_stream es)" using snoc by (auto simp: rx_stream_def)
    have "length (rx_stream es') + length (utf8_decode bs) \<le> RX_MAX_CHARS" using snoc.prems(2) e by (simp add: rx_stream_def)
    then show ?case using IH d
      by (auto simp: e append_rx_text_def prune_rx_window_def Let_def refines_stream_def rx_stream_def)
  qed
  then show ?thesis using c len app by (auto simp: refines_stream_def rx_text_from_def)
qed

theorem rx_text_since_witness:
  "rx_text_from (rx_snapshot_len (foldl rx_apply (rxbuf_init 0) [Rx_arrive 1 [0x23]])) (foldl rx_apply (rxbuf_init 0) ([Rx_arrive 1 [0x23]] @ [Rx_arrive 2 [0x6F, 0x6B]])) =
   rx_stream [Rx_arrive 2 [0x6F, 0x6B]]"
  by (rule rx_text_since) (simp_all add: rx_stream_def RX_MAX_CHARS_def utf8_lead_def)

text \<open>One arrival is read back from the offset before it.\<close>

lemma rx_since_append:
  assumes "length (utf8_decode bs) \<le> RX_MAX_CHARS"
  shows "rx_text_from (rx_snapshot_len r) (append_rx_text now bs r) = utf8_decode bs"
  using assms by (auto simp: rx_text_from_def rx_snapshot_len_def append_rx_text_def prune_rx_window_def Let_def)

section \<open>The bridge among other threads\<close>

text \<open>The calls of a client, with what they returned, as \<open>bw_log\<close> records them.\<close>

datatype bridge_event = Ev_clear | Ev_send string | Ev_secret string | Ev_wait string bool | Ev_tail string | Ev_text string | Ev_idle seconds

record bridge =
  bw_rx :: rxbuf
  bw_now :: seconds
  bw_env :: "(seconds \<times> byte list) list"
  bw_faults :: "bool list"
  bw_log :: "bridge_event list"

text \<open>\<open>re.error\<close> of a pattern that does not compile; an exception of the send path.\<close>

datatype bridge_exn = Re_error | Send_error

type_synonym 'a bm = "(bridge, bridge_exn + 'a) state"

text \<open>What the other threads do before the next call.\<close>

definition others :: "bridge \<Rightarrow> bridge" where
  "others b = (case bw_env b of [] \<Rightarrow> b
     | (dt, bs) # r \<Rightarrow> let now = bw_now b + max 0 dt in
         b\<lparr>bw_env := r, bw_now := now, bw_rx := (if bs = [] then bw_rx b else append_rx_text now bs (bw_rx b))\<rparr>)"

lemma others_now: "bw_now b \<le> bw_now (others b)"
  by (auto simp: others_def Let_def split: list.split)

lemma others_log [simp]: "bw_log (others b) = bw_log b"
  by (auto simp: others_def Let_def split: list.split)

definition bridge_read :: "('a \<Rightarrow> bridge_event list) \<Rightarrow> (bridge \<Rightarrow> 'a) \<Rightarrow> 'a bm" where
  "bridge_read ev f = State (\<lambda>b. let b' = others b; x = f b' in (Inr x, b'\<lparr>bw_log := bw_log b' @ ev x\<rparr>))"

definition monotonic :: "seconds bm" where
  "monotonic = bridge_read (\<lambda>_. []) bw_now"

definition read_tail :: "string bm" where
  "read_tail = bridge_read (\<lambda>t. [Ev_tail t]) (\<lambda>b. rx_tail 4096 (bw_rx b))"

definition read_text :: "nat \<Rightarrow> string bm" where
  "read_text from_offset = bridge_read (\<lambda>t. [Ev_text t]) (\<lambda>b. rx_text_from from_offset (bw_rx b))"

definition read_idle :: "seconds bm" where
  "read_idle = bridge_read (\<lambda>i. [Ev_idle i]) (\<lambda>b. rx_idle_s (bw_now b) (bw_rx b))"

definition read_rx_bytes :: "nat bm" where
  "read_rx_bytes = bridge_read (\<lambda>_. []) (\<lambda>b. rx_bytes_last_10s (bw_now b) (bw_rx b))"

definition sleep :: "seconds \<Rightarrow> bridge \<Rightarrow> bridge" where
  "sleep d b = others (b\<lparr>bw_now := bw_now b + max 0 d\<rparr>)"

lemma sleep_now: "bw_now b + d \<le> bw_now (sleep d b)"
  using others_now [of "b\<lparr>bw_now := bw_now b + max 0 d\<rparr>"] by (auto simp: sleep_def max_def split: if_splits)

lemma sleep_log [simp]: "bw_log (sleep d b) = bw_log b"
  by (simp add: sleep_def)

definition bridge_clear :: "unit bm" where
  "bridge_clear = State (\<lambda>b. (Inr (), (others b)\<lparr>bw_rx := clear_rx_buffer (bw_rx (others b)), bw_log := bw_log b @ [Ev_clear]\<rparr>))"

text \<open>A transmission that raises has sent nothing.\<close>

definition bridge_tx :: "bridge_event \<Rightarrow> unit bm" where
  "bridge_tx e = State (\<lambda>b. case bw_faults b of
     True # r \<Rightarrow> (Inl Send_error, (others b)\<lparr>bw_faults := r\<rparr>)
   | fs \<Rightarrow> (Inr (), (others b)\<lparr>bw_faults := drop 1 fs, bw_log := bw_log b @ [e]\<rparr>))"

definition send_command :: "string \<Rightarrow> unit bm" where
  "send_command c = bridge_tx (Ev_send c)"

definition send_secret :: "string \<Rightarrow> unit bm" where
  "send_secret s = bridge_tx (Ev_secret s)"

lemma steps_left:
  fixes d now now' k :: rat
  assumes "now < d" "now + 1 / k \<le> now'" "0 < k"
  shows "nat \<lceil>k * (d - now')\<rceil> < nat \<lceil>k * (d - now)\<rceil>"
proof -
  have "k * (d - now') \<le> k * (d - now - 1 / k)" using assms by (intro mult_left_mono) auto
  also have "\<dots> = k * (d - now) - 1" using assms(3) by (simp add: algebra_simps)
  finally have "\<lceil>k * (d - now')\<rceil> \<le> \<lceil>k * (d - now)\<rceil> - 1" by (metis ceiling_diff_one ceiling_mono)
  moreover have "0 < \<lceil>k * (d - now)\<rceil>" using assms by simp
  ultimately show ?thesis by linarith
qed

text \<open>The loop of \<open>wait_for_regex\<close>. It ends: every round sleeps.\<close>

function wait_loop :: "(string \<Rightarrow> bool) \<Rightarrow> seconds \<Rightarrow> bridge \<Rightarrow> bool \<times> bridge" where
  "wait_loop hit deadline b =
     (let b1 = others b in
      if bw_now b1 < deadline then
        let b2 = others b1 in
        if hit (rb_text (bw_rx b2)) then (True, b2) else wait_loop hit deadline (sleep (1 / 20) b2)
      else (False, b1))"
  by pat_completeness auto
termination
proof (relation "measure (\<lambda>(_, d, b). nat \<lceil>20 * (d - bw_now b)\<rceil>)")
  fix hit :: "string \<Rightarrow> bool" and deadline and b b1 b2 :: bridge
  assume b: "b1 = others b" "bw_now b1 < deadline" "b2 = others b1"
  have "bw_now b + 1 / 20 \<le> bw_now (sleep (1 / 20) b2)"
    using others_now [of b, folded b(1)] others_now [of b1, folded b(3)] sleep_now [of b2 "1 / 20"] by linarith
  then show "((hit, deadline, sleep (1 / 20) b2), hit, deadline, b) \<in> measure (\<lambda>(_, d, b). nat \<lceil>20 * (d - bw_now b)\<rceil>)"
    using steps_left [of "bw_now b" deadline 20 "bw_now (sleep (1 / 20) b2)"] b(2) others_now [of b, folded b(1)]
    by (simp only: in_measure case_prod_conv)
qed simp

declare wait_loop.simps [simp del]

definition wait_for_regex :: "(string \<Rightarrow> (string \<Rightarrow> bool) option) \<Rightarrow> string \<Rightarrow> seconds \<Rightarrow> bool bm" where
  "wait_for_regex re pattern timeout_s = State (\<lambda>b.
     case re pattern of None \<Rightarrow> (Inl Re_error, others b)
     | Some hit \<Rightarrow> (case wait_loop hit (bw_now (others b) + timeout_s) (others b) of
         (r, b') \<Rightarrow> (Inr r, b'\<lparr>bw_log := bw_log b' @ [Ev_wait pattern r]\<rparr>)))"

lemma wait_loop_result:
  "wait_loop hit deadline b = (r, b') \<Longrightarrow> bw_log b' = bw_log b \<and> (if r then hit (rb_text (bw_rx b')) else deadline \<le> bw_now b')"
proof (induction hit deadline b rule: wait_loop.induct)
  case (1 hit deadline b)
  show ?case
  proof (cases "bw_now (others b) < deadline \<and> \<not> hit (rb_text (bw_rx (others (others b))))")
    case True
    then have "wait_loop hit deadline (sleep (1 / 20) (others (others b))) = (r, b')"
      using "1.prems" by (simp add: wait_loop.simps [of hit deadline b] Let_def)
    from "1.IH" [OF refl _ refl _ this] True show ?thesis by simp
  qed (use "1.prems" in \<open>auto simp: wait_loop.simps [of hit deadline b] Let_def split: if_splits\<close>)
qed

section \<open>Traces\<close>

text \<open>A condition on every event of a trace, given the events before it.\<close>

fun guarded :: "(bridge_event list \<Rightarrow> bridge_event \<Rightarrow> bool) \<Rightarrow> bridge_event list \<Rightarrow> bridge_event list \<Rightarrow> bool" where
  "guarded ok pre [] = True"
| "guarded ok pre (e # es) = (ok pre e \<and> guarded ok (pre @ [e]) es)"

lemma guarded_append: "guarded ok pre (a @ b) \<longleftrightarrow> guarded ok pre a \<and> guarded ok (pre @ a) b"
  by (induction a arbitrary: pre) auto

text \<open>A program run after the calls \<open>h\<close> makes only calls that are allowed, and ends with a result and a history that satisfy \<open>D\<close>.\<close>

definition safe :: "(bridge_event list \<Rightarrow> bridge_event \<Rightarrow> bool) \<Rightarrow> 'a bm \<Rightarrow> (bridge_exn + 'a \<Rightarrow> bridge_event list \<Rightarrow> bool) \<Rightarrow>
    bridge_event list \<Rightarrow> bool" where
  "safe ok m D h \<longleftrightarrow> (\<forall>b. wp m (\<lambda>r b'. \<exists>tr. bw_log b' = bw_log b @ tr \<and> guarded ok h tr \<and> D r (h @ tr)) b)"

named_theorems safe_rules

lemma safe_return [safe_rules]: "D r h \<Longrightarrow> safe ok (State_Monad.return r) D h"
  by (simp add: safe_def)

lemma safe_then [safe_rules]:
  assumes "safe ok m (\<lambda>r h'. case r of Inl e \<Rightarrow> D (Inl e) h' | Inr x \<Rightarrow> safe ok (f x) D h') h"
  shows "safe ok (and_then m f) D h"
  unfolding safe_def wp_and_then
proof
  fix b :: bridge
  let ?D = "\<lambda>r h'. case r of Inl e \<Rightarrow> D (Inl e) h' | Inr x \<Rightarrow> safe ok (f x) D h'"
  let ?Q = "\<lambda>r b'. \<exists>tr. bw_log b' = bw_log b @ tr \<and> guarded ok h tr \<and> D r (h @ tr)"
  have "wp m (\<lambda>r b'. \<exists>tr. bw_log b' = bw_log b @ tr \<and> guarded ok h tr \<and> ?D r (h @ tr)) b" using assms by (simp add: safe_def)
  then show "wp m (\<lambda>r w'. case r of Inl e \<Rightarrow> ?Q (Inl e) w' | Inr x \<Rightarrow> wp (f x) ?Q w') b"
  proof (rule wp_mono)
    fix r and w' :: bridge assume "\<exists>tr. bw_log w' = bw_log b @ tr \<and> guarded ok h tr \<and> ?D r (h @ tr)"
    then obtain tr where tr: "bw_log w' = bw_log b @ tr" "guarded ok h tr" "?D r (h @ tr)" by blast
    show "case r of Inl e \<Rightarrow> ?Q (Inl e) w' | Inr x \<Rightarrow> wp (f x) ?Q w'"
    proof (cases r)
      case (Inl e)
      then show ?thesis using tr by auto
    next
      case (Inr x)
      have "wp (f x) (\<lambda>r b'. \<exists>tr'. bw_log b' = bw_log w' @ tr' \<and> guarded ok (h @ tr) tr' \<and> D r ((h @ tr) @ tr')) w'"
        using tr(3) by (simp add: Inr safe_def)
      then have "wp (f x) ?Q w'"
      proof (rule wp_mono)
        fix r2 and b' :: bridge assume "\<exists>tr'. bw_log b' = bw_log w' @ tr' \<and> guarded ok (h @ tr) tr' \<and> D r2 ((h @ tr) @ tr')"
        then obtain tr' where "bw_log b' = bw_log w' @ tr'" "guarded ok (h @ tr) tr'" "D r2 ((h @ tr) @ tr')" by blast
        then show "?Q r2 b'" using tr(1,2) by (intro exI [of _ "tr @ tr'"]) (simp add: guarded_append)
      qed
      then show ?thesis by (simp add: Inr)
    qed
  qed
qed

lemma safe_read [safe_rules]: "(\<And>x. guarded ok h (ev x) \<and> D (Inr x) (h @ ev x)) \<Longrightarrow> safe ok (bridge_read ev f) D h"
  by (simp add: safe_def wp_def bridge_read_def Let_def)

lemma safe_clear [safe_rules]: "ok h Ev_clear \<Longrightarrow> D (Inr ()) (h @ [Ev_clear]) \<Longrightarrow> safe ok bridge_clear D h"
  by (simp add: safe_def wp_def bridge_clear_def)

lemma safe_tx [safe_rules]: "D (Inl Send_error) h \<Longrightarrow> ok h e \<Longrightarrow> D (Inr ()) (h @ [e]) \<Longrightarrow> safe ok (bridge_tx e) D h"
  by (simp add: safe_def wp_def bridge_tx_def split: list.split bool.split)

lemma safe_wait [safe_rules]:
  "D (Inl Re_error) h \<Longrightarrow> (\<And>v. ok h (Ev_wait p v) \<and> D (Inr v) (h @ [Ev_wait p v])) \<Longrightarrow> safe ok (wait_for_regex re p t) D h"
  using wait_loop_result by (auto simp: safe_def wp_def wait_for_regex_def split: option.split prod.split)

lemma safe_run: "safe ok m D h \<Longrightarrow> \<exists>tr. bw_log (snd (run_state m b)) = bw_log b @ tr \<and> guarded ok h tr \<and> D (fst (run_state m b)) (h @ tr)"
  by (auto simp: safe_def wp_def split_def)

lemma safe_mono: "safe ok m D h \<Longrightarrow> (\<And>r h'. D r h' \<Longrightarrow> E r h') \<Longrightarrow> safe ok m E h"
  by (fastforce simp: safe_def wp_def split_def)

end
