(* ===== verification/Login.thy ===== *)
theory Login
  imports Rx_Buffer
begin

text \<open>
  Bringing a console to a command prompt (\<open>sw_core/login_fsm.py\<close>) with the credentials that \<open>sw_core/auth.py\<close> resolves, and the
  reclassification of probe failures (\<open>sw_core/transport_stall.py\<close>). The programs run on the bridge of \<open>Rx_Buffer\<close>; every pattern
  of a profile is compiled by the parameter \<open>re\<close>, the fresh nonce is an argument. The theorems are about \<open>bw_log\<close>, what was
  sent and in which order: a secret goes out only where the console asked for it.
\<close>

section \<open>Profiles and credentials\<close>

text \<open>The fields of \<open>SessionProfile\<close> (and \<open>ProfileTemplate\<close>) that logging in uses.\<close>

record profile =
  sp_platform :: string
  sp_prompt_regex :: string
  sp_login_regex :: string
  sp_password_regex :: string
  sp_post_login_cmd :: string
  sp_ready_probe :: string
  sp_username :: "string option"
  sp_user_env :: "string option"
  sp_pass_env :: "string option"
  sp_env_file :: "string option"
  sp_console_unlock_env :: "string option"
  sp_console_unlock_idle_s :: seconds
  sp_timeout_s :: seconds
  sp_bootloader_prompts :: "string list"

record session_auth =
  au_username :: "string option"
  au_password :: "string option"
  au_console_unlock :: "string option"

datatype auth_reason = Auth_ok | Env_file_missing | Env_file_unreadable | Key_absent | Not_configured

text \<open>The truth value of an optional string.\<close>

definition given :: "string option \<Rightarrow> bool" where
  "given s \<longleftrightarrow> s \<noteq> None \<and> s \<noteq> Some []"

definition py_or :: "string option \<Rightarrow> string option \<Rightarrow> string option" where
  "py_or a b = (if given a then a else b)"

definition unquote :: "string \<Rightarrow> string" where
  "unquote v = (if 2 \<le> length v \<and> hd v = last v \<and> (hd v = CHR 0x27 \<or> hd v = CHR 0x22) then butlast (tl v) else v)"

definition env_line :: "string \<Rightarrow> (string \<times> string) option" where
  "env_line raw =
     (let line = py_strip raw in
      if line = [] \<or> starts_with ''#'' line then None
      else let line = (if starts_with ''export '' line then py_strip (drop 7 line) else line) in
        case py_partition (CHR ''='') line of (k, found, v) \<Rightarrow>
          if \<not> found then None
          else if py_strip k = [] then None
          else Some (py_strip k, unquote (py_strip v)))"

definition parse_env_file :: "string list \<Rightarrow> (string, string) dict" where
  "parse_env_file lines = foldl (\<lambda>env l. case env_line l of None \<Rightarrow> env | Some (k, v) \<Rightarrow> dict_set k v env) [] lines"

text \<open>The file behind \<open>env_file\<close>: not there, not readable, or its lines.\<close>

datatype env_file = Env_missing | Env_unreadable | Env_lines "string list"

definition local_env :: "env_file \<Rightarrow> profile \<Rightarrow> (string, string) dict" where
  "local_env file sp = (if given (sp_env_file sp) then case file of Env_lines ls \<Rightarrow> parse_env_file ls | _ \<Rightarrow> [] else [])"

definition env_value :: "(string, string) dict \<Rightarrow> (string, string) dict \<Rightarrow> string option \<Rightarrow> string option" where
  "env_value loc env key = (if given key then py_or (dict_get loc (the key)) (dict_get env (the key)) else None)"

definition auth_reason_of :: "env_file \<Rightarrow> profile \<Rightarrow> session_auth \<Rightarrow> auth_reason" where
  "auth_reason_of file sp auth =
     (if \<not> (given (sp_user_env sp) \<or> given (sp_pass_env sp) \<or> given (sp_env_file sp) \<or> given (sp_console_unlock_env sp)) then Not_configured
      else if (if given (sp_console_unlock_env sp) then given (au_console_unlock auth)
               else given (au_username auth) \<and> given (au_password auth)) then Auth_ok
      else if given (sp_env_file sp) \<and> file = Env_missing then Env_file_missing
      else if given (sp_env_file sp) \<and> file = Env_unreadable then Env_file_unreadable
      else Key_absent)"

definition resolve_session_auth :: "(string, string) dict \<Rightarrow> env_file \<Rightarrow> profile \<Rightarrow> session_auth \<times> auth_reason" where
  "resolve_session_auth env file sp =
     (let loc = local_env file sp;
          username = env_value loc env (sp_user_env sp);
          auth = \<lparr>au_username = (if \<not> given username \<and> given (sp_username sp) then sp_username sp else username),
                  au_password = env_value loc env (sp_pass_env sp),
                  au_console_unlock = env_value loc env (sp_console_unlock_env sp)\<rparr>
      in (auth, auth_reason_of file sp auth))"

section \<open>Errors of a probe\<close>

definition RX_FLOOD_BYTES_PER_10S :: nat where "RX_FLOOD_BYTES_PER_10S = 20000"
definition TRANSPORT_STALL_MIN_RX_AGE_S :: seconds where "TRANSPORT_STALL_MIN_RX_AGE_S = 30"
definition BOOT_BANNER_PATTERNS :: "string list" where
  "BOOT_BANNER_PATTERNS = [''U-Boot'', ''Hit any key to stop autoboot'', ''CFE version '']"

definition FLOOD_MASKABLE_ERRORS :: "string list" where
  "FLOOD_MASKABLE_ERRORS = [''PROMPT_UNAVAILABLE'', ''READY_NONCE_TIMEOUT'', ''READY_PROMPT_TIMEOUT'', ''POST_LOGIN_CMD_TIMEOUT'', ''LOGIN_PROMPT_TIMEOUT'']"

definition flood_maskable :: "string \<Rightarrow> bool" where
  "flood_maskable err \<longleftrightarrow> err \<in> set FLOOD_MASKABLE_ERRORS \<or> ends_with ''_PROMPT_TIMEOUT'' err"

definition maybe_reclassify_flood :: "string \<Rightarrow> string bm" where
  "maybe_reclassify_flood err =
     (if \<not> flood_maskable err then State_Monad.return (Inr err)
      else and_then read_rx_bytes (\<lambda>n. State_Monad.return (Inr (if RX_FLOOD_BYTES_PER_10S \<le> n then ''RX_FLOOD'' else err))))"

definition detect_boot_banner :: "string \<Rightarrow> bool" where
  "detect_boot_banner text \<longleftrightarrow> text \<noteq> [] \<and> list_ex (\<lambda>p. py_contains p text) BOOT_BANNER_PATTERNS"

definition is_transport_refinable_error :: "string \<Rightarrow> bool" where
  "is_transport_refinable_error err \<longleftrightarrow> err = ''PROMPT_UNAVAILABLE'' \<or> err = ''LOGIN_PROMPT_TIMEOUT'' \<or> ends_with ''_PROMPT_TIMEOUT'' err"

definition classify_probe_failure :: "string \<Rightarrow> int \<Rightarrow> seconds \<Rightarrow> seconds \<Rightarrow> string \<times> bool" where
  "classify_probe_failure err rx_delta last_rx_mono now =
     (if err = [] \<or> \<not> is_transport_refinable_error err then (err, False)
      else if rx_delta \<noteq> 0 then (err, False)
      else if last_rx_mono \<le> 0 then (err, False)
      else if now - last_rx_mono < TRANSPORT_STALL_MIN_RX_AGE_S then (err, False)
      else (''TRANSPORT_STALL'', True))"

section \<open>Logging in\<close>

type_synonym regexes = "string \<Rightarrow> (string \<Rightarrow> bool) option"
type_synonym ready = "bool \<times> string option"

abbreviation done_with :: "'a \<Rightarrow> 'a bm" where
  "done_with x \<equiv> State_Monad.return (Inr x)"

definition wait_or_fail :: "regexes \<Rightarrow> string \<Rightarrow> seconds \<Rightarrow> string \<Rightarrow> ready bm" where
  "wait_or_fail re pattern timeout_s err =
     and_then (wait_for_regex re pattern timeout_s) (\<lambda>ok. done_with (if ok then (True, None) else (False, Some err)))"

definition resolve_login_user :: "(string, string) dict \<Rightarrow> profile \<Rightarrow> session_auth option \<Rightarrow> string option \<times> string option" where
  "resolve_login_user env sp auth =
     (if (case auth of None \<Rightarrow> False | Some a \<Rightarrow> given (au_username a)) then (au_username (the auth), None)
      else if given (sp_user_env sp) then
        (let user = dict_get env (the (sp_user_env sp)) in if given user then (user, None) else (None, Some ''USER_ENV_MISSING''))
      else if given (sp_username sp) then (sp_username sp, None)
      else (None, None))"

definition resolve_login_password :: "(string, string) dict \<Rightarrow> profile \<Rightarrow> session_auth option \<Rightarrow> string + string" where
  "resolve_login_password env sp auth =
     (if (case auth of None \<Rightarrow> False | Some a \<Rightarrow> given (au_password a)) then Inr (the (au_password (the auth)))
      else if \<not> given (sp_pass_env sp) then Inl ''PASS_ENV_REQUIRED''
      else let password = dict_get env (the (sp_pass_env sp)) in
        if given password then Inr (the password) else Inl ''PASS_ENV_MISSING'')"

definition prompt_timeout_error :: "profile \<Rightarrow> string" where
  "prompt_timeout_error sp =
     (if sp_platform sp = ''bcm'' then ''BCM_PROMPT_TIMEOUT'' else if sp_platform sp = ''shell'' then ''SHELL_PROMPT_TIMEOUT'' else ''PRPL_PROMPT_TIMEOUT'')"

definition matches_login_or_password :: "regexes \<Rightarrow> string \<Rightarrow> profile \<Rightarrow> bool" where
  "matches_login_or_password re text sp \<longleftrightarrow> text \<noteq> [] \<and>
     list_ex (\<lambda>p. p \<noteq> [] \<and> (case re p of None \<Rightarrow> False | Some hit \<Rightarrow> hit (clean_text text) \<or> hit text)) [sp_login_regex sp, sp_password_regex sp]"

definition probe_prompt :: "regexes \<Rightarrow> profile \<Rightarrow> bool bm" where
  "probe_prompt re sp = and_then bridge_clear (\<lambda>_. and_then (send_command []) (\<lambda>_. wait_for_regex re (sp_prompt_regex sp) (sp_timeout_s sp)))"

definition classify_non_ready_state :: "regexes \<Rightarrow> profile \<Rightarrow> string bm" where
  "classify_non_ready_state re sp = and_then read_tail (\<lambda>snapshot.
     done_with (if matches_login_or_password re snapshot sp then ''LOGIN_REQUIRED'' else ''PROMPT_UNAVAILABLE''))"

text \<open>After a wait that failed: \<open>LOGIN_REQUIRED\<close> when the console shows a login prompt, else the error of the wait.\<close>

definition login_or_error :: "regexes \<Rightarrow> profile \<Rightarrow> ready \<Rightarrow> ready bm" where
  "login_or_error re sp failed = and_then read_tail (\<lambda>t.
     done_with (if matches_login_or_password re t sp then (False, Some ''LOGIN_REQUIRED'') else failed))"

function py_replace :: "string \<Rightarrow> string \<Rightarrow> string \<Rightarrow> string" where
  "py_replace old new [] = []"
| "py_replace old new (c # s) =
     (if old \<noteq> [] \<and> starts_with old (c # s) then new @ py_replace old new (drop (length old) (c # s)) else c # py_replace old new s)"
  by pat_completeness auto
termination by (relation "measure (\<lambda>(_, _, s). length s)") auto

definition re_escape :: "string \<Rightarrow> string" where
  "re_escape s = concat (map (\<lambda>c. if (of_char c :: nat) \<in> {9, 10, 11, 12, 13, 32, 35, 36, 38, 40, 41, 42, 43, 45, 46, 63, 91, 92, 93, 94, 123, 124, 125, 126}
     then [CHR 0x5C, c] else [c]) s)"

definition default_probe :: string where
  "default_probe = ''echo __READY__'' @ [CHR 0x24] @ ''{nonce}''"

definition ready_probe_text :: "profile \<Rightarrow> string \<Rightarrow> string" where
  "ready_probe_text sp nonce = py_replace ([CHR 0x24] @ ''{nonce}'') nonce (sp_ready_probe sp)"

definition nonce_pattern :: "profile \<Rightarrow> string \<Rightarrow> string" where
  "nonce_pattern sp nonce =
     (if given (sp_console_unlock_env sp) \<and> sp_ready_probe sp = default_probe
      then ''(?m)^__READY__'' @ re_escape nonce @ [CHR 0x5C] @ ''r?$'' else nonce)"

text \<open>The part of \<open>_finalize_ready\<close> for \<open>post_login_cmd\<close>; \<open>None\<close> when it goes on.\<close>

definition post_login :: "regexes \<Rightarrow> profile \<Rightarrow> ready option bm" where
  "post_login re sp =
     (if sp_post_login_cmd sp = [] then done_with None
      else and_then read_tail (\<lambda>t.
        if matches_login_or_password re t sp then done_with (Some (False, Some ''LOGIN_REQUIRED''))
        else and_then (send_command (sp_post_login_cmd sp)) (\<lambda>_.
          and_then (wait_or_fail re (sp_prompt_regex sp) (sp_timeout_s sp) ''POST_LOGIN_CMD_TIMEOUT'') (\<lambda>r.
            if fst r then done_with None else and_then (login_or_error re sp r) (\<lambda>r. done_with (Some r))))))"

definition ready_nonce :: "regexes \<Rightarrow> profile \<Rightarrow> string \<Rightarrow> ready bm" where
  "ready_nonce re sp nonce =
     and_then (if given (sp_console_unlock_env sp) then bridge_clear else done_with ()) (\<lambda>_.
     and_then (send_command (ready_probe_text sp nonce)) (\<lambda>_.
     and_then (wait_or_fail re (nonce_pattern sp nonce) (sp_timeout_s sp) ''READY_NONCE_TIMEOUT'') (\<lambda>r.
       if \<not> fst r then login_or_error re sp r
       else wait_or_fail re (sp_prompt_regex sp) (sp_timeout_s sp) ''READY_PROMPT_TIMEOUT'')))"

definition finalize_ready :: "regexes \<Rightarrow> profile \<Rightarrow> string \<Rightarrow> ready bm" where
  "finalize_ready re sp nonce = and_then (post_login re sp) (\<lambda>r. case r of Some res \<Rightarrow> done_with res | None \<Rightarrow> ready_nonce re sp nonce)"

definition login_password :: "regexes \<Rightarrow> (string, string) dict \<Rightarrow> profile \<Rightarrow> session_auth option \<Rightarrow> ready bm" where
  "login_password re env sp auth = (case resolve_login_password env sp auth of
     Inl err \<Rightarrow> done_with (False, Some err)
   | Inr password \<Rightarrow> and_then (send_secret password) (\<lambda>_.
       and_then (wait_or_fail re (sp_prompt_regex sp) (sp_timeout_s sp) (prompt_timeout_error sp)) (\<lambda>r.
         and_then bridge_clear (\<lambda>_. done_with r))))"

definition maybe_login :: "regexes \<Rightarrow> (string, string) dict \<Rightarrow> profile \<Rightarrow> session_auth option \<Rightarrow> ready bm" where
  "maybe_login re env sp auth = (let user = fst (resolve_login_user env sp auth) in
     if \<not> (given user \<or> given (sp_pass_env sp)) then done_with (False, None)
     else and_then (wait_or_fail re (sp_login_regex sp) (sp_timeout_s sp) ''LOGIN_PROMPT_TIMEOUT'') (\<lambda>r.
       if \<not> fst r then done_with r
       else if \<not> given user then done_with (False, Some ''LOGIN_USER_REQUIRED'')
       else and_then (send_command (the user)) (\<lambda>_.
         and_then (wait_for_regex re (sp_password_regex sp) (sp_timeout_s sp)) (\<lambda>asked.
           if asked then login_password re env sp auth
           else wait_or_fail re (sp_prompt_regex sp) (sp_timeout_s sp) (prompt_timeout_error sp)))))"

definition fail_with :: "string \<Rightarrow> ready bm" where
  "fail_with err = and_then (maybe_reclassify_flood err) (\<lambda>e. done_with (False, Some e))"

text \<open>The end shared by \<open>probe_ready\<close> and \<open>ensure_ready\<close>.\<close>

definition finish_ready :: "regexes \<Rightarrow> profile \<Rightarrow> string \<Rightarrow> ready bm" where
  "finish_ready re sp nonce = and_then (finalize_ready re sp nonce) (\<lambda>r.
     case r of (True, e) \<Rightarrow> done_with (True, e) | (False, None) \<Rightarrow> done_with (False, None) | (False, Some e) \<Rightarrow> fail_with e)"

definition probe_ready :: "regexes \<Rightarrow> profile \<Rightarrow> string \<Rightarrow> ready bm" where
  "probe_ready re sp nonce = and_then (probe_prompt re sp) (\<lambda>ok.
     if \<not> ok then and_then (classify_non_ready_state re sp) fail_with else finish_ready re sp nonce)"

section \<open>Hidden console locks\<close>

definition re_search :: "regexes \<Rightarrow> string \<Rightarrow> string \<Rightarrow> bool bm" where
  "re_search re pattern text = State_Monad.return (case re pattern of None \<Rightarrow> Inl Re_error | Some hit \<Rightarrow> Inr (hit text))"

definition rstrip_newlines :: "string \<Rightarrow> string" where
  "rstrip_newlines s = rev (dropWhile (\<lambda>c. c = CHR 0x0D \<or> c = CHR 0x0A) (rev s))"

definition tail_line :: "string \<Rightarrow> string" where
  "tail_line tail = py_rsplit_last (CHR 0x0A) (rstrip_newlines (clean_text tail))"

definition console_tail_line :: "string bm" where
  "console_tail_line = and_then read_tail (\<lambda>t. done_with (tail_line t))"

text \<open>\<open>any(re.search(p, text) for p in patterns)\<close>, which raises at a bad pattern before the first hit.\<close>

fun any_search :: "regexes \<Rightarrow> string list \<Rightarrow> string \<Rightarrow> bridge_exn + bool" where
  "any_search re [] text = Inr False"
| "any_search re (p # ps) text = (case re p of None \<Rightarrow> Inl Re_error | Some hit \<Rightarrow> if hit text then Inr True else any_search re ps text)"

definition console_at_bootloader :: "regexes \<Rightarrow> profile \<Rightarrow> bool bm" where
  "console_at_bootloader re sp = and_then console_tail_line (\<lambda>l. State_Monad.return (any_search re (sp_bootloader_prompts sp) l))"

text \<open>The loop of \<open>_wait_console_idle\<close>; every round sleeps at least a millisecond.\<close>

function idle_loop :: "seconds \<Rightarrow> seconds \<Rightarrow> seconds \<Rightarrow> bridge \<Rightarrow> bool \<times> bridge" where
  "idle_loop start deadline idle_s b =
     (let b1 = others b in
      if bw_now b1 < deadline then
        let b2 = others b1;
            waited = (idle_s \<le> bw_now b2 - start);
            b3 = (if waited then others b2 else b2)
        in if waited \<and> idle_s \<le> rx_idle_s (bw_now b3) (bw_rx b3) then (True, b3)
           else let b4 = others b3 in
             idle_loop start deadline idle_s (sleep (min (1 / 20) (max (1 / 1000) (deadline - bw_now b4))) b4)
      else (False, b1))"
  by pat_completeness auto
termination
proof (relation "measure (\<lambda>(_, d, _, b). nat \<lceil>1000 * (d - bw_now b)\<rceil>)")
  fix start deadline idle_s and b b1 b2 b3 b4 :: bridge and waited
  assume b: "b1 = others b" "bw_now b1 < deadline" "b2 = others b1" "b3 = (if waited then others b2 else b2)" "b4 = others b3"
  let ?d = "min (1 / 20) (max (1 / 1000) (deadline - bw_now b4))"
  have "bw_now b2 \<le> bw_now b3" using others_now [of b2] by (simp add: b(4))
  then have "bw_now b + ?d \<le> bw_now (sleep ?d b4)"
    using others_now [of b, folded b(1)] others_now [of b1, folded b(3)] others_now [of b3, folded b(5)] sleep_now [of b4 ?d] by linarith
  moreover have "1 / 1000 \<le> ?d" by simp
  ultimately have "bw_now b + 1 / 1000 \<le> bw_now (sleep ?d b4)" by linarith
  then show "((start, deadline, idle_s, sleep ?d b4), start, deadline, idle_s, b) \<in> measure (\<lambda>(_, d, _, b). nat \<lceil>1000 * (d - bw_now b)\<rceil>)"
    using steps_left [of "bw_now b" deadline 1000 "bw_now (sleep ?d b4)"] b(2) others_now [of b, folded b(1)]
    by (simp only: in_measure case_prod_conv)
qed simp

declare idle_loop.simps [simp del]

definition wait_console_idle :: "profile \<Rightarrow> seconds \<Rightarrow> bool bm" where
  "wait_console_idle sp deadline = State (\<lambda>b.
     case idle_loop (bw_now (others b)) deadline (sp_console_unlock_idle_s sp) (others b) of (r, b') \<Rightarrow> (Inr r, b'))"

definition blank_probe :: "regexes \<Rightarrow> profile \<Rightarrow> seconds \<Rightarrow> bool bm" where
  "blank_probe re sp deadline =
     and_then bridge_clear (\<lambda>_. and_then (send_command []) (\<lambda>_. and_then monotonic (\<lambda>now.
       wait_for_regex re (sp_prompt_regex sp) (min 1 (max 0 (deadline - now))))))"

text \<open>The silence and the bootloader check, done twice; \<open>None\<close> when both are passed.\<close>

definition quiet_console :: "regexes \<Rightarrow> profile \<Rightarrow> seconds \<Rightarrow> ready option bm" where
  "quiet_console re sp deadline = and_then (wait_console_idle sp deadline) (\<lambda>idle.
     if \<not> idle then done_with (Some (False, Some ''CONSOLE_UNLOCK_IDLE_TIMEOUT''))
     else and_then (console_at_bootloader re sp) (\<lambda>boot.
       done_with (if boot then Some (False, Some ''CONSOLE_UNLOCK_BOOTLOADER'') else None)))"

definition unlock_send :: "regexes \<Rightarrow> profile \<Rightarrow> string \<Rightarrow> string \<Rightarrow> ready bm" where
  "unlock_send re sp secret nonce =
     and_then bridge_clear (\<lambda>_. and_then (send_secret secret) (\<lambda>_.
     and_then (wait_for_regex re (sp_prompt_regex sp) (sp_timeout_s sp)) (\<lambda>ok.
       if ok then finalize_ready re sp nonce else done_with (False, Some ''CONSOLE_UNLOCK_PROMPT_TIMEOUT''))))"

definition unlock_attempt :: "regexes \<Rightarrow> profile \<Rightarrow> string \<Rightarrow> string \<Rightarrow> seconds \<Rightarrow> ready bm" where
  "unlock_attempt re sp secret nonce deadline =
     and_then (quiet_console re sp deadline) (\<lambda>q. case q of Some r \<Rightarrow> done_with r
     | None \<Rightarrow> and_then (read_text 0) (\<lambda>x. and_then (re_search re (sp_prompt_regex sp) (clean_text x)) (\<lambda>prompt.
         if prompt then finalize_ready re sp nonce
         else and_then read_idle (\<lambda>idle.
           if idle < sp_console_unlock_idle_s sp then done_with (False, Some ''CONSOLE_UNLOCK_IDLE_TIMEOUT'')
           else unlock_send re sp secret nonce))))"

definition ensure_console_unlocked :: "regexes \<Rightarrow> profile \<Rightarrow> session_auth option \<Rightarrow> string \<Rightarrow> ready bm" where
  "ensure_console_unlocked re sp auth nonce = (let secret = (case auth of None \<Rightarrow> None | Some a \<Rightarrow> au_console_unlock a) in
     if \<not> given secret then done_with (False, Some ''CREDENTIALS_UNRESOLVED'')
     else and_then monotonic (\<lambda>t0. let deadline = t0 + sp_timeout_s sp in
       and_then (quiet_console re sp deadline) (\<lambda>q. case q of Some r \<Rightarrow> done_with r
       | None \<Rightarrow> and_then console_tail_line (\<lambda>l. and_then (re_search re (sp_prompt_regex sp) l) (\<lambda>prompt.
           and_then (if prompt then done_with True else blank_probe re sp deadline) (\<lambda>prompt.
             if prompt then finalize_ready re sp nonce else unlock_attempt re sp (the secret) nonce deadline))))))"

definition ensure_ready :: "regexes \<Rightarrow> (string, string) dict \<Rightarrow> profile \<Rightarrow> session_auth option \<Rightarrow> string \<Rightarrow> ready bm" where
  "ensure_ready re env sp auth nonce =
     (if given (sp_console_unlock_env sp) then ensure_console_unlocked re sp auth nonce
      else and_then (probe_prompt re sp) (\<lambda>ok.
        if ok then finish_ready re sp nonce
        else and_then (maybe_login re env sp auth) (\<lambda>r. case r of
            (ok, Some e) \<Rightarrow> and_then (maybe_reclassify_flood e) (\<lambda>e. done_with (ok, Some e))
          | (True, None) \<Rightarrow> finish_ready re sp nonce
          | (False, None) \<Rightarrow> fail_with (prompt_timeout_error sp))))"

section \<open>Detecting a template\<close>

text \<open>The loop of \<open>detect_template\<close>, on templates with their names.\<close>

fun detect_loop :: "regexes \<Rightarrow> string \<Rightarrow> (string \<times> profile) option \<Rightarrow> (string \<times> profile) list \<Rightarrow> (string \<times> profile) option" where
  "detect_loop re snapshot cand [] = cand"
| "detect_loop re snapshot cand (t # ts) =
     (if sp_platform (snd t) = ''passthrough'' \<or> given (sp_console_unlock_env (snd t)) then detect_loop re snapshot cand ts
      else case re (sp_prompt_regex (snd t)) of
        None \<Rightarrow> detect_loop re snapshot cand ts
      | Some hit \<Rightarrow>
          if hit snapshot then Some t
          else detect_loop re snapshot
            (if cand = None \<and> (case re (sp_login_regex (snd t)) of None \<Rightarrow> False | Some h \<Rightarrow> h snapshot) then Some t else cand) ts)"

definition bridge_sleep :: "seconds \<Rightarrow> unit bm" where
  "bridge_sleep d = State (\<lambda>b. (Inr (), sleep d b))"

definition detect_template :: "regexes \<Rightarrow> (string \<times> profile) list \<Rightarrow> seconds \<Rightarrow> (string \<times> profile) option bm" where
  "detect_template re templates probe_timeout_s =
     and_then bridge_clear (\<lambda>_. and_then (send_command []) (\<lambda>_. and_then (bridge_sleep probe_timeout_s) (\<lambda>_.
     and_then read_tail (\<lambda>snapshot. done_with (detect_loop re snapshot None templates)))))"

end
