(* ===== verification/Login_Guards.thy ===== *)
theory Login_Guards
  imports Login
begin

text \<open>
  What the login code may send and when (\<open>allowed\<close>), and that it keeps to it in every run, whatever the device answers, whatever the
  other threads do between two calls and whichever call raises.
\<close>

section \<open>What may be sent\<close>

definition just_saw :: "bridge_event list \<Rightarrow> bridge_event list \<Rightarrow> bool" where
  "just_saw es h \<longleftrightarrow> (\<exists>h'. h = h' @ es)"

lemma just_saw_tail [simp]: "length es \<le> length l \<Longrightarrow> just_saw es (h @ l) \<longleftrightarrow> drop (length l - length es) l = es"
  unfolding just_saw_def
proof
  assume l: "length es \<le> length l" and "\<exists>h'. h @ l = h' @ es"
  then obtain h' where e: "h @ l = h' @ es" by blast
  then have "drop (length (h @ l) - length es) (h @ l) = es" by simp
  moreover have "length h \<le> length (h @ l) - length es" using l by simp
  ultimately show "drop (length l - length es) l = es" using l by simp
next
  assume "drop (length l - length es) l = es"
  then have "h @ l = (h @ take (length l - length es) l) @ es" by (metis append.assoc append_take_drop_id)
  then show "\<exists>h'. h @ l = h' @ es" by blast
qed

text \<open>
  A line: a blank one, the user name right after the login prompt, the ready probe, or the command after login right after the end
  of the received text was seen not to be a login prompt. A secret: the password, right after the password prompt; or the console secret, when the
  last line is no bootloader prompt, nothing received since the blank probe is a command prompt, and the line has been silent as long
  as the profile demands.
\<close>

fun allowed :: "regexes \<Rightarrow> (string, string) dict \<Rightarrow> profile \<Rightarrow> session_auth option \<Rightarrow> string \<Rightarrow> bridge_event list \<Rightarrow> bridge_event \<Rightarrow> bool" where
  "allowed re env sp auth nonce h (Ev_send c) \<longleftrightarrow>
     c = [] \<or> c = ready_probe_text sp nonce \<or>
     fst (resolve_login_user env sp auth) = Some c \<and> just_saw [Ev_wait (sp_login_regex sp) True] h \<or>
     c = sp_post_login_cmd sp \<and> (\<exists>t. \<not> matches_login_or_password re t sp \<and> just_saw [Ev_tail t] h)"
| "allowed re env sp auth nonce h (Ev_secret s) \<longleftrightarrow>
     (if given (sp_console_unlock_env sp)
      then au_console_unlock (the auth) = Some s \<and>
        (\<exists>t x i. any_search re (sp_bootloader_prompts sp) (tail_line t) = Inr False \<and>
           (case re (sp_prompt_regex sp) of None \<Rightarrow> False | Some hit \<Rightarrow> \<not> hit (clean_text x)) \<and>
           sp_console_unlock_idle_s sp \<le> i \<and> just_saw [Ev_tail t, Ev_text x, Ev_idle i, Ev_clear] h)
      else resolve_login_password env sp auth = Inr s \<and> just_saw [Ev_wait (sp_password_regex sp) True] h)"
| "allowed re env sp auth nonce h _ \<longleftrightarrow> True"

text \<open>A console is ready when a fresh nonce was sent, found in the received text, and then the prompt was found.\<close>

definition proved :: "profile \<Rightarrow> string \<Rightarrow> bridge_exn + ready \<Rightarrow> bridge_event list \<Rightarrow> bool" where
  "proved sp nonce r h \<longleftrightarrow> (\<forall>e. r = Inr (True, e) \<longrightarrow> e = None \<and>
     just_saw [Ev_send (ready_probe_text sp nonce), Ev_wait (nonce_pattern sp nonce) True, Ev_wait (sp_prompt_regex sp) True] h)"

lemma proved_simps [simp]: "proved sp nonce (Inl x) h" "proved sp nonce (Inr (False, e)) h"
    "proved sp nonce (Inr (True, e)) h \<longleftrightarrow> e = None \<and>
       just_saw [Ev_send (ready_probe_text sp nonce), Ev_wait (nonce_pattern sp nonce) True, Ev_wait (sp_prompt_regex sp) True] h"
  by (auto simp: proved_def)

section \<open>Every part keeps to it\<close>

lemmas bridge_defs = send_command_def send_secret_def read_tail_def read_text_def read_idle_def read_rx_bytes_def monotonic_def
  wait_or_fail_def

lemma safe_wait_or_fail [safe_rules]:
  "D (Inl Re_error) h \<Longrightarrow> ok h (Ev_wait p True) \<Longrightarrow> ok h (Ev_wait p False) \<Longrightarrow> D (Inr (True, None)) (h @ [Ev_wait p True]) \<Longrightarrow>
   D (Inr (False, Some err)) (h @ [Ev_wait p False]) \<Longrightarrow> safe ok (wait_or_fail re p t err) D h"
  unfolding wait_or_fail_def by (rule safe_then, rule safe_wait) (auto intro!: safe_return)

lemma safe_tail [safe_rules]: "(\<And>t. ok h (Ev_tail t) \<and> D (Inr t) (h @ [Ev_tail t])) \<Longrightarrow> safe ok read_tail D h"
  unfolding read_tail_def by (rule safe_read) auto

lemma safe_send [safe_rules]: "D (Inl Send_error) h \<Longrightarrow> ok h (Ev_send c) \<Longrightarrow> D (Inr ()) (h @ [Ev_send c]) \<Longrightarrow> safe ok (send_command c) D h"
  unfolding send_command_def by (rule safe_tx)

lemma safe_login_or_error [safe_rules]:
  "(\<And>t. ok h (Ev_tail t)) \<Longrightarrow> (\<And>t. D (Inr failed) (h @ [Ev_tail t])) \<Longrightarrow> (\<And>t. D (Inr (False, Some ''LOGIN_REQUIRED'')) (h @ [Ev_tail t])) \<Longrightarrow>
   safe ok (login_or_error re sp failed) D h"
  unfolding login_or_error_def by (rule safe_then, rule safe_tail) (auto intro!: safe_return)

lemma safe_post_login: "safe (allowed re env sp auth nonce) (post_login re sp) (\<lambda>r h. \<forall>x. r = Inr (Some x) \<longrightarrow> \<not> fst x) h"
  unfolding post_login_def by (auto intro!: safe_rules)

lemma safe_ready_nonce: "safe (allowed re env sp auth nonce) (ready_nonce re sp nonce) (proved sp nonce) h"
  unfolding ready_nonce_def by (auto intro!: safe_rules)

lemma safe_finalize: "safe (allowed re env sp auth nonce) (finalize_ready re sp nonce) (proved sp nonce) h"
  unfolding finalize_ready_def
proof (rule safe_then, rule safe_mono [OF safe_post_login])
  fix r :: "bridge_exn + ready option" and h' assume r: "\<forall>x. r = Inr (Some x) \<longrightarrow> \<not> fst x"
  show "case r of Inl e \<Rightarrow> proved sp nonce (Inl e) h'
    | Inr x \<Rightarrow> safe (allowed re env sp auth nonce) (case x of None \<Rightarrow> ready_nonce re sp nonce | Some res \<Rightarrow> done_with res) (proved sp nonce) h'"
  proof (cases r)
    case (Inr x)
    then show ?thesis using r by (cases x) (auto intro!: safe_return safe_ready_nonce)
  qed simp
qed

lemma safe_reclassify: "(\<And>e. D (Inr e) h) \<Longrightarrow> safe ok (maybe_reclassify_flood err) D h"
  unfolding maybe_reclassify_flood_def read_rx_bytes_def by (auto intro!: safe_rules)

lemma safe_fail: "safe ok (fail_with err) (proved sp nonce) h"
  unfolding fail_with_def by (auto intro!: safe_then safe_reclassify safe_return)

lemma safe_finish: "safe (allowed re env sp auth nonce) (finish_ready re sp nonce) (proved sp nonce) h"
  unfolding finish_ready_def
proof (rule safe_then, rule safe_mono [OF safe_finalize])
  fix r :: "bridge_exn + ready" and h' assume r: "proved sp nonce r h'"
  show "case r of Inl e \<Rightarrow> proved sp nonce (Inl e) h'
    | Inr x \<Rightarrow> safe (allowed re env sp auth nonce) (case x of (True, e) \<Rightarrow> done_with (True, e) | (False, None) \<Rightarrow> done_with (False, None)
        | (False, Some e) \<Rightarrow> fail_with e) (proved sp nonce) h'"
  proof (cases r)
    case (Inr x)
    obtain k e where "x = (k, e)" by force
    then show ?thesis using r Inr by (cases k; cases e) (auto intro!: safe_return safe_fail)
  qed simp
qed

lemma safe_login_password:
  "\<not> given (sp_console_unlock_env sp) \<Longrightarrow> just_saw [Ev_wait (sp_password_regex sp) True] h \<Longrightarrow>
   safe (allowed re env sp auth nonce) (login_password re env sp auth) (\<lambda>r h. \<forall>e. r \<noteq> Inr (True, Some e)) h"
  unfolding login_password_def send_secret_def by (auto intro!: safe_rules split: sum.split)

lemma safe_maybe_login:
  "\<not> given (sp_console_unlock_env sp) \<Longrightarrow> safe (allowed re env sp auth nonce) (maybe_login re env sp auth) (\<lambda>r h. \<forall>e. r \<noteq> Inr (True, Some e)) h"
  unfolding maybe_login_def Let_def
  by (auto intro!: safe_rules safe_login_password simp: given_def)

lemma safe_probe_prompt: "(\<And>r h'. D r h') \<Longrightarrow> safe (allowed re env sp auth nonce) (probe_prompt re sp) D h"
  unfolding probe_prompt_def by (auto intro!: safe_rules split: sum.split)

lemma idle_loop_log: "idle_loop start deadline idle_s b = (r, b') \<Longrightarrow> bw_log b' = bw_log b"
proof (induction start deadline idle_s b rule: idle_loop.induct)
  case (1 start deadline idle_s b)
  let ?b2 = "others (others b)"
  let ?w = "idle_s \<le> bw_now ?b2 - start"
  let ?b3 = "if ?w then others ?b2 else ?b2"
  let ?b4 = "others ?b3"
  show ?case
  proof (cases "bw_now (others b) < deadline \<and> \<not> (?w \<and> idle_s \<le> rx_idle_s (bw_now ?b3) (bw_rx ?b3))")
    case True
    then have "idle_loop start deadline idle_s (sleep (min (1 / 20) (max (1 / 1000) (deadline - bw_now ?b4))) ?b4) = (r, b')"
      using "1.prems" by (subst (asm) idle_loop.simps) (simp only: Let_def if_True if_False simp_thms)
    from "1.IH" [OF refl _ refl refl refl _ refl this] True show ?thesis by auto
  next
    case False
    then show ?thesis using "1.prems" by (subst (asm) idle_loop.simps) (auto simp: Let_def split: if_splits)
  qed
qed

lemma safe_idle [safe_rules]: "(\<And>v. D (Inr v) h) \<Longrightarrow> safe ok (wait_console_idle sp deadline) D h"
  using idle_loop_log by (auto simp: safe_def wp_def wait_console_idle_def split: prod.split)

lemma safe_search [safe_rules]:
  "(re p = None \<Longrightarrow> D (Inl Re_error) h) \<Longrightarrow> (\<And>hit. re p = Some hit \<Longrightarrow> D (Inr (hit text)) h) \<Longrightarrow> safe ok (re_search re p text) D h"
  unfolding re_search_def by (auto intro!: safe_return split: option.split)

lemma safe_tail_line [safe_rules]:
  "(\<And>t. ok h (Ev_tail t) \<and> D (Inr (tail_line t)) (h @ [Ev_tail t])) \<Longrightarrow> safe ok console_tail_line D h"
  unfolding console_tail_line_def by (rule safe_then, rule safe_tail) (auto intro!: safe_return)

text \<open>A quiet console: the last thing read is a last line that is no bootloader prompt.\<close>

definition no_bootloader :: "regexes \<Rightarrow> profile \<Rightarrow> bridge_event list \<Rightarrow> bool" where
  "no_bootloader re sp h \<longleftrightarrow> (\<exists>t h'. any_search re (sp_bootloader_prompts sp) (tail_line t) = Inr False \<and> h = h' @ [Ev_tail t])"

lemma safe_quiet: "safe (allowed re env sp auth nonce) (quiet_console re sp deadline)
    (\<lambda>r h. (r = Inr None \<longrightarrow> no_bootloader re sp h) \<and> (\<forall>x. r = Inr (Some x) \<longrightarrow> \<not> fst x)) h"
proof -
  have boot: "safe (allowed re env sp auth nonce) (console_at_bootloader re sp) (\<lambda>r h. r = Inr False \<longrightarrow> no_bootloader re sp h) h" for h
    unfolding console_at_bootloader_def by (auto intro!: safe_then safe_tail_line safe_return simp: no_bootloader_def)
  show ?thesis unfolding quiet_console_def
  proof (rule safe_then, rule safe_idle)
    fix v
    show "case Inr v of Inl e \<Rightarrow> ((Inl e :: bridge_exn + ready option) = Inr None \<longrightarrow> no_bootloader re sp h) \<and> (\<forall>x. (Inl e :: bridge_exn + ready option) = Inr (Some x) \<longrightarrow> \<not> fst x)
      | Inr x \<Rightarrow> safe (allowed re env sp auth nonce) (if \<not> x then done_with (Some (False, Some ''CONSOLE_UNLOCK_IDLE_TIMEOUT''))
          else and_then (console_at_bootloader re sp) (\<lambda>boot. done_with (if boot then Some (False, Some ''CONSOLE_UNLOCK_BOOTLOADER'') else None)))
          (\<lambda>r h. (r = Inr None \<longrightarrow> no_bootloader re sp h) \<and> (\<forall>x. r = Inr (Some x) \<longrightarrow> \<not> fst x)) h"
      by (auto intro!: safe_return safe_then safe_mono [OF boot] split: sum.split)
  qed
qed

lemma safe_unlock_send:
  assumes "given (sp_console_unlock_env sp)" "allowed re env sp auth nonce (h @ [Ev_clear]) (Ev_secret secret)"
  shows "safe (allowed re env sp auth nonce) (unlock_send re sp secret nonce) (proved sp nonce) h"
  unfolding unlock_send_def send_secret_def
  using assms by (auto intro!: safe_rules safe_finalize simp del: allowed.simps(2))

lemma safe_unlock_attempt:
  assumes "given (sp_console_unlock_env sp)" "au_console_unlock (the auth) = Some secret"
  shows "safe (allowed re env sp auth nonce) (unlock_attempt re sp secret nonce deadline) (proved sp nonce) h"
  unfolding unlock_attempt_def
proof (rule safe_then, rule safe_mono [OF safe_quiet])
  fix r :: "bridge_exn + ready option" and h'
  let ?rest = "and_then (read_text 0) (\<lambda>x. and_then (re_search re (sp_prompt_regex sp) (clean_text x)) (\<lambda>prompt.
         if prompt then finalize_ready re sp nonce
         else and_then read_idle (\<lambda>idle.
           if idle < sp_console_unlock_idle_s sp then done_with (False, Some ''CONSOLE_UNLOCK_IDLE_TIMEOUT'')
           else unlock_send re sp secret nonce)))"
  assume r: "(r = Inr None \<longrightarrow> no_bootloader re sp h') \<and> (\<forall>x. r = Inr (Some x) \<longrightarrow> \<not> fst x)"
  have rest: "safe (allowed re env sp auth nonce) ?rest (proved sp nonce) h'" if nb: "no_bootloader re sp h'"
  proof -
    obtain t g where t: "any_search re (sp_bootloader_prompts sp) (tail_line t) = Inr False" "h' = g @ [Ev_tail t]"
      using nb unfolding no_bootloader_def by blast
    have send: "safe (allowed re env sp auth nonce) (unlock_send re sp secret nonce) (proved sp nonce) (g @ [Ev_tail t, Ev_text x, Ev_idle i])"
      if "case re (sp_prompt_regex sp) of None \<Rightarrow> False | Some hit \<Rightarrow> \<not> hit (clean_text x)" "\<not> i < sp_console_unlock_idle_s sp" for x i
      by (rule safe_unlock_send) (use assms t that in auto)
    show ?thesis unfolding read_text_def read_idle_def t(2)
      by (auto intro!: safe_then safe_read safe_search safe_return safe_finalize send)
  qed
  show "case r of Inl e \<Rightarrow> proved sp nonce (Inl e) h'
    | Inr x \<Rightarrow> safe (allowed re env sp auth nonce) (case x of None \<Rightarrow> ?rest | Some r \<Rightarrow> done_with r) (proved sp nonce) h'"
  proof (cases r)
    case (Inr x)
    then show ?thesis using r rest by (cases x) (auto intro!: safe_return)
  qed simp
qed

lemma safe_blank_probe: "(\<And>r h'. D r h') \<Longrightarrow> safe (allowed re env sp auth nonce) (blank_probe re sp deadline) D h"
  unfolding blank_probe_def monotonic_def by (auto intro!: safe_rules split: sum.split)

lemma safe_unlocked:
  assumes u: "given (sp_console_unlock_env sp)"
  shows "safe (allowed re env sp auth nonce) (ensure_console_unlocked re sp auth nonce) (proved sp nonce) h"
proof (cases "\<exists>a s. auth = Some a \<and> au_console_unlock a = Some s \<and> s \<noteq> []")
  case False
  then have "\<not> given (case auth of None \<Rightarrow> None | Some a \<Rightarrow> au_console_unlock a)" by (cases auth; cases "au_console_unlock (the auth)") (auto simp: given_def)
  then show ?thesis by (auto simp: ensure_console_unlocked_def intro!: safe_return)
next
  case True
  then obtain a s where a: "auth = Some a" "au_console_unlock a = Some s" "s \<noteq> []" by blast
  let ?rest = "\<lambda>deadline. and_then console_tail_line (\<lambda>l. and_then (re_search re (sp_prompt_regex sp) l) (\<lambda>prompt.
           and_then (if prompt then done_with True else blank_probe re sp deadline) (\<lambda>prompt.
             if prompt then finalize_ready re sp nonce else unlock_attempt re sp s nonce deadline)))"
  have attempt: "safe (allowed re env sp auth nonce) (unlock_attempt re sp s nonce deadline) (proved sp nonce) h" for deadline h
    by (rule safe_unlock_attempt [OF u]) (simp add: a)
  have rest: "safe (allowed re env sp auth nonce) (?rest deadline) (proved sp nonce) h" for deadline h
    by (auto intro!: safe_then safe_tail_line safe_search safe_return safe_finalize safe_blank_probe attempt split: sum.split)
  have main: "safe (allowed re env sp auth nonce) (and_then (quiet_console re sp deadline) (\<lambda>q. case q of Some r \<Rightarrow> done_with r
     | None \<Rightarrow> ?rest deadline)) (proved sp nonce) h" for deadline h
  proof (rule safe_then, rule safe_mono [OF safe_quiet])
    fix r :: "bridge_exn + ready option" and h'
    assume r: "(r = Inr None \<longrightarrow> no_bootloader re sp h') \<and> (\<forall>x. r = Inr (Some x) \<longrightarrow> \<not> fst x)"
    show "case r of Inl e \<Rightarrow> proved sp nonce (Inl e) h'
      | Inr x \<Rightarrow> safe (allowed re env sp auth nonce) (case x of None \<Rightarrow> ?rest deadline | Some r \<Rightarrow> done_with r) (proved sp nonce) h'"
    proof (cases r)
      case (Inr x)
      then show ?thesis using r rest by (cases x) (auto intro!: safe_return)
    qed simp
  qed
  have "ensure_console_unlocked re sp auth nonce = and_then monotonic (\<lambda>t0. and_then (quiet_console re sp (t0 + sp_timeout_s sp))
      (\<lambda>q. case q of Some r \<Rightarrow> done_with r | None \<Rightarrow> ?rest (t0 + sp_timeout_s sp)))"
    using a by (simp add: ensure_console_unlocked_def given_def Let_def cong: if_cong)
  then show ?thesis unfolding monotonic_def by (simp only:) (rule safe_then, rule safe_read, simp add: main)
qed

lemma safe_ensure: "safe (allowed re env sp auth nonce) (ensure_ready re env sp auth nonce) (proved sp nonce) h"
proof (cases "given (sp_console_unlock_env sp)")
  case True
  then show ?thesis using safe_unlocked by (simp add: ensure_ready_def)
next
  case False
  have login: "safe (allowed re env sp auth nonce) (and_then (maybe_login re env sp auth) (\<lambda>r. case r of
            (ok, Some e) \<Rightarrow> and_then (maybe_reclassify_flood e) (\<lambda>e. done_with (ok, Some e))
          | (True, None) \<Rightarrow> finish_ready re sp nonce
          | (False, None) \<Rightarrow> fail_with (prompt_timeout_error sp))) (proved sp nonce) h" for h
  proof (rule safe_then, rule safe_mono [OF safe_maybe_login [OF False]])
    fix r :: "bridge_exn + ready" and h' assume r: "\<forall>e. r \<noteq> Inr (True, Some e)"
    show "case r of Inl e \<Rightarrow> proved sp nonce (Inl e) h'
      | Inr x \<Rightarrow> safe (allowed re env sp auth nonce) (case x of
            (ok, Some e) \<Rightarrow> and_then (maybe_reclassify_flood e) (\<lambda>e. done_with (ok, Some e))
          | (True, None) \<Rightarrow> finish_ready re sp nonce
          | (False, None) \<Rightarrow> fail_with (prompt_timeout_error sp)) (proved sp nonce) h'"
    proof (cases r)
      case (Inr x)
      obtain k e where "x = (k, e)" by force
      then show ?thesis using r Inr
        by (cases k; cases e) (auto intro!: safe_then safe_return safe_fail safe_finish safe_reclassify)
    qed simp
  qed
  show ?thesis unfolding ensure_ready_def
    using False by (auto intro!: safe_then [of _ "probe_prompt _ _"] safe_probe_prompt safe_finish login split: sum.split)
qed

section \<open>The theorems\<close>

text \<open>C11. Whatever the device sends and whichever call raises, every transmission of a login is allowed: in particular the password is sent only right after the
  password prompt was matched, never as a command; the secret of a locked console is sent only when the last line is no
  bootloader prompt, no command prompt arrived since the blank probe and the line was silent as long as demanded; and the command
  after login is sent only right after a look at the received text that showed no login prompt.\<close>

theorem transmissions_guarded:
  "\<exists>tr. bw_log (snd (run_state (ensure_ready re env sp auth nonce) b)) = bw_log b @ tr \<and> guarded (allowed re env sp auth nonce) [] tr"
  using safe_run [OF safe_ensure [of re env sp auth nonce "[]"], of b] by blast

text \<open>C12. A console is reported ready only after a probe: the last calls were the probe with a fresh nonce, a wait that found the nonce in
  the received text (for a console with a hidden lock and the default probe: on a line of its own, so that the echo of the probe does not
  count), and a wait that found the prompt.\<close>

theorem ready_is_proved:
  assumes "run_state (ensure_ready re env sp auth nonce) b = (Inr (True, e), b')"
  shows "e = None \<and> (\<exists>before. bw_log b' = before @
    [Ev_send (ready_probe_text sp nonce), Ev_wait (nonce_pattern sp nonce) True, Ev_wait (sp_prompt_regex sp) True])"
proof -
  obtain tr where tr: "bw_log b' = bw_log b @ tr" "proved sp nonce (Inr (True, e)) tr"
    using safe_run [OF safe_ensure [of re env sp auth nonce "[]"], of b] assms by auto
  then obtain h where "tr = h @ [Ev_send (ready_probe_text sp nonce), Ev_wait (nonce_pattern sp nonce) True, Ev_wait (sp_prompt_regex sp) True]" "e = None"
    by (auto simp: just_saw_def)
  then show ?thesis using tr(1) by (auto intro: exI [of _ "bw_log b @ h"])
qed

text \<open>A shell that is already at its prompt, for the example.\<close>

definition shell_profile :: profile where
  "shell_profile = \<lparr>sp_platform = ''shell'', sp_prompt_regex = ''#'', sp_login_regex = ''login:'', sp_password_regex = ''assword:'',
     sp_post_login_cmd = [], sp_ready_probe = default_probe, sp_username = None, sp_user_env = None, sp_pass_env = None, sp_env_file = None,
     sp_console_unlock_env = None, sp_console_unlock_idle_s = 5, sp_timeout_s = 10, sp_bootloader_prompts = []\<rparr>"

definition shell_bridge :: bridge where
  "shell_bridge = \<lparr>bw_rx = rxbuf_init 0, bw_now = 0, bw_env = [], bw_faults = [], bw_log = []\<rparr>"

theorem ready_is_proved_witness:
  "\<exists>b'. run_state (ensure_ready (\<lambda>_. Some (\<lambda>_. True)) [] shell_profile None ''0a'') shell_bridge = (Inr (True, None), b') \<and>
    (\<exists>before. bw_log b' = before @ [Ev_send (ready_probe_text shell_profile ''0a''), Ev_wait (nonce_pattern shell_profile ''0a'') True,
       Ev_wait (sp_prompt_regex shell_profile) True])"
proof -
  obtain b' where r: "run_state (ensure_ready (\<lambda>_. Some (\<lambda>_. True)) [] shell_profile None ''0a'') shell_bridge = (Inr (True, None), b')"
    by (simp add: ensure_ready_def shell_profile_def shell_bridge_def given_def probe_prompt_def finish_ready_def finalize_ready_def post_login_def
      ready_nonce_def wait_or_fail_def wait_for_regex_def wait_loop.simps and_then_def bridge_clear_def send_command_def bridge_tx_def others_def Let_def)
  from ready_is_proved [OF this] r show ?thesis by blast
qed

end
