(* ===== verification/Tx_Fence.thy ===== *)
theory Tx_Fence
  imports Login
begin

text \<open>
  The fence every write to the UART passes (\<open>sw_core/uart_io.py\<close>): a transmission carries a \<open>TxPermit\<close>, the identity its operation
  had when it was started, and the fence decides right before each write of the operating system whether this identity may still send.
  The session manager publishes its gates here (\<open>set_tx_gate\<close>, \<open>set_probe_gate\<close>); handing over, draining, flashing, cancelling and the
  invalidation of console input act on the same state. A method runs as a whole: the code holds \<open>_state_lock\<close> and \<open>_tx_fence_lock\<close>.
\<close>

section \<open>Permits and the state of the fence\<close>

datatype tx_class = Tx_agent | Tx_interactive | Tx_human_line | Tx_human_raw | Tx_system_probe | Tx_self_test_probe

record tx_permit =
  tp_op_id :: string
  tp_bridge_generation :: nat
  tp_tx_class :: tx_class
  tp_owner_gen :: "nat option"
  tp_login_gen :: "nat option"
  tp_cancel_op_id :: "string option"

definition mk_permit :: "string \<Rightarrow> nat \<Rightarrow> tx_class \<Rightarrow> tx_permit" where
  "mk_permit op_id generation cls = \<lparr>tp_op_id = op_id, tp_bridge_generation = generation, tp_tx_class = cls,
     tp_owner_gen = None, tp_login_gen = None, tp_cancel_op_id = None\<rparr>"

text \<open>The revoked operations are the keys of an \<open>OrderedDict\<close>, oldest first; a deferred entry has the generation it was captured in.\<close>

record tx_fence =
  tf_tx_frozen :: bool
  tf_drain_started :: bool
  tf_flash_mode :: bool
  tf_gate_generation :: nat
  tf_gate_quiet :: bool
  tf_gate_lease_owner :: "string option"
  tf_probe_quiet_until :: seconds
  tf_self_test_quiet_until :: seconds
  tf_login_gen_floor :: nat
  tf_owner_gen :: nat
  tf_revoked_ops :: "string list"
  tf_deferred_buffers :: "(string, nat \<times> byte list) dict"

definition new_fence :: tx_fence where
  "new_fence = \<lparr>tf_tx_frozen = False, tf_drain_started = False, tf_flash_mode = False, tf_gate_generation = 0, tf_gate_quiet = False,
     tf_gate_lease_owner = None, tf_probe_quiet_until = 0, tf_self_test_quiet_until = 0, tf_login_gen_floor = 0, tf_owner_gen = 0,
     tf_revoked_ops = [], tf_deferred_buffers = []\<rparr>"

section \<open>Publishing the gates\<close>

definition set_tx_gate :: "nat \<Rightarrow> bool \<Rightarrow> string option \<Rightarrow> tx_fence \<Rightarrow> tx_fence" where
  "set_tx_gate generation quiet lease_owner g =
     g\<lparr>tf_gate_generation := generation, tf_gate_quiet := quiet, tf_gate_lease_owner := lease_owner\<rparr>"

definition set_probe_gate :: "seconds \<Rightarrow> nat \<Rightarrow> seconds option \<Rightarrow> tx_fence \<Rightarrow> tx_fence" where
  "set_probe_gate quiet_until login_gen_floor self_test_quiet_until g =
     g\<lparr>tf_probe_quiet_until := quiet_until,
       tf_self_test_quiet_until := (case self_test_quiet_until of None \<Rightarrow> quiet_until | Some t \<Rightarrow> t),
       tf_login_gen_floor := max (tf_login_gen_floor g) login_gen_floor\<rparr>"

definition TX_ACCOUNT_MAX :: nat where "TX_ACCOUNT_MAX = 512"

definition revoke_one :: "string \<Rightarrow> string list \<Rightarrow> string list" where
  "revoke_one op_id revoked = removeAll op_id revoked @ [op_id]"

definition revoke_ops :: "string list \<Rightarrow> tx_fence \<Rightarrow> tx_fence" where
  "revoke_ops op_ids g =
     (let revoked = fold revoke_one op_ids (tf_revoked_ops g)
      in g\<lparr>tf_revoked_ops := drop (length revoked - TX_ACCOUNT_MAX) revoked\<rparr>)"

definition set_flash_mode :: "bool \<Rightarrow> tx_fence \<Rightarrow> tx_fence" where
  "set_flash_mode enabled g = g\<lparr>tf_flash_mode := enabled\<rparr>"

definition freeze_tx :: "tx_fence \<Rightarrow> tx_fence" where
  "freeze_tx g = g\<lparr>tf_tx_frozen := True\<rparr>"

definition thaw_tx :: "tx_fence \<Rightarrow> tx_fence" where
  "thaw_tx g = (if tf_drain_started g then g else g\<lparr>tf_tx_frozen := False\<rparr>)"

section \<open>Deferred console input\<close>

definition DEFERRED_INPUT_MAX_BYTES :: nat where "DEFERRED_INPUT_MAX_BYTES = 262144"

definition invalidate_deferred :: "tx_fence \<Rightarrow> tx_fence \<times> nat" where
  "invalidate_deferred g =
     (g\<lparr>tf_owner_gen := Suc (tf_owner_gen g), tf_deferred_buffers := []\<rparr>,
      sum_list (map (length \<circ> snd \<circ> snd) (tf_deferred_buffers g)))"

definition append_deferred :: "string \<Rightarrow> byte list \<Rightarrow> nat \<Rightarrow> tx_fence \<Rightarrow> tx_fence" where
  "append_deferred client_id payload owner_gen g =
     (let entry = (case dict_get (tf_deferred_buffers g) client_id of
                     None \<Rightarrow> []
                   | Some (gen, bs) \<Rightarrow> if gen = owner_gen then bs else [])
      in if DEFERRED_INPUT_MAX_BYTES < length entry + length payload
         then g\<lparr>tf_deferred_buffers := dict_pop client_id (tf_deferred_buffers g)\<rparr>
         else g\<lparr>tf_deferred_buffers := dict_set client_id (owner_gen, entry @ payload) (tf_deferred_buffers g)\<rparr>)"

section \<open>The decision\<close>

definition probe_quiet_of :: "tx_fence \<Rightarrow> tx_permit \<Rightarrow> seconds" where
  "probe_quiet_of g p = (if tp_op_id p = ''system:recover'' then tf_self_test_quiet_until g else tf_probe_quiet_until g)"

definition tx_reject_reason :: "seconds \<Rightarrow> tx_fence \<Rightarrow> tx_permit \<Rightarrow> string option" where
  "tx_reject_reason now g p =
     (if tf_tx_frozen g then Some ''draining''
      else if tf_flash_mode g then Some ''flashing''
      else if tp_tx_class p \<noteq> Tx_system_probe \<and> tp_bridge_generation p \<noteq> tf_gate_generation g then Some ''stale_generation''
      else if tp_op_id p \<in> set (tf_revoked_ops g) \<or> (\<exists>c \<in> set_option (tp_cancel_op_id p). c \<in> set (tf_revoked_ops g)) then Some ''cancelled''
      else case tp_tx_class p of
        Tx_agent \<Rightarrow> if tf_gate_quiet g then Some ''quiet'' else None
      | Tx_interactive \<Rightarrow>
          if tf_gate_lease_owner g \<noteq> Some (tp_op_id p) then Some ''lease''
          else if tp_owner_gen p \<noteq> None \<and> tp_owner_gen p \<noteq> Some (tf_owner_gen g) then Some ''lease'' else None
      | Tx_human_raw \<Rightarrow>
          if tp_owner_gen p \<noteq> None \<and> tp_owner_gen p \<noteq> Some (tf_owner_gen g) then Some ''stale_owner_gen'' else None
      | Tx_system_probe \<Rightarrow>
          if now < probe_quiet_of g p then Some ''quiet''
          else (case tp_login_gen p of
                  None \<Rightarrow> None
                | Some n \<Rightarrow> if n < tf_login_gen_floor g then Some ''stale_login_gen'' else None)
      | Tx_self_test_probe \<Rightarrow> if now < tf_self_test_quiet_until g then Some ''quiet'' else None
      | Tx_human_line \<Rightarrow> None)"

text \<open>The check at the point of the write; without a permit only flashing may write.\<close>

definition submit_reject_reason :: "seconds \<Rightarrow> bool \<Rightarrow> tx_fence \<Rightarrow> tx_permit option \<Rightarrow> string option" where
  "submit_reject_reason now wal_unhealthy g permit =
     (case permit of
        None \<Rightarrow> if tf_tx_frozen g then Some ''draining'' else if \<not> tf_flash_mode g then Some ''not_flashing'' else None
      | Some p \<Rightarrow>
          (case tx_reject_reason now g p of
             Some reason \<Rightarrow> Some reason
           | None \<Rightarrow> if tp_tx_class p \<in> {Tx_system_probe, Tx_self_test_probe} \<and> wal_unhealthy then Some ''wal_unhealthy'' else None))"

text \<open>Which permit a transmission has that was given none: the one of the running operation, of the running login, or one for its source.\<close>

definition resolve_tx_permit ::
  "string \<Rightarrow> string \<Rightarrow> string option \<Rightarrow> tx_permit option \<Rightarrow> tx_permit option \<Rightarrow> tx_permit option \<Rightarrow> (string option \<times> nat option) option
     \<Rightarrow> tx_fence \<Rightarrow> tx_permit" where
  "resolve_tx_permit uuid source cmd_id permit operation system raw_context g =
     (let generation = tf_gate_generation g;
          is_system = (source = ''system'' \<or> starts_with ''system:'' source);
          is_human = starts_with ''human:'' source;
          client = (case py_partition (CHR '':'') source of (_, _, c) \<Rightarrow> c)
      in if permit \<noteq> None then the permit
         else if operation \<noteq> None then the operation
         else if system \<noteq> None \<and> is_system then the system
         else if raw_context \<noteq> None \<and> is_human then
           (case the raw_context of (client_id, captured) \<Rightarrow>
              (mk_permit (''console:'' @ (if given client_id then the client_id else client)) generation Tx_human_raw)
                \<lparr>tp_owner_gen := (case captured of None \<Rightarrow> Some (tf_owner_gen g) | Some n \<Rightarrow> Some n)\<rparr>)
         else if source = ''system:self_test'' then mk_permit ''system:self_test'' generation Tx_self_test_probe
         else if is_system then
           mk_permit (if starts_with ''system:'' source then source else ''system:implicit'') generation Tx_system_probe
         else if is_human then
           (mk_permit (''console:'' @ client) generation Tx_human_line)\<lparr>tp_owner_gen := Some (tf_owner_gen g)\<rparr>
         else mk_permit (if given cmd_id then the cmd_id else ''legacy:'' @ uuid) generation Tx_agent)"

section \<open>What the fence keeps\<close>

lemma tx_reject_frozen: "tf_tx_frozen g \<Longrightarrow> tx_reject_reason now g p \<noteq> None"
  by (simp add: tx_reject_reason_def)

lemma tx_reject_quiet:
  assumes "tf_gate_quiet g" "tp_tx_class p = Tx_agent"
  shows "tx_reject_reason now g p \<noteq> None"
  using assms by (simp add: tx_reject_reason_def)

lemma tx_reject_probe_quiet:
  assumes "tp_tx_class p = Tx_system_probe" "now < probe_quiet_of g p"
  shows "tx_reject_reason now g p \<noteq> None"
  using assms by (simp add: tx_reject_reason_def)

lemma tx_reject_self_test:
  assumes "tp_tx_class p = Tx_self_test_probe" "now < tf_self_test_quiet_until g"
  shows "tx_reject_reason now g p \<noteq> None"
  using assms by (simp add: tx_reject_reason_def)

lemma tx_reject_stale_login:
  assumes "tp_tx_class p = Tx_system_probe" "tp_login_gen p = Some n" "n < tf_login_gen_floor g"
  shows "tx_reject_reason now g p \<noteq> None"
  using assms by (simp add: tx_reject_reason_def)

text \<open>The waiting for a quiet console never stops a person: no permit of a console or of a lease is refused as \<open>quiet\<close>.\<close>

lemma human_never_quiet:
  assumes "tp_tx_class p \<in> {Tx_interactive, Tx_human_line, Tx_human_raw}"
  shows "tx_reject_reason now g p \<noteq> Some ''quiet''"
  using assms by (auto simp: tx_reject_reason_def split: tx_class.splits)

text \<open>The newest 512 revocations are kept: an operation stays revoked until 512 others were revoked after it.\<close>

lemma revoke_one_last: "last (revoke_one op r) = op" "op \<in> set (revoke_one op r)" "set (revoke_one op r) = insert op (set r)"
  by (auto simp: revoke_one_def)

end
