(* ===== verification/Session_Gate.thy ===== *)
theory Session_Gate
  imports Tx_Fence Wal_Records
begin

text \<open>
  The gates of a session (\<open>SessionRuntime\<close> of \<open>sw_core/session_manager.py\<close>). A device that reboots must be left alone while its boot loader
  counts down, and must prove again that it takes commands before an agent may send one. The state is the quiet window after a boot
  banner, the pending confirmation with its deadline and its number of attempts, and the end state \<open>ready_reconfirm_failed\<close>. Every
  change is published at the fence of the bridge (\<open>Tx_Fence\<close>). The scheduling of the probes that confirm a session is here too.

  Reading the clock is the argument \<open>now\<close>, one reading per operation; the stamps that are only shown (\<open>last_rx_at\<close> and the like) are left out.
  The manager holds \<open>_lock\<close> in every operation here, so each is one step.
\<close>

section \<open>State\<close>

record session_profile = profile +
  sp_com :: string
  sp_device_by_id :: string
  sp_boot_done_regex :: string

datatype sess_state = DETACHED | ATTACHING | ATTACHED | READY | RECOVERING | RELEASED | FLASHING

text \<open>The bridges are here the fences they have.\<close>

record session_rt =
  ss_session_id :: string
  ss_profile :: session_profile
  ss_bridge :: "tx_fence option"
  ss_attach_bridge :: "tx_fence option"
  ss_bridge_generation :: nat
  ss_passthrough_quiet_since :: "seconds option"
  ss_login_gen :: nat
  ss_recovering :: bool
  ss_pending_auto_login :: bool
  ss_interactive_session_id :: "string option"
  ss_last_rx_mono :: seconds
  ss_last_tx_mono :: seconds
  ss_reprobe_attempts :: nat
  ss_next_reprobe_at :: "seconds option"
  ss_reprobe_exhausted :: bool
  ss_last_error_detail :: "string option"
  ss_transport_stall_warned :: bool
  ss_boot_quiet_until :: seconds
  ss_boot_banner_tail :: string
  ss_ready_reconfirm_pending :: bool
  ss_ready_reconfirm_deadline :: seconds
  ss_ready_reconfirm_attempts :: nat
  ss_ready_reconfirm_failed :: bool
  ss_boot_evidence_wait_until :: seconds
  ss_state :: sess_state
  ss_last_error :: "string option"

definition new_session :: "string \<Rightarrow> session_profile \<Rightarrow> session_rt" where
  "new_session session_id sp = \<lparr>ss_session_id = session_id, ss_profile = sp, ss_bridge = None, ss_attach_bridge = None,
     ss_bridge_generation = 0, ss_passthrough_quiet_since = None, ss_login_gen = 0, ss_recovering = False,
     ss_pending_auto_login = False, ss_interactive_session_id = None, ss_last_rx_mono = 0, ss_last_tx_mono = 0,
     ss_reprobe_attempts = 0, ss_next_reprobe_at = None, ss_reprobe_exhausted = False, ss_last_error_detail = None,
     ss_transport_stall_warned = False, ss_boot_quiet_until = 0, ss_boot_banner_tail = [], ss_ready_reconfirm_pending = False,
     ss_ready_reconfirm_deadline = 0, ss_ready_reconfirm_attempts = 0, ss_ready_reconfirm_failed = False,
     ss_boot_evidence_wait_until = 0, ss_state = DETACHED, ss_last_error = None\<rparr>"

abbreviation ss_platform :: "session_rt \<Rightarrow> string" where
  "ss_platform s \<equiv> sp_platform (ss_profile s)"

abbreviation passthrough :: "session_rt \<Rightarrow> bool" where
  "passthrough s \<equiv> ss_platform s = ''passthrough''"

abbreviation unlocks :: "session_rt \<Rightarrow> bool" where
  "unlocks s \<equiv> given (sp_console_unlock_env (ss_profile s))"

definition BOOT_QUIET_WINDOW_S :: seconds where "BOOT_QUIET_WINDOW_S = 180"
definition BOOT_BANNER_TAIL_CHARS :: nat where "BOOT_BANNER_TAIL_CHARS = 256"
definition BOOT_EVIDENCE_GRACE_S :: seconds where "BOOT_EVIDENCE_GRACE_S = 60"
definition READY_RECONFIRM_MAX_S :: seconds where "READY_RECONFIRM_MAX_S = BOOT_QUIET_WINDOW_S + 120"
definition READY_RECONFIRM_MAX_ATTEMPTS :: nat where "READY_RECONFIRM_MAX_ATTEMPTS = 5"
definition READY_RECONFIRM_RETRY_S :: seconds where "READY_RECONFIRM_RETRY_S = 5"
definition REPROBE_RX_IDLE_S :: seconds where "REPROBE_RX_IDLE_S = 3"
definition REPROBE_BACKOFF_S :: seconds where "REPROBE_BACKOFF_S = 2"
definition REPROBE_MAX_INTERVAL_S :: seconds where "REPROBE_MAX_INTERVAL_S = 15"
definition REPROBE_MAX_ATTEMPTS :: nat where "REPROBE_MAX_ATTEMPTS = 10"
definition HUMAN_ACTIVE_WINDOW_S :: seconds where "HUMAN_ACTIVE_WINDOW_S = 60"
definition PASSTHROUGH_READY_QUIET_S :: seconds where "PASSTHROUGH_READY_QUIET_S = 30"
definition UBOOT_FALLBACK_PROMPTS :: "string list" where "UBOOT_FALLBACK_PROMPTS = [''^=> $'', ''^U-Boot> $'', ''^CFE> $'']"

text \<open>\<open>round(x, 1)\<close>, half to even, and \<open>int(x)\<close>, towards zero.\<close>

definition py_round1 :: "rat \<Rightarrow> rat" where
  "py_round1 x = (let y = 10 * x; f = \<lfloor>y\<rfloor>; d = y - of_int f
                  in of_int (if d < 1 / 2 \<or> (d = 1 / 2 \<and> even f) then f else f + 1) / 10)"

definition py_trunc :: "rat \<Rightarrow> int" where
  "py_trunc x = (if 0 \<le> x then \<lfloor>x\<rfloor> else \<lceil>x\<rceil>)"

section \<open>Fields with a setter\<close>

definition set_last_error :: "string option \<Rightarrow> session_rt \<Rightarrow> session_rt" where
  "set_last_error value s =
     (if ss_last_error s \<noteq> value then s\<lparr>ss_last_error_detail := None, ss_last_error := value\<rparr> else s)"

definition set_sess_state :: "seconds \<Rightarrow> sess_state \<Rightarrow> session_rt \<Rightarrow> session_rt" where
  "set_sess_state now value s =
     (let since = (if ss_state s \<noteq> value then
                     if value = ATTACHED \<and> passthrough s then Some now
                     else if value \<noteq> ATTACHED then None else ss_passthrough_quiet_since s
                   else if value = ATTACHED \<and> passthrough s \<and> ss_passthrough_quiet_since s = None then Some now
                   else ss_passthrough_quiet_since s)
      in s\<lparr>ss_passthrough_quiet_since := since, ss_state := value\<rparr>)"

definition compute_idle_ms :: "seconds \<Rightarrow> session_rt \<Rightarrow> int option" where
  "compute_idle_ms now s =
     (let last = max (ss_last_rx_mono s) (ss_last_tx_mono s)
      in if last = 0 then None else Some (py_trunc ((now - last) * 1000)))"

definition classify_activity :: "seconds \<Rightarrow> session_rt \<Rightarrow> string" where
  "classify_activity now s =
     (if ss_state s \<noteq> READY \<and> ss_state s \<noteq> ATTACHED then ''offline''
      else case compute_idle_ms now s of
        None \<Rightarrow> ''newly-attached''
      | Some idle \<Rightarrow> if idle < 5000 then ''active'' else if idle < 60000 then ''idle-healthy'' else ''quiet-suspicious'')"

definition reset_reprobe_progress :: "session_rt \<Rightarrow> session_rt" where
  "reset_reprobe_progress s = s\<lparr>ss_reprobe_attempts := 0, ss_next_reprobe_at := None, ss_reprobe_exhausted := False\<rparr>"

section \<open>Publishing the gates\<close>

definition boot_quiet_active :: "seconds \<Rightarrow> session_rt \<Rightarrow> bool" where
  "boot_quiet_active now s \<longleftrightarrow> 0 < ss_boot_quiet_until s \<and> now < ss_boot_quiet_until s"

text \<open>The bridge the gates are pushed to: \<open>self.bridge or self.attach_bridge\<close>.\<close>

definition has_target :: "session_rt \<Rightarrow> bool" where
  "has_target s \<longleftrightarrow> ss_bridge s \<noteq> None \<or> ss_attach_bridge s \<noteq> None"

definition on_target :: "(tx_fence \<Rightarrow> tx_fence) \<Rightarrow> session_rt \<Rightarrow> session_rt" where
  "on_target f s =
     (case ss_bridge s of
        Some g \<Rightarrow> s\<lparr>ss_bridge := Some (f g)\<rparr>
      | None \<Rightarrow> s\<lparr>ss_attach_bridge := map_option f (ss_attach_bridge s)\<rparr>)"

definition push_probe_gate :: "session_rt \<Rightarrow> session_rt" where
  "push_probe_gate s =
     on_target (set_probe_gate (if unlocks s then 0 else ss_boot_quiet_until s) (ss_login_gen s) (Some (ss_boot_quiet_until s))) s"

definition lease_owner_of :: "session_rt \<Rightarrow> string option" where
  "lease_owner_of s = map_option (\<lambda>i. ''interactive:'' @ i) (ss_interactive_session_id s)"

text \<open>
  These three call each other: publishing the gate asks whether it is active, asking expires a pending confirmation, and expiring
  publishes the gate. It ends since a confirmation expires only once.
\<close>

definition reconfirm_over :: "seconds \<Rightarrow> bool \<Rightarrow> session_rt \<Rightarrow> bool" where
  "reconfirm_over now force s \<longleftrightarrow>
     force \<or> (0 < ss_ready_reconfirm_deadline s \<and> ss_ready_reconfirm_deadline s \<le> now)
     \<or> READY_RECONFIRM_MAX_ATTEMPTS \<le> ss_ready_reconfirm_attempts s"

function expire_ready_reconfirm :: "seconds \<Rightarrow> bool \<Rightarrow> session_rt \<Rightarrow> session_rt \<times> bool"
  and push_tx_gate :: "seconds \<Rightarrow> session_rt \<Rightarrow> session_rt"
  and agent_gate_active :: "seconds \<Rightarrow> session_rt \<Rightarrow> session_rt \<times> bool" where
  "expire_ready_reconfirm now force s =
     (if \<not> ss_ready_reconfirm_pending s then (s, False)
      else if \<not> reconfirm_over now force s then (s, False)
      else (push_tx_gate now
              (s\<lparr>ss_ready_reconfirm_pending := False, ss_ready_reconfirm_failed := True, ss_boot_evidence_wait_until := 0\<rparr>), True))"
| "push_tx_gate now s =
     (if \<not> has_target s then s
      else case agent_gate_active now s of (s', quiet) \<Rightarrow>
        on_target (set_tx_gate (ss_bridge_generation s') quiet (lease_owner_of s')) s')"
| "agent_gate_active now s =
     (if passthrough s then (s, False)
      else case expire_ready_reconfirm now False s of (s', _) \<Rightarrow>
        (s', boot_quiet_active now s' \<or> ss_ready_reconfirm_pending s'))"
  by pat_completeness auto
termination
  by (relation "measure (\<lambda>x. case x of
        Inl (_, _, s) \<Rightarrow> 3 * of_bool (ss_ready_reconfirm_pending s)
      | Inr (Inl (_, s)) \<Rightarrow> 3 * of_bool (ss_ready_reconfirm_pending s) + 2
      | Inr (Inr (_, s)) \<Rightarrow> 3 * of_bool (ss_ready_reconfirm_pending s) + (1::nat))") auto

declare expire_ready_reconfirm.simps [simp del] push_tx_gate.simps [simp del] agent_gate_active.simps [simp del]

section \<open>Arming and lifting\<close>

definition arm_boot_quiet :: "seconds \<Rightarrow> session_rt \<Rightarrow> session_rt" where
  "arm_boot_quiet now s =
     (let s = on_target (fst \<circ> invalidate_deferred) s;
          s = s\<lparr>ss_boot_quiet_until := now + BOOT_QUIET_WINDOW_S,
                ss_login_gen := (if unlocks s then ss_login_gen s else Suc (ss_login_gen s)),
                ss_boot_banner_tail := []\<rparr>;
          s = (if ss_ready_reconfirm_pending s then s
               else s\<lparr>ss_ready_reconfirm_pending := True, ss_ready_reconfirm_deadline := now + READY_RECONFIRM_MAX_S,
                      ss_ready_reconfirm_attempts := 0, ss_ready_reconfirm_failed := False\<rparr>)
      in push_tx_gate now (push_probe_gate s))"

definition clear_boot_quiet :: "seconds \<Rightarrow> session_rt \<Rightarrow> session_rt" where
  "clear_boot_quiet now s = push_tx_gate now (push_probe_gate (s\<lparr>ss_boot_quiet_until := 0, ss_boot_banner_tail := []\<rparr>))"

definition confirm_ready :: "seconds \<Rightarrow> session_rt \<Rightarrow> session_rt" where
  "confirm_ready now s =
     push_tx_gate now ((clear_boot_quiet now s)
       \<lparr>ss_boot_evidence_wait_until := 0, ss_ready_reconfirm_pending := False, ss_ready_reconfirm_deadline := 0,
        ss_ready_reconfirm_attempts := 0, ss_ready_reconfirm_failed := False\<rparr>)"

definition reset_passthrough_boot_gate :: "seconds \<Rightarrow> session_rt \<Rightarrow> session_rt" where
  "reset_passthrough_boot_gate now s =
     push_tx_gate now (push_probe_gate
       (s\<lparr>ss_boot_quiet_until := 0, ss_boot_banner_tail := [], ss_ready_reconfirm_pending := False, ss_ready_reconfirm_deadline := 0,
          ss_ready_reconfirm_attempts := 0, ss_ready_reconfirm_failed := False, ss_boot_evidence_wait_until := 0\<rparr>))"

definition ready_reconfirm_remaining_s :: "seconds \<Rightarrow> session_rt \<Rightarrow> seconds option" where
  "ready_reconfirm_remaining_s now s =
     (if \<not> ss_ready_reconfirm_pending s \<or> ss_ready_reconfirm_deadline s \<le> 0 then None
      else Some (py_round1 (max (ss_ready_reconfirm_deadline s - now) 0)))"

definition begin_boot_evidence_wait :: "seconds \<Rightarrow> session_rt \<Rightarrow> session_rt" where
  "begin_boot_evidence_wait now s = s\<lparr>ss_boot_evidence_wait_until := now + BOOT_EVIDENCE_GRACE_S\<rparr>"

definition note_boot_evidence :: "session_rt \<Rightarrow> session_rt" where
  "note_boot_evidence s = s\<lparr>ss_boot_evidence_wait_until := 0\<rparr>"

definition boot_evidence_wait_active :: "seconds \<Rightarrow> session_rt \<Rightarrow> bool" where
  "boot_evidence_wait_active now s \<longleftrightarrow> 0 < ss_boot_evidence_wait_until s \<and> now < ss_boot_evidence_wait_until s"

section \<open>The gate of the agent commands\<close>

text \<open>The two refusals: one to retry, with the seconds to wait, one not to.\<close>

datatype gate_reply = Autoboot_quiet string seconds | Ready_unconfirmed string

definition agent_gate_reject :: "seconds \<Rightarrow> session_rt \<Rightarrow> session_rt \<times> gate_reply option" where
  "agent_gate_reject now s =
     (if passthrough s then (s, None)
      else case expire_ready_reconfirm now False s of (s, _) \<Rightarrow>
        if ss_ready_reconfirm_failed s then (s, Some (Ready_unconfirmed (sp_com (ss_profile s))))
        else case agent_gate_active now s of (s, active) \<Rightarrow>
          if active then
            (s, Some (Autoboot_quiet (sp_com (ss_profile s))
               (if boot_quiet_active now s then py_round1 (max (ss_boot_quiet_until s - now) 0) else READY_RECONFIRM_RETRY_S)))
          else (s, None))"

definition boot_quiet_blocks_probe :: "seconds \<Rightarrow> session_rt \<Rightarrow> bool" where
  "boot_quiet_blocks_probe now s \<longleftrightarrow> boot_quiet_active now s \<and> \<not> unlocks s"

definition begin_login_run :: "session_rt \<Rightarrow> session_rt \<times> tx_permit" where
  "begin_login_run s =
     (let s = push_probe_gate (s\<lparr>ss_login_gen := Suc (ss_login_gen s)\<rparr>)
      in (s, (mk_permit (''system:login:'' @ show_nat (ss_login_gen s)) (ss_bridge_generation s) Tx_system_probe)
               \<lparr>tp_login_gen := Some (ss_login_gen s)\<rparr>))"

definition self_test_permit :: "string \<Rightarrow> session_rt \<Rightarrow> tx_permit" where
  "self_test_permit nonce s = mk_permit (''system:self_test:'' @ nonce) (ss_bridge_generation s) Tx_self_test_probe"

section \<open>What the device sends\<close>

definition last_chars :: "nat \<Rightarrow> string \<Rightarrow> string" where
  "last_chars n t = drop (length t - n) t"

fun first_hit :: "regexes \<Rightarrow> string list \<Rightarrow> string \<Rightarrow> string option" where
  "first_hit re [] text = None"
| "first_hit re (p # ps) text =
     (if (case re p of None \<Rightarrow> False | Some hit \<Rightarrow> hit text) then Some p else first_hit re ps text)"

definition matches_any_bootloader_prompt :: "regexes \<Rightarrow> string \<Rightarrow> string list \<Rightarrow> string option" where
  "matches_any_bootloader_prompt re text patterns =
     (if text = [] \<or> patterns = [] then None
      else case find (\<lambda>l. py_strip l \<noteq> []) (rev (py_splitlines text)) of
        None \<Rightarrow> None
      | Some l \<Rightarrow> first_hit re patterns l)"

text \<open>\<open>rx\<close> is the text at the end of the receive buffer, \<open>None\<close> when there is no bridge or reading it raised.\<close>

definition bootloader_evidence :: "regexes \<Rightarrow> string option \<Rightarrow> session_rt \<Rightarrow> string option" where
  "bootloader_evidence re rx s =
     (case rx of
        None \<Rightarrow> None
      | Some t \<Rightarrow> matches_any_bootloader_prompt re (clean_text t)
          (if sp_bootloader_prompts (ss_profile s) = [] then UBOOT_FALLBACK_PROMPTS else sp_bootloader_prompts (ss_profile s)))"

definition update_boot_quiet :: "regexes \<Rightarrow> seconds \<Rightarrow> string \<Rightarrow> session_rt \<Rightarrow> session_rt" where
  "update_boot_quiet re now chunk s =
     (if passthrough s then s
      else
        let window = last_chars BOOT_BANNER_TAIL_CHARS (ss_boot_banner_tail s) @ chunk
        in if detect_boot_banner window then arm_boot_quiet now (note_boot_evidence s)
           else
             let tail = last_chars BOOT_BANNER_TAIL_CHARS window;
                 s = s\<lparr>ss_boot_banner_tail := tail\<rparr>;
                 sp = ss_profile s
             in if ss_boot_quiet_until s \<le> 0 then s
                else if matches_any_bootloader_prompt re tail (sp_bootloader_prompts sp) \<noteq> None then s
                else if list_ex (\<lambda>p. p \<noteq> [] \<and> (case re p of None \<Rightarrow> False | Some hit \<Rightarrow> hit tail))
                          [sp_login_regex sp, sp_prompt_regex sp, sp_boot_done_regex sp]
                then clear_boot_quiet now s else s)"

definition mark_session_rx :: "seconds \<Rightarrow> session_rt \<Rightarrow> session_rt" where
  "mark_session_rx now s =
     s\<lparr>ss_last_rx_mono := now,
       ss_passthrough_quiet_since := (if passthrough s \<and> ss_state s = ATTACHED then Some now else ss_passthrough_quiet_since s),
       ss_transport_stall_warned := False\<rparr>"

definition mark_session_tx :: "seconds \<Rightarrow> session_rt \<Rightarrow> session_rt" where
  "mark_session_tx now s = s\<lparr>ss_last_tx_mono := now\<rparr>"

text \<open>\<open>_on_bridge_rx\<close>, as far as the session goes: the chunk is the decoded data, cleaned.\<close>

definition on_bridge_rx :: "regexes \<Rightarrow> seconds \<Rightarrow> string \<Rightarrow> session_rt \<Rightarrow> session_rt" where
  "on_bridge_rx re now text s =
     (let chunk = clean_text text;
          s = (if chunk \<noteq> [] \<or> passthrough s then mark_session_rx now s else s)
      in if chunk = [] then s else update_boot_quiet re now chunk s)"

end
