(* ===== verification/Session_Reprobe.thy ===== *)
theory Session_Reprobe
  imports Session_Gate
begin

text \<open>
  How a session that is attached but not ready is tried again (\<open>sw_core/session_manager.py\<close>): when the periodic tick schedules a probe, the
  check right before the probe writes, the probe itself in its two locked halves, what its result does to the session, and the
  self test of a ready session. A probe runs outside the lock, so its halves are separate steps and everything else can happen between.
\<close>

section \<open>What the manager knows besides the session\<close>

record reprobe_env =
  re_released_by_ids :: "string list"
  re_devices :: "string list"
  re_leases :: "(string, string) dict"
  re_peers :: "string list"
  re_snapshot_owner :: "string option"
  re_last_human_input :: "seconds option"
  re_handoff_frozen :: bool

text \<open>\<open>re_leases\<close> has the owner of every lease, \<open>re_peers\<close> the console clients that someone is connected to; the next two are the fields of
  the snapshot of the bridge.\<close>

definition is_reprobe_prompt_error :: "sess_state \<Rightarrow> string option \<Rightarrow> bool" where
  "is_reprobe_prompt_error state last_error =
     (case last_error of
        None \<Rightarrow> False
      | Some e \<Rightarrow>
          e \<noteq> [] \<and>
          (case state of
             ATTACHED \<Rightarrow> e = ''PROMPT_UNAVAILABLE'' \<or> e = ''PROMPT_TIMEOUT'' \<or> ends_with ''_PROMPT_TIMEOUT'' e \<or> e = ''RX_FLOOD''
                         \<or> e = ''TRANSPORT_STALL''
           | DETACHED \<Rightarrow> e = ''PROMPT_TIMEOUT'' \<or> ends_with ''_PROMPT_TIMEOUT'' e \<or> e = ''RX_FLOOD'' \<or> e = ''TRANSPORT_STALL''
           | _ \<Rightarrow> False))"

definition rx_idle_enough :: "seconds \<Rightarrow> session_rt \<Rightarrow> bool" where
  "rx_idle_enough now s \<longleftrightarrow> ss_last_rx_mono s = 0 \<or> REPROBE_RX_IDLE_S \<le> now - ss_last_rx_mono s"

definition human_active :: "reprobe_env \<Rightarrow> seconds \<Rightarrow> session_rt \<Rightarrow> bool" where
  "human_active m now s =
     (if ss_bridge s = None then False
      else case ss_interactive_session_id s of
        None \<Rightarrow> False
      | Some i \<Rightarrow>
          (case dict_get (re_leases m) i of
             None \<Rightarrow> False
           | Some owner \<Rightarrow>
               if \<not> starts_with ''human:'' owner then False
               else case py_partition (CHR '':'') owner of (_, _, client_id) \<Rightarrow>
                 if client_id \<notin> set (re_peers m) then False
                 else if re_snapshot_owner m \<noteq> Some owner then False
                 else case re_last_human_input m of
                   None \<Rightarrow> False
                 | Some t \<Rightarrow> now - t \<le> HUMAN_ACTIVE_WINDOW_S))"

definition reprobe_interval :: "nat \<Rightarrow> seconds" where
  "reprobe_interval n = min (REPROBE_BACKOFF_S * 2 ^ n) REPROBE_MAX_INTERVAL_S"

definition record_reprobe_attempt :: "seconds \<Rightarrow> session_rt \<Rightarrow> session_rt" where
  "record_reprobe_attempt now s =
     (let s = s\<lparr>ss_reprobe_attempts := Suc (ss_reprobe_attempts s)\<rparr>
      in if REPROBE_MAX_ATTEMPTS \<le> ss_reprobe_attempts s then s\<lparr>ss_reprobe_exhausted := True, ss_next_reprobe_at := None\<rparr>
         else s\<lparr>ss_next_reprobe_at := Some (now + reprobe_interval (ss_reprobe_attempts s - 1))\<rparr>)"

section \<open>Scheduling\<close>

datatype reprobe_job = Job_probe | Job_attach

text \<open>Besides the session the tick changes the set of sessions whose probe is under way. The guards are in the order of the code; those
  that only give up are one condition.\<close>

definition device_at_hand :: "reprobe_env \<Rightarrow> session_rt \<Rightarrow> bool" where
  "device_at_hand m s \<longleftrightarrow>
     (let by_id = sp_device_by_id (ss_profile s) in by_id \<noteq> [] \<and> by_id \<notin> set (re_released_by_ids m) \<and> by_id \<in> set (re_devices m))"

definition reprobe_held :: "reprobe_env \<Rightarrow> seconds \<Rightarrow> bool \<Rightarrow> session_rt \<Rightarrow> bool" where
  "reprobe_held m now ready_reconfirm s \<longleftrightarrow>
     (case ss_next_reprobe_at s of None \<Rightarrow> False | Some t \<Rightarrow> now < t)
     \<or> boot_quiet_blocks_probe now s \<or> boot_evidence_wait_active now s
     \<or> (\<not> ready_reconfirm \<and> \<not> is_reprobe_prompt_error (ss_state s) (ss_last_error s))
     \<or> \<not> rx_idle_enough now s \<or> human_active m now s"

definition reprobe_launch :: "seconds \<Rightarrow> string list \<Rightarrow> session_rt \<Rightarrow> session_rt \<times> string list \<times> reprobe_job option" where
  "reprobe_launch now inflight s =
     (if ss_state s \<in> {ATTACHED, READY} then
        if ss_bridge s = None \<or> ss_session_id s \<in> set inflight then (s, inflight, None)
        else (s\<lparr>ss_next_reprobe_at := Some (now + reprobe_interval (ss_reprobe_attempts s))\<rparr>,
              set_add (ss_session_id s) inflight, Some Job_probe)
      else if ss_state s = DETACHED then
        (record_reprobe_attempt now (set_last_error None (set_sess_state now ATTACHING s)), inflight, Some Job_attach)
      else (s, inflight, None))"

definition reprobe_candidate ::
  "reprobe_env \<Rightarrow> seconds \<Rightarrow> string list \<Rightarrow> session_rt \<Rightarrow> session_rt \<times> string list \<times> reprobe_job option" where
  "reprobe_candidate m now inflight s =
     (let ready_reconfirm = (ss_state s = READY \<and> ss_ready_reconfirm_pending s \<and> \<not> boot_quiet_blocks_probe now s)
      in if (ss_state s = READY \<and> \<not> ready_reconfirm) \<or> ss_last_error s = Some ''CREDENTIALS_UNRESOLVED'' then (s, inflight, None)
         else if ss_reprobe_exhausted s \<or> REPROBE_MAX_ATTEMPTS \<le> ss_reprobe_attempts s then
           let s = s\<lparr>ss_reprobe_exhausted := True, ss_next_reprobe_at := None\<rparr>
           in (if ready_reconfirm then fst (expire_ready_reconfirm now True s) else s, inflight, None)
         else if reprobe_held m now ready_reconfirm s then (s, inflight, None)
         else reprobe_launch now inflight s)"

definition prepare_reprobe ::
  "reprobe_env \<Rightarrow> seconds \<Rightarrow> string list \<Rightarrow> session_rt \<Rightarrow> session_rt \<times> string list \<times> reprobe_job option" where
  "prepare_reprobe m now inflight s =
     (if \<not> device_at_hand m s \<or> ss_state s \<in> {RELEASED, FLASHING, ATTACHING, RECOVERING}
         \<or> (passthrough s \<and> ss_state s \<in> {ATTACHED, READY}) then (s, inflight, None)
      else reprobe_candidate m now inflight (if ss_state s = READY then fst (expire_ready_reconfirm now False s) else s))"

text \<open>The last check before a probe is written; \<open>rx\<close> is what the receive buffer ends with, \<open>same\<close> that the bridge is still the one of the job.\<close>

definition reprobe_refused :: "reprobe_env \<Rightarrow> seconds \<Rightarrow> session_rt \<Rightarrow> bool" where
  "reprobe_refused m now s \<longleftrightarrow>
     ss_reprobe_exhausted s \<or> (ss_state s = ATTACHED \<and> \<not> is_reprobe_prompt_error (ss_state s) (ss_last_error s))
     \<or> boot_quiet_blocks_probe now s \<or> boot_evidence_wait_active now s \<or> human_active m now s"

definition reprobe_target_still_valid ::
  "regexes \<Rightarrow> reprobe_env \<Rightarrow> seconds \<Rightarrow> bool \<Rightarrow> string option \<Rightarrow> session_rt \<Rightarrow> session_rt \<times> bool" where
  "reprobe_target_still_valid re m now same rx s =
     (if \<not> same \<or> \<not> device_at_hand m s \<or> ss_state s \<notin> {ATTACHED, READY} \<or> passthrough s then (s, False)
      else if ss_state s = READY then
        let s = fst (expire_ready_reconfirm now False s)
        in if \<not> ss_ready_reconfirm_pending s then (s, False)
           else if bootloader_evidence re rx s \<noteq> None then (fst (expire_ready_reconfirm now True s), False)
           else (s, \<not> reprobe_refused m now s)
      else (s, \<not> reprobe_refused m now s))"

section \<open>The probe on the bridge of a session\<close>

datatype probe_start = Probe_not_ready | Probe_frozen | Probe_answered | Probe_run tx_permit

definition command_capable :: "session_profile \<Rightarrow> bool" where
  "command_capable sp \<longleftrightarrow> py_strip (sp_ready_probe sp) \<noteq> []"

text \<open>Up to the transmissions: the probe is not to run, or it has a permit of a new login run.\<close>

definition probe_begin :: "reprobe_env \<Rightarrow> seconds \<Rightarrow> bool \<Rightarrow> session_rt \<Rightarrow> session_rt \<times> probe_start" where
  "probe_begin m now same s =
     (if passthrough s \<or> \<not> command_capable (ss_profile s) then (s, if same then Probe_answered else Probe_not_ready)
      else if \<not> same then (s, Probe_not_ready)
      else if re_handoff_frozen m then (s, Probe_frozen)
      else if boot_quiet_blocks_probe now s \<or> boot_evidence_wait_active now s then
        (if ss_state s \<noteq> READY then set_last_error (Some ''PROMPT_UNAVAILABLE'') s else s, Probe_answered)
      else case begin_login_run s of (s, p) \<Rightarrow> (s, Probe_run p))"

definition credentials_declared_but_unresolved :: "profile \<Rightarrow> auth_reason \<Rightarrow> bool" where
  "credentials_declared_but_unresolved sp reason \<longleftrightarrow>
     (given (sp_user_env sp) \<or> given (sp_pass_env sp) \<or> given (sp_env_file sp) \<or> given (sp_console_unlock_env sp)) \<and> reason \<noteq> Auth_ok"

text \<open>The transmissions: which program of the login state machine runs.\<close>

definition probe_program :: "regexes \<Rightarrow> (string, string) dict \<Rightarrow> env_file \<Rightarrow> profile \<Rightarrow> string \<Rightarrow> ready bm" where
  "probe_program re env file sp nonce =
     (if sp_login_regex sp \<noteq> [] \<or> given (sp_console_unlock_env sp) then
        (case resolve_session_auth env file sp of (auth, reason) \<Rightarrow>
           if credentials_declared_but_unresolved sp reason then done_with (False, Some ''CREDENTIALS_UNRESOLVED'')
           else if given (au_console_unlock auth) \<or> (given (au_username auth) \<and> given (au_password auth))
           then ensure_ready re env sp (Some auth) nonce
           else probe_ready re sp nonce)
      else probe_ready re sp nonce)"

definition LOGIN_FSM_DETAIL_ERRORS :: "string list" where
  "LOGIN_FSM_DETAIL_ERRORS = [''USER_ENV_MISSING'', ''PASS_ENV_REQUIRED'', ''PASS_ENV_MISSING'', ''LOGIN_USER_REQUIRED'',
     ''LOGIN_PROMPT_TIMEOUT'', ''BCM_PROMPT_TIMEOUT'', ''SHELL_PROMPT_TIMEOUT'', ''PRPL_PROMPT_TIMEOUT'', ''POST_LOGIN_CMD_TIMEOUT'',
     ''READY_NONCE_TIMEOUT'', ''READY_PROMPT_TIMEOUT'', ''LOGIN_REQUIRED'']"

definition login_fsm_rx_tail_detail :: "string option \<Rightarrow> string option" where
  "login_fsm_rx_tail_detail rx =
     (case rx of None \<Rightarrow> None
      | Some raw \<Rightarrow> if raw = [] then None
                    else let cleaned = last_chars 300 (clean_text raw) in if cleaned = [] then None else Some cleaned)"

text \<open>The error of a probe, made more precise by what the bridge received meanwhile; \<open>hint\<close> words the advice for a stalled transport.\<close>

definition refine_probe_failure ::
  "(seconds \<Rightarrow> string) \<Rightarrow> seconds \<Rightarrow> string option \<Rightarrow> int option \<Rightarrow> int option \<Rightarrow> string option \<Rightarrow> session_rt
     \<Rightarrow> session_rt \<times> string option \<times> string option" where
  "refine_probe_failure hint now err rx_before rx_after rx s =
     (case (err, rx_before, rx_after) of
        (None, _, _) \<Rightarrow> (s, None, None)
      | (Some e, Some before, Some after) \<Rightarrow>
          (case classify_probe_failure e (after - before) (ss_last_rx_mono s) now of
             (refined, flipped) \<Rightarrow>
               if \<not> flipped then (s, err, if e \<in> set LOGIN_FSM_DETAIL_ERRORS then login_fsm_rx_tail_detail rx else None)
               else (s\<lparr>ss_transport_stall_warned := True\<rparr>, Some refined, Some (hint (now - ss_last_rx_mono s))))
      | _ \<Rightarrow> (s, err, None))"

text \<open>After the transmissions: \<open>refused\<close> that the fence had revoked the run.\<close>

definition probe_settle ::
  "reprobe_env \<Rightarrow> seconds \<Rightarrow> bool \<Rightarrow> bool \<Rightarrow> string option \<Rightarrow> string option \<Rightarrow> bool \<Rightarrow> session_rt \<Rightarrow> session_rt" where
  "probe_settle m now same ok err err_detail refused s =
     (if \<not> same \<or> re_handoff_frozen m \<or> ss_state s \<in> {FLASHING, RELEASED} then s
      else
        let s = s\<lparr>ss_recovering := False, ss_pending_auto_login := False\<rparr>
        in if ok then reset_reprobe_progress (set_last_error None (confirm_ready now (set_sess_state now READY s)))
           else if refused \<and> ss_state s = READY then s\<lparr>ss_last_error_detail := None\<rparr>
           else (set_last_error err (set_sess_state now ATTACHED s))\<lparr>ss_last_error_detail := err_detail\<rparr>)"

section \<open>After an automatic probe\<close>

text \<open>\<open>result_state\<close> is the state in the answer of the probe, when it has one.\<close>

definition count_reconfirm_attempt :: "seconds \<Rightarrow> session_rt \<Rightarrow> session_rt" where
  "count_reconfirm_attempt now s =
     (if ss_ready_reconfirm_pending s
      then fst (expire_ready_reconfirm now False (s\<lparr>ss_ready_reconfirm_attempts := Suc (ss_ready_reconfirm_attempts s)\<rparr>))
      else s)"

definition bootloader_stuck :: "seconds \<Rightarrow> string \<Rightarrow> session_rt \<Rightarrow> session_rt" where
  "bootloader_stuck now matched s =
     fst (expire_ready_reconfirm now True
       ((set_last_error (Some ''BOOTLOADER_STUCK'') s)
          \<lparr>ss_last_error_detail := Some (''matched_prompt='' @ matched), ss_reprobe_exhausted := True, ss_next_reprobe_at := None\<rparr>))"

definition finish_probe_reprobe ::
  "regexes \<Rightarrow> reprobe_env \<Rightarrow> seconds \<Rightarrow> bool \<Rightarrow> sess_state option \<Rightarrow> string option \<Rightarrow> session_rt \<Rightarrow> session_rt" where
  "finish_probe_reprobe re m now same result_state rx s =
     (if re_handoff_frozen m \<or> \<not> same then s
      else if ss_state s = READY \<or> result_state = Some READY then reset_reprobe_progress s
      else
        let s = count_reconfirm_attempt now (record_reprobe_attempt now s)
        in case bootloader_evidence re rx s of None \<Rightarrow> s | Some matched \<Rightarrow> bootloader_stuck now matched s)"

text \<open>A probe that raised (\<open>exc\<close> is the name of the exception).\<close>

definition reprobe_raised :: "reprobe_env \<Rightarrow> seconds \<Rightarrow> bool \<Rightarrow> string \<Rightarrow> session_rt \<Rightarrow> session_rt" where
  "reprobe_raised m now same exc s =
     (if same \<and> ss_state s \<notin> {FLASHING, RELEASED} \<and> \<not> re_handoff_frozen m
      then record_reprobe_attempt now (set_last_error (Some (''REPROBE_FAILED:'' @ exc)) (set_sess_state now ATTACHED s))
      else s)"

section \<open>Sessions without a prompt\<close>

definition passthrough_ready_in_s :: "seconds \<Rightarrow> session_rt \<Rightarrow> seconds option" where
  "passthrough_ready_in_s now s =
     (if \<not> passthrough s \<or> ss_state s \<noteq> ATTACHED then None
      else case ss_passthrough_quiet_since s of
        None \<Rightarrow> Some (py_round1 PASSTHROUGH_READY_QUIET_S)
      | Some since \<Rightarrow> Some (py_round1 (max 0 (PASSTHROUGH_READY_QUIET_S - (now - since)))))"

text \<open>One round of the loop of \<open>_promote_quiet_passthrough_locked\<close>; \<open>blocked\<close> that a drain, a release or flashing is under way. The second
  value says whether the session was promoted.\<close>

definition promote_quiet_passthrough :: "seconds \<Rightarrow> bool \<Rightarrow> session_rt \<Rightarrow> session_rt \<times> bool" where
  "promote_quiet_passthrough now blocked s =
     (if \<not> passthrough s \<or> ss_state s \<noteq> ATTACHED then (s, False)
      else if ss_bridge s = None \<or> blocked then (s, False)
      else case ss_passthrough_quiet_since s of
        None \<Rightarrow> (s\<lparr>ss_passthrough_quiet_since := Some now\<rparr>, False)
      | Some since \<Rightarrow>
          if now - since < PASSTHROUGH_READY_QUIET_S then (s, False)
          else (reset_reprobe_progress ((set_last_error None (confirm_ready now (set_sess_state now READY s)))
                  \<lparr>ss_recovering := False, ss_pending_auto_login := False\<rparr>), True))"


section \<open>A bridge becomes the bridge of the session\<close>

text \<open>The end of \<open>_attach_by_id\<close>: the bridge that was opened is published, with the result of the probe that ran on it.\<close>

definition take_bridge :: "seconds \<Rightarrow> session_rt \<Rightarrow> session_rt" where
  "take_bridge now s =
     push_tx_gate now (push_probe_gate
       (s\<lparr>ss_bridge := ss_attach_bridge s, ss_attach_bridge := None, ss_bridge_generation := Suc (ss_bridge_generation s)\<rparr>))"

definition adopt_bridge :: "seconds \<Rightarrow> bool \<Rightarrow> string option \<Rightarrow> string option \<Rightarrow> session_rt \<Rightarrow> session_rt" where
  "adopt_bridge now ok err err_detail s =
     (let s = take_bridge now s
      in if ok then
           reset_reprobe_progress ((set_last_error None (confirm_ready now (set_sess_state now READY s)))
             \<lparr>ss_recovering := False, ss_pending_auto_login := False\<rparr>)
         else
           let s = (set_last_error err (set_sess_state now ATTACHED s))\<lparr>ss_last_error_detail := err_detail, ss_recovering := False\<rparr>
           in if passthrough s then reset_passthrough_boot_gate now (s\<lparr>ss_pending_auto_login := False\<rparr>) else s)"

end
