(* ===== verification/Session_Steps.thy ===== *)
theory Session_Steps
  imports Session_Reprobe
begin

text \<open>
  The gates of a session in every interleaving of what the manager does to it (\<open>sw_core/session_manager.py\<close>): data from the device, reboot
  commands, questions of agents, ticks, the halves of probes, attaching and detaching, leases, the operations on the fence, and anything
  else that leaves the fields of the gates alone. Steps are labelled: one arms the gate, confirms the session, starts a login run, or does none
  of these.
\<close>

section \<open>The gates in closed form\<close>

definition published :: "seconds \<Rightarrow> session_rt \<Rightarrow> session_rt" where
  "published now s =
     on_target (set_tx_gate (ss_bridge_generation s)
       (\<not> passthrough s \<and> (boot_quiet_active now s \<or> ss_ready_reconfirm_pending s)) (lease_owner_of s)) s"

definition failed_now :: "session_rt \<Rightarrow> session_rt" where
  "failed_now s = s\<lparr>ss_ready_reconfirm_pending := False, ss_ready_reconfirm_failed := True, ss_boot_evidence_wait_until := 0\<rparr>"

lemma on_target_none [simp]: "\<not> has_target s \<Longrightarrow> on_target f s = s"
  by (cases s) (simp add: has_target_def on_target_def)

lemma push_not_pending: "\<not> ss_ready_reconfirm_pending s \<Longrightarrow> push_tx_gate now s = published now s"
  by (cases "has_target s")
     (simp_all add: push_tx_gate.simps agent_gate_active.simps expire_ready_reconfirm.simps published_def)

lemma expire_eq:
  "expire_ready_reconfirm now force s =
     (if ss_ready_reconfirm_pending s \<and> reconfirm_over now force s then (published now (failed_now s), True) else (s, False))"
  by (simp add: expire_ready_reconfirm.simps failed_now_def push_not_pending)

definition settled :: "seconds \<Rightarrow> session_rt \<Rightarrow> session_rt" where
  "settled now s = fst (expire_ready_reconfirm now False s)"

lemma agent_gate_eq:
  "agent_gate_active now s =
     (if passthrough s then (s, False)
      else (settled now s, boot_quiet_active now (settled now s) \<or> ss_ready_reconfirm_pending (settled now s)))"
  by (simp add: agent_gate_active.simps settled_def split: prod.split)

text \<open>The fields the gates are made of.\<close>

definition gate_part where
  "gate_part s = (ss_profile s, ss_boot_quiet_until s, ss_ready_reconfirm_pending s, ss_ready_reconfirm_deadline s,
     ss_ready_reconfirm_attempts s, ss_ready_reconfirm_failed s, ss_login_gen s)"

lemma on_target_fields [simp]:
  "ss_session_id (on_target f s) = ss_session_id s" "ss_profile (on_target f s) = ss_profile s"
  "ss_bridge_generation (on_target f s) = ss_bridge_generation s" "ss_login_gen (on_target f s) = ss_login_gen s"
  "ss_interactive_session_id (on_target f s) = ss_interactive_session_id s" "ss_boot_quiet_until (on_target f s) = ss_boot_quiet_until s"
  "ss_boot_banner_tail (on_target f s) = ss_boot_banner_tail s" "ss_ready_reconfirm_pending (on_target f s) = ss_ready_reconfirm_pending s"
  "ss_ready_reconfirm_deadline (on_target f s) = ss_ready_reconfirm_deadline s"
  "ss_ready_reconfirm_attempts (on_target f s) = ss_ready_reconfirm_attempts s"
  "ss_ready_reconfirm_failed (on_target f s) = ss_ready_reconfirm_failed s"
  "ss_boot_evidence_wait_until (on_target f s) = ss_boot_evidence_wait_until s" "ss_state (on_target f s) = ss_state s"
  "ss_last_error (on_target f s) = ss_last_error s" "ss_bridge (on_target f s) = map_option f (ss_bridge s)"
  "has_target (on_target f s) = has_target s"
  by (auto simp: on_target_def has_target_def split: option.split)

lemma published_fields [simp]:
  "ss_session_id (published now s) = ss_session_id s" "ss_profile (published now s) = ss_profile s"
  "ss_bridge_generation (published now s) = ss_bridge_generation s" "ss_login_gen (published now s) = ss_login_gen s"
  "ss_boot_quiet_until (published now s) = ss_boot_quiet_until s" "ss_boot_banner_tail (published now s) = ss_boot_banner_tail s"
  "ss_ready_reconfirm_pending (published now s) = ss_ready_reconfirm_pending s"
  "ss_ready_reconfirm_deadline (published now s) = ss_ready_reconfirm_deadline s"
  "ss_ready_reconfirm_attempts (published now s) = ss_ready_reconfirm_attempts s"
  "ss_ready_reconfirm_failed (published now s) = ss_ready_reconfirm_failed s"
  "ss_boot_evidence_wait_until (published now s) = ss_boot_evidence_wait_until s" "ss_state (published now s) = ss_state s"
  "ss_last_error (published now s) = ss_last_error s" "has_target (published now s) = has_target s"
  by (simp_all add: published_def)

lemma failed_now_fields [simp]:
  "ss_profile (failed_now s) = ss_profile s" "ss_login_gen (failed_now s) = ss_login_gen s" "ss_bridge (failed_now s) = ss_bridge s"
  "ss_boot_quiet_until (failed_now s) = ss_boot_quiet_until s" "ss_boot_banner_tail (failed_now s) = ss_boot_banner_tail s"
  "\<not> ss_ready_reconfirm_pending (failed_now s)" "ss_ready_reconfirm_failed (failed_now s)" "ss_state (failed_now s) = ss_state s"
  "ss_ready_reconfirm_deadline (failed_now s) = ss_ready_reconfirm_deadline s" "ss_last_error (failed_now s) = ss_last_error s"
  "ss_ready_reconfirm_attempts (failed_now s) = ss_ready_reconfirm_attempts s" "has_target (failed_now s) = has_target s"
  by (simp_all add: failed_now_def has_target_def)

lemma boot_quiet_active_cong: "ss_boot_quiet_until s = ss_boot_quiet_until t \<Longrightarrow> boot_quiet_active now s = boot_quiet_active now t"
  by (simp add: boot_quiet_active_def)

lemma published_twice: "has_target s \<Longrightarrow> published now (published now s) = published now s"
  by (cases s) (auto simp: published_def on_target_def set_tx_gate_def boot_quiet_active_def lease_owner_of_def has_target_def
      option.map_comp comp_def split: option.split)

lemma push_eq: "push_tx_gate now s = (if has_target s \<and> \<not> passthrough s then published now (settled now s) else published now s)"
proof (cases "has_target s")
  case True
  show ?thesis
  proof (cases "passthrough s")
    case False
    moreover have "passthrough (settled now s) = passthrough s" by (simp add: settled_def expire_eq)
    ultimately show ?thesis using True by (simp add: push_tx_gate.simps agent_gate_eq published_def)
  qed (use True in \<open>simp add: push_tx_gate.simps agent_gate_eq published_def\<close>)
qed (simp add: push_tx_gate.simps published_def)


section \<open>What holds of the gates\<close>

text \<open>The fields: a confirmation is pending or has failed, not both; while it is pending its deadline and its number of attempts are
  bounded; the quiet window ends in time.\<close>

definition core_ok :: "seconds \<Rightarrow> session_rt \<Rightarrow> bool" where
  "core_ok now s \<longleftrightarrow>
     0 \<le> now \<and> ss_boot_quiet_until s \<le> now + BOOT_QUIET_WINDOW_S
     \<and> (ss_ready_reconfirm_pending s \<longrightarrow>
          \<not> ss_ready_reconfirm_failed s \<and> 0 < ss_ready_reconfirm_deadline s
          \<and> ss_ready_reconfirm_deadline s \<le> now + READY_RECONFIRM_MAX_S
          \<and> ss_ready_reconfirm_attempts s < READY_RECONFIRM_MAX_ATTEMPTS)"

text \<open>The fence of the bridge: it knows the quiet window and the login run, and it stops agents while the gate is shut.\<close>

definition probe_ok :: "session_rt \<Rightarrow> bool" where
  "probe_ok s \<longleftrightarrow>
     (\<forall>g \<in> set_option (ss_bridge s).
        tf_probe_quiet_until g = (if unlocks s then 0 else ss_boot_quiet_until s)
        \<and> tf_self_test_quiet_until g = ss_boot_quiet_until s \<and> ss_login_gen s \<le> tf_login_gen_floor g)"

definition tx_ok :: "seconds \<Rightarrow> session_rt \<Rightarrow> bool" where
  "tx_ok now s \<longleftrightarrow>
     (\<forall>g \<in> set_option (ss_bridge s).
        \<not> passthrough s \<and> (boot_quiet_active now s \<or> ss_ready_reconfirm_pending s) \<longrightarrow> tf_gate_quiet g)"

definition gates_ok :: "seconds \<Rightarrow> session_rt \<Rightarrow> bool" where
  "gates_ok now s \<longleftrightarrow> core_ok now s \<and> probe_ok s \<and> tx_ok now s"

lemma core_ok_cong: "gate_part s = gate_part t \<Longrightarrow> core_ok now s = core_ok now t"
  by (simp add: core_ok_def gate_part_def)

lemma gates_ok_cong: "gate_part s = gate_part t \<Longrightarrow> ss_bridge s = ss_bridge t \<Longrightarrow> gates_ok now s = gates_ok now t"
  by (simp add: gates_ok_def core_ok_def probe_ok_def tx_ok_def gate_part_def boot_quiet_active_def)

lemma core_ok_published [simp]: "core_ok now (published t s) = core_ok now s"
  by (simp add: core_ok_def)

lemma core_ok_failed [intro]: "core_ok now s \<Longrightarrow> core_ok now (failed_now s)"
  by (simp add: core_ok_def)

lemma published_bridge: "ss_bridge (published now s) = map_option (set_tx_gate (ss_bridge_generation s)
       (\<not> passthrough s \<and> (boot_quiet_active now s \<or> ss_ready_reconfirm_pending s)) (lease_owner_of s)) (ss_bridge s)"
  by (simp add: published_def)

lemma probe_ok_published [simp]: "probe_ok (published now s) = probe_ok s"
  by (cases "ss_bridge s") (simp_all add: probe_ok_def published_bridge set_tx_gate_def)

lemma probe_ok_failed [simp]: "probe_ok (failed_now s) = probe_ok s"
  by (simp add: probe_ok_def)

lemma probe_ok_push [simp]: "probe_ok (push_probe_gate s)"
  by (cases "ss_bridge s") (simp_all add: probe_ok_def push_probe_gate_def set_probe_gate_def)

lemma tx_ok_published [simp]: "tx_ok now (published now s)"
  by (cases "ss_bridge s") (auto simp: tx_ok_def published_bridge set_tx_gate_def boot_quiet_active_def)

lemma core_ok_settled [intro]: "core_ok now s \<Longrightarrow> core_ok now (settled now s)"
  by (auto simp: settled_def expire_eq)

lemma push_core_ok [intro]: "core_ok now s \<Longrightarrow> core_ok now (push_tx_gate now s)"
  by (auto simp: push_eq)

lemma push_probe_ok [simp]: "probe_ok (push_tx_gate now s) = probe_ok s"
  by (simp add: push_eq settled_def expire_eq)

lemma push_tx_ok [simp]: "tx_ok now (push_tx_gate now s)"
  by (simp add: push_eq)

lemma push_gates_ok [intro]: "core_ok now s \<Longrightarrow> probe_ok s \<Longrightarrow> gates_ok now (push_tx_gate now s)"
  by (auto simp: gates_ok_def)

lemma expire_gates_ok: "gates_ok now s \<Longrightarrow> gates_ok now (fst (expire_ready_reconfirm now force s))"
  by (auto simp: expire_eq gates_ok_def)

lemma push_probe_raw [simp]:
  "ss_profile (push_probe_gate s) = ss_profile s" "ss_boot_quiet_until (push_probe_gate s) = ss_boot_quiet_until s"
  "ss_ready_reconfirm_pending (push_probe_gate s) = ss_ready_reconfirm_pending s"
  "ss_ready_reconfirm_deadline (push_probe_gate s) = ss_ready_reconfirm_deadline s"
  "ss_ready_reconfirm_attempts (push_probe_gate s) = ss_ready_reconfirm_attempts s"
  "ss_ready_reconfirm_failed (push_probe_gate s) = ss_ready_reconfirm_failed s"
  "ss_boot_banner_tail (push_probe_gate s) = ss_boot_banner_tail s" "has_target (push_probe_gate s) = has_target s"
  by (simp_all add: push_probe_gate_def)

lemma push_probe_fields [simp]:
  "gate_part (push_probe_gate s) = gate_part s" "ss_bridge_generation (push_probe_gate s) = ss_bridge_generation s"
  "ss_state (push_probe_gate s) = ss_state s" "ss_login_gen (push_probe_gate s) = ss_login_gen s"
  "core_ok now (push_probe_gate s) = core_ok now s" "tx_ok now (push_probe_gate s) = tx_ok now s"
  by (cases "ss_bridge s"; simp add: push_probe_gate_def gate_part_def core_ok_def tx_ok_def set_probe_gate_def boot_quiet_active_def)+

lemma arm_gates_ok: "core_ok now s \<Longrightarrow> gates_ok now (arm_boot_quiet now s)"
  unfolding arm_boot_quiet_def Let_def
  by (intro push_gates_ok) (auto simp: core_ok_def BOOT_QUIET_WINDOW_S_def READY_RECONFIRM_MAX_S_def READY_RECONFIRM_MAX_ATTEMPTS_def)

lemma clear_gates_ok: "core_ok now s \<Longrightarrow> gates_ok now (clear_boot_quiet now s)"
  unfolding clear_boot_quiet_def by (intro push_gates_ok) (auto simp: core_ok_def BOOT_QUIET_WINDOW_S_def)

lemma confirm_gates_ok: "core_ok now s \<Longrightarrow> gates_ok now (confirm_ready now s)"
  using clear_gates_ok [of now s] unfolding confirm_ready_def
  by (intro push_gates_ok) (simp_all add: gates_ok_def core_ok_def probe_ok_def)

lemma reset_gates_ok: "core_ok now s \<Longrightarrow> gates_ok now (reset_passthrough_boot_gate now s)"
  unfolding reset_passthrough_boot_gate_def by (intro push_gates_ok) (auto simp: core_ok_def BOOT_QUIET_WINDOW_S_def)

lemma login_run_gates_ok: "gates_ok now s \<Longrightarrow> gates_ok now (fst (begin_login_run s))"
  by (simp add: begin_login_run_def Let_def gates_ok_def) (simp add: core_ok_def tx_ok_def boot_quiet_active_def)

lemma gates_ok_time: "gates_ok now s \<Longrightarrow> now \<le> t \<Longrightarrow> gates_ok t s"
  by (auto simp: gates_ok_def core_ok_def tx_ok_def boot_quiet_active_def)

section \<open>Operations that leave the gates alone\<close>

named_theorems gate_frame

lemma frame_last_error [gate_frame]: "gate_part (set_last_error v s) = gate_part s" "ss_bridge (set_last_error v s) = ss_bridge s"
  by (simp_all add: gate_part_def set_last_error_def)

lemma frame_set_state [gate_frame]: "gate_part (set_sess_state now v s) = gate_part s" "ss_bridge (set_sess_state now v s) = ss_bridge s"
  by (simp_all add: gate_part_def set_sess_state_def Let_def)

lemma frame_progress [gate_frame]: "gate_part (reset_reprobe_progress s) = gate_part s" "ss_bridge (reset_reprobe_progress s) = ss_bridge s"
  by (simp_all add: gate_part_def reset_reprobe_progress_def)

lemma frame_attempt [gate_frame]: "gate_part (record_reprobe_attempt now s) = gate_part s" "ss_bridge (record_reprobe_attempt now s) = ss_bridge s"
  by (simp_all add: gate_part_def record_reprobe_attempt_def Let_def)

lemma frame_rx [gate_frame]: "gate_part (mark_session_rx now s) = gate_part s" "ss_bridge (mark_session_rx now s) = ss_bridge s"
  by (simp_all add: gate_part_def mark_session_rx_def)

lemma frame_evidence [gate_frame]: "gate_part (note_boot_evidence s) = gate_part s" "ss_bridge (note_boot_evidence s) = ss_bridge s"
  "gate_part (begin_boot_evidence_wait now s) = gate_part s" "ss_bridge (begin_boot_evidence_wait now s) = ss_bridge s"
  by (simp_all add: gate_part_def note_boot_evidence_def begin_boot_evidence_wait_def)

lemma frame_fields [gate_frame]:
  "gate_part (s\<lparr>ss_boot_banner_tail := t\<rparr>) = gate_part s" "gate_part (s\<lparr>ss_next_reprobe_at := n\<rparr>) = gate_part s"
  "gate_part (s\<lparr>ss_reprobe_exhausted := x\<rparr>) = gate_part s" "gate_part (s\<lparr>ss_last_error_detail := d\<rparr>) = gate_part s"
  "gate_part (s\<lparr>ss_recovering := x\<rparr>) = gate_part s" "gate_part (s\<lparr>ss_pending_auto_login := x\<rparr>) = gate_part s"
  "gate_part (s\<lparr>ss_passthrough_quiet_since := q\<rparr>) = gate_part s" "gate_part (s\<lparr>ss_bridge := b\<rparr>) = gate_part s"
  "gate_part (s\<lparr>ss_attach_bridge := b\<rparr>) = gate_part s" "gate_part (s\<lparr>ss_bridge_generation := n'\<rparr>) = gate_part s"
  "gate_part (s\<lparr>ss_interactive_session_id := i\<rparr>) = gate_part s"
  by (simp_all add: gate_part_def)

lemma gates_ok_frame:
  "gate_part (f s) = gate_part s \<Longrightarrow> ss_bridge (f s) = ss_bridge s \<Longrightarrow> gates_ok now (f s) = gates_ok now s"
  by (rule gates_ok_cong)

lemma gates_ok_simps [simp]:
  "gates_ok now (set_last_error v s) = gates_ok now s" "gates_ok now (set_sess_state t v' s) = gates_ok now s"
  "gates_ok now (reset_reprobe_progress s) = gates_ok now s" "gates_ok now (record_reprobe_attempt t s) = gates_ok now s"
  "gates_ok now (mark_session_rx t s) = gates_ok now s" "gates_ok now (note_boot_evidence s) = gates_ok now s"
  "gates_ok now (begin_boot_evidence_wait t s) = gates_ok now s" "gates_ok now (s\<lparr>ss_boot_banner_tail := x\<rparr>) = gates_ok now s"
  "gates_ok now (s\<lparr>ss_next_reprobe_at := n\<rparr>) = gates_ok now s" "gates_ok now (s\<lparr>ss_reprobe_exhausted := e\<rparr>) = gates_ok now s"
  "gates_ok now (s\<lparr>ss_last_error_detail := d\<rparr>) = gates_ok now s" "gates_ok now (s\<lparr>ss_recovering := e\<rparr>) = gates_ok now s"
  "gates_ok now (s\<lparr>ss_pending_auto_login := e\<rparr>) = gates_ok now s" "gates_ok now (s\<lparr>ss_passthrough_quiet_since := q\<rparr>) = gates_ok now s"
  by (rule gates_ok_cong; simp add: gate_frame)+


section \<open>Steps\<close>

datatype gate_label = L_arm | L_confirm | L_login | L_step

text \<open>Data in which the manager sees a boot banner.\<close>

definition banner_in :: "string \<Rightarrow> session_rt \<Rightarrow> bool" where
  "banner_in text s \<longleftrightarrow>
     \<not> passthrough s \<and> clean_text text \<noteq> []
     \<and> detect_boot_banner (last_chars BOOT_BANNER_TAIL_CHARS (ss_boot_banner_tail s) @ clean_text text)"

text \<open>What else happens at the fence of a bridge.\<close>

definition fence_ops :: "(tx_fence \<Rightarrow> tx_fence) set" where
  "fence_ops = {freeze_tx, thaw_tx, fst \<circ> invalidate_deferred} \<union> range revoke_ops \<union> range set_flash_mode
     \<union> {append_deferred c bs n | c bs n. True}"

inductive gate_step :: "regexes \<Rightarrow> gate_label \<Rightarrow> seconds \<times> session_rt \<Rightarrow> seconds \<times> session_rt \<Rightarrow> bool" for re where
  step_time: "now \<le> t \<Longrightarrow> gate_step re L_step (now, s) (t, s)"
| step_banner: "banner_in text s \<Longrightarrow> gate_step re L_arm (now, s) (now, on_bridge_rx re now text s)"
| step_rx: "\<not> banner_in text s \<Longrightarrow> gate_step re L_step (now, s) (now, on_bridge_rx re now text s)"
| step_reboot: "gate_step re L_arm (now, s) (now, arm_boot_quiet now s)"
| step_prompt_back: "gate_step re L_step (now, s) (now, begin_boot_evidence_wait now (clear_boot_quiet now s))"
| step_ask: "gate_step re L_step (now, s) (now, fst (agent_gate_reject now s))"
| step_prepare: "gate_step re L_step (now, s) (now, fst (prepare_reprobe m now inflight s))"
| step_valid: "gate_step re L_step (now, s) (now, fst (reprobe_target_still_valid re m now same rx s))"
| step_login: "probe_begin m now same s = (t, Probe_run p) \<Longrightarrow> gate_step re L_login (now, s) (now, t)"
| step_no_login: "probe_begin m now same s = (t, r) \<Longrightarrow> \<forall>p. r \<noteq> Probe_run p \<Longrightarrow> gate_step re L_step (now, s) (now, t)"
| step_probe_ok: "gate_step re L_confirm (now, s) (now, probe_settle m now same True err detail refused s)"
| step_probe_failed: "gate_step re L_step (now, s) (now, probe_settle m now same False err detail refused s)"
| step_finish: "gate_step re L_step (now, s) (now, finish_probe_reprobe re m now same result rx s)"
| step_raised: "gate_step re L_step (now, s) (now, reprobe_raised m now same exc s)"
| step_attach_ready: "ss_attach_bridge s \<noteq> None \<Longrightarrow> gate_step re L_confirm (now, s) (now, adopt_bridge now True err detail s)"
| step_attach: "ss_attach_bridge s \<noteq> None \<Longrightarrow> \<not> passthrough s \<Longrightarrow> gate_step re L_step (now, s) (now, adopt_bridge now False err detail s)"
| step_attach_console: "ss_attach_bridge s \<noteq> None \<Longrightarrow> passthrough s \<Longrightarrow> gate_step re L_confirm (now, s) (now, adopt_bridge now False err detail s)"
| step_self_test: "gate_step re L_confirm (now, s) (now, confirm_ready now s)"
| step_promote: "gate_step re L_confirm (now, s) (now, fst (promote_quiet_passthrough now blocked s))"
| step_lease: "gate_step re L_step (now, s) (now, push_tx_gate now (s\<lparr>ss_interactive_session_id := i\<rparr>))"
| step_fence: "f \<in> fence_ops \<Longrightarrow> gate_step re L_step (now, s) (now, s\<lparr>ss_bridge := map_option f (ss_bridge s)\<rparr>)"
| step_detach: "gate_step re L_step (now, s) (now, s\<lparr>ss_bridge := None\<rparr>)"
| step_other: "gate_part t = gate_part s \<Longrightarrow> ss_bridge t = ss_bridge s \<Longrightarrow> gate_step re L_step (now, s) (now, t)"

inductive gate_run :: "regexes \<Rightarrow> gate_label list \<Rightarrow> seconds \<times> session_rt \<Rightarrow> seconds \<times> session_rt \<Rightarrow> bool" for re where
  run_nil: "gate_run re [] c c"
| run_snoc: "gate_run re ls c d \<Longrightarrow> gate_step re l d e \<Longrightarrow> gate_run re (ls @ [l]) c e"

section \<open>Every step keeps the gates\<close>

lemma gates_ok_core: "gates_ok now s \<Longrightarrow> core_ok now s"
  by (simp add: gates_ok_def)

lemma update_gates_ok: "gates_ok now s \<Longrightarrow> gates_ok now (update_boot_quiet re now chunk s)"
  by (auto simp: update_boot_quiet_def Let_def intro!: arm_gates_ok clear_gates_ok gates_ok_core)

lemma rx_gates_ok: "gates_ok now s \<Longrightarrow> gates_ok now (on_bridge_rx re now text s)"
  by (auto simp: on_bridge_rx_def Let_def intro!: update_gates_ok)

lemma settled_gates_ok: "gates_ok now s \<Longrightarrow> gates_ok now (settled now s)"
  unfolding settled_def by (rule expire_gates_ok)

lemma agent_gate_gates_ok: "gates_ok now s \<Longrightarrow> gates_ok now (fst (agent_gate_active now s))"
  by (simp add: agent_gate_eq settled_gates_ok)

lemma reject_gates_ok: "gates_ok now s \<Longrightarrow> gates_ok now (fst (agent_gate_reject now s))"
  using settled_gates_ok [of now s] settled_gates_ok [of now "settled now s"]
  by (auto simp: agent_gate_reject_def agent_gate_eq settled_def split: prod.splits)

lemma launch_gates_ok: "gates_ok now s \<Longrightarrow> gates_ok now (fst (reprobe_launch t inflight s))"
  by (simp add: reprobe_launch_def)

lemma candidate_gates_ok: "gates_ok now s \<Longrightarrow> gates_ok now (fst (reprobe_candidate m now inflight s))"
  by (simp add: reprobe_candidate_def Let_def launch_gates_ok expire_gates_ok)

lemma prepare_gates_ok: "gates_ok now s \<Longrightarrow> gates_ok now (fst (prepare_reprobe m now inflight s))"
  by (simp add: prepare_reprobe_def candidate_gates_ok expire_gates_ok)

lemma valid_gates_ok: "gates_ok now s \<Longrightarrow> gates_ok now (fst (reprobe_target_still_valid re m now same rx s))"
  by (simp add: reprobe_target_still_valid_def Let_def expire_gates_ok)

lemma begin_gates_ok: "gates_ok now s \<Longrightarrow> gates_ok now (fst (probe_begin m now same s))"
  using login_run_gates_ok [of now s] by (auto simp: probe_begin_def split: prod.split)

lemma settle_gates_ok: "gates_ok now s \<Longrightarrow> gates_ok now (probe_settle m now same ok err detail refused s)"
  by (auto simp: probe_settle_def Let_def intro!: confirm_gates_ok gates_ok_core)

lemma count_gates_ok: "gates_ok now s \<Longrightarrow> gates_ok now (count_reconfirm_attempt now s)"
proof (cases "ss_ready_reconfirm_pending s")
  case True
  let ?s = "s\<lparr>ss_ready_reconfirm_attempts := Suc (ss_ready_reconfirm_attempts s)\<rparr>"
  assume g: "gates_ok now s"
  show ?thesis
  proof (cases "reconfirm_over now False ?s")
    case over: True
    moreover have "probe_ok ?s" using g by (simp add: gates_ok_def probe_ok_def)
    ultimately show ?thesis using g True by (simp add: count_reconfirm_attempt_def expire_eq gates_ok_def core_ok_def)
  next
    case False
    then have "Suc (ss_ready_reconfirm_attempts s) < READY_RECONFIRM_MAX_ATTEMPTS" by (simp add: reconfirm_over_def)
    then show ?thesis using g True False
      by (simp add: count_reconfirm_attempt_def expire_eq gates_ok_def core_ok_def probe_ok_def tx_ok_def boot_quiet_active_def)
  qed
qed (simp add: count_reconfirm_attempt_def)

lemma stuck_gates_ok: "gates_ok now s \<Longrightarrow> gates_ok now (bootloader_stuck now matched s)"
  by (simp add: bootloader_stuck_def expire_gates_ok)

lemma finish_gates_ok: "gates_ok now s \<Longrightarrow> gates_ok now (finish_probe_reprobe re m now same result rx s)"
  by (simp add: finish_probe_reprobe_def Let_def count_gates_ok stuck_gates_ok split: option.split)

lemma raised_gates_ok: "gates_ok now s \<Longrightarrow> gates_ok now (reprobe_raised m now same exc s)"
  by (simp add: reprobe_raised_def)

lemma take_gates_ok: "core_ok now s \<Longrightarrow> gates_ok now (take_bridge now s)"
  unfolding take_bridge_def by (intro push_gates_ok) (simp_all add: core_ok_def)

lemma adopt_gates_ok: "core_ok now s \<Longrightarrow> gates_ok now (adopt_bridge now ok err detail s)"
  by (auto simp: adopt_bridge_def Let_def intro!: confirm_gates_ok reset_gates_ok gates_ok_core dest: take_gates_ok)

lemma promote_gates_ok: "gates_ok now s \<Longrightarrow> gates_ok now (fst (promote_quiet_passthrough now blocked s))"
  by (auto simp: promote_quiet_passthrough_def split: option.split intro!: confirm_gates_ok gates_ok_core)

lemma fence_op_fields:
  "f \<in> fence_ops \<Longrightarrow> tf_gate_quiet (f g) = tf_gate_quiet g \<and> tf_probe_quiet_until (f g) = tf_probe_quiet_until g
     \<and> tf_self_test_quiet_until (f g) = tf_self_test_quiet_until g \<and> tf_login_gen_floor (f g) = tf_login_gen_floor g"
  by (auto simp: fence_ops_def freeze_tx_def thaw_tx_def invalidate_deferred_def revoke_ops_def set_flash_mode_def append_deferred_def Let_def
      split: if_splits)

lemma fence_gates_ok: "f \<in> fence_ops \<Longrightarrow> gates_ok now s \<Longrightarrow> gates_ok now (s\<lparr>ss_bridge := map_option f (ss_bridge s)\<rparr>)"
  using fence_op_fields [of f]
  by (cases "ss_bridge s") (simp_all add: gates_ok_def core_ok_def probe_ok_def tx_ok_def boot_quiet_active_def)

lemma lease_gates_ok: "gates_ok now s \<Longrightarrow> gates_ok now (push_tx_gate now (s\<lparr>ss_interactive_session_id := i\<rparr>))"
  by (intro push_gates_ok) (simp_all add: gates_ok_def core_ok_def probe_ok_def)

lemma detach_gates_ok: "gates_ok now s \<Longrightarrow> gates_ok now (s\<lparr>ss_bridge := None\<rparr>)"
  by (simp add: gates_ok_def core_ok_def probe_ok_def tx_ok_def)

lemmas step_gates_ok_rules = gates_ok_core arm_gates_ok rx_gates_ok clear_gates_ok reject_gates_ok prepare_gates_ok valid_gates_ok
  settle_gates_ok finish_gates_ok raised_gates_ok adopt_gates_ok confirm_gates_ok promote_gates_ok lease_gates_ok fence_gates_ok detach_gates_ok
  gates_ok_time

lemma step_gates_ok: "gate_step re l c d \<Longrightarrow> gates_ok (fst c) (snd c) \<Longrightarrow> gates_ok (fst d) (snd d)"
proof (induction rule: gate_step.induct)
  case (step_login m now same s t p)
  then show ?case using begin_gates_ok [of now s m same] by simp
next
  case (step_no_login m now same s t r)
  then show ?case using begin_gates_ok [of now s m same] by simp
next
  case (step_other t s now)
  then show ?case using gates_ok_cong by (metis fst_conv snd_conv)
qed (simp_all add: step_gates_ok_rules)

lemma run_gates_ok: "gate_run re ls c d \<Longrightarrow> gates_ok (fst c) (snd c) \<Longrightarrow> gates_ok (fst d) (snd d)"
  by (induction rule: gate_run.induct) (blast dest: step_gates_ok)+

lemma new_gates_ok: "0 \<le> now \<Longrightarrow> gates_ok now (new_session sid sp)"
  by (simp add: gates_ok_def core_ok_def probe_ok_def tx_ok_def new_session_def BOOT_QUIET_WINDOW_S_def)

end
