(* ===== verification/Session_Theorems.thy ===== *)
theory Session_Theorems
  imports Session_Steps
begin

text \<open>
  What the gates of a session guarantee (\<open>sw_core/session_manager.py\<close> with the fence of \<open>sw_core/uart_io.py\<close>): nothing but a person writes to a
  device that is booting, a revoked login never sends again, a shut gate opens only after a confirmation, and it does not stay
  undecided. Two theorems show where the code does not do what its comments say.
\<close>

section \<open>What a step does to the gate\<close>

definition eased :: "session_rt \<Rightarrow> session_rt \<Rightarrow> bool" where
  "eased s t \<longleftrightarrow>
     ss_profile t = ss_profile s \<and> ss_login_gen s \<le> ss_login_gen t
     \<and> (ss_ready_reconfirm_pending t \<longrightarrow> ss_ready_reconfirm_pending s \<and> ss_ready_reconfirm_deadline t = ss_ready_reconfirm_deadline s)
     \<and> (ss_boot_quiet_until t = ss_boot_quiet_until s \<or> ss_boot_quiet_until t = 0)"

definition gate_shut :: "session_rt \<Rightarrow> bool" where
  "gate_shut s \<longleftrightarrow> ss_ready_reconfirm_pending s \<or> ss_ready_reconfirm_failed s"

definition kept_shut :: "session_rt \<Rightarrow> session_rt \<Rightarrow> bool" where
  "kept_shut s t \<longleftrightarrow> eased s t \<and> (gate_shut s \<longrightarrow> gate_shut t)"

definition armed :: "session_rt \<Rightarrow> session_rt \<Rightarrow> bool" where
  "armed s t \<longleftrightarrow>
     ss_profile t = ss_profile s \<and> ss_login_gen s \<le> ss_login_gen t \<and> (\<not> unlocks s \<longrightarrow> ss_login_gen s < ss_login_gen t) \<and> gate_shut t"

interpretation eases: kept_relation eased
  by unfold_locales (auto simp: eased_def)

interpretation keeps: kept_relation kept_shut
  by unfold_locales (auto simp: kept_shut_def eased_def)

lemma kept_eased: "kept_shut s t \<Longrightarrow> eased s t"
  by (simp add: kept_shut_def)

lemma kept_cong: "gate_part s = gate_part t \<Longrightarrow> kept_shut s t"
  by (simp add: kept_shut_def eased_def gate_shut_def gate_part_def)

lemma kept_expire: "kept_shut s (fst (expire_ready_reconfirm now force s))"
  by (simp add: expire_eq kept_shut_def eased_def gate_shut_def)

lemma kept_push: "kept_shut s (push_tx_gate now s)"
proof -
  have "kept_shut s (settled now s)" unfolding settled_def by (rule kept_expire)
  then show ?thesis by (simp add: push_eq kept_shut_def eased_def gate_shut_def)
qed

lemma kept_push_probe: "kept_shut s (push_probe_gate s)"
  by (rule kept_cong) simp

lemma kept_clear: "kept_shut s (clear_boot_quiet now s)"
  unfolding clear_boot_quiet_def
  by (rule keeps.kept_trans [OF _ keeps.kept_trans [OF kept_push_probe kept_push]]) (simp add: kept_shut_def eased_def gate_shut_def)

lemma eased_confirm: "eased s (confirm_ready now s)"
  unfolding confirm_ready_def
  by (rule eases.kept_trans [OF _ kept_eased [OF kept_push]])
     (use kept_clear [of s now] in \<open>simp add: kept_shut_def eased_def\<close>)

lemma eased_reset: "eased s (reset_passthrough_boot_gate now s)"
  unfolding reset_passthrough_boot_gate_def
  by (rule eases.kept_trans [OF _ eases.kept_trans [OF kept_eased [OF kept_push_probe] kept_eased [OF kept_push]]]) (simp add: eased_def)

lemma armed_then: "armed s t \<Longrightarrow> kept_shut t u \<Longrightarrow> armed s u"
  by (auto simp: armed_def kept_shut_def eased_def)

lemma armed_arm: "armed s (arm_boot_quiet now s)"
  unfolding arm_boot_quiet_def Let_def
  by (rule armed_then [OF _ keeps.kept_trans [OF kept_push_probe kept_push]]) (simp add: armed_def gate_shut_def)

text \<open>What leaves the fields of the gate alone may come before and after.\<close>

lemma eased_before: "gate_part s = gate_part t \<Longrightarrow> eased t u \<Longrightarrow> eased s u"
  by (simp add: eased_def gate_part_def)

lemma eased_after: "eased s t \<Longrightarrow> gate_part u = gate_part t \<Longrightarrow> eased s u"
  by (simp add: eased_def gate_part_def)

lemma kept_before: "gate_part s = gate_part t \<Longrightarrow> kept_shut t u \<Longrightarrow> kept_shut s u"
  by (simp add: kept_shut_def eased_def gate_shut_def gate_part_def)

lemma kept_after: "kept_shut s t \<Longrightarrow> gate_part u = gate_part t \<Longrightarrow> kept_shut s u"
  by (simp add: kept_shut_def eased_def gate_shut_def gate_part_def)

lemma armed_before: "gate_part s = gate_part t \<Longrightarrow> armed t u \<Longrightarrow> armed s u"
  by (simp add: armed_def gate_part_def)

lemma kept_frame: "gate_part t = gate_part s \<Longrightarrow> kept_shut s t"
  using kept_cong by metis

lemma shut_update: "\<not> passthrough s \<Longrightarrow> \<not> detect_boot_banner (last_chars BOOT_BANNER_TAIL_CHARS (ss_boot_banner_tail s) @ chunk) \<Longrightarrow>
    kept_shut s (update_boot_quiet re now chunk s)"
  by (auto simp: update_boot_quiet_def Let_def gate_frame keeps.kept_refl intro: kept_frame kept_before [OF _ kept_clear])

lemma tail_rx [simp]: "ss_boot_banner_tail (mark_session_rx now s) = ss_boot_banner_tail s" "ss_profile (mark_session_rx now s) = ss_profile s"
  by (simp_all add: mark_session_rx_def)

lemma update_passthrough: "passthrough s \<Longrightarrow> update_boot_quiet re now chunk s = s"
  by (simp add: update_boot_quiet_def)

lemma kept_rx: "\<not> banner_in text s \<Longrightarrow> kept_shut s (on_bridge_rx re now text s)"
proof (cases "clean_text text = [] \<or> passthrough s")
  case True
  then show ?thesis
    by (auto simp: on_bridge_rx_def Let_def update_passthrough gate_frame keeps.kept_refl intro: kept_frame)
next
  case False
  assume "\<not> banner_in text s"
  with False have "kept_shut (mark_session_rx now s) (update_boot_quiet re now (clean_text text) (mark_session_rx now s))"
    by (intro shut_update) (auto simp: banner_in_def)
  then have "kept_shut s (update_boot_quiet re now (clean_text text) (mark_session_rx now s))"
    by (rule kept_before [rotated]) (simp add: gate_frame)
  then show ?thesis using False by (simp add: on_bridge_rx_def)
qed

lemma armed_rx: "banner_in text s \<Longrightarrow> armed s (on_bridge_rx re now text s)"
  by (auto simp: on_bridge_rx_def Let_def banner_in_def update_boot_quiet_def gate_frame intro!: armed_before [OF _ armed_arm])

lemma kept_ask: "kept_shut s (fst (agent_gate_reject now s))"
proof -
  have a: "kept_shut s (settled now s)" "kept_shut (settled now s) (settled now (settled now s))" for s
    unfolding settled_def by (rule kept_expire)+
  then have "kept_shut s (settled now (settled now s))" using keeps.kept_trans by blast
  then show ?thesis using a(1) [of s] keeps.kept_refl
    by (auto simp: agent_gate_reject_def agent_gate_eq settled_def split: prod.splits)
qed


lemma kept_candidate: "kept_shut s (fst (reprobe_candidate m now inflight s))"
proof -
  let ?e = "s\<lparr>ss_reprobe_exhausted := True, ss_next_reprobe_at := None\<rparr>"
  have "kept_shut s (fst (expire_ready_reconfirm now True ?e))" by (rule kept_before [OF _ kept_expire]) (simp add: gate_frame)
  moreover have "kept_shut s ?e" by (rule kept_frame) (simp add: gate_frame)
  moreover have "kept_shut s (fst (reprobe_launch now inflight s))" by (rule kept_frame) (simp add: reprobe_launch_def gate_frame)
  ultimately show ?thesis by (simp add: reprobe_candidate_def Let_def keeps.kept_refl)
qed

lemma shut_prepare: "kept_shut s (fst (prepare_reprobe m now inflight s))"
  using keeps.kept_trans [OF kept_expire kept_candidate]
  by (simp add: prepare_reprobe_def keeps.kept_refl kept_candidate)

lemma kept_valid: "kept_shut s (fst (reprobe_target_still_valid re m now same rx s))"
  using kept_expire keeps.kept_trans [OF kept_expire kept_expire]
  by (simp add: reprobe_target_still_valid_def Let_def keeps.kept_refl)

lemma login_run_kept: "kept_shut s (fst (begin_login_run s)) \<and> ss_login_gen (fst (begin_login_run s)) = Suc (ss_login_gen s)"
  by (simp add: begin_login_run_def Let_def kept_shut_def eased_def gate_shut_def)

lemma shut_begin: "probe_begin m now same s = (t, r) \<Longrightarrow> kept_shut s t"
  using login_run_kept [of s] by (auto simp: probe_begin_def keeps.kept_refl gate_frame split: prod.splits if_splits intro: kept_frame)

lemma begin_login: "probe_begin m now same s = (t, Probe_run p) \<Longrightarrow>
    ss_login_gen t = Suc (ss_login_gen s) \<and> tp_login_gen p = Some (ss_login_gen t) \<and> tp_tx_class p = Tx_system_probe \<and> ss_profile t = ss_profile s"
  by (auto simp: probe_begin_def begin_login_run_def Let_def mk_permit_def split: if_splits)

lemma kept_settle: "kept_shut s (probe_settle m now same False err detail refused s)"
  by (rule kept_frame) (simp add: probe_settle_def Let_def gate_frame)

lemma eased_settle: "eased s (probe_settle m now same ok err detail refused s)"
proof -
  have "eased s (reset_reprobe_progress (set_last_error None (confirm_ready now
      (set_sess_state now READY (s\<lparr>ss_recovering := False, ss_pending_auto_login := False\<rparr>)))))"
    by (rule eased_after [OF eased_before [OF _ eased_confirm]]) (simp_all add: gate_frame)
  then show ?thesis using kept_eased [OF kept_settle [of s m now same err detail refused]] by (auto simp: probe_settle_def Let_def)
qed

lemma kept_count: "kept_shut s (count_reconfirm_attempt now s)"
proof -
  have "kept_shut s (s\<lparr>ss_ready_reconfirm_attempts := n\<rparr>)" for n by (simp add: kept_shut_def eased_def gate_shut_def)
  from keeps.kept_trans [OF this kept_expire] show ?thesis by (simp add: count_reconfirm_attempt_def keeps.kept_refl)
qed

lemma kept_stuck: "kept_shut s (bootloader_stuck now matched s)"
  unfolding bootloader_stuck_def by (rule kept_before [OF _ kept_expire]) (simp add: gate_frame)

lemma kept_finish: "kept_shut s (finish_probe_reprobe re m now same result rx s)"
proof -
  have "kept_shut s (record_reprobe_attempt now s)" and r: "kept_shut s (reset_reprobe_progress s)"
    by (rule kept_frame; simp add: gate_frame)+
  then have u: "kept_shut s (count_reconfirm_attempt now (record_reprobe_attempt now s))" using keeps.kept_trans kept_count by blast
  show ?thesis using u r keeps.kept_trans [OF u kept_stuck]
    by (simp add: finish_probe_reprobe_def Let_def keeps.kept_refl split: option.split)
qed

lemma kept_raised: "kept_shut s (reprobe_raised m now same exc s)"
  by (rule kept_frame) (simp add: reprobe_raised_def gate_frame)

lemma kept_take: "kept_shut s (take_bridge now s)"
  unfolding take_bridge_def by (rule kept_before [OF _ keeps.kept_trans [OF kept_push_probe kept_push]]) (simp add: gate_frame)

lemma frame_profile: "gate_part t = gate_part s \<Longrightarrow> ss_profile t = ss_profile s"
  by (simp add: gate_part_def)

lemma adopted_part: "gate_part ((set_last_error err (set_sess_state now ATTACHED s))\<lparr>ss_last_error_detail := d, ss_recovering := False\<rparr>) = gate_part s"
  by (simp add: gate_frame)

lemma kept_adopt: "\<not> passthrough s \<Longrightarrow> kept_shut s (adopt_bridge now False err detail s)"
proof -
  assume p: "\<not> passthrough s"
  have "ss_profile (take_bridge now s) = ss_profile s" using kept_take [of s now] by (simp add: kept_shut_def eased_def)
  moreover note frame_profile [OF adopted_part [where err = err and now = now and s = "take_bridge now s" and d = detail]]
  ultimately show ?thesis using p kept_after [OF kept_take adopted_part] by (simp add: adopt_bridge_def Let_def)
qed

lemma eased_adopt: "eased s (adopt_bridge now ok err detail s)"
proof (cases ok)
  case True
  have "eased (take_bridge now s) (reset_reprobe_progress ((set_last_error None (confirm_ready now (set_sess_state now READY (take_bridge now s))))
      \<lparr>ss_recovering := False, ss_pending_auto_login := False\<rparr>))"
    by (rule eased_after [OF eased_before [OF _ eased_confirm]]) (simp_all add: gate_frame)
  then show ?thesis using True eases.kept_trans [OF kept_eased [OF kept_take]] by (simp add: adopt_bridge_def)
next
  case False
  let ?s = "(set_last_error err (set_sess_state now ATTACHED (take_bridge now s)))\<lparr>ss_last_error_detail := detail, ss_recovering := False\<rparr>"
  have s: "eased s ?s" by (rule eased_after [OF kept_eased [OF kept_take] adopted_part])
  have "eased ?s (reset_passthrough_boot_gate now (?s\<lparr>ss_pending_auto_login := False\<rparr>))"
    by (rule eased_before [OF _ eased_reset]) (simp add: gate_frame)
  then show ?thesis using False s eases.kept_trans [OF s] by (simp add: adopt_bridge_def Let_def)
qed

lemma eased_promote: "eased s (fst (promote_quiet_passthrough now blocked s))"
proof -
  have "eased s (reset_reprobe_progress ((set_last_error None (confirm_ready now (set_sess_state now READY s)))
      \<lparr>ss_recovering := False, ss_pending_auto_login := False\<rparr>))"
    by (rule eased_after [OF eased_before [OF _ eased_confirm]]) (simp_all add: gate_frame)
  moreover have "eased s (s\<lparr>ss_passthrough_quiet_since := q\<rparr>)" for q by (simp add: eased_def)
  ultimately show ?thesis by (simp add: promote_quiet_passthrough_def eases.kept_refl split: option.split)
qed

lemma kept_lease: "kept_shut s (push_tx_gate now (s\<lparr>ss_interactive_session_id := i\<rparr>))"
  by (rule kept_before [OF _ kept_push]) (simp add: gate_frame)

lemma kept_prompt_back: "kept_shut s (begin_boot_evidence_wait now (clear_boot_quiet now s))"
  by (rule kept_after [OF kept_clear]) (simp add: gate_frame)

section \<open>What a run does to the gate\<close>

fun follows :: "gate_label \<Rightarrow> session_rt \<Rightarrow> session_rt \<Rightarrow> bool" where
  "follows L_arm s t = armed s t"
| "follows L_confirm s t = eased s t"
| "follows L_login s t = (kept_shut s t \<and> ss_login_gen s < ss_login_gen t)"
| "follows L_step s t = kept_shut s t"

lemmas kept_rules = kept_rx armed_rx armed_arm kept_prompt_back kept_ask shut_prepare kept_valid eased_settle kept_settle kept_finish kept_raised
  eased_adopt kept_adopt eased_confirm eased_promote kept_lease keeps.kept_refl shut_begin

lemma step_follows: "gate_step re l c d \<Longrightarrow> follows l (snd c) (snd d) \<and> fst c \<le> fst d"
proof (induction rule: gate_step.induct)
  case (step_login m now same s t p)
  then show ?case using begin_login [OF step_login] shut_begin [OF step_login] by simp
next
  case (step_fence f now s)
  have "kept_shut s (s\<lparr>ss_bridge := b\<rparr>)" for b by (rule kept_frame) (simp add: gate_frame)
  then show ?case by simp
next
  case (step_detach now s)
  have "kept_shut s (s\<lparr>ss_bridge := None\<rparr>)" by (rule kept_frame) (simp add: gate_frame)
  then show ?case by simp
next
  case (step_other t s now)
  then show ?case using kept_frame by simp
qed (simp_all add: kept_rules)

lemma follows_profile: "follows l s t \<Longrightarrow> ss_profile t = ss_profile s \<and> ss_login_gen s \<le> ss_login_gen t"
  by (cases l) (auto simp: armed_def kept_shut_def eased_def)

lemma run_profile: "gate_run re ls c d \<Longrightarrow>
    ss_profile (snd d) = ss_profile (snd c) \<and> ss_login_gen (snd c) \<le> ss_login_gen (snd d) \<and> fst c \<le> fst d"
proof (induction rule: gate_run.induct)
  case (run_snoc ls c d l e)
  then show ?case using step_follows [OF run_snoc(2)] follows_profile [of l "snd d" "snd e"] by auto
qed simp

lemma run_shut: "gate_run re ls c d \<Longrightarrow> L_confirm \<notin> set ls \<Longrightarrow> gate_shut (snd c) \<Longrightarrow> gate_shut (snd d)"
proof (induction rule: gate_run.induct)
  case (run_snoc ls c d l e)
  then show ?case using step_follows [OF run_snoc(2)] by (cases l) (auto simp: armed_def kept_shut_def)
qed

lemma run_eased: "gate_run re ls c d \<Longrightarrow> L_arm \<notin> set ls \<Longrightarrow> eased (snd c) (snd d)"
proof (induction rule: gate_run.induct)
  case (run_snoc ls c d l e)
  then have "eased (snd d) (snd e)" using step_follows [OF run_snoc(2)] by (cases l) (auto simp: kept_shut_def)
  then show ?case using run_snoc eases.kept_trans by auto
qed (simp add: eases.kept_refl)

lemma run_login: "gate_run re ls c d \<Longrightarrow> L_login \<in> set ls \<or> (L_arm \<in> set ls \<and> \<not> unlocks (snd c)) \<Longrightarrow>
    ss_login_gen (snd c) < ss_login_gen (snd d)"
proof (induction rule: gate_run.induct)
  case (run_snoc ls c d l e)
  have p: "ss_profile (snd d) = ss_profile (snd c)" "ss_login_gen (snd c) \<le> ss_login_gen (snd d)" using run_profile [OF run_snoc(1)] by auto
  have f: "follows l (snd d) (snd e)" using step_follows [OF run_snoc(2)] by simp
  show ?case
  proof (cases "L_login \<in> set ls \<or> (L_arm \<in> set ls \<and> \<not> unlocks (snd c))")
    case True
    then show ?thesis using run_snoc.IH follows_profile [OF f] by simp
  next
    case False
    then show ?thesis using run_snoc.prems f p by (cases l) (auto simp: armed_def)
  qed
qed simp


section \<open>A session to show the theorems on\<close>

definition board_profile :: session_profile where
  "board_profile = \<lparr>sp_platform = ''prpl'', sp_prompt_regex = ''# '', sp_login_regex = [], sp_password_regex = [], sp_post_login_cmd = [],
     sp_ready_probe = ''echo __READY__'' @ [CHR 0x24] @ ''{nonce}'', sp_username = None, sp_user_env = None, sp_pass_env = None,
     sp_env_file = None, sp_console_unlock_env = None, sp_console_unlock_idle_s = 5, sp_timeout_s = 10,
     sp_bootloader_prompts = [], sp_com = ''COM1'', sp_device_by_id = ''usb-1'', sp_boot_done_regex = []\<rparr>"

text \<open>The session with a bridge that was opened, and after the bridge was taken over.\<close>

definition board_opened :: session_rt where
  "board_opened = (new_session ''s1'' board_profile)\<lparr>ss_attach_bridge := Some new_fence\<rparr>"

definition board_attached :: session_rt where
  "board_attached = adopt_bridge 0 False (Some ''PROMPT_UNAVAILABLE'') None board_opened"

lemma board_attached_run: "gate_run re ([L_step] @ [L_step]) (0, new_session ''s1'' board_profile) (0, board_attached)"
proof -
  have "gate_step re L_step (0, new_session ''s1'' board_profile) (0, board_opened)"
    by (rule step_other) (simp_all add: board_opened_def gate_part_def)
  from run_snoc [OF run_nil this] have r: "gate_run re [L_step] (0, new_session ''s1'' board_profile) (0, board_opened)" by simp
  have "gate_step re L_step (0, board_opened) (0, board_attached)"
    unfolding board_attached_def by (rule step_attach) (simp_all add: board_opened_def new_session_def board_profile_def)
  from run_snoc [OF r this] show ?thesis .
qed

lemma set_frame [simp]: "ss_attach_bridge (set_last_error v s) = ss_attach_bridge s" "ss_attach_bridge (set_sess_state now x s) = ss_attach_bridge s"
  by (simp_all add: set_last_error_def set_sess_state_def Let_def)

lemma bridge_kept [simp]:
  "(ss_bridge (published now s) = None) = (ss_bridge s = None)" "(ss_bridge (push_tx_gate now s) = None) = (ss_bridge s = None)"
  "(ss_bridge (push_probe_gate s) = None) = (ss_bridge s = None)" "(ss_bridge (arm_boot_quiet now s) = None) = (ss_bridge s = None)"
  "(ss_bridge (reset_passthrough_boot_gate now s) = None) = (ss_bridge s = None)"
  by (simp_all add: published_bridge push_eq settled_def expire_eq push_probe_gate_def arm_boot_quiet_def reset_passthrough_boot_gate_def Let_def)

lemma board_bridge: "ss_bridge board_attached \<noteq> None"
  by (simp add: board_attached_def adopt_bridge_def Let_def take_bridge_def gate_frame board_opened_def del: not_None_eq)

lemma board_gates: "ss_profile board_attached = board_profile" "gates_ok 0 board_attached"
  using run_profile [OF board_attached_run] run_gates_ok [OF board_attached_run] new_gates_ok [of 0] by (simp_all add: new_session_def)

section \<open>Theorems\<close>

text \<open>C40. The gates are well formed in every interleaving: a confirmation is pending or failed and not both, a pending one has a deadline at
  most 300 seconds away and fewer than 5 failed attempts, the quiet window ends within 180 seconds, and the fence of the bridge has the
  quiet window, a login generation that is not behind, and stops agents while the gate is shut.\<close>

theorem gates_well_formed:
  assumes "gate_run re ls (t0, new_session sid sp) (now, s)" "0 \<le> t0"
  shows "gates_ok now s"
  using run_gates_ok [OF assms(1)] new_gates_ok [OF assms(2)] by simp

theorem gates_well_formed_witness: "gates_ok 0 board_attached"
  by (rule gates_well_formed [OF board_attached_run [of "\<lambda>_. None"]]) simp


lemma arm_quiet: "ss_boot_quiet_until (arm_boot_quiet now s) = now + BOOT_QUIET_WINDOW_S"
  by (simp add: arm_boot_quiet_def Let_def push_eq settled_def expire_eq)


text \<open>A revoked login never sends again: once a boot banner or a reboot command was seen, or another login was started, after a login
  run got its permit, the fence of whatever bridge the session has refuses the transmissions of that run for good, also after the quiet
  window has ended.\<close>

theorem revoked_login_stays_revoked:
  assumes "gate_run re ls0 (t0, new_session sid sp) (t1, s1)" "0 \<le> t0" "probe_begin m t1 same s1 = (s2, Probe_run p)"
    and "gate_run re ls (t1, s2) (t, s)" "L_login \<in> set ls \<or> (L_arm \<in> set ls \<and> \<not> given (sp_console_unlock_env sp))"
    and "ss_bridge s = Some g"
  shows "tx_reject_reason t g p \<noteq> None"
proof -
  have one: "gate_run re (ls0 @ [L_login]) (t0, new_session sid sp) (t1, s2)"
    using run_snoc [OF assms(1) step_login [OF assms(3)]] .
  have "gates_ok t1 s2" using run_gates_ok [OF one] new_gates_ok [OF assms(2)] by simp
  then have "gates_ok t s" using run_gates_ok [OF assms(4)] by simp
  then have floor: "ss_login_gen s \<le> tf_login_gen_floor g" using assms(6) by (simp add: gates_ok_def probe_ok_def)
  have "ss_profile s2 = sp" using run_profile [OF one] by (simp add: new_session_def)
  then have "ss_login_gen s2 < ss_login_gen s" using run_login [OF assms(4)] assms(5) by simp
  with floor begin_login [OF assms(3)] show ?thesis by (intro tx_reject_stale_login) auto
qed


definition board_env :: reprobe_env where
  "board_env = \<lparr>re_released_by_ids = [], re_devices = [''usb-1''], re_leases = [], re_peers = [], re_snapshot_owner = None,
     re_last_human_input = None, re_handoff_frozen = False\<rparr>"

lemma board_fields: "ss_boot_quiet_until board_attached = 0" "ss_boot_evidence_wait_until board_attached = 0"
  "\<not> ss_ready_reconfirm_pending board_attached" "\<not> ss_ready_reconfirm_failed board_attached"
  by (simp_all add: board_attached_def adopt_bridge_def take_bridge_def push_eq settled_def expire_eq push_probe_gate_def board_opened_def
      new_session_def board_profile_def Let_def set_last_error_def set_sess_state_def)

theorem revoked_login_stays_revoked_witness:
  "\<exists>s p. probe_begin board_env 0 True board_attached = (s, Probe_run p)
     \<and> (\<exists>g. ss_bridge (arm_boot_quiet 0 s) = Some g \<and> tx_reject_reason 1000 g p \<noteq> None)"
proof -
  have "command_capable board_profile" "sp_platform board_profile \<noteq> ''passthrough''"
    by (simp_all add: command_capable_def board_profile_def py_strip_def py_lstrip_def py_rstrip_def py_space_def)
  then have "probe_begin board_env 0 True board_attached = (fst (begin_login_run board_attached), Probe_run (snd (begin_login_run board_attached)))"
    by (simp add: probe_begin_def board_fields board_gates boot_quiet_blocks_probe_def boot_quiet_active_def boot_evidence_wait_active_def
        board_env_def split: prod.split)
  then obtain s p where b: "probe_begin board_env 0 True board_attached = (s, Probe_run p)" and s: "s = fst (begin_login_run board_attached)" by blast
  have "ss_bridge s \<noteq> None" unfolding s using board_bridge by (simp add: begin_login_run_def Let_def del: not_None_eq)
  then obtain g where g: "ss_bridge (arm_boot_quiet 0 s) = Some g" by (metis bridge_kept(4) option.exhaust)
  have r: "gate_run (\<lambda>_. None) (([] @ [L_arm]) @ [L_step]) (0, s) (1000, arm_boot_quiet 0 s)"
    by (rule run_snoc [OF run_snoc [OF run_nil step_reboot] step_time]) simp
  have "tx_reject_reason 1000 g p \<noteq> None" if "ss_bridge (arm_boot_quiet 0 s) = Some g" for g
    by (rule revoked_login_stays_revoked [OF board_attached_run _ b r _ that]) (simp_all add: board_profile_def given_def)
  then show ?thesis using b g by blast
qed



text \<open>C24. The gate does not stay undecided: 300 seconds after the last boot banner or reboot command an agent is no longer told to try
  again later; the session was confirmed, or the answer is the final one.\<close>

theorem gate_decides:
  assumes "gate_run re ls0 (t0, new_session sid sp) (t1, s1)" "0 \<le> t0" "gate_run re ls (t1, s1) (t, s)" "L_arm \<notin> set ls"
    and "t1 + READY_RECONFIRM_MAX_S \<le> t"
  shows "snd (agent_gate_reject t s) \<noteq> Some (Autoboot_quiet com seconds)"
proof -
  have "core_ok t1 s1" using run_gates_ok [OF assms(1)] new_gates_ok [OF assms(2)] by (simp add: gates_ok_def)
  moreover have "eased s1 s" using run_eased [OF assms(3,4)] by simp
  ultimately have q: "ss_boot_quiet_until s \<le> t" and d: "ss_ready_reconfirm_pending s \<Longrightarrow> reconfirm_over t False s"
    using assms(5) by (auto simp: core_ok_def eased_def reconfirm_over_def READY_RECONFIRM_MAX_S_def BOOT_QUIET_WINDOW_S_def)
  have "\<not> ss_ready_reconfirm_pending (settled t s)" using d by (auto simp: settled_def expire_eq)
  moreover have "\<not> boot_quiet_active t (settled t s)" using q by (auto simp: boot_quiet_active_def settled_def expire_eq)
  ultimately show ?thesis
    by (auto simp: agent_gate_reject_def agent_gate_eq settled_def expire_eq split: prod.splits if_splits)
qed

theorem gate_decides_witness: "snd (agent_gate_reject 300 (arm_boot_quiet 0 board_attached)) \<noteq> Some (Autoboot_quiet ''COM1'' 5)"
proof (rule gate_decides [where ls = "[] @ [L_step]"])
  show "gate_run (\<lambda>_. None) (([L_step] @ [L_step]) @ [L_arm]) (0, new_session ''s1'' board_profile) (0, arm_boot_quiet 0 board_attached)"
    by (rule run_snoc [OF board_attached_run step_reboot])
  show "gate_run (\<lambda>_. None) ([] @ [L_step]) (0, arm_boot_quiet 0 board_attached) (300, arm_boot_quiet 0 board_attached)"
    by (rule run_snoc [OF run_nil step_time]) simp
qed (simp_all add: READY_RECONFIRM_MAX_S_def BOOT_QUIET_WINDOW_S_def)


section \<open>Seeing the boot banner\<close>

lemma last_chars_append: "last_chars n (a @ b) = (if length b \<ge> n then last_chars n b else last_chars (n - length b) a @ b)"
  by (auto simp: last_chars_def)

lemma contains_tail:
  assumes "py_contains p (w @ r)" "\<not> py_contains p w" "length p \<le> Suc n"
  shows "py_contains p (last_chars n w @ r)"
proof -
  obtain a b where ab: "w @ r = a @ p @ b" using assms(1) by (auto simp: py_contains_iff)
  have "length w < length a + length p"
  proof (rule ccontr)
    assume "\<not> ?thesis"
    then have "take (length w) (w @ r) = a @ p @ take (length w - length a - length p) b" using ab by simp
    then have "w = a @ p @ take (length w - length a - length p) b" by simp
    then show False using assms(2) by (metis py_contains_iff)
  qed
  then have k: "length w - n \<le> length a" using assms(3) by linarith
  have "last_chars n w @ r = drop (length w - n) (w @ r)" by (simp add: last_chars_def)
  also have "\<dots> = drop (length w - n) a @ p @ b" using k by (simp add: ab)
  finally show ?thesis by (auto simp: py_contains_iff)
qed

lemma banner_tail:
  assumes "detect_boot_banner (w @ r)" "\<not> detect_boot_banner w"
  shows "detect_boot_banner (last_chars BOOT_BANNER_TAIL_CHARS w @ r)"
proof -
  obtain p where p: "p \<in> set BOOT_BANNER_PATTERNS" "py_contains p (w @ r)"
    using assms(1) by (auto simp: detect_boot_banner_def list_ex_iff)
  have len: "p \<noteq> []" "length p \<le> Suc BOOT_BANNER_TAIL_CHARS"
    using p(1) by (auto simp: BOOT_BANNER_PATTERNS_def BOOT_BANNER_TAIL_CHARS_def)
  have "\<not> py_contains p w"
  proof
    assume "py_contains p w"
    moreover have "w \<noteq> []" using \<open>py_contains p w\<close> len by (cases w) auto
    ultimately show False using assms(2) p(1) by (auto simp: detect_boot_banner_def list_ex_iff)
  qed
  from contains_tail [OF p(2) this len(2)]
  have c: "py_contains p (last_chars BOOT_BANNER_TAIL_CHARS w @ r)" .
  then have "last_chars BOOT_BANNER_TAIL_CHARS w @ r \<noteq> []" using len by (metis py_contains.simps(1))
  then show ?thesis using c p(1) by (auto simp: detect_boot_banner_def list_ex_iff)
qed

text \<open>Data arrives in pieces, each at its time.\<close>

fun feed :: "regexes \<Rightarrow> (seconds \<times> string) list \<Rightarrow> session_rt \<Rightarrow> session_rt" where
  "feed re [] s = s"
| "feed re ((now, chunk) # cs) s = feed re cs (update_boot_quiet re now chunk s)"

lemma update_shut:
  assumes "\<not> passthrough s" "gate_shut s \<or> detect_boot_banner (last_chars BOOT_BANNER_TAIL_CHARS (ss_boot_banner_tail s) @ chunk)"
  shows "gate_shut (update_boot_quiet re now chunk s)"
proof (cases "detect_boot_banner (last_chars BOOT_BANNER_TAIL_CHARS (ss_boot_banner_tail s) @ chunk)")
  case True
  then show ?thesis using assms(1) armed_arm [of "note_boot_evidence s" now] by (simp add: update_boot_quiet_def Let_def armed_def)
next
  case False
  then show ?thesis using assms shut_update [of s chunk re now] by (simp add: kept_shut_def)
qed

lemma update_profile: "ss_profile (update_boot_quiet re now chunk s) = ss_profile s"
proof (cases "passthrough s \<or> \<not> detect_boot_banner (last_chars BOOT_BANNER_TAIL_CHARS (ss_boot_banner_tail s) @ chunk)")
  case True
  then show ?thesis using shut_update [of s chunk re now]
    by (cases "passthrough s") (simp_all add: update_passthrough kept_shut_def eased_def)
next
  case False
  then show ?thesis using armed_arm [of "note_boot_evidence s" now] frame_profile [OF frame_evidence(1), of s]
    by (simp add: update_boot_quiet_def Let_def armed_def)
qed

lemma last_chars_idem [simp]: "last_chars n (last_chars n w) = last_chars n w"
  by (simp add: last_chars_def)

lemma banner_last: "detect_boot_banner (last_chars n w) \<Longrightarrow> detect_boot_banner w"
proof -
  assume a: "detect_boot_banner (last_chars n w)"
  then obtain p where p: "p \<in> set BOOT_BANNER_PATTERNS" "py_contains p (last_chars n w)"
    by (auto simp: detect_boot_banner_def list_ex_iff)
  have "w = take (length w - n) w @ last_chars n w" by (simp add: last_chars_def)
  with p(2) have "py_contains p w" by (metis append.assoc py_contains_iff)
  moreover have "w \<noteq> []" using a by (auto simp: last_chars_def detect_boot_banner_def)
  ultimately show ?thesis using p(1) by (auto simp: detect_boot_banner_def list_ex_iff)
qed

lemma feed_shut:
  assumes "\<not> passthrough s"
    and "gate_shut s \<or> ss_boot_quiet_until s \<le> 0 \<and> \<not> detect_boot_banner (last_chars BOOT_BANNER_TAIL_CHARS (ss_boot_banner_tail s))
      \<and> detect_boot_banner (last_chars BOOT_BANNER_TAIL_CHARS (ss_boot_banner_tail s) @ concat (map snd cs))"
  shows "gate_shut (feed re cs s)"
  using assms
proof (induction cs arbitrary: s)
  case (Cons c cs)
  obtain now chunk where c: "c = (now, chunk)" by (cases c)
  let ?w = "last_chars BOOT_BANNER_TAIL_CHARS (ss_boot_banner_tail s) @ chunk" and ?s = "update_boot_quiet re now chunk s"
  have p: "\<not> passthrough ?s" using Cons.prems(1) by (simp add: update_profile)
  show ?case
  proof (cases "gate_shut s \<or> detect_boot_banner ?w")
    case True
    then have "gate_shut ?s" by (rule update_shut [OF Cons.prems(1)])
    then show ?thesis using Cons.IH [OF p] by (simp add: c)
  next
    case False
    with Cons.prems have s: "?s = s\<lparr>ss_boot_banner_tail := last_chars BOOT_BANNER_TAIL_CHARS ?w\<rparr>" and q: "ss_boot_quiet_until s \<le> 0"
      and d: "detect_boot_banner (?w @ concat (map snd cs))"
      by (auto simp: update_boot_quiet_def Let_def c)
    have "detect_boot_banner (last_chars BOOT_BANNER_TAIL_CHARS ?w @ concat (map snd cs))" using banner_tail [OF d] False by simp
    moreover have "\<not> detect_boot_banner (last_chars BOOT_BANNER_TAIL_CHARS ?w)" using False banner_last by blast
    ultimately show ?thesis using Cons.IH [OF p] q by (simp add: s c)
  qed
qed auto



section \<open>Banners that keep coming\<close>

text \<open>A device that prints a line with \<open>U-Boot\<close> every minute (a crash loop, or a log that mentions the boot loader).\<close>

definition banner_line :: string where
  "banner_line = ''U-Boot 2024.04''"

primrec boot_loop :: "regexes \<Rightarrow> nat \<Rightarrow> session_rt \<Rightarrow> session_rt" where
  "boot_loop re 0 s = on_bridge_rx re 0 banner_line s"
| "boot_loop re (Suc k) s = on_bridge_rx re (60 * of_nat (Suc k)) banner_line (boot_loop re k s)"

lemma clean_banner: "clean_text banner_line = banner_line"
  unfolding banner_line_def by code_simp

lemma banner_arms: "\<not> passthrough s \<Longrightarrow> on_bridge_rx re now banner_line s = arm_boot_quiet now (note_boot_evidence (mark_session_rx now s))"
proof -
  have "py_contains ''U-Boot'' (x @ banner_line)" for x
    using py_contains_append [of "''U-Boot''" x "'' 2024.04''"] by (simp add: banner_line_def)
  then have "detect_boot_banner (x @ banner_line)" for x
    by (simp add: detect_boot_banner_def BOOT_BANNER_PATTERNS_def banner_line_def)
  moreover assume "\<not> passthrough s"
  moreover have "banner_line \<noteq> []" by (simp add: banner_line_def)
  ultimately show ?thesis by (simp add: on_bridge_rx_def clean_banner update_boot_quiet_def Let_def)
qed


lemma arm_open:
  assumes "\<not> ss_ready_reconfirm_pending s" "0 \<le> now"
  shows "ss_ready_reconfirm_pending (arm_boot_quiet now s)" "\<not> ss_ready_reconfirm_failed (arm_boot_quiet now s)"
    "ss_ready_reconfirm_deadline (arm_boot_quiet now s) = now + READY_RECONFIRM_MAX_S" "ss_ready_reconfirm_attempts (arm_boot_quiet now s) = 0"
  using assms
  by (simp_all add: arm_boot_quiet_def Let_def push_eq settled_def expire_eq reconfirm_over_def READY_RECONFIRM_MAX_S_def BOOT_QUIET_WINDOW_S_def
      READY_RECONFIRM_MAX_ATTEMPTS_def)

lemma arm_pending:
  assumes "ss_ready_reconfirm_pending s" "\<not> reconfirm_over now False s"
  shows "ss_ready_reconfirm_pending (arm_boot_quiet now s)" "ss_ready_reconfirm_failed (arm_boot_quiet now s) = ss_ready_reconfirm_failed s"
    "ss_ready_reconfirm_deadline (arm_boot_quiet now s) = ss_ready_reconfirm_deadline s"
    "ss_ready_reconfirm_attempts (arm_boot_quiet now s) = ss_ready_reconfirm_attempts s"
  using assms by (auto simp: arm_boot_quiet_def Let_def push_eq settled_def expire_eq reconfirm_over_def)

lemma arm_over:
  assumes "ss_ready_reconfirm_pending s" "reconfirm_over now False s" "ss_bridge s \<noteq> None" "\<not> passthrough s"
  shows "\<not> ss_ready_reconfirm_pending (arm_boot_quiet now s)"
  using assms by (simp add: arm_boot_quiet_def Let_def push_eq settled_def expire_eq reconfirm_over_def has_target_def push_probe_gate_def)

text \<open>After banner \<open>k\<close>, at second \<open>60 k\<close>: five of six times a confirmation is pending since the first of the six, then it has failed.\<close>

definition in_loop :: "nat \<Rightarrow> session_rt \<Rightarrow> session_rt \<Rightarrow> bool" where
  "in_loop k s0 s \<longleftrightarrow>
     ss_profile s = ss_profile s0 \<and> ss_bridge s \<noteq> None \<and> ss_boot_quiet_until s = 60 * of_nat k + 180
     \<and> (if k mod 6 = 5 then \<not> ss_ready_reconfirm_pending s
        else ss_ready_reconfirm_pending s \<and> \<not> ss_ready_reconfirm_failed s \<and> ss_ready_reconfirm_attempts s = 0
          \<and> ss_ready_reconfirm_deadline s = 60 * of_nat (k - k mod 6) + 300)"

lemma loop_over:
  assumes "in_loop k s0 s" "k mod 6 \<noteq> 5"
  shows "reconfirm_over (60 * of_nat n) False s \<longleftrightarrow> k - k mod 6 + 5 \<le> n"
proof -
  define m where "m = k - k mod 6 + 5"
  have d: "ss_ready_reconfirm_deadline s = 60 * of_nat m" and a: "ss_ready_reconfirm_attempts s = 0"
    using assms by (simp_all add: in_loop_def m_def)
  have "60 * of_nat m \<le> 60 * (of_nat n :: rat) \<longleftrightarrow> m \<le> n"
    by (simp only: mult_le_cancel_left_pos of_nat_le_iff zero_less_numeral)
  moreover have "0 < m" by (simp add: m_def)
  ultimately show ?thesis unfolding m_def [symmetric] by (simp add: reconfirm_over_def READY_RECONFIRM_MAX_ATTEMPTS_def d a)
qed

lemma banner_profile: "ss_profile (arm_boot_quiet now (note_boot_evidence (mark_session_rx now s))) = ss_profile s"
  using armed_arm [of "note_boot_evidence (mark_session_rx now s)" now]
  by (simp add: armed_def note_boot_evidence_def mark_session_rx_def)

lemma heard_fields [simp]:
  "ss_ready_reconfirm_pending (note_boot_evidence (mark_session_rx now s)) = ss_ready_reconfirm_pending s"
  "ss_ready_reconfirm_failed (note_boot_evidence (mark_session_rx now s)) = ss_ready_reconfirm_failed s"
  "ss_ready_reconfirm_deadline (note_boot_evidence (mark_session_rx now s)) = ss_ready_reconfirm_deadline s"
  "ss_ready_reconfirm_attempts (note_boot_evidence (mark_session_rx now s)) = ss_ready_reconfirm_attempts s"
  "ss_bridge (note_boot_evidence (mark_session_rx now s)) = ss_bridge s" "ss_profile (note_boot_evidence (mark_session_rx now s)) = ss_profile s"
  "reconfirm_over t force (note_boot_evidence (mark_session_rx now s)) = reconfirm_over t force s"
  by (simp_all add: note_boot_evidence_def mark_session_rx_def reconfirm_over_def)

lemma loop_step:
  assumes "in_loop k s0 s" "\<not> passthrough s0"
  shows "in_loop (Suc k) s0 (on_bridge_rx re (60 * of_nat (Suc k)) banner_line s)"
proof -
  let ?now = "60 * of_nat (Suc k) :: rat" and ?h = "note_boot_evidence (mark_session_rx (60 * of_nat (Suc k)) s)"
  have s: "ss_profile s = ss_profile s0" "ss_bridge s \<noteq> None" using assms(1) by (simp_all add: in_loop_def)
  have eq: "on_bridge_rx re ?now banner_line s = arm_boot_quiet ?now ?h" using assms(2) s by (intro banner_arms) simp
  have base: "ss_profile (arm_boot_quiet ?now ?h) = ss_profile s0" "ss_bridge (arm_boot_quiet ?now ?h) \<noteq> None"
    "ss_boot_quiet_until (arm_boot_quiet ?now ?h) = ?now + 180"
    using banner_profile s by (simp_all add: arm_quiet BOOT_QUIET_WINDOW_S_def del: not_None_eq)
  consider "k mod 6 = 5" | "k mod 6 = 4" | "k mod 6 < 4" by linarith
  then show ?thesis
  proof cases
    case 1
    then have "Suc k mod 6 = 0" by (simp add: mod_Suc)
    moreover have "\<not> ss_ready_reconfirm_pending ?h" using assms(1) 1 by (simp add: in_loop_def)
    note arm_open [OF this, of ?now]
    ultimately show ?thesis using base unfolding eq in_loop_def by (simp add: READY_RECONFIRM_MAX_S_def BOOT_QUIET_WINDOW_S_def)
  next
    case 2
    then have m: "Suc k mod 6 = 5" "k - k mod 6 + 5 = Suc k" using mod_less_eq_dividend [of k 6] by (auto simp: mod_Suc)
    then have "reconfirm_over ?now False ?h" using loop_over [OF assms(1), of "Suc k"] 2 by simp
    moreover have "ss_ready_reconfirm_pending ?h" "ss_bridge ?h \<noteq> None" "\<not> passthrough ?h" using assms 2 s by (simp_all add: in_loop_def)
    ultimately have "\<not> ss_ready_reconfirm_pending (arm_boot_quiet ?now ?h)" by (intro arm_over)
    then show ?thesis using base m(1) unfolding eq in_loop_def by simp
  next
    case 3
    then have "Suc k mod 6 = Suc (k mod 6)" by (simp add: mod_Suc)
    then have m: "Suc k mod 6 \<noteq> 5" "Suc k - Suc k mod 6 = k - k mod 6" "\<not> k - k mod 6 + 5 \<le> Suc k"
      using 3 mod_less_eq_dividend [of k 6] by auto
    then have "\<not> reconfirm_over ?now False ?h" using loop_over [OF assms(1), of "Suc k"] 3 by simp
    moreover have p: "ss_ready_reconfirm_pending ?h" using assms 3 by (simp add: in_loop_def)
    note arm_pending [OF p, of ?now]
    ultimately show ?thesis using base m 3 assms(1) p unfolding eq in_loop_def by simp
  qed
qed

lemma loop_start:
  assumes "\<not> passthrough s" "ss_bridge s \<noteq> None" "\<not> ss_ready_reconfirm_pending s"
  shows "in_loop 0 s (on_bridge_rx re 0 banner_line s)"
proof -
  have "\<not> ss_ready_reconfirm_pending (note_boot_evidence (mark_session_rx 0 s))" using assms(3) by simp
  from arm_open [OF this, of 0] show ?thesis
    using assms banner_profile [of 0 s]
    by (simp add: banner_arms in_loop_def arm_quiet BOOT_QUIET_WINDOW_S_def READY_RECONFIRM_MAX_S_def del: not_None_eq)
qed

lemma in_boot_loop:
  assumes "\<not> passthrough s" "ss_bridge s \<noteq> None" "\<not> ss_ready_reconfirm_pending s"
  shows "in_loop k s (boot_loop re k s)"
  by (induction k) (use assms loop_start loop_step in auto)

text \<open>C27. Banners that keep coming keep the gate undecided for ever: with a line that mentions \<open>U-Boot\<close> every minute, an agent that waits
  as long as the answer says is told to try again in 180 seconds every time. The failure that should end this is forgotten by the next
  banner, which starts a new period.\<close>

theorem banners_never_decided:
  assumes "\<not> passthrough s" "ss_bridge s \<noteq> None" "\<not> ss_ready_reconfirm_pending s"
  shows "agent_gate_reject (180 * of_nat i) (boot_loop re (3 * i) s)
    = (boot_loop re (3 * i) s, Some (Autoboot_quiet (sp_com (ss_profile s)) 180))"
proof -
  let ?s = "boot_loop re (3 * i) s" and ?t = "180 * of_nat i :: rat"
  have l: "in_loop (3 * i) s ?s" using in_boot_loop [OF assms] .
  have m: "(3 * i) mod 6 \<noteq> 5" "\<not> 3 * i - (3 * i) mod 6 + 5 \<le> 3 * i" by presburger+
  have t: "?t = 60 * of_nat (3 * i)" by simp
  have "\<not> reconfirm_over ?t False ?s" using loop_over [OF l m(1), of "3 * i"] m(2) unfolding t by simp
  then have e: "expire_ready_reconfirm ?t False ?s = (?s, False)" by (simp add: expire_eq)
  have p: "ss_profile ?s = ss_profile s" "ss_ready_reconfirm_pending ?s" "\<not> ss_ready_reconfirm_failed ?s" "ss_boot_quiet_until ?s = ?t + 180"
    using l m(1) by (simp_all add: in_loop_def)
  moreover have "boot_quiet_active ?t ?s" using p(4) by (simp add: boot_quiet_active_def add_nonneg_pos)
  ultimately show ?thesis using assms(1) e
    by (simp add: agent_gate_reject_def agent_gate_eq settled_def py_round1_def)
qed

theorem banners_never_decided_witness:
  "agent_gate_reject 1800 (boot_loop (\<lambda>_. None) 30 board_attached)
     = (boot_loop (\<lambda>_. None) 30 board_attached, Some (Autoboot_quiet ''COM1'' 180))"
  using banners_never_decided [of board_attached 10 "\<lambda>_. None"] board_bridge
  by (simp add: board_fields board_gates board_profile_def)


section \<open>When a probe is scheduled\<close>

lemma settled_same:
  "ss_state (settled now s) = ss_state s" "ss_last_error (settled now s) = ss_last_error s" "ss_profile (settled now s) = ss_profile s"
  "ss_session_id (settled now s) = ss_session_id s" "ss_boot_quiet_until (settled now s) = ss_boot_quiet_until s"
  by (simp_all add: settled_def expire_eq failed_now_def)

lemma settled_unless: "\<not> ss_ready_reconfirm_pending s \<or> \<not> reconfirm_over now False s \<Longrightarrow> settled now s = s"
  by (auto simp: settled_def expire_eq)

lemma settled_gone: "ss_ready_reconfirm_pending (settled now s) \<Longrightarrow> \<not> reconfirm_over now False s \<and> ss_ready_reconfirm_pending s \<and> settled now s = s"
  by (auto simp: settled_def expire_eq split: if_splits)

lemma candidate_probe:
  "snd (snd (reprobe_candidate m now inflight s)) = Some Job_probe \<longleftrightarrow>
     (ss_state s = READY \<and> ss_ready_reconfirm_pending s
        \<or> ss_state s = ATTACHED \<and> is_reprobe_prompt_error ATTACHED (ss_last_error s))
     \<and> ss_last_error s \<noteq> Some ''CREDENTIALS_UNRESOLVED''
     \<and> \<not> ss_reprobe_exhausted s \<and> ss_reprobe_attempts s < REPROBE_MAX_ATTEMPTS \<and> (case ss_next_reprobe_at s of None \<Rightarrow> True | Some t \<Rightarrow> t \<le> now)
     \<and> \<not> boot_quiet_blocks_probe now s \<and> \<not> boot_evidence_wait_active now s \<and> rx_idle_enough now s \<and> \<not> human_active m now s
     \<and> ss_bridge s \<noteq> None \<and> ss_session_id s \<notin> set inflight"
  by (cases "ss_state s"; cases "ss_next_reprobe_at s")
     (auto simp: reprobe_candidate_def reprobe_held_def reprobe_launch_def Let_def)

text \<open>When the tick sends a probe: exactly when the device is there, the session is ready with a pending confirmation or attached after a failed
  prompt, neither the quiet window nor the wait for a boot banner is on, the device was silent for 3 seconds, nobody types, fewer than 10
  attempts failed, the back-off is over and no probe is under way.\<close>

theorem probe_exactly_when_due:
  "snd (snd (prepare_reprobe m now inflight s)) = Some Job_probe \<longleftrightarrow>
     device_at_hand m s \<and> \<not> passthrough s
     \<and> (ss_state s = READY \<and> ss_ready_reconfirm_pending s \<and> \<not> reconfirm_over now False s
        \<or> ss_state s = ATTACHED \<and> is_reprobe_prompt_error ATTACHED (ss_last_error s))
     \<and> ss_last_error s \<noteq> Some ''CREDENTIALS_UNRESOLVED''
     \<and> \<not> ss_reprobe_exhausted s \<and> ss_reprobe_attempts s < REPROBE_MAX_ATTEMPTS \<and> (case ss_next_reprobe_at s of None \<Rightarrow> True | Some t \<Rightarrow> t \<le> now)
     \<and> \<not> boot_quiet_blocks_probe now s \<and> \<not> boot_evidence_wait_active now s \<and> rx_idle_enough now s \<and> \<not> human_active m now s
     \<and> ss_bridge s \<noteq> None \<and> ss_session_id s \<notin> set inflight"
proof (cases "ss_state s = READY")
  case True
  show ?thesis
  proof (cases "ss_ready_reconfirm_pending s \<and> \<not> reconfirm_over now False s")
    case keep: True
    then have "settled now s = s" by (intro settled_unless) simp
    then show ?thesis using True keep candidate_probe [of m now inflight s] by (auto simp: prepare_reprobe_def settled_def)
  next
    case False
    then have "\<not> ss_ready_reconfirm_pending (settled now s)" using settled_gone by blast
    then show ?thesis using True False candidate_probe [of m now inflight "settled now s"]
      by (auto simp: prepare_reprobe_def settled_def [symmetric] settled_same)
  qed
next
  case False
  then show ?thesis using candidate_probe [of m now inflight s] by (cases "ss_state s") (auto simp: prepare_reprobe_def)
qed

end
