(* ===== verification/Self_Test.thy ===== *)
theory Self_Test
  imports Session_Theorems
begin

text \<open>
  The self test of a session (\<open>self_test\<close> of \<open>sw_core/session_manager.py\<close>): what it answers without touching the device, and the probe it sends
  to a session that is ready. The answer \<open>OK\<close> confirms the session, so it opens the gate of the agents.
\<close>

section \<open>Waiting from an offset\<close>

text \<open>\<open>wait_for_regex_from\<close> of the bridge; \<open>stops\<close> says whether the bridge is being stopped or drained.\<close>

function wait_from_loop :: "(bridge \<Rightarrow> bool) \<Rightarrow> (string \<Rightarrow> bool) \<Rightarrow> nat \<Rightarrow> seconds \<Rightarrow> bridge \<Rightarrow> bool \<times> bridge" where
  "wait_from_loop stops hit offset deadline b =
     (let b1 = others b in
      if bw_now b1 < deadline then
        if stops b1 then (False, b1)
        else let b2 = others b1 in
          if hit (rx_text_from offset (bw_rx b2)) then (True, b2) else wait_from_loop stops hit offset deadline (sleep (1 / 20) b2)
      else (False, b1))"
  by pat_completeness auto
termination
proof (relation "measure (\<lambda>(_, _, _, d, b). nat \<lceil>20 * (d - bw_now b)\<rceil>)")
  fix stops :: "bridge \<Rightarrow> bool" and hit :: "string \<Rightarrow> bool" and offset deadline and b b1 b2 :: bridge
  assume b: "b1 = others b" "bw_now b1 < deadline" "b2 = others b1"
  have "bw_now b + 1 / 20 \<le> bw_now (sleep (1 / 20) b2)"
    using others_now [of b, folded b(1)] others_now [of b1, folded b(3)] sleep_now [of b2 "1 / 20"] by linarith
  then show "((stops, hit, offset, deadline, sleep (1 / 20) b2), stops, hit, offset, deadline, b) \<in> measure (\<lambda>(_, _, _, d, b). nat \<lceil>20 * (d - bw_now b)\<rceil>)"
    using steps_left [of "bw_now b" deadline 20 "bw_now (sleep (1 / 20) b2)"] b(2) others_now [of b, folded b(1)]
    by (simp only: in_measure case_prod_conv)
qed simp

declare wait_from_loop.simps [simp del]

definition wait_for_regex_from :: "(bridge \<Rightarrow> bool) \<Rightarrow> regexes \<Rightarrow> string \<Rightarrow> nat \<Rightarrow> seconds \<Rightarrow> bool bm" where
  "wait_for_regex_from stops re pattern offset timeout_s = State (\<lambda>b.
     case re pattern of None \<Rightarrow> (Inl Re_error, others b)
     | Some hit \<Rightarrow> (case wait_from_loop stops hit offset (bw_now (others b) + timeout_s) (others b) of
         (r, b') \<Rightarrow> (Inr r, b'\<lparr>bw_log := bw_log b' @ [Ev_wait pattern r]\<rparr>)))"

section \<open>What the self test answers by itself\<close>

text \<open>What it reads: the lease (its id and its owner), the path of the device, the snapshot of the bridge, the end of the receive buffer, the bytes of
  the last ten seconds, and the profile that the received text suggests.\<close>

record self_test_view =
  st_strict_human_lock :: bool
  st_lease :: "(string \<times> string) option"
  st_device :: "string option"
  st_attached_real_path :: "string option"
  st_running :: bool
  st_serial_alive :: bool
  st_vtty_alive :: bool
  st_rx_tail :: string
  st_flood_bytes :: "nat option"
  st_profile_source :: string
  st_suggested :: "string option"

datatype self_test_plan = Classified string string | Run_nonce tx_permit string bool

definition flooded :: "nat option \<Rightarrow> bool" where
  "flooded n = (case n of None \<Rightarrow> False | Some k \<Rightarrow> RX_FLOOD_BYTES_PER_10S \<le> k)"

definition self_test_attached :: "regexes \<Rightarrow> self_test_view \<Rightarrow> session_rt \<Rightarrow> self_test_plan" where
  "self_test_attached re v s =
     (if passthrough s then
        Classified ''PASSTHROUGH'' (if st_profile_source v = ''fallback'' \<and> st_suggested v \<noteq> None then ''pin_profile'' else ''console_attach'')
      else if ss_last_error s = Some ''LOGIN_REQUIRED'' then Classified ''LOGIN_REQUIRED'' ''console_attach''
      else if ss_last_error s = Some ''REBOOTING'' then Classified ''REBOOTING'' ''wait_or_console_attach''
      else if bootloader_evidence re (Some (st_rx_tail v)) s \<noteq> None \<or> ss_last_error s = Some ''BOOTLOADER_STUCK''
      then Classified ''BOOTLOADER'' ''recover_interactive''
      else if ss_last_error s = Some ''RX_FLOOD'' \<or> flooded (st_flood_bytes v) then Classified ''RX_FLOOD'' ''wait''
      else Classified ''ATTACHED_NOT_READY'' ''console_attach'')"

definition probe_text :: "string \<Rightarrow> session_rt \<Rightarrow> string" where
  "probe_text nonce s = py_replace ([CHR 0x24] @ ''{nonce}'') nonce (sp_ready_probe (ss_profile s))"

text \<open>The decision inside the lock; the answer for a released session is completed outside of it.\<close>

definition self_test_decide :: "regexes \<Rightarrow> seconds \<Rightarrow> string \<Rightarrow> self_test_view \<Rightarrow> session_rt \<Rightarrow> self_test_plan" where
  "self_test_decide re now nonce v s =
     (let human = (case st_lease v of None \<Rightarrow> False | Some (_, owner) \<Rightarrow> starts_with ''human:'' owner)
      in if ss_recovering s then Classified ''SESSION_RECOVERING'' ''wait''
         else if st_strict_human_lock v \<and> human then Classified ''HUMAN_INTERACTIVE_ACTIVE'' ''wait_or_detach_console''
         else case st_device v of
           None \<Rightarrow> Classified ''DEVICE_MISSING'' ''check_cable_or_bind''
         | Some real_path \<Rightarrow>
             if given (st_attached_real_path v) \<and> st_attached_real_path v \<noteq> Some real_path then Classified ''DEVICE_REBOUND_REQUIRED'' ''reattach''
             else if ss_bridge s = None then Classified ''BRIDGE_DOWN'' ''attach''
             else if \<not> st_running v \<or> \<not> st_serial_alive v then Classified ''BRIDGE_DOWN'' ''recover''
             else if \<not> st_vtty_alive v then Classified ''VTTY_STALE'' ''console_attach''
             else if passthrough s \<and> ss_state s = READY then Classified ''PASSTHROUGH'' ''none''
             else if ss_state s = ATTACHED then self_test_attached re v s
             else if boot_quiet_active now s \<or> boot_evidence_wait_active now s then Classified ''AUTOBOOT_QUIET'' ''wait''
             else Run_nonce (self_test_permit nonce s) (probe_text nonce s) human)"

definition self_test_released :: "bool \<Rightarrow> self_test_plan" where
  "self_test_released held = Classified ''RELEASED'' (if held then ''wait_external_flash'' else ''device_attach'')"

section \<open>The probe\<close>

text \<open>\<open>quiet\<close>: the exception of a transmission that raises is the refusal of the fence for a quiet console.\<close>

definition read_offset :: "nat bm" where
  "read_offset = bridge_read (\<lambda>_. []) (\<lambda>b. rx_snapshot_len (bw_rx b))"

definition self_test_nonce ::
  "(bridge \<Rightarrow> bool) \<Rightarrow> regexes \<Rightarrow> bool \<Rightarrow> string \<Rightarrow> string \<Rightarrow> string \<Rightarrow> seconds \<Rightarrow> string bm" where
  "self_test_nonce stops re quiet nonce probe prompt_regex timeout_s =
     and_then read_offset (\<lambda>offset.
       do { sent \<leftarrow> send_command probe;
            case sent of
              Inl e \<Rightarrow> State_Monad.return (if quiet then Inr ''AUTOBOOT_QUIET'' else Inl e)
            | Inr _ \<Rightarrow>
                and_then (wait_for_regex_from stops re nonce offset timeout_s) (\<lambda>ok.
                  if \<not> ok then and_then read_rx_bytes (\<lambda>n. done_with (if flooded (Some n) then ''RX_FLOOD'' else ''TARGET_UNRESPONSIVE''))
                  else and_then (wait_for_regex_from stops re prompt_regex offset timeout_s) (\<lambda>_. done_with ''OK'')) })"

definition self_test_finish :: "seconds \<Rightarrow> string \<Rightarrow> session_rt \<Rightarrow> session_rt" where
  "self_test_finish now classification s = (if classification = ''OK'' then confirm_ready now s else s)"


section \<open>The answer comes back by itself\<close>

lemma wait_from_hit:
  assumes "bw_env b = []" "0 < timeout_s" "\<not> stops b" "hit (rx_text_from offset (bw_rx b))"
  shows "wait_from_loop stops hit offset (bw_now b + timeout_s) b = (True, b)"
  using assms by (simp add: wait_from_loop.simps others_def)

text \<open>Both waits of the probe end; the second, for the prompt, does not matter.\<close>

lemma nonce_ok:
  assumes "bw_env b = [(0, []), (0, []), (0, bs)]" "bw_faults b = []" "0 < timeout_s" "\<And>b. \<not> stops b"
    and "re nonce = Some hit" "re prompt_regex \<noteq> None" "hit (utf8_decode bs)" "bs \<noteq> []" "length (utf8_decode bs) \<le> RX_MAX_CHARS"
  shows "fst (run_state (self_test_nonce stops re quiet nonce probe prompt_regex timeout_s) b) = Inr ''OK''"
proof -
  let ?b1 = "b\<lparr>bw_env := [(0, []), (0, bs)]\<rparr>"
  let ?b2 = "b\<lparr>bw_env := [(0, bs)], bw_faults := [], bw_log := bw_log b @ [Ev_send probe]\<rparr>"
  let ?b3 = "?b2\<lparr>bw_env := [], bw_rx := append_rx_text (bw_now b) bs (bw_rx b)\<rparr>"
  let ?off = "rx_snapshot_len (bw_rx b)"
  have o1: "others b = ?b1" and o2: "others ?b1 = ?b1\<lparr>bw_env := [(0, bs)]\<rparr>" and o3: "others ?b2 = ?b3"
    using assms(1,8) by (simp_all add: others_def)
  have "wait_from_loop stops hit ?off (bw_now ?b3 + timeout_s) ?b3 = (True, ?b3)"
    using assms(3,4,7,9) rx_since_append [OF assms(9)] by (intro wait_from_hit) simp_all
  then have w: "wait_from_loop stops hit ?off (bw_now b + timeout_s) ?b3 = (True, ?b3)" by simp
  obtain hit' where h: "re prompt_regex = Some hit'" using assms(6) by blast
  show ?thesis
    using assms(2,5) o1 o2 o3 w h
    by (simp add: self_test_nonce_def and_then_def read_offset_def bridge_read_def send_command_def bridge_tx_def wait_for_regex_from_def Let_def
        split: prod.split)
qed

lemma contains_prepend: "py_contains p s \<Longrightarrow> py_contains p (x @ s)"
  unfolding py_contains_iff by (metis append.assoc)

lemma contains_within: "py_contains p s \<Longrightarrow> py_contains p (s @ x)"
  unfolding py_contains_iff by (metis append.assoc)

lemma contains_replace: "py_contains old t \<Longrightarrow> old \<noteq> [] \<Longrightarrow> py_contains new (py_replace old new t)"
proof (induction old new t rule: py_replace.induct)
  case (2 old new c s)
  show ?case
  proof (cases "starts_with old (c # s)")
    case True
    then show ?thesis using 2(4) py_contains_append [of new "[]"] by simp
  next
    case False
    then have "py_contains old s" using 2(3) by simp
    then show ?thesis using False 2 contains_prepend [of new _ "[c]"] by simp
  qed
qed simp

text \<open>A session that was given up: nominally ready, the confirmation failed, the quiet window over; and a bridge without troubles.\<close>

definition given_up :: "seconds \<Rightarrow> session_rt \<Rightarrow> bool" where
  "given_up now s \<longleftrightarrow>
     \<not> passthrough s \<and> ss_state s = READY \<and> \<not> ss_recovering s \<and> ss_bridge s \<noteq> None
     \<and> ss_ready_reconfirm_failed s \<and> \<not> ss_ready_reconfirm_pending s \<and> \<not> boot_quiet_active now s \<and> \<not> boot_evidence_wait_active now s"

definition bridge_up :: "self_test_view \<Rightarrow> bool" where
  "bridge_up v \<longleftrightarrow> st_lease v = None \<and> st_device v \<noteq> None \<and> st_attached_real_path v = st_device v
     \<and> st_running v \<and> st_serial_alive v \<and> st_vtty_alive v"

lemma confirmed_open: "\<not> passthrough s \<Longrightarrow> snd (agent_gate_reject now (confirm_ready now s)) = None"
proof -
  assume p: "\<not> passthrough s"
  let ?s = "confirm_ready now s"
  have c: "\<not> ss_ready_reconfirm_pending ?s" "\<not> ss_ready_reconfirm_failed ?s" "ss_boot_quiet_until ?s = 0" "ss_profile ?s = ss_profile s"
    by (simp_all add: confirm_ready_def clear_boot_quiet_def push_eq settled_def expire_eq)
  then have "expire_ready_reconfirm now False ?s = (?s, False)" by (simp add: expire_eq)
  then show ?thesis using p c by (simp add: agent_gate_reject_def agent_gate_eq settled_def boot_quiet_active_def)
qed

text \<open>C25. The self test takes the echo of its own command for the answer: it looks for the bare nonce in what comes back and does not care
  whether a prompt follows. A device that only repeats what is typed, as a boot loader does, turns a session that the gate has given up
  on into a confirmed one, and agents may send commands to it.\<close>

theorem self_test_trusts_echo:
  assumes "given_up now s" "bridge_up v" "py_contains ([CHR 0x24] @ ''{nonce}'') (sp_ready_probe (ss_profile s))"
    and "re nonce = Some (py_contains nonce)" "re (sp_prompt_regex (ss_profile s)) \<noteq> None"
    and "bw_env b = [(0, []), (0, []), (0, bs)]" "bw_faults b = []" "0 < timeout_s" "bs \<noteq> []"
    and "utf8_decode bs = probe_text nonce s @ rest" "length (utf8_decode bs) \<le> RX_MAX_CHARS"
  shows "snd (agent_gate_reject now s) = Some (Ready_unconfirmed (sp_com (ss_profile s)))
    \<and> self_test_decide re now nonce v s = Run_nonce (self_test_permit nonce s) (probe_text nonce s) False
    \<and> fst (run_state (self_test_nonce (\<lambda>_. False) re quiet nonce (probe_text nonce s) (sp_prompt_regex (ss_profile s)) timeout_s) b) = Inr ''OK''
    \<and> snd (agent_gate_reject now (self_test_finish now ''OK'' s)) = None"
proof (intro conjI)
  show "snd (agent_gate_reject now s) = Some (Ready_unconfirmed (sp_com (ss_profile s)))"
    using assms(1) by (simp add: given_up_def agent_gate_reject_def expire_eq)
  show "self_test_decide re now nonce v s = Run_nonce (self_test_permit nonce s) (probe_text nonce s) False"
    using assms(1,2) by (auto simp: given_up_def bridge_up_def self_test_decide_def)
  have "py_contains nonce (probe_text nonce s)" unfolding probe_text_def using contains_replace [OF assms(3)] by simp
  then have "py_contains nonce (utf8_decode bs)" using assms(10) contains_within by simp
  then show "fst (run_state (self_test_nonce (\<lambda>_. False) re quiet nonce (probe_text nonce s) (sp_prompt_regex (ss_profile s)) timeout_s) b) = Inr ''OK''"
    using assms by (intro nonce_ok [where hit = "py_contains nonce"]) auto
  show "snd (agent_gate_reject now (self_test_finish now ''OK'' s)) = None"
    using assms(1) confirmed_open by (simp add: given_up_def self_test_finish_def)
qed

text \<open>A board in its boot loader: the echo of the command, then the prompt of the boot loader.\<close>

definition board_given_up :: session_rt where
  "board_given_up = (new_session ''s1'' board_profile)\<lparr>ss_state := READY, ss_bridge := Some new_fence, ss_ready_reconfirm_failed := True\<rparr>"

definition board_view :: self_test_view where
  "board_view = \<lparr>st_strict_human_lock = False, st_lease = None, st_device = Some ''/dev/ttyUSB0'', st_attached_real_path = Some ''/dev/ttyUSB0'',
     st_running = True, st_serial_alive = True, st_vtty_alive = True, st_rx_tail = ''=> '', st_flood_bytes = None,
     st_profile_source = ''detected'', st_suggested = None\<rparr>"

definition boot_loader_echo :: "byte list" where
  "boot_loader_echo = map of_char (''echo __READY__ab12cd34'' @ [CHR 0x0D, CHR 0x0A] @ ''=> '')"

definition board_bridge_idle :: bridge where
  "board_bridge_idle = \<lparr>bw_rx = rxbuf_init 0, bw_now = 500, bw_env = [(0, []), (0, []), (0, boot_loader_echo)], bw_faults = [], bw_log = []\<rparr>"

lemma board_probe: "probe_text ''ab12cd34'' board_given_up = ''echo __READY__ab12cd34''"
  by (simp add: probe_text_def board_given_up_def new_session_def board_profile_def starts_with_def)

lemma board_echo: "utf8_decode boot_loader_echo = ''echo __READY__ab12cd34'' @ [CHR 0x0D, CHR 0x0A] @ ''=> ''"
  unfolding boot_loader_echo_def by code_simp

theorem self_test_trusts_echo_witness:
  "snd (agent_gate_reject 500 board_given_up) = Some (Ready_unconfirmed ''COM1'')
    \<and> self_test_decide (\<lambda>p. Some (py_contains p)) 500 ''ab12cd34'' board_view board_given_up
        = Run_nonce (self_test_permit ''ab12cd34'' board_given_up) ''echo __READY__ab12cd34'' False
    \<and> fst (run_state (self_test_nonce (\<lambda>_. False) (\<lambda>p. Some (py_contains p)) False ''ab12cd34'' ''echo __READY__ab12cd34'' ''# '' 2) board_bridge_idle)
        = Inr ''OK''
    \<and> snd (agent_gate_reject 500 (self_test_finish 500 ''OK'' board_given_up)) = None"
proof -
  let ?re = "\<lambda>p. Some (py_contains p)"
  have s: "given_up 500 board_given_up" "sp_com (ss_profile board_given_up) = ''COM1''" "sp_prompt_regex (ss_profile board_given_up) = ''# ''"
    "sp_ready_probe (ss_profile board_given_up) = ''echo __READY__'' @ [CHR 0x24] @ ''{nonce}''"
    by (simp_all add: given_up_def board_given_up_def new_session_def board_profile_def boot_quiet_active_def boot_evidence_wait_active_def)
  have "py_contains ([CHR 0x24] @ ''{nonce}'') (''echo __READY__'' @ [CHR 0x24] @ ''{nonce}'')"
    using py_contains_append [of "[CHR 0x24] @ ''{nonce}''" "''echo __READY__''" "[]"] by simp
  moreover have "bridge_up board_view" by (simp add: bridge_up_def board_view_def)
  moreover have "length (utf8_decode boot_loader_echo) \<le> RX_MAX_CHARS" "boot_loader_echo \<noteq> []"
    by (simp add: board_echo RX_MAX_CHARS_def) (simp add: boot_loader_echo_def)
  ultimately show ?thesis
    using self_test_trusts_echo [of 500 board_given_up board_view ?re "''ab12cd34''" board_bridge_idle boot_loader_echo 2
        "[CHR 0x0D, CHR 0x0A] @ ''=> ''" False] s board_probe board_echo
    by (simp add: board_bridge_idle_def)
qed

end
