(* ===== verification/Captures.thy ===== *)
theory Captures
  imports Prelude "HOL-Library.Extended_Nat"
begin

text \<open>
  The captures of background commands (\<open>BackgroundCapture\<close> of \<open>sw_core/session_manager.py\<close> and the operations of the session manager on
  them): a ring of the received text for every command, the table of the captures with its limit, and the reading with a cursor.

  The limit of a ring may be infinite; that is the specification that the bounded ring is compared with: \<open>simulates\<close> relates the tables of both
  runs, \<open>background_window\<close> says what a reader sees of it and \<open>captures_bounded\<close> what an eviction may take.
\<close>

section \<open>One capture\<close>

record capture =
  bc_cmd_id :: string
  bc_session_id :: string
  bc_from_seq :: int
  bc_quiet_window_s :: seconds
  bc_created_at :: string
  bc_chunks :: "string list"
  bc_last_seq :: int
  bc_status :: string
  bc_error_code :: "string option"
  bc_last_activity :: seconds
  bc_total_bytes :: nat
  bc_dropped_chunks :: nat

definition new_capture :: "string \<Rightarrow> string \<Rightarrow> int \<Rightarrow> seconds \<Rightarrow> string \<Rightarrow> seconds \<Rightarrow> capture" where
  "new_capture cmd_id session_id current_seq quiet_window created now =
     \<lparr>bc_cmd_id = cmd_id, bc_session_id = session_id, bc_from_seq = current_seq + 1, bc_quiet_window_s = quiet_window, bc_created_at = created,
      bc_chunks = [], bc_last_seq = current_seq, bc_status = ''active'', bc_error_code = None, bc_last_activity = now, bc_total_bytes = 0,
      bc_dropped_chunks = 0\<rparr>"

text \<open>The loop of \<open>add_chunk\<close>: the oldest parts go, the last one stays.\<close>

fun trim_chunks :: "enat \<Rightarrow> string list \<Rightarrow> nat \<Rightarrow> nat \<Rightarrow> string list \<times> nat \<times> nat" where
  "trim_chunks max_bytes (oldest # next # rest) total_bytes dropped =
     (if max_bytes < enat total_bytes then trim_chunks max_bytes (next # rest) (total_bytes - length oldest) (Suc dropped)
      else (oldest # next # rest, total_bytes, dropped))"
| "trim_chunks max_bytes [single] total_bytes dropped = ([single], total_bytes, dropped)"
| "trim_chunks max_bytes [] total_bytes dropped = ([], total_bytes, dropped)"

definition add_chunk :: "string \<Rightarrow> enat \<Rightarrow> capture \<Rightarrow> capture" where
  "add_chunk chunk max_bytes c =
     (if chunk = [] then c
      else case trim_chunks max_bytes (bc_chunks c @ [chunk]) (bc_total_bytes c + length chunk) (bc_dropped_chunks c) of
        (chunks, total_bytes, dropped) \<Rightarrow> c\<lparr>bc_chunks := chunks, bc_total_bytes := total_bytes, bc_dropped_chunks := dropped\<rparr>)"

definition maybe_finalize :: "seconds \<Rightarrow> capture \<Rightarrow> capture" where
  "maybe_finalize now c =
     (if bc_status c = ''active'' \<and> bc_quiet_window_s c \<le> now - bc_last_activity c then c\<lparr>bc_status := ''done''\<rparr> else c)"

section \<open>The table\<close>

definition BG_CAPTURE_MAX_BYTES :: nat where "BG_CAPTURE_MAX_BYTES = 4 * 1024 * 1024"
definition BG_CAPTURE_MAX_COUNT :: nat where "BG_CAPTURE_MAX_COUNT = 64"

text \<open>\<open>cs_ids\<close> gives the \<open>background_cmd_ids\<close> of every session.\<close>

record captures =
  cs_background :: "(string, capture) dict"
  cs_ids :: "string \<Rightarrow> string list"

definition no_captures :: captures where
  "no_captures = \<lparr>cs_background = [], cs_ids = (\<lambda>_. [])\<rparr>"

definition evict_one :: "string \<times> capture \<Rightarrow> captures \<Rightarrow> captures" where
  "evict_one entry s =
     (case entry of (cid, cap) \<Rightarrow>
        s\<lparr>cs_background := dict_pop cid (cs_background s),
          cs_ids := (cs_ids s)(bc_session_id cap := remove1 cid (cs_ids s (bc_session_id cap)))\<rparr>)"

definition finalized :: "(string, capture) dict \<Rightarrow> (string \<times> capture) list" where
  "finalized background = sort_key (bc_created_at \<circ> snd) (filter (\<lambda>(_, cap). bc_status cap \<noteq> ''active'') background)"

definition evict_background :: "captures \<Rightarrow> captures" where
  "evict_background s =
     (if length (cs_background s) \<le> BG_CAPTURE_MAX_COUNT then s
      else fold evict_one (take (length (cs_background s) - BG_CAPTURE_MAX_COUNT) (finalized (cs_background s))) s)"

definition start_background :: "string \<Rightarrow> string \<Rightarrow> int \<Rightarrow> seconds \<Rightarrow> string \<Rightarrow> seconds \<Rightarrow> captures \<Rightarrow> captures" where
  "start_background cmd_id sid current_seq quiet_window created now s =
     (let s1 = evict_background (s\<lparr>cs_background := dict_set cmd_id (new_capture cmd_id sid current_seq quiet_window created now) (cs_background s)\<rparr>)
      in s1\<lparr>cs_ids := (cs_ids s1)(sid := cs_ids s1 sid @ [cmd_id])\<rparr>)"

definition update_capture :: "string \<Rightarrow> (capture \<Rightarrow> capture) \<Rightarrow> captures \<Rightarrow> captures" where
  "update_capture cmd_id f s =
     (case dict_get (cs_background s) cmd_id of None \<Rightarrow> s | Some c \<Rightarrow> s\<lparr>cs_background := dict_set cmd_id (f c) (cs_background s)\<rparr>)"

text \<open>Received text, for the captures of its session.\<close>

definition rx_one :: "enat \<Rightarrow> seconds \<Rightarrow> int \<Rightarrow> string \<Rightarrow> capture \<Rightarrow> capture" where
  "rx_one max_bytes now wal_seq chunk c =
     (if bc_status c \<noteq> ''active'' then c else (add_chunk chunk max_bytes c)\<lparr>bc_last_activity := now, bc_last_seq := wal_seq\<rparr>)"

definition rx_captures :: "enat \<Rightarrow> seconds \<Rightarrow> int \<Rightarrow> string \<Rightarrow> string \<Rightarrow> captures \<Rightarrow> captures" where
  "rx_captures max_bytes now wal_seq sid chunk s =
     (if chunk = [] then s else fold (\<lambda>cid. update_capture cid (rx_one max_bytes now wal_seq chunk)) (cs_ids s sid) s)"

text \<open>A command in the foreground ends the captures of its session; a detached session forgets them.\<close>

definition finish_captures :: "string \<Rightarrow> captures \<Rightarrow> captures" where
  "finish_captures sid s = fold (\<lambda>cid. update_capture cid (\<lambda>c. c\<lparr>bc_status := ''done''\<rparr>)) (cs_ids s sid) s"

definition detach_captures :: "string \<Rightarrow> captures \<Rightarrow> captures" where
  "detach_captures sid s = (let s1 = finish_captures sid s in s1\<lparr>cs_ids := (cs_ids s1)(sid := [])\<rparr>)"

definition set_terminal_capture ::
  "enat \<Rightarrow> string \<Rightarrow> string \<Rightarrow> string list option \<Rightarrow> string option \<Rightarrow> int \<Rightarrow> seconds \<Rightarrow> string \<Rightarrow> seconds \<Rightarrow> captures \<Rightarrow> captures" where
  "set_terminal_capture max_bytes sid cmd_id chunks err current_seq quiet_window created now s =
     (if cmd_id = [] then s
      else let s1 = (if dict_get (cs_background s) cmd_id \<noteq> None then s
                     else update_capture cmd_id (fold (\<lambda>c. add_chunk c max_bytes) (case chunks of None \<Rightarrow> [] | Some cs \<Rightarrow> cs))
                            (evict_background (s\<lparr>cs_background :=
                               dict_set cmd_id (new_capture cmd_id sid current_seq quiet_window created now) (cs_background s)\<rparr>)))
           in update_capture cmd_id (\<lambda>c. c\<lparr>bc_last_seq := current_seq, bc_last_activity := now,
                bc_status := (if err \<noteq> None \<and> err \<noteq> Some [] then ''error'' else ''done''), bc_error_code := err\<rparr>) s1)"

section \<open>Reading\<close>

datatype bg_error = Cmd_not_found | Bad_slice

record bg_result =
  br_status :: string
  br_error_code :: "string option"
  br_from_seq :: int
  br_last_seq :: int
  br_next_chunk :: int
  br_dropped_chunks :: nat
  br_lost :: bool
  br_chunks :: "string list"

text \<open>\<open>itertools.islice\<close> raises for a negative end.\<close>

definition get_background_result :: "seconds \<Rightarrow> string \<Rightarrow> int \<Rightarrow> int \<Rightarrow> captures \<Rightarrow> (bg_error + bg_result) \<times> captures" where
  "get_background_result now cmd_id from_chunk limit s =
     (case dict_get (cs_background s) cmd_id of
        None \<Rightarrow> (Inl Cmd_not_found, s)
      | Some _ \<Rightarrow>
          let s1 = update_capture cmd_id (maybe_finalize now) s;
              c = the (dict_get (cs_background s1) cmd_id);
              start = max (from_chunk - int (bc_dropped_chunks c)) 0;
              chunks = take (nat limit) (drop (nat start) (bc_chunks c));
              returned_from = int (bc_dropped_chunks c) + start
          in if start + limit < 0 then (Inl Bad_slice, s1)
             else (Inr \<lparr>br_status = bc_status c, br_error_code = bc_error_code c, br_from_seq = bc_from_seq c, br_last_seq = bc_last_seq c,
                     br_next_chunk = returned_from + int (length chunks), br_dropped_chunks = bc_dropped_chunks c,
                     br_lost = (from_chunk < int (bc_dropped_chunks c)), br_chunks = chunks\<rparr>, s1))"

section \<open>The operations of a run\<close>

datatype cap_op =
    Start_background string string int seconds string seconds
  | Received seconds int string string
  | Finish_captures string
  | Detach_captures string
  | Terminal_capture string string "string list option" "string option" int seconds string seconds
  | Poll seconds string int int

fun cap_do :: "enat \<Rightarrow> cap_op \<Rightarrow> captures \<Rightarrow> captures" where
  "cap_do mx (Start_background cid sid q w created now) s = start_background cid sid q w created now s"
| "cap_do mx (Received now q sid chunk) s = rx_captures mx now q sid chunk s"
| "cap_do mx (Finish_captures sid) s = finish_captures sid s"
| "cap_do mx (Detach_captures sid) s = detach_captures sid s"
| "cap_do mx (Terminal_capture sid cid chunks err q w created now) s = set_terminal_capture mx sid cid chunks err q w created now s"
| "cap_do mx (Poll now cid n limit) s = snd (get_background_result now cid n limit s)"

definition cap_run :: "enat \<Rightarrow> cap_op list \<Rightarrow> captures" where
  "cap_run mx ops = fold (cap_do mx) ops no_captures"

section \<open>A bounded capture and the whole one\<close>

definition shape :: "capture \<Rightarrow> capture" where
  "shape c = c\<lparr>bc_chunks := [], bc_total_bytes := 0, bc_dropped_chunks := 0\<rparr>"

text \<open>
  \<open>c\<close> is the end of \<open>c'\<close>, which has everything. It is the longest end within the limit, or the last part alone.
\<close>

definition text_size :: "string list \<Rightarrow> nat" where
  "text_size chunks = sum_list (map length chunks)"

definition longest_end :: "enat \<Rightarrow> nat \<Rightarrow> string list \<Rightarrow> bool" where
  "longest_end mx d full \<longleftrightarrow>
     d \<le> length full \<and> (enat (text_size (drop d full)) \<le> mx \<or> length full - d \<le> 1) \<and> (0 < d \<longrightarrow> mx < enat (text_size (drop (d - 1) full)))"

definition windowed :: "enat \<Rightarrow> capture \<Rightarrow> capture \<Rightarrow> bool" where
  "windowed mx c c' \<longleftrightarrow>
     shape c = shape c' \<and> bc_dropped_chunks c' = 0 \<and> bc_chunks c = drop (bc_dropped_chunks c) (bc_chunks c')
     \<and> bc_total_bytes c = text_size (bc_chunks c) \<and> longest_end mx (bc_dropped_chunks c) (bc_chunks c')"

lemma text_size_simps [simp]: "text_size [] = 0" "text_size (c # cs) = length c + text_size cs" "text_size (cs @ ds) = text_size cs + text_size ds"
  by (simp_all add: text_size_def)

lemma trim_window:
  assumes "trim_chunks mx cs n d = (cs', n', d')" "n = text_size cs" "cs = drop d full" "d \<le> length full"
    "0 < d \<longrightarrow> mx < enat (text_size (drop (d - 1) full))"
  shows "n' = text_size cs' \<and> cs' = drop d' full \<and> longest_end mx d' full"
  using assms
proof (induction mx cs n d rule: trim_chunks.induct)
  case (1 mx a b cs n d)
  show ?case
  proof (cases "mx < enat n")
    case True
    have d: "b # cs = drop (Suc d) full" using 1(4) by (metis drop_Suc list.sel(3) tl_drop)
    have "Suc d \<le> length full" using d by (metis drop_all list.distinct(1) nat_le_linear)
    moreover have "0 < Suc d \<longrightarrow> mx < enat (text_size (drop (Suc d - 1) full))" using True 1(3,4) by simp
    ultimately show ?thesis using 1(1) [OF True _ _ d] 1(2,3) True by simp
  next
    case False
    then have "cs' = a # b # cs" "n' = n" "d' = d" using 1(2) by simp_all
    then show ?thesis using 1(3-6) False by (metis longest_end_def not_less)
  qed
next
  case (2 mx v n d)
  have "cs' = [v]" "n' = n" "d' = d" using 2(1) by simp_all
  moreover have "length full - d = 1" using 2(3) by (metis One_nat_def length_Cons length_drop list.size(3))
  ultimately show ?case using 2(2-5) by (simp add: longest_end_def)
next
  case (3 mx n d)
  then have "cs' = []" "n' = n" "d' = d" by simp_all
  then show ?case using 3 by (simp add: longest_end_def)
qed

lemma trim_infinite [simp]: "trim_chunks \<infinity> cs n d = (cs, n, d)"
  by (cases "(\<infinity> :: enat, cs, n, d)" rule: trim_chunks.cases) auto

lemma shape_fields:
  assumes "shape c = shape c'"
  shows "bc_cmd_id c = bc_cmd_id c'" "bc_session_id c = bc_session_id c'" "bc_created_at c = bc_created_at c'" "bc_status c = bc_status c'"
    "bc_quiet_window_s c = bc_quiet_window_s c'" "bc_last_activity c = bc_last_activity c'" "bc_error_code c = bc_error_code c'"
    "bc_from_seq c = bc_from_seq c'" "bc_last_seq c = bc_last_seq c'"
  using assms by (simp_all add: shape_def capture.defs) (cases c; cases c'; simp)+

lemma windowed_add:
  assumes "windowed mx c c'"
  shows "windowed mx (add_chunk chunk mx c) (add_chunk chunk \<infinity> c')"
proof (cases "chunk = []")
  case True
  then show ?thesis using assms by (simp add: add_chunk_def)
next
  case False
  let ?full = "bc_chunks c' @ [chunk]"
  obtain cs n d where t: "trim_chunks mx (bc_chunks c @ [chunk]) (bc_total_bytes c + length chunk) (bc_dropped_chunks c) = (cs, n, d)" by (metis surj_pair)
  let ?d = "bc_dropped_chunks c"
  have d: "?d \<le> length (bc_chunks c')" and min: "0 < ?d \<longrightarrow> mx < enat (text_size (drop (?d - 1) (bc_chunks c')))"
    using assms by (simp_all add: windowed_def longest_end_def)
  have "bc_total_bytes c + length chunk = text_size (bc_chunks c @ [chunk])" "bc_chunks c @ [chunk] = drop ?d ?full" "?d \<le> length ?full"
    using assms d by (simp_all add: windowed_def)
  moreover have "0 < ?d \<longrightarrow> mx < enat (text_size (drop (?d - 1) ?full))"
  proof
    assume "0 < ?d"
    then have "mx < enat (text_size (drop (?d - 1) (bc_chunks c')))" using min by blast
    also have "\<dots> \<le> enat (text_size (drop (?d - 1) ?full))" by simp
    finally show "mx < enat (text_size (drop (?d - 1) ?full))" .
  qed
  ultimately have w: "n = text_size cs \<and> cs = drop d ?full \<and> longest_end mx d ?full" by (rule trim_window [OF t])
  have new: "add_chunk chunk mx c = c\<lparr>bc_chunks := cs, bc_total_bytes := n, bc_dropped_chunks := d\<rparr>" using t False by (simp add: add_chunk_def)
  have full: "add_chunk chunk \<infinity> c' = c'\<lparr>bc_chunks := ?full, bc_total_bytes := bc_total_bytes c' + length chunk, bc_dropped_chunks := bc_dropped_chunks c'\<rparr>"
    using False by (simp add: add_chunk_def)
  show ?thesis unfolding new full using assms w by (simp add: windowed_def shape_def)
qed

lemma windowed_shape:
  assumes "windowed mx c c'" "\<And>c. shape (f c) = g (shape c)" "\<And>c. bc_chunks (f c) = bc_chunks c \<and> bc_total_bytes (f c) = bc_total_bytes c \<and> bc_dropped_chunks (f c) = bc_dropped_chunks c"
  shows "windowed mx (f c) (f c')"
  using assms by (auto simp: windowed_def)

lemma windowed_new [simp]: "windowed mx (new_capture cid sid q w created now) (new_capture cid sid q w created now)"
  by (simp add: windowed_def new_capture_def longest_end_def)

text \<open>The tables of the bounded and of the unbounded run, entry by entry.\<close>

definition ent :: "enat \<Rightarrow> string \<times> capture \<Rightarrow> string \<times> capture \<Rightarrow> bool" where
  "ent mx a b \<longleftrightarrow> fst a = fst b \<and> windowed mx (snd a) (snd b)"

definition simulates :: "enat \<Rightarrow> captures \<Rightarrow> captures \<Rightarrow> bool" where
  "simulates mx s t \<longleftrightarrow> list_all2 (ent mx) (cs_background s) (cs_background t) \<and> cs_ids s = cs_ids t"

lemma ent_shape: "ent mx a b \<Longrightarrow> shape (snd a) = shape (snd b)"
  by (simp add: ent_def windowed_def)

lemma ent_get: "list_all2 (ent mx) d d' \<Longrightarrow> rel_option (windowed mx) (dict_get d k) (dict_get d' k)"
proof (induction rule: list_all2_induct)
  case (Cons a d b d')
  then show ?case by (cases a; cases b) (auto simp: ent_def)
qed simp

lemma ent_set: "list_all2 (ent mx) d d' \<Longrightarrow> windowed mx c c' \<Longrightarrow> list_all2 (ent mx) (dict_set k c d) (dict_set k c' d')"
proof (induction rule: list_all2_induct)
  case (Cons a d b d')
  then show ?case by (cases a; cases b) (auto simp: ent_def)
qed (simp add: ent_def)

lemma ent_filter: "list_all2 (ent mx) d d' \<Longrightarrow> (\<And>a b. ent mx a b \<Longrightarrow> P a = P b) \<Longrightarrow> list_all2 (ent mx) (filter P d) (filter P d')"
  by (induction rule: list_all2_induct) auto

lemma ent_pop: "list_all2 (ent mx) d d' \<Longrightarrow> list_all2 (ent mx) (dict_pop k d) (dict_pop k d')"
  unfolding AList.delete_eq by (rule ent_filter) (auto simp: ent_def)

lemma ent_insort: "list_all2 (ent mx) d d' \<Longrightarrow> ent mx a b
    \<Longrightarrow> list_all2 (ent mx) (insort_key (bc_created_at \<circ> snd) a d) (insort_key (bc_created_at \<circ> snd) b d')"
proof (induction rule: list_all2_induct)
  case (Cons x d y d')
  then show ?case using shape_fields(3) [OF ent_shape [OF Cons.hyps(1)]] shape_fields(3) [OF ent_shape [OF Cons.prems]] by auto
qed simp

lemma ent_sort: "list_all2 (ent mx) d d' \<Longrightarrow> list_all2 (ent mx) (sort_key (bc_created_at \<circ> snd) d) (sort_key (bc_created_at \<circ> snd) d')"
proof (induction rule: list_all2_induct)
  case (Cons x d y d')
  then show ?case unfolding sort_key_def foldr.simps o_apply [of "insort_key _ _"] by (intro ent_insort)
qed simp

lemma ent_finalized: "list_all2 (ent mx) d d' \<Longrightarrow> list_all2 (ent mx) (finalized d) (finalized d')"
proof -
  assume d: "list_all2 (ent mx) d d'"
  have "(case a of (_, cap) \<Rightarrow> bc_status cap \<noteq> ''active'') = (case b of (_, cap) \<Rightarrow> bc_status cap \<noteq> ''active'')" if "ent mx a b" for a b
    unfolding case_prod_beta shape_fields(4) [OF ent_shape [OF that]] by (rule refl)
  from ent_sort [OF ent_filter [OF d this]] show ?thesis unfolding finalized_def .
qed

lemma simulates_evict: "simulates mx s t \<Longrightarrow> simulates mx (evict_background s) (evict_background t)"
proof -
  assume st: "simulates mx s t"
  have one: "simulates mx (evict_one a s) (evict_one b t)" if "simulates mx s t" "ent mx a b" for a b s t
    using that shape_fields(2) [OF ent_shape [OF that(2)]] ent_pop by (cases a; cases b) (auto simp: simulates_def evict_one_def ent_def)
  have all: "simulates mx (fold evict_one as s) (fold evict_one bs t)" if "list_all2 (ent mx) as bs" "simulates mx s t" for as bs
    using that
  proof (induction arbitrary: s t rule: list_all2_induct)
    case (Cons a as b bs)
    then show ?case using one by simp
  qed simp
  have len: "length (cs_background s) = length (cs_background t)" using st list_all2_lengthD by (auto simp: simulates_def)
  show ?thesis unfolding evict_background_def len
    using all [OF list_all2_takeI [OF ent_finalized] st] st by (simp add: simulates_def)
qed

lemma simulates_update:
  assumes "simulates mx s t" "\<And>c c'. windowed mx c c' \<Longrightarrow> windowed mx (f c) (g c')"
  shows "simulates mx (update_capture k f s) (update_capture k g t)"
proof -
  have "rel_option (windowed mx) (dict_get (cs_background s) k) (dict_get (cs_background t) k)" using assms(1) ent_get by (simp add: simulates_def)
  then show ?thesis using assms ent_set by (auto simp: update_capture_def simulates_def split: option.splits)
qed

lemma simulates_fold:
  assumes "simulates mx s t" "\<And>c c'. windowed mx c c' \<Longrightarrow> windowed mx (f c) (g c')"
  shows "simulates mx (fold (\<lambda>k. update_capture k f) ks s) (fold (\<lambda>k. update_capture k g) ks t)"
  using assms(1)
proof (induction ks arbitrary: s t)
  case (Cons k ks)
  have "simulates mx (update_capture k f s) (update_capture k g t)" by (rule simulates_update [OF Cons.prems assms(2)])
  from Cons.IH [OF this] show ?case by simp
qed simp

lemma windowed_shapes: "windowed mx c c' \<Longrightarrow> shape c = shape c'"
  by (simp add: windowed_def)

lemma windowed_rx: "windowed mx c c' \<Longrightarrow> windowed mx (rx_one mx now q chunk c) (rx_one \<infinity> now q chunk c')"
proof -
  assume w: "windowed mx c c'"
  have "bc_status c = bc_status c'" by (rule shape_fields(4) [OF windowed_shapes [OF w]])
  moreover have "windowed mx ((add_chunk chunk mx c)\<lparr>bc_last_activity := now, bc_last_seq := q\<rparr>) ((add_chunk chunk \<infinity> c')\<lparr>bc_last_activity := now, bc_last_seq := q\<rparr>)"
    by (rule windowed_shape [OF windowed_add [OF w], where g = "\<lambda>c. c\<lparr>bc_last_activity := now, bc_last_seq := q\<rparr>"]) (simp_all add: shape_def)
  ultimately show ?thesis using w by (simp add: rx_one_def)
qed

lemma windowed_status: "windowed mx c c' \<Longrightarrow> windowed mx (c\<lparr>bc_status := x\<rparr>) (c'\<lparr>bc_status := x\<rparr>)"
  by (rule windowed_shape [where g = "\<lambda>c. c\<lparr>bc_status := x\<rparr>"]) (simp_all add: shape_def)

lemma windowed_finalize: "windowed mx c c' \<Longrightarrow> windowed mx (maybe_finalize now c) (maybe_finalize now c')"
proof -
  assume w: "windowed mx c c'"
  note [simp] = shape_fields(4-6) [OF windowed_shapes [OF w]]
  show ?thesis using w windowed_status [OF w] by (simp add: maybe_finalize_def)
qed

lemma windowed_adds: "windowed mx c c' \<Longrightarrow> windowed mx (fold (\<lambda>ch. add_chunk ch mx) chs c) (fold (\<lambda>ch. add_chunk ch \<infinity>) chs c')"
  by (induction chs arbitrary: c c') (simp_all add: windowed_add)

lemma simulates_get: "simulates mx s t \<Longrightarrow> rel_option (windowed mx) (dict_get (cs_background s) k) (dict_get (cs_background t) k)"
  using ent_get by (simp add: simulates_def)

lemma simulates_new:
  "simulates mx s t \<Longrightarrow> simulates mx (s\<lparr>cs_background := dict_set k (new_capture a b c d e f) (cs_background s)\<rparr>)
     (t\<lparr>cs_background := dict_set k (new_capture a b c d e f) (cs_background t)\<rparr>)"
  using ent_set by (simp add: simulates_def)

lemma simulates_ids: "simulates mx s t \<Longrightarrow> simulates mx (s\<lparr>cs_ids := (cs_ids s)(sid := h (cs_ids s sid))\<rparr>) (t\<lparr>cs_ids := (cs_ids t)(sid := h (cs_ids t sid))\<rparr>)"
  by (simp add: simulates_def)

lemma simulates_do: "simulates mx s t \<Longrightarrow> simulates mx (cap_do mx op s) (cap_do \<infinity> op t)"
proof (cases op)
  case (Start_background cid sid q w created now)
  assume "simulates mx s t"
  from simulates_ids [OF simulates_evict [OF simulates_new [OF this]], of cid cid sid q w created now sid "\<lambda>l. l @ [cid]"]
  show ?thesis by (simp add: Start_background start_background_def Let_def)
next
  case (Received now q sid chunk)
  assume st: "simulates mx s t"
  then have "cs_ids s = cs_ids t" by (simp add: simulates_def)
  then show ?thesis using simulates_fold [OF st windowed_rx] st by (simp add: Received rx_captures_def)
next
  case (Finish_captures sid)
  assume st: "simulates mx s t"
  then have "cs_ids s = cs_ids t" by (simp add: simulates_def)
  then show ?thesis using simulates_fold [OF st windowed_status] by (simp add: Finish_captures finish_captures_def)
next
  case (Detach_captures sid)
  assume st: "simulates mx s t"
  then have "cs_ids s = cs_ids t" by (simp add: simulates_def)
  then have "simulates mx (finish_captures sid s) (finish_captures sid t)" using simulates_fold [OF st windowed_status] by (simp add: finish_captures_def)
  from simulates_ids [OF this, of sid "\<lambda>_. []"] show ?thesis by (simp add: Detach_captures detach_captures_def Let_def)
next
  case (Terminal_capture sid cid chunks err q w created now)
  assume st: "simulates mx s t"
  have "(dict_get (cs_background s) cid = None) = (dict_get (cs_background t) cid = None)" using simulates_get [OF st, of cid] by (auto simp: option.rel_sel)
  moreover have "windowed mx (f c) (f c')" if "windowed mx c c'" "f = (\<lambda>c. c\<lparr>bc_last_seq := q, bc_last_activity := now, bc_status := x, bc_error_code := err\<rparr>)" for f x c c'
    unfolding that(2) by (rule windowed_shape [OF that(1), where g = "\<lambda>c. c\<lparr>bc_last_seq := q, bc_last_activity := now, bc_status := x, bc_error_code := err\<rparr>"]) (simp_all add: shape_def)
  ultimately show ?thesis using st unfolding Terminal_capture cap_do.simps set_terminal_capture_def Let_def
    by (auto intro!: simulates_update simulates_evict simulates_new windowed_adds)
next
  case (Poll now cid n limit)
  assume st: "simulates mx s t"
  have "simulates mx (update_capture cid (maybe_finalize now) s) (update_capture cid (maybe_finalize now) t)"
    by (rule simulates_update [OF st windowed_finalize])
  then show ?thesis using st simulates_get [OF st, of cid] by (auto simp: Poll get_background_result_def Let_def split: option.splits)
qed

lemma simulates_run: "simulates mx (cap_run mx ops) (cap_run \<infinity> ops)"
proof (induction ops rule: rev_induct)
  case Nil
  then show ?case by (simp add: cap_run_def simulates_def no_captures_def)
next
  case (snoc op ops)
  then show ?case using simulates_do by (simp add: cap_run_def)
qed

section \<open>What a reader gets\<close>

lemma windowed_finalize_fields:
  assumes "windowed mx c c'"
  shows "bc_status (maybe_finalize now c) = bc_status (maybe_finalize now c')" "bc_error_code (maybe_finalize now c) = bc_error_code c'"
    "bc_from_seq (maybe_finalize now c) = bc_from_seq c'" "bc_last_seq (maybe_finalize now c) = bc_last_seq c'"
  using shape_fields [OF windowed_shapes [OF assms]] by (simp_all add: maybe_finalize_def)

lemma maybe_finalize_text [simp]:
  "bc_chunks (maybe_finalize now c) = bc_chunks c" "bc_dropped_chunks (maybe_finalize now c) = bc_dropped_chunks c"
  by (simp_all add: maybe_finalize_def)

lemma cursor_shift: "0 \<le> n \<Longrightarrow> d + nat (max (n - int d) 0) = max (nat n) d"
  by linarith

text \<open>C20. Reading a background command with a cursor is exact, however long it ran: whatever commands were started, received text, ended, were
  polled and dropped before, the command is found exactly when it would be found with unlimited memory. The answer is then the part of the whole
  text from the cursor on, or from the first part that is still there, at most \<open>limit\<close> parts; the next cursor is where it ends; \<open>lost\<close> says
  whether parts at the cursor are gone; status and sequence numbers are those of the unlimited capture. What is gone is as little as possible: the
  rest is within four million characters or a single part, and with one part more it would not be.
\<close>

theorem background_window:
  fixes n limit :: int
  assumes "0 \<le> n" "0 \<le> limit"
  shows "case (fst (get_background_result now cmd_id n limit (cap_run (enat BG_CAPTURE_MAX_BYTES) ops)), dict_get (cs_background (cap_run \<infinity> ops)) cmd_id) of
      (Inl e, c) \<Rightarrow> e = Cmd_not_found \<and> c = None
    | (Inr r, None) \<Rightarrow> False
    | (Inr r, Some c) \<Rightarrow>
        br_chunks r = take (nat limit) (drop (max (nat n) (br_dropped_chunks r)) (bc_chunks c))
        \<and> br_next_chunk r = int (max (nat n) (br_dropped_chunks r) + length (br_chunks r))
        \<and> br_lost r = (nat n < br_dropped_chunks r)
        \<and> br_status r = bc_status (maybe_finalize now c) \<and> br_error_code r = bc_error_code c
        \<and> br_from_seq r = bc_from_seq c \<and> br_last_seq r = bc_last_seq c
        \<and> longest_end (enat BG_CAPTURE_MAX_BYTES) (br_dropped_chunks r) (bc_chunks c)"
proof -
  let ?s = "cap_run (enat BG_CAPTURE_MAX_BYTES) ops" and ?t = "cap_run \<infinity> ops"
  note rel = simulates_get [OF simulates_run, where k = cmd_id]
  show ?thesis
  proof (cases "dict_get (cs_background ?s) cmd_id")
    case None
    then have "dict_get (cs_background ?t) cmd_id = None" using rel [of "enat BG_CAPTURE_MAX_BYTES" ops] by simp
    with None show ?thesis by (simp add: get_background_result_def)
  next
    case (Some c)
    then obtain c' where c': "dict_get (cs_background ?t) cmd_id = Some c'" and w: "windowed (enat BG_CAPTURE_MAX_BYTES) c c'"
      using rel [of "enat BG_CAPTURE_MAX_BYTES" ops] by (auto simp: option_rel_Some1)
    let ?d = "bc_dropped_chunks c" and ?start = "max (n - int (bc_dropped_chunks c)) 0"
    have chunks: "bc_chunks c = drop ?d (bc_chunks c')" and longest: "longest_end (enat BG_CAPTURE_MAX_BYTES) ?d (bc_chunks c')"
      using w by (simp_all add: windowed_def)
    have part: "drop (nat ?start) (bc_chunks c) = drop (max (nat n) ?d) (bc_chunks c')"
      unfolding chunks drop_drop add.commute [of "nat ?start"] cursor_shift [OF assms(1)] by (rule refl)
    have from': "int ?d + ?start = int (max (nat n) ?d)" using assms(1) by linarith
    have ok: "\<not> ?start + limit < 0" using assms(2) by simp
    have lost: "n < int ?d \<longleftrightarrow> nat n < ?d" using assms(1) by (simp add: zless_nat_conj nat_less_iff)
    have got: "fst (get_background_result now cmd_id n limit ?s) =
        Inr \<lparr>br_status = bc_status (maybe_finalize now c), br_error_code = bc_error_code (maybe_finalize now c),
          br_from_seq = bc_from_seq (maybe_finalize now c), br_last_seq = bc_last_seq (maybe_finalize now c),
          br_next_chunk = int ?d + ?start + int (length (take (nat limit) (drop (nat ?start) (bc_chunks c)))), br_dropped_chunks = ?d,
          br_lost = (n < int ?d), br_chunks = take (nat limit) (drop (nat ?start) (bc_chunks c))\<rparr>"
      using ok by (simp add: get_background_result_def Some update_capture_def Let_def)
    show ?thesis unfolding got c' part from' lost windowed_finalize_fields [OF w]
      using longest by simp
  qed
qed

theorem background_window_witness:
  "let ops = [Start_background ''c1'' ''s'' 6 2 ''t0'' 0, Received 1 7 ''s'' ''ab'', Received 2 8 ''s'' ''cd'', Received 3 9 ''s'' ''ef'']
   in \<exists>r c. fst (get_background_result 4 ''c1'' 1 1 (cap_run (enat BG_CAPTURE_MAX_BYTES) ops)) = Inr r
        \<and> dict_get (cs_background (cap_run \<infinity> ops)) ''c1'' = Some c
        \<and> br_chunks r = take 1 (drop (max 1 (br_dropped_chunks r)) (bc_chunks c)) \<and> bc_chunks c = [''ab'', ''cd'', ''ef''] \<and> br_last_seq r = 9"
proof -
  define ops where "ops = [Start_background ''c1'' ''s'' 6 2 ''t0'' 0, Received 1 7 ''s'' ''ab'', Received 2 8 ''s'' ''cd'', Received 3 9 ''s'' ''ef'']"
  obtain c where c: "dict_get (cs_background (cap_run \<infinity> ops)) ''c1'' = Some c" "bc_chunks c = [''ab'', ''cd'', ''ef'']" "bc_last_seq c = 9"
    by (simp add: ops_def cap_run_def no_captures_def start_background_def evict_background_def new_capture_def rx_captures_def update_capture_def
        rx_one_def add_chunk_def BG_CAPTURE_MAX_COUNT_def)
  note w = background_window [where n = 1 and limit = 1 and now = 4 and cmd_id = "''c1''" and ops = ops]
  then obtain r where "fst (get_background_result 4 ''c1'' 1 1 (cap_run (enat BG_CAPTURE_MAX_BYTES) ops)) = Inr r"
    using c(1) by (cases "fst (get_background_result 4 ''c1'' 1 1 (cap_run (enat BG_CAPTURE_MAX_BYTES) ops))") auto
  moreover from this have "br_chunks r = take 1 (drop (max 1 (br_dropped_chunks r)) (bc_chunks c))" "br_last_seq r = 9" using w c by auto
  ultimately show ?thesis using c unfolding ops_def Let_def by blast
qed

section \<open>How many captures there are\<close>

lemma pop_all: "cs_background (fold evict_one es s) = filter (\<lambda>e. fst e \<notin> fst ` set es) (cs_background s)"
proof (induction es arbitrary: s)
  case (Cons e es)
  have "cs_background (evict_one e s) = filter (\<lambda>x. fst x \<noteq> fst e) (cs_background s)"
    by (cases e) (auto simp: evict_one_def AList.delete_eq intro!: filter_cong)
  then show ?case unfolding fold_simps Cons.IH by (simp add: conj_commute)
qed simp

lemma finalized_of: "set (finalized d) = {e \<in> set d. bc_status (snd e) \<noteq> ''active''}"
  by (auto simp: finalized_def)

lemma key_of_part:
  assumes "dict_ok d" "set es \<subseteq> set d" "e \<in> set d"
  shows "fst e \<in> fst ` set es \<longleftrightarrow> e \<in> set es"
proof
  assume "fst e \<in> fst ` set es"
  then obtain e' where "e' \<in> set es" "fst e' = fst e" by force
  moreover from this have "e' = e" using assms inj_onD [of fst "set d" e' e] by (auto simp: distinct_map)
  ultimately show "e \<in> set es" by simp
qed simp

lemma length_filter_keys:
  assumes "dict_ok d" "set es \<subseteq> set d" "distinct es"
  shows "length (filter (\<lambda>e. fst e \<notin> fst ` set es) d) = length d - length es"
proof -
  have d: "distinct d" using assms(1) by (simp add: distinct_map)
  have "length (filter (\<lambda>e. fst e \<notin> fst ` set es) d) = length (filter (\<lambda>e. e \<notin> set es) d)"
    using key_of_part [OF assms(1,2)] by (metis (mono_tags, lifting) filter_cong)
  also have "\<dots> = card (set d - set es)" using distinct_card [OF distinct_filter [OF d, of "\<lambda>e. e \<notin> set es"]] by (simp add: set_diff_eq)
  also have "\<dots> = length d - length es" using assms(2,3) d by (simp add: card_Diff_subset distinct_card)
  finally show ?thesis .
qed

text \<open>An eviction takes only ended captures, the oldest first, and no more than needed.\<close>

definition bg_victims :: "captures \<Rightarrow> (string \<times> capture) list" where
  "bg_victims s = take (length (cs_background s) - BG_CAPTURE_MAX_COUNT) (finalized (cs_background s))"

lemma evict_filter: "cs_background (evict_background s) = filter (\<lambda>e. fst e \<notin> fst ` set (bg_victims s)) (cs_background s)"
  by (simp add: evict_background_def pop_all bg_victims_def)

lemma bg_victims_of: "set (bg_victims s) \<subseteq> {e \<in> set (cs_background s). bc_status (snd e) \<noteq> ''active''}"
  unfolding bg_victims_def finalized_of [symmetric] by (rule set_take_subset)

lemma kept_iff:
  assumes "dict_ok (cs_background s)"
  shows "e \<in> set (cs_background (evict_background s)) \<longleftrightarrow> e \<in> set (cs_background s) \<and> e \<notin> set (bg_victims s)"
  unfolding evict_filter using key_of_part [OF assms, of "bg_victims s" e] bg_victims_of [of s] by auto

lemma length_evict:
  assumes "dict_ok (cs_background s)"
  shows "length (cs_background (evict_background s)) = length (cs_background s) - length (bg_victims s)"
proof -
  have "distinct (bg_victims s)" using assms by (simp add: bg_victims_def finalized_def distinct_map)
  then show ?thesis unfolding evict_filter using length_filter_keys [OF assms, of "bg_victims s"] bg_victims_of [of s] by auto
qed

lemma evict_limits:
  assumes "dict_ok (cs_background s)"
  shows "length (cs_background (evict_background s)) \<le> BG_CAPTURE_MAX_COUNT
      \<or> list_all (\<lambda>e. bc_status (snd e) = ''active'') (cs_background (evict_background s))"
proof (cases "length (cs_background s) - BG_CAPTURE_MAX_COUNT \<le> length (finalized (cs_background s))")
  case True
  then have "length (bg_victims s) = length (cs_background s) - BG_CAPTURE_MAX_COUNT" by (simp add: bg_victims_def)
  then have "length (cs_background (evict_background s)) \<le> BG_CAPTURE_MAX_COUNT" unfolding length_evict [OF assms] by linarith
  then show ?thesis ..
next
  case False
  then have "set (bg_victims s) = {e \<in> set (cs_background s). bc_status (snd e) \<noteq> ''active''}" by (simp add: bg_victims_def finalized_of)
  then show ?thesis unfolding list_all_iff by (auto simp: kept_iff [OF assms])
qed

lemma kept_younger:
  assumes "dict_ok (cs_background s)" "v \<in> set (bg_victims s)" "e \<in> set (cs_background (evict_background s))" "bc_status (snd e) \<noteq> ''active''"
  shows "bc_created_at (snd v) \<le> bc_created_at (snd e)"
proof -
  let ?n = "length (cs_background s) - BG_CAPTURE_MAX_COUNT" and ?fin = "finalized (cs_background s)"
  have "e \<in> set ?fin" "e \<notin> set (bg_victims s)" using assms(3,4) by (simp_all add: kept_iff [OF assms(1)] finalized_of)
  then have "e \<in> set (drop ?n ?fin)" unfolding bg_victims_def by (metis Un_iff append_take_drop_id set_append)
  moreover have "sorted (map (bc_created_at \<circ> snd) (bg_victims s @ drop ?n ?fin))" by (simp add: bg_victims_def finalized_def)
  ultimately show ?thesis using assms(2) by (force simp: sorted_append)
qed

lemma evict_takes_oldest:
  assumes "dict_ok (cs_background s)" "dict_get (cs_background s) k = Some c"
  shows "dict_get (cs_background (evict_background s)) k = Some c
      \<or> dict_get (cs_background (evict_background s)) k = None \<and> bc_status c \<noteq> ''active''
        \<and> BG_CAPTURE_MAX_COUNT \<le> length (cs_background (evict_background s))
        \<and> list_all (\<lambda>e. bc_status (snd e) = ''active'' \<or> bc_created_at c \<le> bc_created_at (snd e)) (cs_background (evict_background s))"
proof (cases "(k, c) \<in> set (bg_victims s)")
  case True
  then have "0 < length (bg_victims s)" by (rule length_pos_if_in_set)
  then have "BG_CAPTURE_MAX_COUNT \<le> length (cs_background (evict_background s))"
    unfolding length_evict [OF assms(1)] bg_victims_def length_take by linarith
  moreover have "dict_get (cs_background (evict_background s)) k = None" unfolding dict_get_None_iff evict_filter using True by force
  moreover have "bc_status c \<noteq> ''active''" using True bg_victims_of [of s] by auto
  moreover have "list_all (\<lambda>e. bc_status (snd e) = ''active'' \<or> bc_created_at c \<le> bc_created_at (snd e)) (cs_background (evict_background s))"
    unfolding list_all_iff using kept_younger [OF assms(1) True] unfolding snd_conv by blast
  ultimately show ?thesis by blast
next
  case False
  then have "(k, c) \<in> set (cs_background (evict_background s))" using map_of_SomeD [OF assms(2)] by (simp add: kept_iff [OF assms(1)])
  moreover have "dict_ok (cs_background (evict_background s))" unfolding evict_filter using assms(1) by (rule distinct_map_filter)
  ultimately have "dict_get (cs_background (evict_background s)) k = Some c" using dict_in_set_iff by metis
  then show ?thesis ..
qed

text \<open>The keys of the table are distinct in every run.\<close>

lemma ok_update [simp]: "dict_ok (cs_background s) \<Longrightarrow> dict_ok (cs_background (update_capture k f s))"
  by (simp add: update_capture_def split: option.split)

lemma ok_updates [simp]: "dict_ok (cs_background s) \<Longrightarrow> dict_ok (cs_background (fold (\<lambda>k. update_capture k f) ks s))"
  by (induction ks arbitrary: s) simp_all

lemma ok_evict [simp]: "dict_ok (cs_background s) \<Longrightarrow> dict_ok (cs_background (evict_background s))"
  unfolding evict_filter by (rule distinct_map_filter)

lemma ok_do: "dict_ok (cs_background s) \<Longrightarrow> dict_ok (cs_background (cap_do mx op s))"
  by (cases op) (simp_all add: start_background_def rx_captures_def finish_captures_def detach_captures_def set_terminal_capture_def
      get_background_result_def Let_def split: option.split)

lemma ok_run: "dict_ok (cs_background (cap_run mx ops))"
  by (induction ops rule: rev_induct) (simp_all add: cap_run_def no_captures_def ok_do)

text \<open>
  A command in the foreground, or a detach, ends every capture of its session, also those that ended with an error before: the status of such a
  capture changes from \<open>error\<close> to \<open>done\<close>, only its error code still tells.
\<close>

lemma update_get: "dict_get (cs_background (update_capture k f s)) k' =
    (if k' = k then map_option f (dict_get (cs_background s) k) else dict_get (cs_background s) k')"
  by (simp add: update_capture_def split: option.split)

lemma finish_forgets_error:
  assumes "dict_get (cs_background s) cmd_id = Some c" "cmd_id \<in> set (cs_ids s sid)"
  shows "dict_get (cs_background (finish_captures sid s)) cmd_id = Some (c\<lparr>bc_status := ''done''\<rparr>)"
proof -
  have "dict_get (cs_background (fold (\<lambda>k. update_capture k (\<lambda>c. c\<lparr>bc_status := ''done''\<rparr>)) ks s)) cmd_id =
      map_option (if cmd_id \<in> set ks then (\<lambda>c. c\<lparr>bc_status := ''done''\<rparr>) else id) (dict_get (cs_background s) cmd_id)" for ks
    by (induction ks arbitrary: s) (auto simp: update_get option.map_comp o_def option.map_id0 option.map_ident)
  then show ?thesis using assms by (simp add: finish_captures_def)
qed

text \<open>C35. The captures of background commands are bounded and nothing that runs is forgotten: after a background command was started, at any point of
  any run, there are at most 64 captures or all of them are running. Every other capture is as before or was taken out of the table; and it was
  taken out only when it had ended, the table is full without it, and every ended capture that was kept is not older.
\<close>

theorem captures_bounded:
  fixes mx :: enat
  assumes "dict_get (cs_background (cap_run mx ops)) k = Some c" "k \<noteq> cmd_id"
    and t: "t = cap_run mx (ops @ [Start_background cmd_id sid q w created now])"
  shows "(length (cs_background t) \<le> BG_CAPTURE_MAX_COUNT \<or> list_all (\<lambda>e. bc_status (snd e) = ''active'') (cs_background t))
    \<and> (dict_get (cs_background t) k = Some c
       \<or> dict_get (cs_background t) k = None \<and> bc_status c \<noteq> ''active'' \<and> BG_CAPTURE_MAX_COUNT \<le> length (cs_background t)
         \<and> list_all (\<lambda>e. bc_status (snd e) = ''active'' \<or> bc_created_at c \<le> bc_created_at (snd e)) (cs_background t))"
proof -
  let ?s = "cap_run mx ops"
  let ?s1 = "?s\<lparr>cs_background := dict_set cmd_id (new_capture cmd_id sid q w created now) (cs_background ?s)\<rparr>"
  have "cs_background t = cs_background (evict_background ?s1)" by (simp add: t cap_run_def start_background_def Let_def)
  moreover have "dict_ok (cs_background ?s1)" using ok_run [of mx ops] by simp
  moreover have "dict_get (cs_background ?s1) k = Some c" using assms(1,2) by simp
  ultimately show ?thesis using evict_limits [of ?s1] evict_takes_oldest [of ?s1 k c] by simp
qed

theorem captures_bounded_witness:
  "let ops = [Start_background ''c1'' ''s'' 6 2 ''t0'' 0, Received 1 7 ''s'' ''ab''];
       t = cap_run \<infinity> (ops @ [Start_background ''c2'' ''s'' 7 2 ''t1'' 2])
   in \<exists>c. dict_get (cs_background (cap_run \<infinity> ops)) ''c1'' = Some c \<and> bc_chunks c = [''ab'']
     \<and> (length (cs_background t) \<le> BG_CAPTURE_MAX_COUNT \<or> list_all (\<lambda>e. bc_status (snd e) = ''active'') (cs_background t))
     \<and> dict_get (cs_background t) ''c1'' = Some c"
proof -
  define ops where "ops = [Start_background ''c1'' ''s'' 6 2 ''t0'' 0, Received 1 7 ''s'' ''ab'']"
  obtain c where c: "dict_get (cs_background (cap_run \<infinity> ops)) ''c1'' = Some c" "bc_chunks c = [''ab'']" "bc_status c = ''active''"
    by (simp add: ops_def cap_run_def no_captures_def start_background_def evict_background_def new_capture_def rx_captures_def update_capture_def
        rx_one_def add_chunk_def BG_CAPTURE_MAX_COUNT_def)
  from captures_bounded [OF c(1) _ refl, of "''c2''" "''s''" 7 2 "''t1''" 2] c show ?thesis unfolding ops_def Let_def by simp
qed

end
