(* ===== verification/Command_Output.thy ===== *)
theory Command_Output
  imports Requests Console_Text Wal_Records
begin

text \<open>
  What a command printed (\<open>_extract_command_stdout\<close> of \<open>sw_core/session_manager.py\<close> and its helpers): from the text that was received since a
  command was sent, the trailing prompt and the echo of the command are removed, also an echo that the terminal wrapped. Regular expressions are
  matchers: \<open>finditer\<close> gives the starts of all matches of the prompt, \<open>search\<close> the end of the first match of a completion pattern.
\<close>

section \<open>The trailing prompt\<close>

definition last_prompt_start :: "(string \<Rightarrow> nat list) \<Rightarrow> string \<Rightarrow> nat option" where
  "last_prompt_start finditer text = (case finditer text of [] \<Rightarrow> None | m # ms \<Rightarrow> Some (last (m # ms)))"

definition lstrip_nl :: "string \<Rightarrow> string" where
  "lstrip_nl s = dropWhile (\<lambda>c. c = CHR 0x0A) s"

definition strip_nl :: "string \<Rightarrow> string" where
  "strip_nl s = rev (lstrip_nl (rev (lstrip_nl s)))"

fun join_lines :: "string list \<Rightarrow> string" where
  "join_lines (l # m # ls) = l @ CHR 0x0A # join_lines (m # ls)"
| "join_lines [l] = l"
| "join_lines [] = []"

text \<open>The lines of the cleaned text without its last prompt; with a completion pattern only a prompt after the completion is cut.\<close>

definition output_lines :: "(string \<Rightarrow> nat list) \<Rightarrow> (string \<Rightarrow> nat option) option \<Rightarrow> string \<Rightarrow> string list" where
  "output_lines finditer completion text =
     (let cleaned = clean_text text;
          prompt_start = last_prompt_start finditer cleaned;
          completion_end = (case completion of None \<Rightarrow> None | Some search \<Rightarrow> map_option (\<lambda>e. length (clean_text (take e text))) (search text));
          body = (case prompt_start of
              None \<Rightarrow> cleaned
            | Some p \<Rightarrow> if completion = None \<or> (case completion_end of None \<Rightarrow> False | Some e \<Rightarrow> e \<le> p) then take p cleaned else cleaned)
      in py_splitlines (lstrip_nl body))"

section \<open>Wrapped echoes\<close>

definition WRAP_MIN_SEGMENT :: nat where "WRAP_MIN_SEGMENT = 20"

text \<open>The loop of \<open>_match_wrapped_echo\<close>: position in the text, characters of the command that were found, and how many at the last wrap.\<close>

function wrapped_loop :: "string \<Rightarrow> nat \<Rightarrow> string \<Rightarrow> char \<Rightarrow> nat \<Rightarrow> nat \<Rightarrow> nat option \<Rightarrow> nat option" where
  "wrapped_loop text start command marker i matched last_wrap =
     (if length command \<le> matched then Some i
      else if length text \<le> i then None
      else if text ! i = command ! matched then wrapped_loop text start command marker (Suc i) (Suc matched) last_wrap
      else if matched = 0 \<or> text ! i \<noteq> marker then None
      else if (case last_wrap of None \<Rightarrow> start + matched | Some w \<Rightarrow> matched - w) < WRAP_MIN_SEGMENT then None
      else wrapped_loop text start command marker (Suc i) matched (Some matched))"
  by pat_completeness auto
termination by (relation "measure (\<lambda>(text, start, command, marker, i, matched, last_wrap). length text - i)") auto

declare wrapped_loop.simps [simp del]

definition match_wrapped_echo :: "string \<Rightarrow> nat \<Rightarrow> string \<Rightarrow> char \<Rightarrow> nat option" where
  "match_wrapped_echo text start command marker = wrapped_loop text start command marker start 0 None"

text \<open>\<open>None\<close>: the list is returned as it is.\<close>

definition strip_wrapped_command_echo :: "string list \<Rightarrow> string \<Rightarrow> string list option" where
  "strip_wrapped_command_echo lines command =
     (if command = [] \<or> lines = [] then None
      else let text = join_lines (take (length command div WRAP_MIN_SEGMENT + 2) lines);
               ends = map (\<lambda>start. match_wrapped_echo text start command (CHR 0x0A)) [0..<length (hd lines)]
           in case find (\<lambda>e. case e of None \<Rightarrow> False | Some e \<Rightarrow> e = length text \<or> text ! e = CHR 0x0A) ends of
             Some (Some e) \<Rightarrow> Some (drop (Suc (count_list (take e text) (CHR 0x0A))) lines)
           | _ \<Rightarrow> None)"

text \<open>The first line with something other than carriage returns, and where it starts.\<close>

function first_line_from :: "string \<Rightarrow> nat \<Rightarrow> (nat \<times> string) option" where
  "first_line_from text line_start =
     (if length text \<le> line_start then None
      else let line = takeWhile (\<lambda>c. c \<noteq> CHR 0x0A) (drop line_start text); line_end = line_start + length line
           in if \<exists>c \<in> set line. c \<noteq> CHR 0x0D then Some (line_start, line)
              else if line_end = length text then None
              else first_line_from text (Suc line_end))"
  by pat_completeness auto
termination by (relation "measure (\<lambda>(text, line_start). length text - line_start)") auto

declare first_line_from.simps [simp del]

function readline_loop :: "string \<Rightarrow> string \<Rightarrow> nat \<Rightarrow> nat \<Rightarrow> nat option \<Rightarrow> nat \<times> nat" where
  "readline_loop line command cursor matched last_wrap =
     (if length command \<le> matched \<or> length line \<le> cursor then (matched, cursor)
      else if starts_with [CHR 0x20, CHR 0x0D] (drop cursor line) \<and> 0 < matched then
        if (case last_wrap of None \<Rightarrow> matched | Some w \<Rightarrow> matched - w) < WRAP_MIN_SEGMENT then (matched, cursor)
        else readline_loop line command (cursor + 2) matched (Some matched)
      else if line ! cursor = command ! matched then readline_loop line command (Suc cursor) (Suc matched) last_wrap
      else (matched, cursor))"
  by pat_completeness auto
termination by (relation "measure (\<lambda>(line, command, cursor, matched, last_wrap). length line - cursor)") auto

declare readline_loop.simps [simp del]

definition readline_at :: "string \<Rightarrow> string \<Rightarrow> nat \<Rightarrow> (nat \<times> nat) option" where
  "readline_at line command command_start =
     (if line ! command_start \<noteq> hd command then None
      else case readline_loop line command command_start 0 None of (matched, cursor) \<Rightarrow>
        if matched \<noteq> length command then None
        else if cursor = length line \<or> drop cursor line = [CHR 0x0D] then Some (command_start, cursor) else None)"

definition match_readline_wrapped_echo :: "string \<Rightarrow> string \<Rightarrow> (nat \<times> nat) option" where
  "match_readline_wrapped_echo text command =
     (if text = [] \<or> command = [] then None
      else case first_line_from text 0 of
        None \<Rightarrow> None
      | Some (line_start, line) \<Rightarrow>
          (case List.map_filter (readline_at line command) [0..<length line] of
             [] \<Rightarrow> None
           | (s, e) # _ \<Rightarrow> Some (line_start + s, line_start + e)))"

text \<open>\<open>text.replace(" \\r", "")\<close>.\<close>

fun drop_wraps :: "string \<Rightarrow> string" where
  "drop_wraps (a # b # s) = (if a = CHR 0x20 \<and> b = CHR 0x0D then drop_wraps s else a # drop_wraps (b # s))"
| "drop_wraps [a] = [a]"
| "drop_wraps [] = []"

section \<open>The output\<close>

definition echo_line :: "string \<Rightarrow> string \<Rightarrow> bool" where
  "echo_line command line \<longleftrightarrow> ends_with command (py_strip line)"

definition drop_command_echo :: "(string \<Rightarrow> nat list) \<Rightarrow> (string \<Rightarrow> nat option) option \<Rightarrow> string \<Rightarrow> string \<Rightarrow> string list \<Rightarrow> string list" where
  "drop_command_echo finditer completion text command lines =
     (if lines \<noteq> [] \<and> echo_line command (hd lines) then dropWhile (echo_line command) lines
      else case (if py_contains [CHR 0x0D, CHR 0x0D, CHR 0x0A] text then strip_wrapped_command_echo lines command else None) of
        Some rest \<Rightarrow> rest
      | None \<Rightarrow>
          if \<not> py_contains [CHR 0x20, CHR 0x0D] text then lines
          else case match_readline_wrapped_echo text command of
            None \<Rightarrow> lines
          | Some (s, e) \<Rightarrow>
              let candidate_lines = output_lines finditer completion (take s text @ drop_wraps (take (e - s) (drop s text)) @ drop e text)
              in if candidate_lines \<noteq> [] \<and> echo_line command (hd candidate_lines) then tl candidate_lines else lines)"

definition extract_command_stdout :: "(string \<Rightarrow> nat list) \<Rightarrow> (string \<Rightarrow> nat option) option \<Rightarrow> string \<Rightarrow> string \<Rightarrow> string" where
  "extract_command_stdout finditer completion text command =
     (let lines = output_lines finditer completion text;
          rest = (if command = [] then lines else drop_command_echo finditer completion text (py_strip command) lines)
      in strip_nl (join_lines rest))"

section \<open>Plain output\<close>

text \<open>Text without control sequences, erasing characters and line ends.\<close>

definition plain :: "string \<Rightarrow> bool" where
  "plain s \<longleftrightarrow> list_all (\<lambda>c. c \<notin> {esc, bel, CHR 0x08, CHR 0x7F} \<and> \<not> line_break c) s"

definition crlf :: string where "crlf = [CHR 0x0D, CHR 0x0A]"

lemma plain_Nil [simp]: "plain []" and plain_append [simp]: "plain (a @ b) \<longleftrightarrow> plain a \<and> plain b"
  by (auto simp: plain_def)

lemma clean_plain:
  assumes "set s \<inter> {esc, bel, CHR 0x08, CHR 0x7F} = {}"
  shows "clean_text s = drop_cr s"
proof -
  have "set (drop_cr s) \<subseteq> set s" by (auto simp: drop_cr_def)
  then have "esc \<notin> set (drop_cr s)" "CHR 0x08 \<notin> set (drop_cr s)" "CHR 0x7F \<notin> set (drop_cr s)" "bel \<notin> set (drop_cr s)" using assms by auto
  then show ?thesis by (simp add: clean_text_def re_remove_no_esc erase_plain)
qed

lemma plain_no_cr: "plain s \<Longrightarrow> drop_cr s = s"
proof -
  assume "plain s"
  then have "\<forall>c \<in> set s. \<not> line_break c" by (simp add: plain_def list_all_iff)
  moreover have "line_break (CHR 0x0D)" by (simp add: line_break_def)
  ultimately have "\<forall>c \<in> set s. c \<noteq> CHR 0x0D" by blast
  then show ?thesis by (simp add: drop_cr_def)
qed

lemma plain_chars: "plain s \<Longrightarrow> set s \<inter> {esc, bel, CHR 0x08, CHR 0x7F} = {}"
  by (auto simp: plain_def list_all_iff)

lemma splitlines_line: "list_all (\<lambda>c. \<not> line_break c) l \<Longrightarrow> splitlines_from cur (l @ CHR 0x0A # s) = (rev cur @ l) # splitlines_from [] s"
proof (induction l arbitrary: cur)
  case Nil
  then show ?case by (cases s) (simp_all add: line_break_def)
next
  case (Cons c l)
  have c: "\<not> line_break c" "c \<noteq> CHR 0x0D" using Cons.prems by (auto simp: line_break_def)
  have "splitlines_from cur ((c # l) @ CHR 0x0A # s) = splitlines_from (c # cur) (l @ CHR 0x0A # s)" using c by (cases l) simp_all
  then show ?case using Cons by simp
qed

lemma splitlines_lines: "list_all plain ls \<Longrightarrow> py_splitlines (concat (map (\<lambda>l. l @ [CHR 0x0A]) ls)) = ls"
proof (induction ls)
  case (Cons l ls)
  then have "list_all (\<lambda>c. \<not> line_break c) l" by (simp add: plain_def list_all_iff)
  from splitlines_line [OF this, of "[]"] Cons show ?case by (simp add: py_splitlines_def)
qed (simp add: py_splitlines_def)

definition console_text :: "string list \<Rightarrow> string \<Rightarrow> string" where
  "console_text ls prompt = concat (map (\<lambda>l. l @ crlf) ls) @ prompt"

lemma clean_console:
  assumes "list_all plain ls" "plain prompt"
  shows "clean_text (console_text ls prompt) = concat (map (\<lambda>l. l @ [CHR 0x0A]) ls) @ prompt"
proof -
  have l: "set l \<inter> {esc, bel, CHR 0x08, CHR 0x7F} = {}" if "l \<in> insert prompt (set ls)" for l
    using that assms by (intro plain_chars) (auto simp: list_all_iff)
  have "set (console_text ls prompt) = (\<Union>l \<in> set ls. set l \<union> set crlf) \<union> set prompt" by (simp add: console_text_def)
  moreover have "set crlf \<inter> {esc, bel, CHR 0x08, CHR 0x7F} = {}" by (simp add: crlf_def)
  ultimately have "set (console_text ls prompt) \<inter> {esc, bel, CHR 0x08, CHR 0x7F} = {}" using l unfolding Int_Un_distrib2 Int_UN_distrib2 UN_insert by simp
  moreover have "drop_cr (concat (map (\<lambda>l. l @ crlf) ls)) = concat (map (\<lambda>l. l @ [CHR 0x0A]) ls)"
    using assms(1)
  proof (induction ls)
    case (Cons l ls)
    then have "drop_cr l = l" by (intro plain_no_cr) simp
    with Cons show ?case by (simp add: drop_cr_def crlf_def)
  qed (simp add: drop_cr_def)
  ultimately show ?thesis using clean_plain [of "console_text ls prompt"] plain_no_cr [OF assms(2)] by (simp add: console_text_def drop_cr_def)
qed

lemma echo_line_shown:
  assumes "py_strip c = c" "c \<noteq> []"
  shows "echo_line c (shown @ c)"
proof -
  have e: "\<not> py_space (hd c)" "\<not> py_space (last c)" using py_strip_ends [of c] assms by auto
  have l: "py_lstrip (shown @ c) = dropWhile py_space shown @ c"
    using e(1) assms(2) by (cases c) (auto simp: py_lstrip_def dropWhile_append)
  have "dropWhile py_space (rev (x @ c)) = rev (x @ c)" for x using e(2) assms(2) by (cases c rule: rev_cases) auto
  then have "py_strip (shown @ c) = dropWhile py_space shown @ c" unfolding py_strip_def l by (simp add: py_rstrip_def)
  then show ?thesis by (simp add: echo_line_def ends_with_def)
qed



section \<open>What a wrapped echo may take\<close>

lemma wrapped_loop_sound:
  assumes "wrapped_loop tx start command marker i matched w = Some e" "marker \<notin> set command" "matched \<le> length command" "i \<le> length tx"
  shows "i \<le> e \<and> e \<le> length tx \<and> filter (\<lambda>c. c \<noteq> marker) (take (e - i) (drop i tx)) = drop matched command"
  using assms
proof (induction tx start command marker i matched w rule: wrapped_loop.induct)
  case (1 tx start command marker i matched w)
  note step = "1.prems"(1) [unfolded wrapped_loop.simps [of tx start command marker i matched w]]
  show ?case
  proof (cases "length command \<le> matched")
    case True
    then show ?thesis using step "1.prems"(4) by simp
  next
    case more: False
    then have i: "i < length tx" using step by (simp split: if_splits)
    have next': "take (e - i) (drop i tx) = tx ! i # take (e - Suc i) (drop (Suc i) tx)" if "Suc i \<le> e"
      using that i by (simp add: Cons_nth_drop_Suc [symmetric] take_Cons' Suc_diff_Suc)
    show ?thesis
    proof (cases "tx ! i = command ! matched")
      case True
      then have "wrapped_loop tx start command marker (Suc i) (Suc matched) w = Some e" using step more i by simp
      from "1.IH"(1) [OF more _ True this "1.prems"(2)] more i
      have IH: "Suc i \<le> e \<and> e \<le> length tx \<and> filter (\<lambda>c. c \<noteq> marker) (take (e - Suc i) (drop (Suc i) tx)) = drop (Suc matched) command" by simp
      moreover have "command ! matched \<noteq> marker" using "1.prems"(2) more by (metis not_le nth_mem)
      ultimately show ?thesis using next' True more by (simp add: Cons_nth_drop_Suc)
    next
      case False
      then have mk: "\<not> (matched = 0 \<or> tx ! i \<noteq> marker)" using step more i by (simp split: if_splits)
      then have seg: "\<not> (case w of None \<Rightarrow> start + matched | Some w \<Rightarrow> matched - w) < WRAP_MIN_SEGMENT"
        using step more i False by (simp split: if_splits)
      then have "wrapped_loop tx start command marker (Suc i) matched (Some matched) = Some e" using step more i False mk by simp
      from "1.IH"(2) [OF more _ False mk seg this "1.prems"(2,3)] i
      have "Suc i \<le> e \<and> e \<le> length tx \<and> filter (\<lambda>c. c \<noteq> marker) (take (e - Suc i) (drop (Suc i) tx)) = drop matched command" by simp
      then show ?thesis using next' mk by simp
    qed
  qed
qed

text \<open>A position at the end of a line cuts joined lines into lines.\<close>

lemma join_cut:
  assumes "list_all (\<lambda>l. CHR 0x0A \<notin> set l) ls" "e \<le> length (join_lines ls)" "e = length (join_lines ls) \<or> join_lines ls ! e = CHR 0x0A" "ls \<noteq> []"
  shows "filter (\<lambda>c. c \<noteq> CHR 0x0A) (take e (join_lines ls)) = concat (take (Suc (count_list (take e (join_lines ls)) (CHR 0x0A))) ls)"
  using assms
proof (induction ls arbitrary: e rule: join_lines.induct)
  case (1 l m ls)
  have l: "CHR 0x0A \<notin> set l" "filter (\<lambda>c. c \<noteq> CHR 0x0A) l = l" using 1(2) by (auto intro!: filter_True)
  show ?case
  proof (cases "e \<le> length l")
    case True
    have "\<not> e < length l"
    proof
      assume "e < length l"
      then have "l ! e = CHR 0x0A" using 1(4) by (auto simp: nth_append)
      then show False using l(1) \<open>e < length l\<close> by (metis nth_mem)
    qed
    then have "e = length l" using True by simp
    then show ?thesis using l by simp
  next
    case False
    define d where "d = e - Suc (length l)"
    have e: "e = Suc (length l + d)" using False by (simp add: d_def)
    have "filter (\<lambda>c. c \<noteq> CHR 0x0A) (take d (join_lines (m # ls))) = concat (take (Suc (count_list (take d (join_lines (m # ls))) (CHR 0x0A))) (m # ls))"
      by (rule "1.IH") (use 1(2-4) in \<open>auto simp: e nth_append\<close>)
    then show ?thesis using l by (simp add: e)
  qed
next
  case (2 l)
  then have "e = length l" by (metis join_lines.simps(2) le_neq_implies_less list_all_iff list.set_intros(1) nth_mem)
  moreover have "filter (\<lambda>c. c \<noteq> CHR 0x0A) l = l" using 2 by (auto intro!: filter_True)
  ultimately show ?case by simp
qed simp

lemma join_count: "list_all (\<lambda>l. CHR 0x0A \<notin> set l) ls \<Longrightarrow> count_list (join_lines ls) (CHR 0x0A) = length ls - 1"
  by (induction ls rule: join_lines.induct) (simp_all add: count_notin)

lemma join_hd: "ls \<noteq> [] \<Longrightarrow> \<exists>r. join_lines ls = hd ls @ r"
  by (cases ls rule: join_lines.cases) auto

lemma count_take: "count_list (take n xs) x \<le> count_list xs x"
  by (metis append_take_drop_id count_list_append le_add1)

lemma take_of_window: "m \<le> length (take k xs) \<Longrightarrow> take m (take k xs) = take m xs"
  by (simp add: min_absorb1)

lemma find_among: "find P (map f xs) = Some y \<Longrightarrow> \<exists>x \<in> set xs. f x = y \<and> P y"
  by (induction xs) (auto split: if_splits)

text \<open>C34. Looking for a wrapped echo takes nothing but an echo: when lines are removed as the wrapped echo of a command, these lines, put together,
  are something shown before the command, which is shorter than the first line, followed by the whole text of the command.\<close>

theorem wrapped_echo_sound:
  assumes "strip_wrapped_command_echo lines command = Some rest" "CHR 0x0A \<notin> set command" "list_all (\<lambda>l. CHR 0x0A \<notin> set l) lines"
  shows "\<exists>removed shown. lines = removed @ rest \<and> concat removed = shown @ command \<and> length shown < length (hd lines)"
proof -
  define win where "win = take (length command div WRAP_MIN_SEGMENT + 2) lines"
  let ?t = "join_lines win"
  have ne: "lines \<noteq> []" using assms(1) by (auto simp: strip_wrapped_command_echo_def)
  then have win: "win \<noteq> []" "hd win = hd lines" "list_all (\<lambda>l. CHR 0x0A \<notin> set l) win"
    using assms(3) by (auto simp: win_def hd_take list_all_iff dest: in_set_takeD)
  let ?P = "\<lambda>e. case e of None \<Rightarrow> False | Some e \<Rightarrow> e = length ?t \<or> ?t ! e = CHR 0x0A"
  obtain e where f: "find ?P (map (\<lambda>start. match_wrapped_echo ?t start command (CHR 0x0A)) [0..<length (hd lines)]) = Some (Some e)"
    and rest: "rest = drop (Suc (count_list (take e ?t) (CHR 0x0A))) lines"
    using assms(1) by (auto simp: strip_wrapped_command_echo_def win_def Let_def split: if_splits option.splits)
  from find_among [OF f] obtain start where start: "start < length (hd lines)" and m: "match_wrapped_echo ?t start command (CHR 0x0A) = Some e"
    and e: "e = length ?t \<or> ?t ! e = CHR 0x0A" by auto
  obtain r where r: "?t = hd lines @ r" using join_hd [OF win(1)] win(2) by auto
  have "start \<le> length ?t" using start r by simp
  from wrapped_loop_sound [OF m [unfolded match_wrapped_echo_def] assms(2) _ this]
  have s: "start \<le> e" "e \<le> length ?t" "filter (\<lambda>c. c \<noteq> CHR 0x0A) (take (e - start) (drop start ?t)) = command" by simp_all
  have "CHR 0x0A \<notin> set (take start (hd lines))" using assms(3) ne by (cases lines) (auto dest: in_set_takeD)
  then have "filter (\<lambda>c. c \<noteq> CHR 0x0A) (take start ?t) = take start (hd lines)" using start r by (auto intro!: filter_True)
  moreover have "take e ?t = take start ?t @ take (e - start) (drop start ?t)" using s(1) by (metis le_add_diff_inverse take_add)
  ultimately have "filter (\<lambda>c. c \<noteq> CHR 0x0A) (take e ?t) = take start (hd lines) @ command" using s(3) by simp
  then have c: "concat (take (Suc (count_list (take e ?t) (CHR 0x0A))) win) = take start (hd lines) @ command"
    using join_cut [OF win(3) s(2) e win(1)] by simp
  have "count_list (take e ?t) (CHR 0x0A) \<le> length win - 1" using count_take [of e ?t] join_count [OF win(3)] by metis
  then have "Suc (count_list (take e ?t) (CHR 0x0A)) \<le> length win" using win(1) by (cases win) auto
  then have "take (Suc (count_list (take e ?t) (CHR 0x0A))) win = take (Suc (count_list (take e ?t) (CHR 0x0A))) lines"
    unfolding win_def by (rule take_of_window)
  moreover have "length (take start (hd lines)) < length (hd lines)" using start by simp
  ultimately show ?thesis unfolding rest using c append_take_drop_id [symmetric] by metis
qed

theorem wrapped_echo_sound_witness:
  "strip_wrapped_command_echo [''developer@testbench# a'', ''b'', ''out''] ''ab'' = Some [''out'']
   \<and> (\<exists>removed shown. [''developer@testbench# a'', ''b'', ''out''] = removed @ [''out''] \<and> concat removed = shown @ ''ab'')"
proof -
  have s: "strip_wrapped_command_echo [''developer@testbench# a'', ''b'', ''out''] ''ab'' = Some [''out'']" by code_simp
  from wrapped_echo_sound [OF s] s show ?thesis by auto
qed

end
