(* ===== verification/Uart_Write.thy ===== *)
theory Uart_Write
  imports Tx_Fence Wal_Records
begin

text \<open>
  Writing to the UART (\<open>sw_core/uart_io.py\<close> and \<open>sw_core/serial_port.py\<close>): the write loops of the two kinds of ports, \<open>send_bytes\<close>
  with the fence, the accounts and the records of the write-ahead log, and what is built on it: a command line, a command line that
  waits for the echo of every slice, the cancelling of a half-typed line.

  \<open>u_env\<close> lists what other threads do before each step: how much time passes, which bytes arrive, and how the state changes that they
  share with the writer. \<open>u_os\<close> lists what the operating system answers to each write; when it is used up a write takes everything.
  \<open>u_wire\<close> holds the bytes that writes of the modelled thread handed over, \<open>u_log\<close> its calls.
\<close>

section \<open>Results\<close>

datatype tx_outcome = Not_submitted | Completed | Unknown

record tx_result =
  tr_outcome :: tx_outcome
  tr_confirmed :: nat
  tr_requested :: nat
  tr_error :: "string option"

definition mk_result :: "tx_outcome \<Rightarrow> nat \<Rightarrow> nat \<Rightarrow> string option \<Rightarrow> tx_result" where
  "mk_result outcome confirmed requested err =
     \<lparr>tr_outcome = outcome, tr_confirmed = confirmed, tr_requested = requested, tr_error = err\<rparr>"

definition tx_complete :: "tx_result \<Rightarrow> bool" where
  "tx_complete r \<longleftrightarrow> tr_outcome r = Completed \<and> tr_confirmed r = tr_requested r"

text \<open>\<open>TxIncompleteError\<close>, its subclasses, and \<open>re.error\<close>.\<close>

datatype tx_kind = Tx_incomplete | Tx_unknown | Wal_unavailable | Serial_not_ready

datatype uart_exn = Tx_error tx_kind tx_result | Bad_pattern

section \<open>The state around a writer\<close>

datatype serial = No_serial | Posix_fd | Port_object

record shared =
  sh_fence :: tx_fence
  sh_wal_unhealthy :: bool
  sh_tx_cancel :: bool
  sh_stopping :: bool
  sh_admission_blocked :: bool
  sh_serial :: serial

datatype os_reply = Os_wrote nat | Os_again | Os_failed string

datatype uart_event =
    U_write "tx_permit option" seconds shared "byte list"
  | U_send string | U_paced string | U_cancel | U_wait bool | U_text string

datatype wal_entry = Tx_record "byte list" string "string option" | Tx_unknown_meta tx_result string "string option"

text \<open>The raw context of a console write: the client, the captured generation and the generation that the payload carries.\<close>

record tx_context =
  cx_uuid :: string
  cx_operation :: "tx_permit option"
  cx_system :: "tx_permit option"
  cx_raw :: "(string option \<times> nat option \<times> nat option) option"

record uart =
  u_rx :: rxbuf
  u_now :: seconds
  u_shared :: shared
  u_env :: "(seconds \<times> byte list \<times> shared option) list"
  u_os :: "os_reply list"
  u_wire :: "byte list"
  u_records :: "wal_entry list"
  u_accounts :: "(string, nat \<times> bool) dict"
  u_active_cmd :: "string option"
  u_tallies :: "(string, nat) dict"
  u_context :: tx_context
  u_log :: "uart_event list"

type_synonym 'a um = "(uart, uart_exn + 'a) state"

definition u_others :: "uart \<Rightarrow> uart" where
  "u_others u = (case u_env u of [] \<Rightarrow> u
     | (dt, bs, sh) # r \<Rightarrow> let now = u_now u + max 0 dt in
         u\<lparr>u_env := r, u_now := now, u_rx := (if bs = [] then u_rx u else append_rx_text now bs (u_rx u)),
           u_shared := (case sh of None \<Rightarrow> u_shared u | Some s \<Rightarrow> s)\<rparr>)"

definition u_sleep :: "seconds \<Rightarrow> uart \<Rightarrow> uart" where
  "u_sleep d u = u_others (u\<lparr>u_now := u_now u + max 0 d\<rparr>)"

definition cancelled :: "uart \<Rightarrow> bool" where
  "cancelled u = sh_tx_cancel (u_shared u)"

definition note_event :: "uart_event \<Rightarrow> uart \<Rightarrow> uart" where
  "note_event e u = u\<lparr>u_log := u_log u @ [e]\<rparr>"

section \<open>The write loops\<close>

text \<open>One write of the operating system, under the fence.\<close>

definition os_write :: "tx_permit option \<Rightarrow> byte list \<Rightarrow> uart \<Rightarrow> os_reply \<times> uart" where
  "os_write permit bs u =
     (let accept = (\<lambda>n v. v\<lparr>u_wire := u_wire v @ take n bs, u_log := u_log v @ [U_write permit (u_now v) (u_shared v) (take n bs)]\<rparr>)
      in case u_os u of
        [] \<Rightarrow> (Os_wrote (length bs), accept (length bs) u)
      | Os_wrote n # rs \<Rightarrow>
          let m = min n (length bs) in (Os_wrote m, if m = 0 then u\<lparr>u_os := rs\<rparr> else accept m (u\<lparr>u_os := rs\<rparr>))
      | r # rs \<Rightarrow> (r, u\<lparr>u_os := rs\<rparr>))"

definition submit_guard :: "tx_permit option \<Rightarrow> uart \<Rightarrow> string option" where
  "submit_guard permit u = submit_reject_reason (u_now u) (sh_wal_unhealthy (u_shared u)) (sh_fence (u_shared u)) permit"

definition EAGAIN_BACKOFF_S :: seconds where "EAGAIN_BACKOFF_S = 1 / 100"

text \<open>What the loops return when the fence refuses.\<close>

definition refused_result :: "nat \<Rightarrow> nat \<Rightarrow> string \<Rightarrow> tx_result" where
  "refused_result sent requested reject =
     (if sent = 0 then mk_result Not_submitted sent requested (Some reject)
      else mk_result Completed sent requested (Some (''revoked:'' @ reject)))"

lemma others_os [simp]: "u_os (u_others u) = u_os u" "u_wire (u_others u) = u_wire u" "u_records (u_others u) = u_records u" "u_log (u_others u) = u_log u"
    "u_accounts (u_others u) = u_accounts u" "u_tallies (u_others u) = u_tallies u" "u_context (u_others u) = u_context u"
  by (auto simp: u_others_def Let_def split: list.split)

lemma u_others_now: "u_now u \<le> u_now (u_others u)"
  by (auto simp: u_others_def Let_def split: list.split)

lemma u_sleep_now: "u_now u + d \<le> u_now (u_sleep d u)"
  using u_others_now [of "u\<lparr>u_now := u_now u + max 0 d\<rparr>"] by (auto simp: u_sleep_def max_def split: if_splits)

lemma sleep_os [simp]: "u_os (u_sleep d u) = u_os u" "u_wire (u_sleep d u) = u_wire u" "u_records (u_sleep d u) = u_records u"
    "u_log (u_sleep d u) = u_log u" "u_accounts (u_sleep d u) = u_accounts u" "u_tallies (u_sleep d u) = u_tallies u"
    "u_context (u_sleep d u) = u_context u"
  by (simp_all add: u_sleep_def)

lemma os_write_progress:
  assumes "os_write permit bs u = (r, u')"
  shows "length (u_os u') \<le> length (u_os u)" "r = Os_wrote n \<Longrightarrow> n \<le> length bs" "r = Os_again \<Longrightarrow> length (u_os u') < length (u_os u)"
  using assms by (auto simp: os_write_def Let_def split: list.splits os_reply.splits if_splits)

function posix_write_all :: "tx_permit option \<Rightarrow> byte list \<Rightarrow> nat \<Rightarrow> uart \<Rightarrow> tx_result \<times> uart" where
  "posix_write_all permit payload sent u =
     (if sent < length payload then
        let u1 = u_others u in
        if cancelled u1 then (mk_result Completed sent (length payload) (Some ''cancelled''), u1)
        else let u2 = u_others u1 in
          case submit_guard permit u2 of
            Some reject \<Rightarrow> (refused_result sent (length payload) reject, u2)
          | None \<Rightarrow>
              (case os_write permit (drop sent payload) u2 of
                 (Os_wrote n, u3) \<Rightarrow>
                   if n = 0 then (mk_result Completed sent (length payload) (Some ''short_write''), u3)
                   else posix_write_all permit payload (sent + n) u3
               | (Os_again, u3) \<Rightarrow>
                   let u4 = u_sleep EAGAIN_BACKOFF_S u3 in
                   if cancelled u4 then (mk_result Completed sent (length payload) (Some ''cancelled''), u4)
                   else posix_write_all permit payload sent u4
               | (Os_failed e, u3) \<Rightarrow> (mk_result Completed sent (length payload) (Some e), u3))
      else (mk_result Completed sent (length payload) None, u))"
  by pat_completeness auto
termination
proof (relation "measure (\<lambda>(_, payload, sent, u). length payload - sent + length (u_os u))", goal_cases)
  case (2 permit payload sent u u1 u2 r u3 n)
  then show ?case using os_write_progress [of permit "drop sent payload" u2 "Os_wrote n" u3] by auto
next
  case (3 permit payload sent u u1 u2 r u3 u4)
  then show ?case using os_write_progress [of permit "drop sent payload" u2 "Os_again" u3] by auto
qed simp

declare posix_write_all.simps [simp del]

definition PYSERIAL_SUBMIT_CHUNK :: nat where "PYSERIAL_SUBMIT_CHUNK = 64"

text \<open>\<open>PySerialPort.write\<close>; an exception of the library leaves the outcome unknown, and the caller takes the result out of the exception.\<close>

function pyserial_write :: "tx_permit option \<Rightarrow> byte list \<Rightarrow> nat \<Rightarrow> uart \<Rightarrow> tx_result \<times> uart" where
  "pyserial_write permit payload sent u =
     (if sent < length payload then
        let u1 = u_others u in
        if cancelled u1 then (mk_result Completed sent (length payload) (Some ''cancelled''), u1)
        else let u2 = u_others u1 in
          case submit_guard permit u2 of
            Some reject \<Rightarrow> (refused_result sent (length payload) reject, u2)
          | None \<Rightarrow>
              (case os_write permit (take PYSERIAL_SUBMIT_CHUNK (drop sent payload)) u2 of
                 (Os_wrote n, u3) \<Rightarrow>
                   if n = 0 then (mk_result Completed sent (length payload) (Some ''short_write''), u3)
                   else pyserial_write permit payload (sent + n) u3
               | (Os_again, u3) \<Rightarrow> (mk_result Unknown sent (length payload) (Some ''BlockingIOError''), u3)
               | (Os_failed e, u3) \<Rightarrow> (mk_result Unknown sent (length payload) (Some e), u3))
      else (mk_result Completed sent (length payload) None, u))"
  by pat_completeness auto
termination
proof (relation "measure (\<lambda>(_, payload, sent, _). length payload - sent)", goal_cases)
  case (2 permit payload sent u u1 u2 r u3 n)
  then show ?case using os_write_progress [of permit "take PYSERIAL_SUBMIT_CHUNK (drop sent payload)" u2 "Os_wrote n" u3] by auto
qed simp

declare pyserial_write.simps [simp del]


section \<open>The accounts\<close>

definition account_result :: "string option \<Rightarrow> string option \<Rightarrow> tx_result \<Rightarrow> (string, nat \<times> bool) dict \<Rightarrow> (string, nat \<times> bool) dict" where
  "account_result active cmd_id r accounts =
     (case cmd_id of
        None \<Rightarrow> accounts
      | Some c \<Rightarrow>
          if tr_outcome r = Not_submitted then accounts
          else let previous = (case dict_get accounts c of None \<Rightarrow> (0, False) | Some a \<Rightarrow> a);
                   accounts' = dict_set c (fst previous + tr_confirmed r, snd previous \<or> tr_outcome r = Unknown) accounts
               in if TX_ACCOUNT_MAX < length accounts'
                  then (case filter (\<lambda>k. Some k \<noteq> active) (map fst accounts') of
                          [] \<Rightarrow> accounts'
                        | oldest # _ \<Rightarrow> dict_pop oldest accounts')
                  else accounts')"

text \<open>\<open>tx_account\<close> reads and removes; \<open>tx_settle\<close> only removes.\<close>

definition tx_account :: "string \<Rightarrow> uart \<Rightarrow> (nat \<times> bool) \<times> uart" where
  "tx_account cmd_id u =
     (case dict_get (u_accounts u) cmd_id of None \<Rightarrow> (0, False) | Some a \<Rightarrow> a, u\<lparr>u_accounts := dict_pop cmd_id (u_accounts u)\<rparr>)"

definition tx_settle :: "string \<Rightarrow> uart \<Rightarrow> uart" where
  "tx_settle cmd_id u = u\<lparr>u_accounts := dict_pop cmd_id (u_accounts u)\<rparr>"

definition tx_set_active :: "string option \<Rightarrow> uart \<Rightarrow> uart" where
  "tx_set_active cmd_id u = u\<lparr>u_active_cmd := cmd_id\<rparr>"

section \<open>Sending bytes\<close>

definition append_tx_record :: "byte list \<Rightarrow> string \<Rightarrow> string option \<Rightarrow> uart \<Rightarrow> uart" where
  "append_tx_record payload source cmd_id u = u\<lparr>u_records := u_records u @ [Tx_record payload source cmd_id]\<rparr>"

definition append_unknown_tx_meta :: "tx_result \<Rightarrow> string \<Rightarrow> string option \<Rightarrow> uart \<Rightarrow> uart" where
  "append_unknown_tx_meta r source cmd_id u = u\<lparr>u_records := u_records u @ [Tx_unknown_meta r source cmd_id]\<rparr>"

definition defer_raw :: "byte list \<Rightarrow> string option \<times> nat option \<times> nat option \<Rightarrow> tx_fence \<Rightarrow> tx_fence" where
  "defer_raw payload raw g =
     (case raw of (client_id, captured, own) \<Rightarrow>
        if given client_id
        then append_deferred (the client_id) payload
               (case captured of Some n \<Rightarrow> n | None \<Rightarrow> (case own of Some n \<Rightarrow> n | None \<Rightarrow> tf_owner_gen g)) g
        else g)"

text \<open>The part under \<open>_state_lock\<close>: an answer without a write, or \<open>None\<close>.\<close>

definition tx_admit :: "byte list \<Rightarrow> string \<Rightarrow> bool \<Rightarrow> tx_permit option \<Rightarrow> uart \<Rightarrow> (uart_exn + tx_result) option \<times> uart" where
  "tx_admit payload source allow_flash permit u =
     (let sh = u_shared u; g = sh_fence sh; nothing = mk_result Not_submitted 0 (length payload)
      in if tf_flash_mode g \<and> \<not> allow_flash then (Some (Inr (nothing None)), u)
         else if sh_wal_unhealthy sh \<and> (source = ''system'' \<or> starts_with ''system:'' source)
         then (Some (Inl (Tx_error Wal_unavailable (nothing (Some ''WAL_UNHEALTHY'')))), u)
         else if tf_tx_frozen g then (Some (Inl (Tx_error Tx_incomplete (nothing (Some ''draining'')))), u)
         else if cx_raw (u_context u) \<noteq> None \<and> sh_admission_blocked sh
         then (Some (Inr (nothing (Some ''deferred''))), u\<lparr>u_shared := sh\<lparr>sh_fence := defer_raw payload (the (cx_raw (u_context u))) g\<rparr>\<rparr>)
         else case permit of
           None \<Rightarrow> (None, u)
         | Some p \<Rightarrow>
             (case tx_reject_reason (u_now u) g p of
                None \<Rightarrow> (None, u)
              | Some reject \<Rightarrow>
                  if reject = ''stale_owner_gen'' then (Some (Inr (nothing (Some reject))), u)
                  else (Some (Inl (Tx_error Tx_incomplete (nothing (Some reject)))), u)))"

definition tx_failure :: "tx_result \<Rightarrow> tx_kind option" where
  "tx_failure r =
     (case tr_outcome r of
        Unknown \<Rightarrow> Some Tx_unknown
      | Completed \<Rightarrow> if tr_confirmed r < tr_requested r then Some Tx_incomplete else None
      | Not_submitted \<Rightarrow>
          if tr_error r \<in> {None, Some ''deferred'', Some ''stale_owner_gen''} then None
          else if tr_error r = Some ''wal_unhealthy'' then Some Wal_unavailable else Some Tx_incomplete)"

text \<open>The books after a write: the account of the command, the tally of the operation, the record of what was confirmed.\<close>

definition tx_book :: "byte list \<Rightarrow> string \<Rightarrow> string option \<Rightarrow> bool \<Rightarrow> tx_permit option \<Rightarrow> tx_result \<Rightarrow> uart \<Rightarrow> uart" where
  "tx_book payload source cmd_id logged permit r u =
     (let u1 = u\<lparr>u_accounts := account_result (u_active_cmd u) cmd_id r (u_accounts u)\<rparr>;
          u2 = (case permit of
                  None \<Rightarrow> u1
                | Some p \<Rightarrow> (case dict_get (u_tallies u1) (tp_op_id p) of
                    None \<Rightarrow> u1
                  | Some n \<Rightarrow> u1\<lparr>u_tallies := dict_set (tp_op_id p) (n + tr_confirmed r) (u_tallies u1)\<rparr>));
          u3 = (if logged \<and> 0 < tr_confirmed r then append_tx_record (take (tr_confirmed r) payload) source cmd_id u2 else u2)
      in if logged \<and> tr_outcome r = Unknown then append_unknown_tx_meta r source cmd_id u3 else u3)"

definition active_permit :: "string \<Rightarrow> string option \<Rightarrow> bool \<Rightarrow> tx_permit option \<Rightarrow> uart \<Rightarrow> tx_permit option" where
  "active_permit source cmd_id allow_flash permit u =
     (let cx = u_context u
      in if allow_flash then None
         else Some (resolve_tx_permit (cx_uuid cx) source cmd_id permit (cx_operation cx) (cx_system cx)
                      (map_option (\<lambda>(client, captured, _). (client, captured)) (cx_raw cx)) (sh_fence (u_shared u))))"

definition send_bytes_locked ::
  "byte list \<Rightarrow> string \<Rightarrow> string option \<Rightarrow> bool \<Rightarrow> bool \<Rightarrow> tx_permit option \<Rightarrow> uart \<Rightarrow> (uart_exn + tx_result) \<times> uart" where
  "send_bytes_locked payload source cmd_id logged allow_flash permit u =
     (let active = active_permit source cmd_id allow_flash permit u
      in case tx_admit payload source allow_flash active u of
        (Some answer, u1) \<Rightarrow> (answer, u1)
      | (None, u1) \<Rightarrow>
          if sh_serial (u_shared u1) = No_serial
          then (Inl (Tx_error Serial_not_ready (mk_result Not_submitted 0 (length payload) (Some ''serial not ready''))), u1)
          else let (r, u2) = (if sh_serial (u_shared u1) = Posix_fd then posix_write_all active payload 0 u1
                              else pyserial_write active payload 0 u1)
               in (case tx_failure r of Some k \<Rightarrow> Inl (Tx_error k r) | None \<Rightarrow> Inr r,
                   tx_book payload source cmd_id logged active r u2))"

definition send_bytes :: "byte list \<Rightarrow> string \<Rightarrow> string option \<Rightarrow> bool \<Rightarrow> bool \<Rightarrow> tx_permit option \<Rightarrow> tx_result um" where
  "send_bytes payload source cmd_id logged allow_flash permit =
     State (\<lambda>u. send_bytes_locked payload source cmd_id logged allow_flash permit (u_others u))"

definition flash_tx :: "byte list \<Rightarrow> tx_result um" where
  "flash_tx payload = send_bytes payload ''flash'' None True True None"

section \<open>Command lines\<close>

definition line_bytes :: "string \<Rightarrow> byte list" where
  "line_bytes cmd = (let payload = utf8_encode cmd in if payload \<noteq> [] \<and> last payload = 0x0A then payload else payload @ [0x0A])"

definition note_call :: "uart_event \<Rightarrow> unit um" where
  "note_call e = State (\<lambda>u. (Inr (), note_event e u))"

definition uart_send_command :: "string \<Rightarrow> string \<Rightarrow> string option \<Rightarrow> tx_permit option \<Rightarrow> unit um" where
  "uart_send_command cmd source cmd_id permit =
     and_then (note_call (U_send cmd)) (\<lambda>_.
     and_then (send_bytes (line_bytes cmd) source cmd_id True False permit) (\<lambda>_. State_Monad.return (Inr ())))"

definition uart_send_secret :: "string \<Rightarrow> tx_permit option \<Rightarrow> unit um" where
  "uart_send_secret secret permit =
     and_then (send_bytes (line_bytes secret) ''system:secret'' None False False permit) (\<lambda>_. State_Monad.return (Inr ()))"

definition cancel_input_line :: "string \<Rightarrow> tx_permit option \<Rightarrow> unit um" where
  "cancel_input_line source permit =
     and_then (note_call U_cancel) (\<lambda>_.
     and_then (send_bytes [0x15, 0x0A] source None True False permit) (\<lambda>_. State_Monad.return (Inr ())))"

section \<open>Waiting\<close>

function await_regex_loop :: "(string \<Rightarrow> bool) \<Rightarrow> nat \<Rightarrow> seconds \<Rightarrow> uart \<Rightarrow> bool \<times> uart" where
  "await_regex_loop hit offset deadline u =
     (let u1 = u_others u in
      if u_now u1 < deadline then
        if sh_stopping (u_shared u1) then (False, u1)
        else let u2 = u_others u1 in
          if hit (rx_text_from offset (u_rx u2)) then (True, u2) else await_regex_loop hit offset deadline (u_sleep (1 / 20) u2)
      else (False, u1))"
  by pat_completeness auto
termination
proof (relation "measure (\<lambda>(_, _, d, u). nat \<lceil>20 * (d - u_now u)\<rceil>)")
  fix hit :: "string \<Rightarrow> bool" and offset deadline and u u1 u2 :: uart
  assume u: "u1 = u_others u" "u_now u1 < deadline" "u2 = u_others u1"
  have "u_now u + 1 / 20 \<le> u_now (u_sleep (1 / 20) u2)"
    using u_others_now [of u, folded u(1)] u_others_now [of u1, folded u(3)] u_sleep_now [of u2 "1 / 20"] by linarith
  then show "((hit, offset, deadline, u_sleep (1 / 20) u2), hit, offset, deadline, u) \<in> measure (\<lambda>(_, _, d, u). nat \<lceil>20 * (d - u_now u)\<rceil>)"
    using steps_left [of "u_now u" deadline 20 "u_now (u_sleep (1 / 20) u2)"] u(2) u_others_now [of u, folded u(1)]
    by (simp only: in_measure case_prod_conv)
qed simp

declare await_regex_loop.simps [simp del]

definition await_regex_from :: "regexes \<Rightarrow> string \<Rightarrow> nat \<Rightarrow> seconds \<Rightarrow> bool um" where
  "await_regex_from re pattern offset timeout_s = State (\<lambda>u.
     case re pattern of None \<Rightarrow> (Inl Bad_pattern, u_others u)
     | Some hit \<Rightarrow> (case await_regex_loop hit offset (u_now (u_others u) + timeout_s) (u_others u) of
         (r, u') \<Rightarrow> (Inr r, note_event (U_wait r) u')))"

definition uart_offset :: "nat um" where
  "uart_offset = State (\<lambda>u. (Inr (rx_snapshot_len (u_rx (u_others u))), u_others u))"

definition uart_text_from :: "nat \<Rightarrow> string um" where
  "uart_text_from offset = State (\<lambda>u. let u' = u_others u; t = rx_text_from offset (u_rx u') in (Inr t, note_event (U_text t) u'))"

section \<open>The echo as flow control\<close>

text \<open>\<open>text.find(piece, pos)\<close>: the text behind the first occurrence.\<close>

fun find_after :: "string \<Rightarrow> string \<Rightarrow> string option" where
  "find_after p [] = (if p = [] then Some [] else None)"
| "find_after p (c # s) = (if starts_with p (c # s) then Some (drop (length p) (c # s)) else find_after p s)"

fun echo_match :: "string list \<Rightarrow> string \<Rightarrow> bool \<times> nat" where
  "echo_match [] text = (True, 0)"
| "echo_match (piece # rest) text =
     (case find_after piece text of
        None \<Rightarrow> (False, 0)
      | Some text' \<Rightarrow> (case echo_match rest text' of (whole, acked) \<Rightarrow> (whole, length piece + acked)))"

definition echo_text :: "nat \<Rightarrow> rxbuf \<Rightarrow> string" where
  "echo_text offset b = filter (\<lambda>c. c \<noteq> CHR 0x0D \<and> c \<noteq> CHR 0x0A) (strip_ansi (rx_text_from offset b))"

function await_echo_loop :: "string list \<Rightarrow> nat \<Rightarrow> seconds \<Rightarrow> uart \<Rightarrow> nat \<times> uart" where
  "await_echo_loop expected offset deadline u =
     (let u1 = u_others u; (whole, acked) = echo_match expected (echo_text offset (u_rx u1)); u2 = u_others u1 in
      if cancelled u2 then (acked, u2)
      else if whole then (acked, u2)
      else let u3 = u_others u2 in
        if deadline \<le> u_now u3 then (acked, u3) else await_echo_loop expected offset deadline (u_sleep (1 / 100) u3))"
  by pat_completeness auto
termination
proof (relation "measure (\<lambda>(_, _, d, u). nat \<lceil>100 * (d - u_now u)\<rceil>)", goal_cases)
  case (2 expected offset deadline u u1 m whole acked u2 u3)
  have "u_now u \<le> u_now u3" using u_others_now [of u] u_others_now [of u1] u_others_now [of u2] 2 by simp
  moreover have "u_now u3 + 1 / 100 \<le> u_now (u_sleep (1 / 100) u3)" by (rule u_sleep_now)
  ultimately show ?case
    using 2 steps_left [of "u_now u" deadline 100 "u_now (u_sleep (1 / 100) u3)"] by (simp only: in_measure case_prod_conv)
qed simp

declare await_echo_loop.simps [simp del]

definition await_echo_progress :: "string list \<Rightarrow> nat \<Rightarrow> seconds \<Rightarrow> nat um" where
  "await_echo_progress expected offset timeout_s = State (\<lambda>u.
     case await_echo_loop expected offset (u_now (u_others u) + timeout_s) (u_others u) of (acked, u') \<Rightarrow> (Inr acked, u'))"


text \<open>The slices of \<open>send_command_echo_paced\<close>. \<open>acc\<close> is \<open>sent_payload\<close>, what was confirmed so far; \<open>earlier\<close> the slices before.\<close>

record paced =
  pc_ok :: bool
  pc_acked :: nat
  pc_sent :: nat

definition stalled :: "nat \<Rightarrow> nat \<Rightarrow> paced" where
  "stalled acked sent = \<lparr>pc_ok = False, pc_acked = acked, pc_sent = sent\<rparr>"

record paced_args =
  pa_source :: string
  pa_cmd_id :: "string option"
  pa_permit :: "tx_permit option"
  pa_offset :: nat
  pa_timeout :: seconds

definition confirmed_of :: "byte list \<Rightarrow> uart_exn + tx_result \<Rightarrow> byte list" where
  "confirmed_of data x = (case x of Inl (Tx_error _ r) \<Rightarrow> take (tr_confirmed r) data | Inl Bad_pattern \<Rightarrow> [] | Inr r \<Rightarrow> take (tr_confirmed r) data)"

text \<open>One unrecorded transmission; an outcome that is not known is noted in the log at once.\<close>

definition paced_piece :: "paced_args \<Rightarrow> byte list \<Rightarrow> (uart, uart_exn + tx_result) state" where
  "paced_piece a data =
     do { x \<leftarrow> send_bytes data (pa_source a) (pa_cmd_id a) False False (pa_permit a);
          case x of
            Inl (Tx_error k r) \<Rightarrow>
              do { (if tr_outcome r = Unknown then State_Monad.update (append_unknown_tx_meta r (pa_source a) (pa_cmd_id a)) else State_Monad.return ());
                   State_Monad.return x }
          | _ \<Rightarrow> State_Monad.return x }"

fun paced_loop :: "paced_args \<Rightarrow> string list \<Rightarrow> string list \<Rightarrow> byte list \<Rightarrow> nat \<Rightarrow> nat \<Rightarrow> (uart, (uart_exn + paced) \<times> byte list) state" where
  "paced_loop a earlier [] acc acked sent =
     do { x \<leftarrow> paced_piece a [0x0A];
          State_Monad.return (case x of
              Inl e \<Rightarrow> Inl e
            | Inr r \<Rightarrow> Inr \<lparr>pc_ok = (tr_outcome r \<noteq> Not_submitted \<and> tx_complete r), pc_acked = acked, pc_sent = sent\<rparr>,
            acc @ confirmed_of [0x0A] x) }"
| "paced_loop a earlier (piece # rest) acc acked sent =
     do { x \<leftarrow> paced_piece a (utf8_encode piece);
          let acc' = acc @ confirmed_of (utf8_encode piece) x in
          case x of
            Inl e \<Rightarrow> State_Monad.return (Inl e, acc')
          | Inr r \<Rightarrow>
              if tr_outcome r = Not_submitted \<or> \<not> tx_complete r then State_Monad.return (Inr (stalled acked sent), acc')
              else do {
                y \<leftarrow> await_echo_progress (earlier @ [piece]) (pa_offset a) (pa_timeout a);
                case y of
                  Inl e \<Rightarrow> State_Monad.return (Inl e, acc')
                | Inr acked' \<Rightarrow>
                    if acked' < sent + length piece then State_Monad.return (Inr (stalled acked' (sent + length piece)), acc')
                    else paced_loop a (earlier @ [piece]) rest acc' acked' (sent + length piece) } }"

function slices_of :: "nat \<Rightarrow> string \<Rightarrow> string list" where
  "slices_of n s = (if s = [] \<or> n = 0 then [] else take n s # slices_of n (drop n s))"
  by pat_completeness auto
termination by (relation "measure (length \<circ> snd)") auto

declare slices_of.simps [simp del]

definition rstrip_crlf :: "string \<Rightarrow> string" where
  "rstrip_crlf s = rev (dropWhile (\<lambda>c. c = CHR 0x0D \<or> c = CHR 0x0A) (rev s))"

definition send_command_echo_paced ::
  "string \<Rightarrow> string \<Rightarrow> string option \<Rightarrow> nat \<Rightarrow> seconds \<Rightarrow> tx_permit option \<Rightarrow> paced um" where
  "send_command_echo_paced cmd source cmd_id slice_size echo_timeout_s permit =
     and_then (note_call (U_paced cmd)) (\<lambda>_.
     and_then uart_offset (\<lambda>pre.
       do { (r, payload) \<leftarrow> paced_loop \<lparr>pa_source = source, pa_cmd_id = cmd_id, pa_permit = permit, pa_offset = pre, pa_timeout = echo_timeout_s\<rparr>
              [] (slices_of (max 1 slice_size) (rstrip_crlf cmd)) [] 0 0;
            (if payload \<noteq> [] then State_Monad.update (append_tx_record payload source cmd_id) else State_Monad.return ());
            State_Monad.return r }))"

end
