(* ===== verification/Uart_Theorems.thy ===== *)
theory Uart_Theorems
  imports Uart_Write
begin

text \<open>
  What a transmission does to the wire, to the log and to the books, whatever the other threads and the operating system do in between.
\<close>

section \<open>Admitted writes\<close>

fun written :: "uart_event \<Rightarrow> byte list" where
  "written (U_write _ _ _ bs) = bs"
| "written _ = []"

text \<open>The fence that was in force at the moment of a write let it pass.\<close>

fun admitted :: "uart_event \<Rightarrow> bool" where
  "admitted (U_write permit now sh _) = (submit_reject_reason now (sh_wal_unhealthy sh) (sh_fence sh) permit = None)"
| "admitted _ = True"

text \<open>From \<open>u\<close> to \<open>u'\<close> the bytes \<open>bs\<close> were written, in admitted writes with this permit, and nothing else was done by this thread.\<close>

definition tx_wrote :: "tx_permit option \<Rightarrow> byte list \<Rightarrow> uart \<Rightarrow> uart \<Rightarrow> bool" where
  "tx_wrote permit bs u u' \<longleftrightarrow>
     u_wire u' = u_wire u @ bs \<and> u_records u' = u_records u \<and> u_accounts u' = u_accounts u \<and> u_active_cmd u' = u_active_cmd u
     \<and> u_tallies u' = u_tallies u \<and> u_context u' = u_context u
     \<and> (\<exists>ws. u_log u' = u_log u @ ws \<and> list_all (\<lambda>e. admitted e \<and> (\<exists>t sh b. e = U_write permit t sh b)) ws \<and> concat (map written ws) = bs)"

lemma wrote_trans: "tx_wrote p a u v \<Longrightarrow> tx_wrote p b v w \<Longrightarrow> tx_wrote p (a @ b) u w"
  unfolding tx_wrote_def by (elim conjE exE) (auto intro!: exI [of _ "_ @ _"])

lemma others_active [simp]: "u_active_cmd (u_others u) = u_active_cmd u"
  by (auto simp: u_others_def Let_def split: list.split)

lemma wrote_refl [simp]: "tx_wrote p [] u u"
  by (simp add: tx_wrote_def)

lemma wrote_others [simp]: "tx_wrote p [] u (u_others u)"
  by (simp add: tx_wrote_def)

lemma wrote_sleep [simp]: "tx_wrote p [] u (u_sleep d u)"
  by (simp add: tx_wrote_def u_sleep_def)

lemma wrote_idle: "tx_wrote p [] u v \<Longrightarrow> tx_wrote p b v w \<Longrightarrow> tx_wrote p b u w"
  using wrote_trans [of p "[]" u v b w] by simp

lemma os_write_wrote:
  assumes "submit_guard p u = None" "os_write p bs u = (r, u')"
  shows "tx_wrote p (case r of Os_wrote n \<Rightarrow> take n bs | _ \<Rightarrow> []) u u'"
proof -
  have a: "admitted (U_write p (u_now u) (u_shared u) b)" for b using assms(1) by (simp add: submit_guard_def)
  show ?thesis using assms(2) a by (auto simp: os_write_def tx_wrote_def Let_def split: list.splits os_reply.splits if_splits)
qed

text \<open>The two write loops have the same contract.\<close>

definition loop_result :: "byte list \<Rightarrow> nat \<Rightarrow> tx_result \<Rightarrow> bool" where
  "loop_result payload sent r \<longleftrightarrow>
     sent \<le> tr_confirmed r \<and> tr_confirmed r \<le> length payload \<and> tr_requested r = length payload
     \<and> (tr_outcome r = Not_submitted \<longrightarrow> tr_confirmed r = 0) \<and> (tr_outcome r \<noteq> Completed \<longrightarrow> tr_confirmed r < length payload)"

definition loop_effect :: "tx_permit option \<Rightarrow> byte list \<Rightarrow> nat \<Rightarrow> uart \<Rightarrow> tx_result \<times> uart \<Rightarrow> bool" where
  "loop_effect p payload sent u x \<longleftrightarrow>
     loop_result payload sent (fst x) \<and> tx_wrote p (take (tr_confirmed (fst x) - sent) (drop sent payload)) u (snd x)"

lemma loop_effect_stop:
  assumes "sent \<le> length payload" "tx_wrote p [] u u'" "tr_confirmed r = sent" "tr_requested r = length payload" "tr_outcome r = Not_submitted \<longrightarrow> sent = 0"
    and "tr_outcome r \<noteq> Completed \<longrightarrow> sent < length payload"
  shows "loop_effect p payload sent u (r, u')"
  using assms by (simp add: loop_effect_def loop_result_def)

lemma loop_effect_step:
  assumes "tx_wrote p (take n (drop sent payload)) u v" "sent + n \<le> length payload" "loop_effect p payload (sent + n) v x"
  shows "loop_effect p payload sent u x"
proof -
  let ?c = "tr_confirmed (fst x)"
  have c: "loop_result payload (sent + n) (fst x)" "tx_wrote p (take (?c - (sent + n)) (drop (sent + n) payload)) v (snd x)"
    using assms(3) by (auto simp: loop_effect_def)
  have "tx_wrote p (take n (drop sent payload) @ take (?c - (sent + n)) (drop (sent + n) payload)) u (snd x)"
    by (rule wrote_trans [OF assms(1) c(2)])
  moreover have "take n (drop sent payload) @ take (?c - (sent + n)) (drop (sent + n) payload) = take (?c - sent) (drop sent payload)"
  proof -
    have "?c - sent = n + (?c - (sent + n))" using c(1) by (auto simp: loop_result_def)
    then show ?thesis by (simp add: take_add add.commute)
  qed
  ultimately show ?thesis using c(1) by (auto simp: loop_effect_def loop_result_def)
qed

lemma loop_effect_idle: "tx_wrote p [] u v \<Longrightarrow> sent \<le> length payload \<Longrightarrow> loop_effect p payload sent v x \<Longrightarrow> loop_effect p payload sent u x"
  using loop_effect_step [of p 0 sent payload u v x] by simp

lemma result_fields [simp]:
  "tr_outcome (mk_result k c n e) = k" "tr_confirmed (mk_result k c n e) = c" "tr_requested (mk_result k c n e) = n" "tr_error (mk_result k c n e) = e"
  "tr_confirmed (refused_result c n z) = c" "tr_requested (refused_result c n z) = n"
  "tr_outcome (refused_result c n z) = Not_submitted \<longleftrightarrow> c = 0" "tr_outcome (refused_result c n z) = Completed \<longleftrightarrow> c \<noteq> 0"
  by (simp_all add: mk_result_def refused_result_def)

lemma posix_effect: "sent \<le> length payload \<Longrightarrow> loop_effect p payload sent u (posix_write_all p payload sent u)"
proof (induction p payload sent u rule: posix_write_all.induct)
  case (1 p payload sent u)
  let ?v = "u_others (u_others u)"
  have w: "tx_wrote p [] u ?v" using wrote_idle [OF wrote_others wrote_others] .
  show ?case
  proof (cases "sent < length payload \<and> \<not> cancelled (u_others u) \<and> submit_guard p ?v = None")
    case False
    then show ?thesis
      by (auto simp: posix_write_all.simps [of p payload sent u] Let_def w 1(3) split: option.split intro!: loop_effect_stop)
  next
    case True
    obtain r u3 where r: "os_write p (drop sent payload) ?v = (r, u3)" by fastforce
    have o: "tx_wrote p (case r of Os_wrote n \<Rightarrow> take n (drop sent payload) | _ \<Rightarrow> []) u u3"
      using wrote_idle [OF w os_write_wrote [OF _ r]] True by simp
    show ?thesis
    proof (cases r)
      case (Os_wrote n)
      have n: "sent + n \<le> length payload" using os_write_progress(2) [OF r Os_wrote] True by auto
      show ?thesis
      proof (cases "n = 0")
        case True
        then show ?thesis using o Os_wrote r \<open>sent < _ \<and> _\<close>
          by (auto simp: posix_write_all.simps [of p payload sent u] Let_def intro!: loop_effect_stop)
      next
        case False
        have "loop_effect p payload (sent + n) u3 (posix_write_all p payload (sent + n) u3)"
          using 1(1) [OF _ refl _ refl _ r [symmetric] Os_wrote False n] True by simp
        then show ?thesis using loop_effect_step [OF _ n, of p u u3] o Os_wrote r True False
          by (simp add: posix_write_all.simps [of p payload sent u] Let_def)
      qed
    next
      case Os_again
      let ?u4 = "u_sleep EAGAIN_BACKOFF_S u3"
      have i: "tx_wrote p [] u ?u4" using o Os_again wrote_idle [OF _ wrote_sleep, of p u u3] by simp
      show ?thesis
      proof (cases "cancelled ?u4")
        case c: True
        then show ?thesis using i Os_again r True 
          by (auto simp: posix_write_all.simps [of p payload sent u] Let_def intro!: loop_effect_stop)
      next
        case False
        have "loop_effect p payload sent ?u4 (posix_write_all p payload sent ?u4)"
          using 1(2) [OF _ refl _ refl _ r [symmetric] Os_again refl False 1(3)] True by simp
        then show ?thesis using loop_effect_idle [OF i 1(3)] Os_again r True False
          by (simp add: posix_write_all.simps [of p payload sent u] Let_def)
      qed
    next
      case (Os_failed e)
      then show ?thesis using o r True
        by (auto simp: posix_write_all.simps [of p payload sent u] Let_def intro!: loop_effect_stop)
    qed
  qed
qed

lemma pyserial_effect: "sent \<le> length payload \<Longrightarrow> loop_effect p payload sent u (pyserial_write p payload sent u)"
proof (induction p payload sent u rule: pyserial_write.induct)
  case (1 p payload sent u)
  let ?v = "u_others (u_others u)" and ?bs = "take PYSERIAL_SUBMIT_CHUNK (drop sent payload)"
  have w: "tx_wrote p [] u ?v" using wrote_idle [OF wrote_others wrote_others] .
  show ?case
  proof (cases "sent < length payload \<and> \<not> cancelled (u_others u) \<and> submit_guard p ?v = None")
    case False
    then show ?thesis
      by (auto simp: pyserial_write.simps [of p payload sent u] Let_def w 1(2) split: option.split intro!: loop_effect_stop)
  next
    case True
    obtain r u3 where r: "os_write p ?bs ?v = (r, u3)" by fastforce
    have o: "tx_wrote p (case r of Os_wrote n \<Rightarrow> take n ?bs | _ \<Rightarrow> []) u u3"
      using wrote_idle [OF w os_write_wrote [OF _ r]] True by simp
    show ?thesis
    proof (cases "\<exists>n. r = Os_wrote n \<and> n \<noteq> 0")
      case False
      then show ?thesis using o r True
        by (cases r) (auto simp: pyserial_write.simps [of p payload sent u] Let_def intro!: loop_effect_stop)
    next
      case T: True
      then obtain n where n: "r = Os_wrote n" "n \<noteq> 0" by blast
      have l: "n \<le> length ?bs" using os_write_progress(2) [OF r n(1)] .
      then have n': "sent + n \<le> length payload" "take n ?bs = take n (drop sent payload)" using True by (auto simp: min_def split: if_splits)
      have "loop_effect p payload (sent + n) u3 (pyserial_write p payload (sent + n) u3)"
        using 1(1) [OF _ refl _ refl _ r [symmetric] n n'(1)] True by simp
      then show ?thesis using loop_effect_step [OF _ n'(1), of p u u3] o n n'(2) r True
        by (simp add: pyserial_write.simps [of p payload sent u] Let_def)
    qed
  qed
qed


section \<open>Sending\<close>

fun rec_bytes :: "wal_entry \<Rightarrow> byte list" where
  "rec_bytes (Tx_record bs _ _) = bs"
| "rec_bytes (Tx_unknown_meta _ _ _) = []"

definition recorded_bytes :: "uart \<Rightarrow> byte list" where
  "recorded_bytes u = concat (map rec_bytes (u_records u))"

definition writes_of :: "tx_permit option \<Rightarrow> byte list \<Rightarrow> uart_event list \<Rightarrow> bool" where
  "writes_of p bs ws \<longleftrightarrow> list_all (\<lambda>e. admitted e \<and> (\<exists>t sh b. e = U_write p t sh b)) ws \<and> concat (map written ws) = bs"

text \<open>The bytes \<open>bs\<close> went out with this permit; the tally of its operation has them all; \<open>recs\<close> were added to the log of the bridge.\<close>

definition went_out :: "tx_permit option \<Rightarrow> byte list \<Rightarrow> byte list \<Rightarrow> uart \<Rightarrow> uart \<Rightarrow> bool" where
  "went_out p bs recs u u' \<longleftrightarrow>
     u_wire u' = u_wire u @ bs \<and> recorded_bytes u' = recorded_bytes u @ recs \<and> u_context u' = u_context u
     \<and> (\<forall>k. dict_get (u_tallies u') k = map_option ((+) (if \<exists>q. p = Some q \<and> tp_op_id q = k then length bs else 0)) (dict_get (u_tallies u) k))
     \<and> (\<exists>ws. u_log u' = u_log u @ ws \<and> writes_of p bs ws)"

lemma option_id: "map_option ((+) (0 :: nat)) x = x"
  by (cases x) auto

lemma book_fields [simp]:
  "u_wire (tx_book payload source cmd_id logged p r v) = u_wire v" "u_log (tx_book payload source cmd_id logged p r v) = u_log v"
  "u_context (tx_book payload source cmd_id logged p r v) = u_context v"
  by (simp_all add: tx_book_def Let_def append_tx_record_def append_unknown_tx_meta_def split: option.split)

lemma book_out:
  assumes "tx_wrote p bs u v" "bs = take (tr_confirmed r) payload" "tr_confirmed r \<le> length payload"
  shows "went_out p bs (if logged then bs else []) u (tx_book payload source cmd_id logged p r v)"
proof -
  have len: "length bs = tr_confirmed r" using assms(2,3) by simp
  have r: "u_wire v = u_wire u @ bs" "u_records v = u_records u" "u_context v = u_context u" "u_tallies v = u_tallies u"
    "\<exists>ws. u_log v = u_log u @ ws \<and> writes_of p bs ws"
    using assms(1) by (auto simp: tx_wrote_def writes_of_def)
  have b: "bs = [] \<longleftrightarrow> tr_confirmed r = 0" using len by auto
  show ?thesis unfolding went_out_def
  proof (intro conjI allI)
    show "recorded_bytes (tx_book payload source cmd_id logged p r v) = recorded_bytes u @ (if logged then bs else [])"
      using r(2) assms(2) b by (simp add: tx_book_def Let_def recorded_bytes_def append_tx_record_def append_unknown_tx_meta_def split: option.split)
    fix k
    show "dict_get (u_tallies (tx_book payload source cmd_id logged p r v)) k
      = map_option ((+) (if \<exists>q. p = Some q \<and> tp_op_id q = k then length bs else 0)) (dict_get (u_tallies u) k)"
      using len r(4) by (auto simp: tx_book_def Let_def append_tx_record_def append_unknown_tx_meta_def option_id split: option.split)
  qed (use r in simp_all)
qed

lemma admit_out:
  assumes "tx_admit payload source allow p u = (x, u')"
  shows "u_wire u' = u_wire u \<and> u_records u' = u_records u \<and> u_context u' = u_context u \<and> u_tallies u' = u_tallies u \<and> u_log u' = u_log u"
  using assms by (auto simp: tx_admit_def Let_def split: if_splits option.splits)

text \<open>A transmission that does not raise has written everything, or nothing at all; one that raises has not written everything.\<close>

fun outcome_ok :: "byte list \<Rightarrow> uart_exn + tx_result \<Rightarrow> bool" where
  "outcome_ok payload (Inr r) = (tx_complete r \<and> tr_confirmed r = length payload \<or> tr_outcome r = Not_submitted \<and> tr_confirmed r = 0)"
| "outcome_ok payload (Inl (Tx_error k r)) = (tr_confirmed r \<le> length payload \<and> (payload \<noteq> [] \<longrightarrow> tr_confirmed r < length payload))"
| "outcome_ok payload (Inl Bad_pattern) = False"

lemma admit_outcome:
  assumes "tx_admit payload source allow p u = (Some x, u')"
  shows "outcome_ok payload x \<and> confirmed_of payload x = []"
  using assms by (auto simp: tx_admit_def Let_def confirmed_of_def split: if_splits option.splits)

lemma settle_outcome:
  assumes "loop_result payload 0 r"
  shows "outcome_ok payload (case tx_failure r of Some k \<Rightarrow> Inl (Tx_error k r) | None \<Rightarrow> Inr r)"
  using assms by (cases "tr_outcome r") (auto simp: tx_failure_def loop_result_def tx_complete_def)

lemma send_locked_out:
  assumes "send_bytes_locked payload source cmd_id logged allow permit u = (x, u')"
  shows "outcome_ok payload x
    \<and> went_out (active_permit source cmd_id allow permit u) (confirmed_of payload x) (if logged then confirmed_of payload x else []) u u'"
proof -
  let ?p = "active_permit source cmd_id allow permit u"
  obtain y u1 where a: "tx_admit payload source allow ?p u = (y, u1)" by fastforce
  note same = admit_out [OF a]
  have quiet: "went_out ?p [] [] u u1" using same by (simp add: went_out_def writes_of_def recorded_bytes_def option_id)
  show ?thesis
  proof (cases y)
    case (Some z)
    then show ?thesis using assms a quiet admit_outcome [of payload source allow ?p u z u1] by (auto simp: send_bytes_locked_def Let_def)
  next
    case None
    have u1: "u1 = u" using a None by (auto simp: tx_admit_def Let_def split: if_splits option.splits)
    show ?thesis
    proof (cases "sh_serial (u_shared u) = No_serial")
      case True
      then show ?thesis using assms a None quiet u1 by (auto simp: send_bytes_locked_def Let_def confirmed_of_def)
    next
      case False
      obtain r u2 where w: "(if sh_serial (u_shared u) = Posix_fd then posix_write_all ?p payload 0 u else pyserial_write ?p payload 0 u) = (r, u2)"
        by fastforce
      then have e: "loop_effect ?p payload 0 u (r, u2)" using posix_effect pyserial_effect by (metis zero_le)
      let ?x = "case tx_failure r of Some k \<Rightarrow> Inl (Tx_error k r) | None \<Rightarrow> Inr r"
      have x: "x = ?x" "u' = tx_book payload source cmd_id logged ?p r u2"
        using assms a None u1 False w by (auto simp: send_bytes_locked_def Let_def)
      have c: "confirmed_of payload x = take (tr_confirmed r) payload" by (simp add: x(1) confirmed_of_def split: option.split)
      have "went_out ?p (take (tr_confirmed r) payload) (if logged then take (tr_confirmed r) payload else []) u u'"
        unfolding x(2) using e by (intro book_out) (auto simp: loop_effect_def loop_result_def)
      then show ?thesis using settle_outcome [of payload r] e c x(1) unfolding c by (auto simp: loop_effect_def)
    qed
  qed
qed


section \<open>Programs that send\<close>

text \<open>What a thread does between two states: the bytes that went out, the bytes that were recorded, only admitted writes and only
  with permits that satisfy \<open>P\<close>. When \<open>P\<close> names one permit, the tally of its operation has counted every byte.\<close>

definition out :: "(tx_permit option \<Rightarrow> bool) \<Rightarrow> byte list \<Rightarrow> byte list \<Rightarrow> uart \<Rightarrow> uart \<Rightarrow> bool" where
  "out P bs recs u u' \<longleftrightarrow>
     u_wire u' = u_wire u @ bs \<and> recorded_bytes u' = recorded_bytes u @ recs \<and> u_context u' = u_context u
     \<and> (\<forall>p. P = (\<lambda>q. q = Some p) \<longrightarrow>
          (\<forall>k. dict_get (u_tallies u') k = map_option ((+) (if tp_op_id p = k then length bs else 0)) (dict_get (u_tallies u) k)))
     \<and> (\<exists>ws. u_log u' = u_log u @ ws \<and> list_all (\<lambda>e. admitted e \<and> (\<forall>q t sh b. e = U_write q t sh b \<longrightarrow> P q)) ws
          \<and> concat (map written ws) = bs)"

lemma out_sent: "P p \<Longrightarrow> went_out p bs recs u u' \<Longrightarrow> out P bs recs u u'"
  unfolding out_def went_out_def writes_of_def by (auto simp: list_all_iff)

lemma out_quiet:
  assumes "u_wire u' = u_wire u" "u_records u' = u_records u" "u_context u' = u_context u" "u_tallies u' = u_tallies u"
    and "u_log u' = u_log u @ es" "\<And>q t sh b. U_write q t sh b \<notin> set es"
  shows "out P [] [] u u'"
proof -
  have "admitted e \<and> written e = [] \<and> (\<forall>q t sh b. e \<noteq> U_write q t sh b)" if "e \<in> set es" for e
  proof -
    have "e \<noteq> U_write q t sh b" for q t sh b using that assms(6) by blast
    then show ?thesis by (cases e) auto
  qed
  then show ?thesis using assms(1-5) by (auto simp: out_def recorded_bytes_def option_id list_all_iff)
qed

lemma out_refl [simp]: "out P [] [] u u" and out_others [simp]: "out P [] [] u (u_others u)" and out_sleep [simp]: "out P [] [] u (u_sleep d u)"
  by (auto intro!: out_quiet)

lemma option_plus: "map_option ((+) (a :: nat)) (map_option ((+) b) x) = map_option ((+) (b + a)) x"
  by (cases x) auto

lemma out_trans: "out P a r u v \<Longrightarrow> out P b s v w \<Longrightarrow> out P (a @ b) (r @ s) u w"
proof -
  assume uv: "out P a r u v" and vw: "out P b s v w"
  obtain xs ys where l: "u_log v = u_log u @ xs" "u_log w = u_log v @ ys" "concat (map written xs) = a" "concat (map written ys) = b"
      "list_all (\<lambda>e. admitted e \<and> (\<forall>q t sh b. e = U_write q t sh b \<longrightarrow> P q)) (xs @ ys)"
    using uv vw by (auto simp: out_def)
  then have "\<exists>ws. u_log w = u_log u @ ws \<and> list_all (\<lambda>e. admitted e \<and> (\<forall>q t sh b. e = U_write q t sh b \<longrightarrow> P q)) ws
      \<and> concat (map written ws) = a @ b"
    by (intro exI [of _ "xs @ ys"]) simp
  then show ?thesis using uv vw by (auto simp: out_def option_plus option_id)
qed

lemma out_then: "out P [] [] u v \<Longrightarrow> out P b s v w \<Longrightarrow> out P b s u w"
  using out_trans [of P "[]" "[]" u v b s w] by simp

lemma then_out: "out P b s u v \<Longrightarrow> out P [] [] v w \<Longrightarrow> out P b s u w"
  using out_trans [of P b s u v "[]" "[]" w] by simp

definition permits :: "(tx_permit option \<Rightarrow> bool) \<Rightarrow> string \<Rightarrow> string option \<Rightarrow> tx_permit option \<Rightarrow> tx_context \<Rightarrow> bool" where
  "permits P source cmd_id permit cx \<longleftrightarrow> (\<forall>u. u_context u = cx \<longrightarrow> P (active_permit source cmd_id False permit u))"

lemma permits_operation: "cx_operation cx = Some p \<Longrightarrow> permits (\<lambda>q. q = Some p) source cmd_id None cx"
  by (auto simp: permits_def active_permit_def resolve_tx_permit_def Let_def)

lemma send_bytes_out:
  assumes "run_state (send_bytes payload source cmd_id logged False permit) u = (x, u')" "permits P source cmd_id permit (u_context u)"
  shows "outcome_ok payload x \<and> out P (confirmed_of payload x) (if logged then confirmed_of payload x else []) u u'"
proof -
  have "send_bytes_locked payload source cmd_id logged False permit (u_others u) = (x, u')" using assms(1) by (simp add: send_bytes_def)
  note sent = send_locked_out [OF this]
  have "P (active_permit source cmd_id False permit (u_others u))" using assms(2) by (simp add: permits_def)
  from out_then [OF out_others out_sent [of P, OF this conjunct2 [OF sent]]] show ?thesis using sent by blast
qed

lemma await_echo_out: "out P [] [] u (snd (await_echo_loop expected offset deadline u))"
proof (induction expected offset deadline u rule: await_echo_loop.induct)
  case (1 expected offset deadline u)
  let ?v = "u_others (u_others (u_others u))"
  have v: "out P [] [] u ?v" "out P [] [] u (u_others (u_others u))" by (meson out_then out_others)+
  obtain c n where e: "echo_match expected (echo_text offset (u_rx (u_others u))) = (c, n)" by fastforce
  show ?case
  proof (cases "\<not> cancelled (u_others (u_others u)) \<and> \<not> c \<and> \<not> deadline \<le> u_now ?v")
    case True
    then have "out P [] [] (u_sleep (1 / 100) ?v) (snd (await_echo_loop expected offset deadline (u_sleep (1 / 100) ?v)))"
      using 1 [OF refl e [symmetric] refl refl] by simp
    then have "out P [] [] u (snd (await_echo_loop expected offset deadline (u_sleep (1 / 100) ?v)))"
      using v(1) out_sleep by (meson out_then)
    then show ?thesis using True e by (simp add: await_echo_loop.simps [of expected offset deadline u] Let_def)
  next
    case False
    then show ?thesis using v e by (auto simp: await_echo_loop.simps [of expected offset deadline u] Let_def)
  qed
qed

lemma await_regex_out: "out P [] [] u (snd (await_regex_loop hit offset deadline u))"
proof (induction hit offset deadline u rule: await_regex_loop.induct)
  case (1 hit offset deadline u)
  let ?v = "u_others (u_others u)"
  have v: "out P [] [] u ?v" "out P [] [] u (u_others u)" by (meson out_then out_others)+
  show ?case
  proof (cases "u_now (u_others u) < deadline \<and> \<not> sh_stopping (u_shared (u_others u)) \<and> \<not> hit (rx_text_from offset (u_rx ?v))")
    case True
    then have "out P [] [] (u_sleep (1 / 20) ?v) (snd (await_regex_loop hit offset deadline (u_sleep (1 / 20) ?v)))"
      using 1 [OF refl _ _ refl] by simp
    then have "out P [] [] u (snd (await_regex_loop hit offset deadline (u_sleep (1 / 20) ?v)))"
      using v(1) out_sleep by (meson out_then)
    then show ?thesis using True by (simp add: await_regex_loop.simps [of hit offset deadline u] Let_def)
  next
    case False
    then show ?thesis using v by (auto simp: await_regex_loop.simps [of hit offset deadline u] Let_def)
  qed
qed


lemma out_meta [simp]: "out P [] [] u (append_unknown_tx_meta r source cmd_id u)"
  by (simp add: out_def append_unknown_tx_meta_def recorded_bytes_def option_id)

lemma paced_piece_out:
  assumes "run_state (paced_piece a data) u = (x, u')" "permits P (pa_source a) (pa_cmd_id a) (pa_permit a) (u_context u)"
  shows "outcome_ok data x \<and> out P (confirmed_of data x) [] u u'"
proof -
  obtain y v where y: "run_state (send_bytes data (pa_source a) (pa_cmd_id a) False False (pa_permit a)) u = (y, v)" by fastforce
  note sent = send_bytes_out [OF y assms(2)]
  have "x = y \<and> (u' = v \<or> (\<exists>r. u' = append_unknown_tx_meta r (pa_source a) (pa_cmd_id a) v))"
    using assms(1) y by (auto simp: paced_piece_def split: sum.splits uart_exn.splits if_splits)
  then show ?thesis using sent then_out [OF _ out_meta] by auto
qed

lemma utf8_encode_append: "utf8_encode (s @ t) = utf8_encode s @ utf8_encode t"
  by (simp add: utf8_encode_def)

text \<open>How a paced command ends: the line with its end went out, every character acknowledged; or a part of the text without the end of
  the line.\<close>

definition paced_shape :: "byte list \<Rightarrow> string \<Rightarrow> nat \<Rightarrow> uart_exn + paced \<Rightarrow> bool" where
  "paced_shape bs text sent r \<longleftrightarrow>
     (case r of
        Inr pc \<Rightarrow> if pc_ok pc then bs = utf8_encode text @ [0x0A] \<and> pc_sent pc = sent + length text \<and> pc_sent pc \<le> pc_acked pc
                  else prefix bs (utf8_encode text)
      | Inl e \<Rightarrow> e \<noteq> Bad_pattern \<and> prefix bs (utf8_encode text))"

lemma shape_stop: "prefix bs (utf8_encode piece) \<Longrightarrow> (\<forall>pc. r = Inr pc \<longrightarrow> \<not> pc_ok pc) \<Longrightarrow> r \<noteq> Inl Bad_pattern
    \<Longrightarrow> paced_shape bs (piece @ rest) sent r"
  by (auto simp: paced_shape_def utf8_encode_append split: sum.split)

lemma shape_step: "paced_shape bs rest (sent + length piece) r \<Longrightarrow> paced_shape (utf8_encode piece @ bs) (piece @ rest) sent r"
  by (auto simp: paced_shape_def utf8_encode_append split: sum.splits if_splits)

lemma not_ok [simp]: "\<not> pc_ok (stalled n m)"
  by (simp add: stalled_def)

lemma confirmed_prefix: "prefix (confirmed_of data x) data"
  by (auto simp: confirmed_of_def take_is_prefix split: sum.split uart_exn.split)

lemma outcome_pattern: "outcome_ok payload x \<Longrightarrow> x \<noteq> Inl Bad_pattern"
  by auto

lemma newline_outcome:
  assumes "outcome_ok [0x0A] x"
  shows "confirmed_of [0x0A] x = (case x of Inr r \<Rightarrow> if tr_outcome r \<noteq> Not_submitted \<and> tx_complete r then [0x0A] else [] | Inl _ \<Rightarrow> [])"
  using assms by (cases "([0x0A] :: byte list, x)" rule: outcome_ok.cases) (auto simp: confirmed_of_def tx_complete_def)

lemma await_echo_progress_out: "run_state (await_echo_progress e n t) u = (y, v) \<Longrightarrow> out P [] [] u v \<and> (\<exists>k. y = Inr k)"
  using out_then [OF out_others await_echo_out] by (auto simp: await_echo_progress_def split: prod.splits) (metis snd_conv)

lemma paced_loop_out:
  assumes "run_state (paced_loop a earlier slices acc acked sent) u = ((r, acc'), u')"
    and "permits P (pa_source a) (pa_cmd_id a) (pa_permit a) (u_context u)" "sent \<le> acked"
  shows "\<exists>bs. acc' = acc @ bs \<and> out P bs [] u u' \<and> paced_shape bs (concat slices) sent r"
  using assms
proof (induction slices arbitrary: earlier acc acked sent u)
  case Nil
  obtain x v where x: "run_state (paced_piece a [0x0A]) u = (x, v)" by fastforce
  note o = paced_piece_out [OF x Nil.prems(2)]
  have r: "u' = v" "acc' = acc @ confirmed_of [0x0A] x"
      "r = (case x of Inl e \<Rightarrow> Inl e | Inr r \<Rightarrow> Inr \<lparr>pc_ok = (tr_outcome r \<noteq> Not_submitted \<and> tx_complete r), pc_acked = acked, pc_sent = sent\<rparr>)"
    using Nil.prems(1) x by auto
  have "paced_shape (confirmed_of [0x0A] x) [] sent r"
    using newline_outcome [OF conjunct1 [OF o]] outcome_pattern [OF conjunct1 [OF o]] r(3) Nil.prems(3) by (auto simp: paced_shape_def utf8_encode_def split: sum.split)
  then show ?case using o r by auto
next
  case (Cons piece rest)
  let ?d = "utf8_encode piece"
  obtain x v where x: "run_state (paced_piece a ?d) u = (x, v)" by fastforce
  note o = paced_piece_out [OF x Cons.prems(2)]
  show ?case
  proof (cases "\<exists>q. x = Inr q \<and> tr_outcome q \<noteq> Not_submitted \<and> tx_complete q")
    case False
    then have "u' = v \<and> acc' = acc @ confirmed_of ?d x \<and> (\<forall>pc. r = Inr pc \<longrightarrow> \<not> pc_ok pc) \<and> r \<noteq> Inl Bad_pattern"
      using Cons.prems(1) x outcome_pattern [OF conjunct1 [OF o]] by (cases x) (auto simp: Let_def)
    then show ?thesis using o shape_stop [OF confirmed_prefix] by auto
  next
    case True
    then obtain q where q: "x = Inr q" "tr_outcome q \<noteq> Not_submitted" "tx_complete q" by blast
    then have all: "confirmed_of ?d x = ?d" using o by (auto simp: confirmed_of_def)
    obtain y w where y: "run_state (await_echo_progress (earlier @ [piece]) (pa_offset a) (pa_timeout a)) v = (y, w)" by fastforce
    then obtain k where k: "y = Inr k" and vw: "out P [] [] v w" using await_echo_progress_out by blast
    have uw: "out P ?d [] u w" using then_out [OF _ vw] o all by auto
    show ?thesis
    proof (cases "k < sent + length piece")
      case True
      then have "u' = w \<and> acc' = acc @ ?d \<and> (\<forall>pc. r = Inr pc \<longrightarrow> \<not> pc_ok pc) \<and> r \<noteq> Inl Bad_pattern" using Cons.prems(1) x q y k all by (auto simp: Let_def)
      then show ?thesis using uw shape_stop [of ?d piece r "concat rest" sent] by auto
    next
      case False
      have c: "u_context w = u_context u" using uw by (simp add: out_def)
      have "run_state (paced_loop a (earlier @ [piece]) rest (acc @ ?d) k (sent + length piece)) w = ((r, acc'), u')"
        using Cons.prems(1) x q y k all False by (simp add: Let_def)
      from Cons.IH [OF this] c Cons.prems(2) False obtain bs where
        "acc' = (acc @ ?d) @ bs" "out P bs [] w u'" "paced_shape bs (concat rest) (sent + length piece) r" by auto
      then show ?thesis using out_trans [OF uw] shape_step by (intro exI [of _ "?d @ bs"]) auto
    qed
  qed
qed

lemma concat_slices: "0 < n \<Longrightarrow> concat (slices_of n s) = s"
  by (induction n s rule: slices_of.induct) (simp add: slices_of.simps)

lemma note_out [simp]: "(\<And>q t sh b. e \<noteq> U_write q t sh b) \<Longrightarrow> out P [] [] u (note_event e u)"
  by (rule out_quiet [where es = "[e]"]) (auto simp: note_event_def)

lemma record_out:
  assumes "out P bs [] u v"
  shows "out P bs bs u (if bs \<noteq> [] then append_tx_record bs source cmd_id v else v)"
  using assms by (auto simp: out_def append_tx_record_def recorded_bytes_def)

lemma paced_out:
  assumes "run_state (send_command_echo_paced cmd source cmd_id k t permit) u = (r, u')" "permits P source cmd_id permit (u_context u)"
  shows "\<exists>bs. out P bs bs u u' \<and> paced_shape bs (rstrip_crlf cmd) 0 r"
proof -
  let ?n = "note_event (U_paced cmd) u"
  let ?v = "u_others ?n"
  let ?a = "\<lparr>pa_source = source, pa_cmd_id = cmd_id, pa_permit = permit, pa_offset = rx_snapshot_len (u_rx ?v), pa_timeout = t\<rparr>"
  let ?s = "slices_of (max 1 k) (rstrip_crlf cmd)"
  have uv: "out P [] [] u ?v" by (rule out_then [OF note_out out_others]) simp
  obtain q acc w where l: "run_state (paced_loop ?a [] ?s [] 0 0) ?v = ((q, acc), w)" by (metis surj_pair)
  have "permits P (pa_source ?a) (pa_cmd_id ?a) (pa_permit ?a) (u_context ?v)" using assms(2) by (simp add: note_event_def)
  from paced_loop_out [OF l this] obtain bs where bs: "acc = bs" "out P bs [] ?v w" "paced_shape bs (rstrip_crlf cmd) 0 q"
    by (auto simp: concat_slices)
  have "r = q \<and> u' = (if bs \<noteq> [] then append_tx_record bs source cmd_id w else w)"
    using assms(1) l bs(1) by (auto simp: send_command_echo_paced_def and_then_def note_call_def uart_offset_def)
  then show ?thesis using bs(3) record_out [OF out_then [OF uv bs(2)]] by (intro exI [of _ bs]) simp
qed


section \<open>The wire and its records\<close>

text \<open>The operations that log what they send, and a thread that runs some of them, one after the other; whether they raise does not matter.\<close>

datatype tx_op = Op_command string string "string option" "tx_permit option"
  | Op_paced string string "string option" nat seconds "tx_permit option"
  | Op_cancel string "tx_permit option"

fun run_tx_op :: "tx_op \<Rightarrow> uart \<Rightarrow> uart" where
  "run_tx_op (Op_command cmd source cmd_id permit) u = snd (run_state (uart_send_command cmd source cmd_id permit) u)"
| "run_tx_op (Op_paced cmd source cmd_id k t permit) u = snd (run_state (send_command_echo_paced cmd source cmd_id k t permit) u)"
| "run_tx_op (Op_cancel source permit) u = snd (run_state (cancel_input_line source permit) u)"

lemma permits_any [simp]: "permits (\<lambda>_. True) source cmd_id permit cx"
  by (simp add: permits_def)

lemma send_command_out:
  assumes "run_state (uart_send_command cmd source cmd_id permit) u = (r, u')" "permits P source cmd_id permit (u_context u)"
  shows "\<exists>x. outcome_ok (line_bytes cmd) x \<and> out P (confirmed_of (line_bytes cmd) x) (confirmed_of (line_bytes cmd) x) u u'
    \<and> r = (case x of Inl e \<Rightarrow> Inl e | Inr _ \<Rightarrow> Inr ())"
proof -
  let ?v = "note_event (U_send cmd) u"
  obtain x w where x: "run_state (send_bytes (line_bytes cmd) source cmd_id True False permit) ?v = (x, w)" by fastforce
  have "permits P source cmd_id permit (u_context ?v)" using assms(2) by (simp add: note_event_def)
  note sent = send_bytes_out [OF x this]
  have "u' = w \<and> r = (case x of Inl e \<Rightarrow> Inl e | Inr _ \<Rightarrow> Inr ())"
    using assms(1) x by (auto simp: uart_send_command_def and_then_def note_call_def split: sum.splits)
  then show ?thesis using sent out_then [OF note_out] by fastforce
qed

lemma cancel_out:
  assumes "run_state (cancel_input_line source permit) u = (r, u')" "permits P source None permit (u_context u)"
  shows "\<exists>x. outcome_ok [0x15, 0x0A] x \<and> out P (confirmed_of [0x15, 0x0A] x) (confirmed_of [0x15, 0x0A] x) u u'
    \<and> r = (case x of Inl e \<Rightarrow> Inl e | Inr _ \<Rightarrow> Inr ())"
proof -
  let ?v = "note_event U_cancel u"
  obtain x w where x: "run_state (send_bytes [0x15, 0x0A] source None True False permit) ?v = (x, w)" by fastforce
  have "permits P source None permit (u_context ?v)" using assms(2) by (simp add: note_event_def)
  note sent = send_bytes_out [OF x this]
  have "u' = w \<and> r = (case x of Inl e \<Rightarrow> Inl e | Inr _ \<Rightarrow> Inr ())"
    using assms(1) x by (auto simp: cancel_input_line_def and_then_def note_call_def split: sum.splits)
  then show ?thesis using sent out_then [OF note_out] by fastforce
qed

lemma tx_op_out: "\<exists>bs. out (\<lambda>_. True) bs bs u (run_tx_op op u)"
proof (cases op)
  case (Op_command cmd source cmd_id permit)
  then show ?thesis using send_command_out [of cmd source cmd_id permit u _ _ "\<lambda>_. True"] by (metis permits_any prod.collapse run_tx_op.simps(1))
next
  case (Op_paced cmd source cmd_id k t permit)
  then show ?thesis using paced_out [of cmd source cmd_id k t permit u _ _ "\<lambda>_. True"] by (metis permits_any prod.collapse run_tx_op.simps(2))
next
  case (Op_cancel source permit)
  then show ?thesis using cancel_out [of source permit u _ _ "\<lambda>_. True"] by (metis permits_any prod.collapse run_tx_op.simps(3))
qed

lemma tx_ops_out: "\<exists>bs. out (\<lambda>_. True) bs bs u (fold run_tx_op ops u)"
proof (induction ops arbitrary: u)
  case (Cons op ops)
  obtain a where a: "out (\<lambda>_. True) a a u (run_tx_op op u)" using tx_op_out by blast
  obtain b where "out (\<lambda>_. True) b b (run_tx_op op u) (fold run_tx_op ops (run_tx_op op u))" using Cons.IH by blast
  from out_trans [OF a this] show ?case by auto
qed (auto intro!: exI [of _ "[]"])


lemma rstrip_one_line: "one_line s \<Longrightarrow> rstrip_crlf s = s"
proof (cases s rule: rev_cases)
  case (snoc t c)
  then show "one_line s \<Longrightarrow> rstrip_crlf s = s" by (simp add: rstrip_crlf_def)
qed (simp add: rstrip_crlf_def)


text \<open>A bridge whose device stays silent: the first slice is not echoed.\<close>

definition quiet_uart :: uart where
  "quiet_uart = \<lparr>u_rx = rxbuf_init 0, u_now = 0,
     u_shared = \<lparr>sh_fence = new_fence, sh_wal_unhealthy = False, sh_tx_cancel = False, sh_stopping = False, sh_admission_blocked = False, sh_serial = Posix_fd\<rparr>,
     u_env = [], u_os = [], u_wire = [], u_records = [], u_accounts = [], u_active_cmd = None, u_tallies = [],
     u_context = \<lparr>cx_uuid = ''0'', cx_operation = None, cx_system = None, cx_raw = None\<rparr>, u_log = []\<rparr>"

abbreviation silent_run :: "(uart_exn + paced) \<times> uart" where
  "silent_run \<equiv> run_state (send_command_echo_paced ''ls'' ''agent'' None 1 0 None) quiet_uart"

lemma silent_stalls: "fst silent_run = Inr (stalled 0 1)" "u_wire (snd silent_run) = [0x6C]"
  by code_simp+


end
