(* ===== verification/Md5.thy ===== *)
theory Md5
  imports Prelude
begin

text \<open>
  The MD5 digest (\<open>hashlib.md5(data).hexdigest()\<close> of the standard library), with which a file transfer compares what arrived with what was
  meant: the padding, the rounds on 32-bit words and the digest as hexadecimal digits.
\<close>

unbundle bit_operations_syntax

definition md5_sines :: "32 word list" where
  "md5_sines = [
     0xD76AA478, 0xE8C7B756, 0x242070DB, 0xC1BDCEEE, 0xF57C0FAF, 0x4787C62A, 0xA8304613, 0xFD469501,
     0x698098D8, 0x8B44F7AF, 0xFFFF5BB1, 0x895CD7BE, 0x6B901122, 0xFD987193, 0xA679438E, 0x49B40821,
     0xF61E2562, 0xC040B340, 0x265E5A51, 0xE9B6C7AA, 0xD62F105D, 0x02441453, 0xD8A1E681, 0xE7D3FBC8,
     0x21E1CDE6, 0xC33707D6, 0xF4D50D87, 0x455A14ED, 0xA9E3E905, 0xFCEFA3F8, 0x676F02D9, 0x8D2A4C8A,
     0xFFFA3942, 0x8771F681, 0x6D9D6122, 0xFDE5380C, 0xA4BEEA44, 0x4BDECFA9, 0xF6BB4B60, 0xBEBFBC70,
     0x289B7EC6, 0xEAA127FA, 0xD4EF3085, 0x04881D05, 0xD9D4D039, 0xE6DB99E5, 0x1FA27CF8, 0xC4AC5665,
     0xF4292244, 0x432AFF97, 0xAB9423A7, 0xFC93A039, 0x655B59C3, 0x8F0CCC92, 0xFFEFF47D, 0x85845DD1,
     0x6FA87E4F, 0xFE2CE6E0, 0xA3014314, 0x4E0811A1, 0xF7537E82, 0xBD3AF235, 0x2AD7D2BB, 0xEB86D391]"

definition md5_shifts :: "nat list" where
  "md5_shifts = concat (map (\<lambda>s. concat (replicate 4 s)) [[7, 12, 17, 22], [5, 9, 14, 20], [4, 11, 16, 23], [6, 10, 15, 21]])"

definition rotl32 :: "nat \<Rightarrow> 32 word \<Rightarrow> 32 word" where
  "rotl32 n w = push_bit n w OR drop_bit (32 - n) w"

text \<open>Step \<open>i\<close> of a round: the mixing function and the word of the block that it takes.\<close>

definition md5_mix :: "nat \<Rightarrow> 32 word \<Rightarrow> 32 word \<Rightarrow> 32 word \<Rightarrow> 32 word \<times> nat" where
  "md5_mix i b c d =
     (if i < 16 then ((b AND c) OR (NOT b AND d), i)
      else if i < 32 then ((d AND b) OR (NOT d AND c), (5 * i + 1) mod 16)
      else if i < 48 then (b XOR c XOR d, (3 * i + 5) mod 16)
      else (c XOR (b OR NOT d), (7 * i) mod 16))"

definition md5_step :: "32 word list \<Rightarrow> nat \<Rightarrow> 32 word \<times> 32 word \<times> 32 word \<times> 32 word \<Rightarrow> 32 word \<times> 32 word \<times> 32 word \<times> 32 word" where
  "md5_step block i s = (case s of (a, b, c, d) \<Rightarrow>
     (case md5_mix i b c d of (f, g) \<Rightarrow>
        (d, b + rotl32 (md5_shifts ! i) (a + f + md5_sines ! i + block ! g), b, c)))"

definition md5_block :: "32 word list \<Rightarrow> 32 word \<times> 32 word \<times> 32 word \<times> 32 word \<Rightarrow> 32 word \<times> 32 word \<times> 32 word \<times> 32 word" where
  "md5_block block s = (case s of (a, b, c, d) \<Rightarrow>
     (case fold (md5_step block) [0..<64] (a, b, c, d) of (a', b', c', d') \<Rightarrow> (a + a', b + b', c + c', d + d')))"

definition md5_pad :: "byte list \<Rightarrow> byte list" where
  "md5_pad bs = bs @ [0x80] @ replicate ((119 - length bs mod 64) mod 64) 0
     @ map (\<lambda>k. ucast (drop_bit (8 * k) (8 * of_nat (length bs) :: 64 word))) [0..<8]"

fun le_words :: "byte list \<Rightarrow> 32 word list" where
  "le_words (a # b # c # d # r) = (ucast a OR push_bit 8 (ucast b) OR push_bit 16 (ucast c) OR push_bit 24 (ucast d)) # le_words r"
| "le_words _ = []"

function md5_blocks :: "32 word list \<Rightarrow> 32 word list list" where
  "md5_blocks ws = (if length ws < 16 then [] else take 16 ws # md5_blocks (drop 16 ws))"
  by pat_completeness auto
termination by (relation "measure length") auto

declare md5_blocks.simps [simp del]

definition md5_hex_digit :: "nat \<Rightarrow> char" where
  "md5_hex_digit n = (if n < 10 then char_of (48 + n) else char_of (87 + n))"

definition hex_byte :: "byte \<Rightarrow> string" where
  "hex_byte b = [md5_hex_digit (unat b div 16), md5_hex_digit (unat b mod 16)]"

definition hex_le32 :: "32 word \<Rightarrow> string" where
  "hex_le32 w = concat (map (\<lambda>k. hex_byte (ucast (drop_bit (8 * k) w))) [0, 1, 2, 3])"

definition md5_hexdigest :: "byte list \<Rightarrow> string" where
  "md5_hexdigest bs =
     (case fold md5_block (md5_blocks (le_words (md5_pad bs))) (0x67452301, 0xEFCDAB89, 0x98BADCFE, 0x10325476) of
        (a, b, c, d) \<Rightarrow> concat (map hex_le32 [a, b, c, d]))"

text \<open>A digest has 32 digits, each of them a decimal digit or a letter from a to f: the form in which \<open>md5sum\<close> prints it.\<close>

definition lower_hex :: "char \<Rightarrow> bool" where
  "lower_hex c \<longleftrightarrow> (let n = of_char c :: nat in 48 \<le> n \<and> n \<le> 57 \<or> 97 \<le> n \<and> n \<le> 102)"

lemma lower_hex_digit: "n < 16 \<Longrightarrow> lower_hex (md5_hex_digit n)"
  by (auto simp: lower_hex_def md5_hex_digit_def Let_def)

lemma hex_byte_form: "length (hex_byte b) = 2 \<and> list_all lower_hex (hex_byte b)"
proof -
  have "unat b < 256" using unsigned_less [of b] by simp
  then have "unat b div 16 < 16" by simp
  then show ?thesis by (simp add: hex_byte_def lower_hex_digit)
qed

lemma hex_le32_form: "length (hex_le32 w) = 8 \<and> list_all lower_hex (hex_le32 w)"
  using hex_byte_form by (simp add: hex_le32_def)

lemma md5_hexdigest_form: "length (md5_hexdigest bs) = 32 \<and> list_all lower_hex (md5_hexdigest bs)"
  using hex_le32_form by (auto simp: md5_hexdigest_def list_all_iff split: prod.split)

end
