(* ===== verification/File_Transfer.thy ===== *)
theory File_Transfer
  imports Uart_Theorems Md5
begin

text \<open>
  File transfer over a shell on the UART (\<open>sw_core/file_transfer.py\<close>): the command lines that a transfer types, how it reads the answers, and
  the two procedures \<open>push_file\<close> and \<open>pull_file\<close> with every early return.

  An answer is the dictionary that the code returns. The prompt is a regular expression, given by \<open>xf_re\<close>.
\<close>

section \<open>Command lines\<close>

abbreviation sq :: char where "sq \<equiv> CHR 0x27"
abbreviation dq :: char where "dq \<equiv> CHR 0x22"

text \<open>\<open>shlex.quote\<close>.\<close>

definition shell_safe :: "char \<Rightarrow> bool" where
  "shell_safe c \<longleftrightarrow> char_in 48 57 c \<or> char_in 65 90 c \<or> char_in 97 122 c \<or> c \<in> set ''_@%+=:,./-''"

definition shlex_quote :: "string \<Rightarrow> string" where
  "shlex_quote s =
     (if s = [] then [sq, sq]
      else if list_all shell_safe s then s
      else [sq] @ concat (map (\<lambda>c. if c = sq then [sq, dq, sq, dq, sq] else [c]) s) @ [sq])"

text \<open>A sentinel that only the shell completes: the digits 42 come from the arithmetic of the shell.\<close>

definition runtime_sentinel :: "string \<Rightarrow> string" where
  "runtime_sentinel stem = ''printf '' @ [sq] @ ''%s'' @ [CHR 0x5C] @ ''n'' @ [sq] @ '' '' @ [sq] @ stem @ [sq] @ [CHR 0x24] @ ''((6*7))''"

definition xfer_sentinel :: "string \<Rightarrow> string" where
  "xfer_sentinel name = ''SW_XFER_'' @ name @ ''_42''"

definition sentinel_prefix :: "string \<Rightarrow> string" where
  "sentinel_prefix name = ''SW_XFER_'' @ name @ ''_''"

datatype tool = Base64 | Openssl

definition decoder_command_name :: "tool \<Rightarrow> string" where
  "decoder_command_name t = (case t of Base64 \<Rightarrow> ''base64 -d'' | Openssl \<Rightarrow> ''openssl enc -base64 -d -A'')"

definition encoder_command_name :: "tool \<Rightarrow> string" where
  "encoder_command_name t = (case t of Base64 \<Rightarrow> ''base64'' | Openssl \<Rightarrow> ''openssl enc -base64'')"

definition chunk_command :: "string \<Rightarrow> tool \<Rightarrow> string \<Rightarrow> string \<Rightarrow> string" where
  "chunk_command encoded decoder op path =
     ''printf '' @ [sq] @ ''%s'' @ [sq] @ '' '' @ shlex_quote encoded @ '' | '' @ decoder_command_name decoder @ '' '' @ op @ '' '' @ shlex_quote path
     @ '' && '' @ runtime_sentinel (sentinel_prefix ''CHUNK'')"

definition md5_command :: "string \<Rightarrow> string" where
  "md5_command path = ''md5sum '' @ shlex_quote path @ '' && '' @ runtime_sentinel (sentinel_prefix ''MD5'')"

definition mv_command :: "string \<Rightarrow> string \<Rightarrow> string" where
  "mv_command source_path remote_path =
     ''mv '' @ shlex_quote source_path @ '' '' @ shlex_quote remote_path @ '' && '' @ runtime_sentinel (sentinel_prefix ''MV'')"

definition cleanup_command :: "string \<Rightarrow> string" where
  "cleanup_command path = ''rm -f '' @ shlex_quote path @ '' && '' @ runtime_sentinel (sentinel_prefix ''CLEANUP'')"

definition test_command :: "string \<Rightarrow> string \<Rightarrow> string" where
  "test_command pipeline expected = ''test '' @ [dq, CHR 0x24] @ ''('' @ pipeline @ '' 2>/dev/null)'' @ [dq] @ '' = '' @ [sq] @ expected @ [sq]"

definition printf_s :: "string \<Rightarrow> string" where
  "printf_s payload = ''printf '' @ [sq] @ ''%s'' @ [sq] @ '' '' @ [sq] @ payload @ [sq]"

definition TOOL_PROBE_PAYLOAD :: string where "TOOL_PROBE_PAYLOAD = ''c3ctcHJvYmU=''"

definition decoder_probe_command :: string where
  "decoder_probe_command =
     ''if '' @ test_command (printf_s TOOL_PROBE_PAYLOAD @ '' | base64 -d'') ''sw-probe'' @ ''; then ''
     @ runtime_sentinel (sentinel_prefix ''DECODER_B64'')
     @ ''; elif '' @ test_command (printf_s TOOL_PROBE_PAYLOAD @ '' | openssl enc -base64 -d -A'') ''sw-probe'' @ ''; then ''
     @ runtime_sentinel (sentinel_prefix ''DECODER_OPENSSL'') @ ''; fi''"

definition encoder_probe_command :: string where
  "encoder_probe_command =
     ''if '' @ test_command (printf_s ''sw-probe'' @ '' | base64'') ''c3ctcHJvYmU='' @ ''; then ''
     @ runtime_sentinel (sentinel_prefix ''ENCODER_B64'')
     @ ''; elif '' @ test_command (printf_s ''sw-probe'' @ '' | openssl enc -base64'') ''c3ctcHJvYmU='' @ ''; then ''
     @ runtime_sentinel (sentinel_prefix ''ENCODER_OPENSSL'') @ ''; fi''"

definition SENTINEL_BEGIN :: string where "SENTINEL_BEGIN = ''===SW_XFER_BEGIN===''"
definition SENTINEL_END :: string where "SENTINEL_END = ''===SW_XFER_END===''"

text \<open>The middle of a marker stands between two quoted parts, so that the echo of the command does not contain the marker.\<close>

definition marker_expression :: "string \<Rightarrow> string option" where
  "marker_expression marker =
     (if starts_with ''===SW_XFER_'' marker \<and> ends_with ''==='' marker
      then Some ([sq] @ ''===SW_XFER_'' @ [sq] @ take (length marker - 14) (drop 11 marker) @ [sq] @ ''==='' @ [sq])
      else None)"

definition pull_command :: "string \<Rightarrow> tool \<Rightarrow> string" where
  "pull_command remote_path encoder =
     (let line = ''printf '' @ [sq] @ ''%s'' @ [CHR 0x5C] @ ''n'' @ [sq] @ '' ''
      in line @ the (marker_expression SENTINEL_BEGIN) @ '' && '' @ encoder_command_name encoder @ '' < '' @ shlex_quote remote_path
         @ '' && '' @ line @ the (marker_expression SENTINEL_END) @ '' || '' @ runtime_sentinel (sentinel_prefix ''ENCODER_FAILED''))"

section \<open>Reading the answers\<close>

definition strip_command_echo :: "string \<Rightarrow> string \<Rightarrow> string" where
  "strip_command_echo text command =
     (if command \<noteq> [] \<and> starts_with command text then
        let rest = drop (length command) text in
        if starts_with [CHR 0x0D, CHR 0x0A] rest then drop 2 rest
        else if starts_with [CHR 0x0A] rest then drop 1 rest else rest
      else text)"

text \<open>The end of a line or of the text.\<close>

definition line_end :: "string \<Rightarrow> bool" where
  "line_end s \<longleftrightarrow> s = [] \<or> starts_with [CHR 0x0A] s \<or> starts_with [CHR 0x0D, CHR 0x0A] s"

text \<open>The pattern of \<open>_runtime_sentinel_seen\<close>: the sentinel alone on a line; \<open>bol\<close> says whether a line begins here.\<close>

fun own_line :: "bool \<Rightarrow> string \<Rightarrow> string \<Rightarrow> bool" where
  "own_line bol p [] = (bol \<and> p = [])"
| "own_line bol p (c # s) =
     (bol \<and> starts_with p (c # s) \<and> line_end (drop (length p) (c # s)) \<or> own_line (c = CHR 0x0A) p s)"

definition runtime_sentinel_seen :: "string \<Rightarrow> string \<Rightarrow> string \<Rightarrow> bool" where
  "runtime_sentinel_seen text snt command = own_line True snt (strip_command_echo text command)"

text \<open>The failure may stick to what the encoder has printed: only the end of the line is required.\<close>

fun ends_a_line :: "string \<Rightarrow> string \<Rightarrow> bool" where
  "ends_a_line p [] = (p = [])"
| "ends_a_line p (c # s) = (starts_with p (c # s) \<and> line_end (drop (length p) (c # s)) \<or> ends_a_line p s)"

definition failure_sentinel_seen :: "string \<Rightarrow> string \<Rightarrow> string \<Rightarrow> bool" where
  "failure_sentinel_seen text snt command = ends_a_line snt (strip_command_echo text command)"

definition probe_shell_error :: "string \<Rightarrow> string \<Rightarrow> bool" where
  "probe_shell_error text command =
     (let output = py_casefold (strip_command_echo text command)
      in list_ex (\<lambda>p. py_contains p output) [''syntax error'', ''bad substitution'', ''unterminated'', ''permission denied''])"

text \<open>\<open>str.find\<close> and \<open>str.rfind\<close>.\<close>

fun find_at :: "string \<Rightarrow> string \<Rightarrow> nat option" where
  "find_at p [] = (if p = [] then Some 0 else None)"
| "find_at p (c # s) = (if starts_with p (c # s) then Some 0 else map_option Suc (find_at p s))"

fun rfind_at :: "string \<Rightarrow> string \<Rightarrow> nat option" where
  "rfind_at p [] = (if p = [] then Some 0 else None)"
| "rfind_at p (c # s) = (case rfind_at p s of Some n \<Rightarrow> Some (Suc n) | None \<Rightarrow> if starts_with p (c # s) then Some 0 else None)"

definition extract_between_sentinels :: "string \<Rightarrow> string \<Rightarrow> string option" where
  "extract_between_sentinels text command =
     (let text = strip_command_echo text command
      in case (rfind_at SENTINEL_BEGIN text, rfind_at SENTINEL_END text) of
        (Some b, Some e) \<Rightarrow>
          if e \<le> b then None
          else Some (filter (\<lambda>c. \<not> py_space c)
                 (strip_ansi (take (e - (b + length SENTINEL_BEGIN)) (drop (b + length SENTINEL_BEGIN) text))))
      | _ \<Rightarrow> None)"

definition hex_char :: "char \<Rightarrow> bool" where
  "hex_char c \<longleftrightarrow> char_in 48 57 c \<or> char_in 97 102 c \<or> char_in 65 70 c"

text \<open>The first column of a line of \<open>md5sum\<close>; a backslash in front marks a file name with escapes.\<close>

definition md5_column :: "string \<Rightarrow> string option" where
  "md5_column line =
     (let s = dropWhile py_space line;
          s = (case s of c # r \<Rightarrow> if c = CHR 0x5C then r else s | [] \<Rightarrow> s);
          digest = take 32 s; rest = drop 32 s
      in if length digest = 32 \<and> list_all hex_char digest \<and> (rest = [] \<or> py_space (hd rest))
         then Some (map ascii_lower digest) else None)"

fun first_some :: "('a \<Rightarrow> 'b option) \<Rightarrow> 'a list \<Rightarrow> 'b option" where
  "first_some f [] = None"
| "first_some f (x # xs) = (case f x of Some y \<Rightarrow> Some y | None \<Rightarrow> first_some f xs)"

definition md5_answer :: "string \<Rightarrow> string \<Rightarrow> string option" where
  "md5_answer raw cmd =
     (let output = strip_command_echo raw cmd
      in if \<not> runtime_sentinel_seen raw (xfer_sentinel ''MD5'') cmd then None
         else first_some md5_column (py_splitlines (take (the (find_at (xfer_sentinel ''MD5'') output)) output)))"


section \<open>Line budgets\<close>

type_synonym answer = "(string \<times> json) list"

definition failed :: "string \<Rightarrow> answer \<Rightarrow> answer" where
  "failed code extra = (''ok'', JBool False) # (''error_code'', JStr code) # extra"

definition budget_json :: "int option \<Rightarrow> json" where
  "budget_json budget = (case budget of None \<Rightarrow> JNull | Some n \<Rightarrow> JInt n)"

definition line_limit_error :: "int option \<Rightarrow> answer" where
  "line_limit_error budget = failed ''CONSOLE_LINE_LIMIT_TOO_SMALL'' [(''max_console_line_chars'', budget_json budget)]"

text \<open>The argument may be any value of the protocol.\<close>

definition validate_line_budget :: "json \<Rightarrow> answer + int option" where
  "validate_line_budget budget =
     (case budget of
        JNull \<Rightarrow> Inr None
      | JInt n \<Rightarrow> if n \<le> 0 then Inl (line_limit_error (Some n)) else Inr (Some n)
      | _ \<Rightarrow> Inl (failed ''INVALID_ARGS'' [(''max_console_line_chars'', budget)]))"

definition line_budget_exceeded :: "string list \<Rightarrow> int option \<Rightarrow> bool" where
  "line_budget_exceeded commands budget =
     (case budget of None \<Rightarrow> False | Some n \<Rightarrow> list_ex (\<lambda>command. n < int (utf8_len command)) commands)"

function split_from :: "nat \<Rightarrow> byte list \<Rightarrow> byte list list" where
  "split_from n data = (if data = [] \<or> n = 0 then [] else take n data # split_from n (drop n data))"
  by pat_completeness auto
termination by (relation "measure (length \<circ> snd)") auto

declare split_from.simps [simp del]

definition split_chunks :: "byte list \<Rightarrow> nat \<Rightarrow> byte list list" where
  "split_chunks data chunk_size = (if data = [] then [[]] else split_from chunk_size data)"

section \<open>Asking the device\<close>

record xfer =
  xf_re :: regexes
  xf_prompt :: string
  xf_timeout :: seconds
  xf_source :: string
  xf_prefix :: string
  xf_budget :: "int option"

definition cmd_id_of :: "xfer \<Rightarrow> string \<Rightarrow> string option" where
  "cmd_id_of x part = Some (xf_prefix x @ ''-'' @ part)"

text \<open>Send a command, wait for the prompt behind it, read what came; \<open>None\<close> when the prompt did not come.\<close>

definition answer_since :: "xfer \<Rightarrow> nat \<Rightarrow> string option um" where
  "answer_since x pre =
     and_then (await_regex_from (xf_re x) (xf_prompt x) pre (xf_timeout x)) (\<lambda>ok.
       if \<not> ok then State_Monad.return (Inr None)
       else and_then (uart_text_from pre) (\<lambda>t. State_Monad.return (Inr (Some t))))"

definition ask :: "xfer \<Rightarrow> string \<Rightarrow> string \<Rightarrow> string option um" where
  "ask x command part =
     and_then uart_offset (\<lambda>pre.
     and_then (uart_send_command command (xf_source x) (cmd_id_of x part) None) (\<lambda>_. answer_since x pre))"

definition probe_tool :: "xfer \<Rightarrow> string \<Rightarrow> string \<Rightarrow> string \<Rightarrow> string \<Rightarrow> (string + tool) um" where
  "probe_tool x command b64 openssl missing =
     and_then (ask x command ''probe'') (\<lambda>r. State_Monad.return (Inr
       (case r of
          None \<Rightarrow> Inl ''TRANSFER_TIMEOUT''
        | Some raw \<Rightarrow>
            if runtime_sentinel_seen raw b64 command then Inr Base64
            else if runtime_sentinel_seen raw openssl command then Inr Openssl
            else if probe_shell_error raw command then Inl ''TRANSFER_PROBE_FAILED''
            else Inl missing)))"

definition probe_decoder :: "xfer \<Rightarrow> (string + tool) um" where
  "probe_decoder x = probe_tool x decoder_probe_command (xfer_sentinel ''DECODER_B64'') (xfer_sentinel ''DECODER_OPENSSL'') ''TARGET_DECODER_MISSING''"

definition probe_encoder :: "xfer \<Rightarrow> (string + tool) um" where
  "probe_encoder x = probe_tool x encoder_probe_command (xfer_sentinel ''ENCODER_B64'') (xfer_sentinel ''ENCODER_OPENSSL'') ''TARGET_ENCODER_MISSING''"

definition remote_md5 :: "xfer \<Rightarrow> string \<Rightarrow> string option um" where
  "remote_md5 x path =
     and_then (ask x (md5_command path) ''md5'') (\<lambda>r. State_Monad.return (Inr
       (case r of None \<Rightarrow> None | Some raw \<Rightarrow> md5_answer raw (md5_command path))))"

definition cleanup_remote :: "xfer \<Rightarrow> string \<Rightarrow> unit um" where
  "cleanup_remote x path =
     and_then uart_offset (\<lambda>pre.
     and_then (uart_send_command (cleanup_command path) (xf_source x) (cmd_id_of x ''cleanup'') None) (\<lambda>_.
     and_then (await_regex_from (xf_re x) (xf_prompt x) pre (xf_timeout x)) (\<lambda>_. State_Monad.return (Inr ()))))"

text \<open>A refusal of the clean-up itself is swallowed.\<close>

definition best_effort_after_reject :: "xfer \<Rightarrow> string \<Rightarrow> unit um" where
  "best_effort_after_reject x path =
     do { r \<leftarrow> and_then (cancel_input_line (xf_source x) None) (\<lambda>_. cleanup_remote x path);
          State_Monad.return (case r of Inl (Tx_error _ _) \<Rightarrow> Inr () | other \<Rightarrow> other) }"

section \<open>Pushing a file\<close>

text \<open>An exception that leaves a transfer, with the progress that was attached to it.\<close>

type_synonym 'a xm = "(uart, (uart_exn \<times> (nat \<times> nat) option) + 'a) state"

definition bare :: "'a um \<Rightarrow> 'a xm" where
  "bare m = do { r \<leftarrow> m; State_Monad.return (case r of Inl e \<Rightarrow> Inl (e, None) | Inr v \<Rightarrow> Inr v) }"

record push_args =
  pu_remote_path :: string
  pu_data :: "byte list"
  pu_tmp_name :: string
  pu_chunk_size :: int
  pu_paced :: bool
  pu_slice_size :: nat
  pu_echo_timeout :: seconds

definition chunk_progress :: "nat \<Rightarrow> nat \<Rightarrow> answer" where
  "chunk_progress i chunks_total = [(''chunks_sent'', JInt (int i)), (''chunks_total'', JInt (int chunks_total))]"

definition tool_overheads :: "string \<Rightarrow> string list" where
  "tool_overheads tmp_name = concat (map (\<lambda>d. map (\<lambda>op. chunk_command [] d op tmp_name) [''>'', ''>>'']) [Base64, Openssl])"

text \<open>What is checked before anything is sent: the answer, or how many bytes of the file fit on a line.\<close>

definition push_preflight :: "push_args \<Rightarrow> int option \<Rightarrow> answer + int" where
  "push_preflight a budget =
     (if line_budget_exceeded [md5_command (pu_tmp_name a), mv_command (pu_tmp_name a) (pu_remote_path a), cleanup_command (pu_tmp_name a)] budget
      then Inl (line_limit_error budget)
      else if line_budget_exceeded [decoder_probe_command] budget then Inl (line_limit_error budget)
      else case budget of
        None \<Rightarrow> Inr (pu_chunk_size a)
      | Some n \<Rightarrow>
          let max_overhead = Max (set (map (int \<circ> utf8_len) (tool_overheads (pu_tmp_name a))));
              raw_capacity = max 0 ((n - max_overhead) div 4 * 3)
          in if line_budget_exceeded (tool_overheads (pu_tmp_name a)) budget then Inl (line_limit_error budget)
             else if pu_data a \<noteq> [] \<and> raw_capacity < 1 then Inl (line_limit_error budget)
             else Inr raw_capacity)"

text \<open>The check with the decoder that was found; the size of the chunks.\<close>

definition push_fit :: "push_args \<Rightarrow> int option \<Rightarrow> int \<Rightarrow> tool \<Rightarrow> answer + nat" where
  "push_fit a budget raw_capacity decoder =
     (let effective = min (pu_chunk_size a) raw_capacity;
          probe_chunk = b64encode (replicate (nat (min effective (int (length (pu_data a))))) 0)
      in if pu_data a \<noteq> [] \<and> effective < 1 then Inl (line_limit_error budget)
         else if budget \<noteq> None \<and> line_budget_exceeded (map (\<lambda>op. chunk_command probe_chunk decoder op (pu_tmp_name a)) [''>'', ''>>'']) budget
         then Inl (line_limit_error budget)
         else Inr (nat effective))"

definition chunk_op :: "nat \<Rightarrow> string" where
  "chunk_op i = (if i = 0 then ''>'' else ''>>'')"

text \<open>The statements of the \<open>try\<close>: an answer when the echo stalled.\<close>

definition transmit_chunk :: "xfer \<Rightarrow> push_args \<Rightarrow> string \<Rightarrow> nat \<Rightarrow> nat \<Rightarrow> answer option um" where
  "transmit_chunk x a cmd i chunks_total =
     (if pu_paced a then
        and_then (send_command_echo_paced cmd (xf_source x) (cmd_id_of x (show_nat i)) (pu_slice_size a) (pu_echo_timeout a) None) (\<lambda>pc.
          if pc_ok pc then State_Monad.return (Inr None)
          else and_then (cancel_input_line (xf_source x) None) (\<lambda>_.
               and_then (cleanup_remote x (pu_tmp_name a)) (\<lambda>_.
               State_Monad.return (Inr (Some (failed ''TRANSFER_ECHO_STALL'' (chunk_progress i chunks_total
                 @ [(''acked_chars'', JInt (int (pc_acked pc))), (''sent_chars'', JInt (int (pc_sent pc)))])))))))
      else and_then (uart_send_command cmd (xf_source x) (cmd_id_of x (show_nat i)) None) (\<lambda>_. State_Monad.return (Inr None)))"

text \<open>The \<open>except\<close>: clean up as far as possible, attach the progress, raise again.\<close>

definition guarded_chunk :: "xfer \<Rightarrow> push_args \<Rightarrow> string \<Rightarrow> nat \<Rightarrow> nat \<Rightarrow> answer option xm" where
  "guarded_chunk x a cmd i chunks_total =
     do { r \<leftarrow> transmit_chunk x a cmd i chunks_total;
          case r of
            Inr v \<Rightarrow> State_Monad.return (Inr v)
          | Inl (Tx_error k t) \<Rightarrow>
              and_then (bare (best_effort_after_reject x (pu_tmp_name a))) (\<lambda>_. State_Monad.return (Inl (Tx_error k t, Some (i, chunks_total))))
          | Inl Bad_pattern \<Rightarrow> State_Monad.return (Inl (Bad_pattern, None)) }"

text \<open>Give up: remove the temporary file and answer.\<close>

definition give_up :: "xfer \<Rightarrow> push_args \<Rightarrow> answer \<Rightarrow> answer xm" where
  "give_up x a reply = and_then (bare (cleanup_remote x (pu_tmp_name a))) (\<lambda>_. State_Monad.return (Inr reply))"

definition some_answer :: "answer xm \<Rightarrow> answer option xm" where
  "some_answer m = and_then m (\<lambda>r. State_Monad.return (Inr (Some r)))"

definition push_chunk :: "xfer \<Rightarrow> push_args \<Rightarrow> tool \<Rightarrow> nat \<Rightarrow> nat \<Rightarrow> byte list \<Rightarrow> answer option xm" where
  "push_chunk x a decoder chunks_total i chunk =
     (let cmd = chunk_command (b64encode chunk) decoder (chunk_op i) (pu_tmp_name a)
      in if line_budget_exceeded [cmd] (xf_budget x) then some_answer (give_up x a (line_limit_error (xf_budget x)))
         else and_then (bare uart_offset) (\<lambda>pre.
              and_then (guarded_chunk x a cmd i chunks_total) (\<lambda>stop.
                case stop of
                  Some reply \<Rightarrow> State_Monad.return (Inr (Some reply))
                | None \<Rightarrow>
                    and_then (bare (answer_since x pre)) (\<lambda>r.
                      case r of
                        None \<Rightarrow> some_answer (give_up x a (failed ''TRANSFER_TIMEOUT'' (chunk_progress i chunks_total)))
                      | Some text \<Rightarrow>
                          if runtime_sentinel_seen text (xfer_sentinel ''CHUNK'') cmd then State_Monad.return (Inr None)
                          else some_answer (give_up x a (failed ''TARGET_DECODER_FAILED'' (chunk_progress i chunks_total)))))))"

fun push_chunks :: "xfer \<Rightarrow> push_args \<Rightarrow> tool \<Rightarrow> nat \<Rightarrow> nat \<Rightarrow> byte list list \<Rightarrow> answer option xm" where
  "push_chunks x a decoder chunks_total i [] = State_Monad.return (Inr None)"
| "push_chunks x a decoder chunks_total i (chunk # rest) =
     and_then (push_chunk x a decoder chunks_total i chunk) (\<lambda>stop.
       case stop of
         Some reply \<Rightarrow> State_Monad.return (Inr (Some reply))
       | None \<Rightarrow> push_chunks x a decoder chunks_total (Suc i) rest)"

definition push_ok :: "push_args \<Rightarrow> nat \<Rightarrow> answer" where
  "push_ok a chunks_total =
     [(''ok'', JBool True), (''bytes'', JInt (int (length (pu_data a)))), (''chunks'', JInt (int chunks_total)),
      (''md5'', JStr (md5_hexdigest (pu_data a))), (''remote_path'', JStr (pu_remote_path a))]"

text \<open>The checksum and the move.\<close>

definition push_finish :: "xfer \<Rightarrow> push_args \<Rightarrow> nat \<Rightarrow> answer xm" where
  "push_finish x a chunks_total =
     and_then (bare (remote_md5 x (pu_tmp_name a))) (\<lambda>actual.
       case actual of
         None \<Rightarrow> give_up x a (failed ''CHECKSUM_VERIFY_FAILED'' [])
       | Some digest \<Rightarrow>
           if digest \<noteq> md5_hexdigest (pu_data a)
           then give_up x a (failed ''CHECKSUM_MISMATCH'' [(''expected'', JStr (md5_hexdigest (pu_data a))), (''actual'', JStr digest)])
           else let mv_cmd = mv_command (pu_tmp_name a) (pu_remote_path a)
                in if line_budget_exceeded [mv_cmd] (xf_budget x) then give_up x a (line_limit_error (xf_budget x))
                   else and_then (bare (ask x mv_cmd ''mv'')) (\<lambda>r.
                     State_Monad.return (Inr (case r of
                       None \<Rightarrow> failed ''MOVE_TIMEOUT'' []
                     | Some text \<Rightarrow> if runtime_sentinel_seen text (xfer_sentinel ''MV'') mv_cmd then push_ok a chunks_total else failed ''MOVE_FAILED'' []))))"

definition push_file_tx :: "xfer \<Rightarrow> push_args \<Rightarrow> answer xm" where
  "push_file_tx x a =
     (case push_preflight a (xf_budget x) of
        Inl reply \<Rightarrow> State_Monad.return (Inr reply)
      | Inr raw_capacity \<Rightarrow>
          and_then (bare (probe_decoder x)) (\<lambda>tool.
            case tool of
              Inl code \<Rightarrow> State_Monad.return (Inr (failed code []))
            | Inr decoder \<Rightarrow>
                (case push_fit a (xf_budget x) raw_capacity decoder of
                   Inl reply \<Rightarrow> State_Monad.return (Inr reply)
                 | Inr chunk_len \<Rightarrow>
                     let chunks = split_chunks (pu_data a) chunk_len
                     in and_then (push_chunks x a decoder (length chunks) 0 chunks) (\<lambda>stop.
                          case stop of Some reply \<Rightarrow> State_Monad.return (Inr reply) | None \<Rightarrow> push_finish x a (length chunks)))))"


text \<open>The arguments of \<open>push_file\<close> as they arrive: \<open>rq_file\<close> is the content of the local file if it is one; the two hexadecimal texts are the
  random parts of the names that are made up.\<close>

record push_request =
  rq_local_path :: string
  rq_file :: "byte list option"
  rq_remote_path :: string
  rq_chunk_size :: json
  rq_ack_mode :: string
  rq_slice_size :: nat
  rq_echo_timeout :: seconds
  rq_budget :: json
  rq_tmp_hex :: string
  rq_prefix_hex :: string

definition ACK_MODES :: "string list" where "ACK_MODES = [''auto'', ''echo'', ''none'']"

definition xfer_of :: "regexes \<Rightarrow> string \<Rightarrow> seconds \<Rightarrow> string \<Rightarrow> string \<Rightarrow> int option \<Rightarrow> xfer" where
  "xfer_of re prompt timeout_s source hex budget =
     \<lparr>xf_re = re, xf_prompt = prompt, xf_timeout = timeout_s, xf_source = source, xf_prefix = ''ft-'' @ hex, xf_budget = budget\<rparr>"

text \<open>The checks, up to the point where the transfer begins.\<close>

definition push_admit :: "bool \<Rightarrow> push_request \<Rightarrow> answer + push_args \<times> int option" where
  "push_admit can_pace q =
     (if rq_ack_mode q \<notin> set ACK_MODES then Inl (failed ''INVALID_ARGS'' [(''ack_mode'', JStr (rq_ack_mode q))])
      else case validate_line_budget (rq_budget q) of
        Inl reply \<Rightarrow> Inl reply
      | Inr budget \<Rightarrow>
          (case (case rq_chunk_size q of JInt n \<Rightarrow> if n \<le> 0 then None else Some n | _ \<Rightarrow> None) of
             None \<Rightarrow> Inl (failed ''INVALID_ARGS'' [(''chunk_size'', rq_chunk_size q)])
           | Some chunk_size \<Rightarrow>
               (case rq_file q of
                  None \<Rightarrow> Inl (failed ''LOCAL_FILE_NOT_FOUND'' [(''local_path'', JStr (rq_local_path q))])
                | Some data \<Rightarrow>
                    if rq_ack_mode q = ''echo'' \<and> \<not> can_pace then Inl (failed ''ECHO_ACK_UNSUPPORTED'' [])
                    else Inr (\<lparr>pu_remote_path = rq_remote_path q, pu_data = data, pu_tmp_name = ''/tmp/.sw_upload_'' @ rq_tmp_hex q,
                               pu_chunk_size = chunk_size, pu_paced = (rq_ack_mode q \<noteq> ''none'' \<and> can_pace),
                               pu_slice_size = rq_slice_size q, pu_echo_timeout = rq_echo_timeout q\<rparr>, budget))))"

definition push_file :: "regexes \<Rightarrow> string \<Rightarrow> seconds \<Rightarrow> string \<Rightarrow> bool \<Rightarrow> push_request \<Rightarrow> answer xm" where
  "push_file re prompt timeout_s source can_pace q =
     (case push_admit can_pace q of
        Inl reply \<Rightarrow> State_Monad.return (Inr reply)
      | Inr (a, budget) \<Rightarrow> push_file_tx (xfer_of re prompt timeout_s source (rq_prefix_hex q) budget) a)"

section \<open>Pulling a file\<close>

text \<open>The answer and the local file that is written, if any.\<close>

type_synonym pulled = "answer \<times> (string \<times> byte list) option"

text \<open>\<open>base64.b64decode\<close> of a text refuses what is not ASCII.\<close>

definition decode_text :: "string \<Rightarrow> byte list option" where
  "decode_text s = (if list_all (\<lambda>c. (of_char c :: nat) < 128) s then b64decode s else None)"

definition pull_preflight :: "string \<Rightarrow> int option \<Rightarrow> answer option" where
  "pull_preflight remote_path budget =
     (if line_budget_exceeded [encoder_probe_command, md5_command remote_path] budget then Some (line_limit_error budget)
      else if line_budget_exceeded (map (pull_command remote_path) [Base64, Openssl]) budget then Some (line_limit_error budget)
      else None)"

definition pull_check :: "xfer \<Rightarrow> string \<Rightarrow> string \<Rightarrow> byte list \<Rightarrow> pulled xm" where
  "pull_check x remote_path local_path data =
     and_then (bare (remote_md5 x remote_path)) (\<lambda>remote.
       State_Monad.return (Inr (case remote of
         None \<Rightarrow> (failed ''CHECKSUM_VERIFY_FAILED'' [], None)
       | Some digest \<Rightarrow>
           if digest \<noteq> md5_hexdigest data
           then (failed ''CHECKSUM_MISMATCH'' [(''expected'', JStr digest), (''actual'', JStr (md5_hexdigest data))], None)
           else ([(''ok'', JBool True), (''bytes'', JInt (int (length data))), (''md5'', JStr (md5_hexdigest data)),
                  (''local_path'', JStr local_path)], Some (local_path, data)))))"

definition pull_file_tx :: "xfer \<Rightarrow> string \<Rightarrow> string \<Rightarrow> pulled xm" where
  "pull_file_tx x remote_path local_path =
     (case pull_preflight remote_path (xf_budget x) of
        Some reply \<Rightarrow> State_Monad.return (Inr (reply, None))
      | None \<Rightarrow>
          and_then (bare (probe_encoder x)) (\<lambda>tool.
            case tool of
              Inl code \<Rightarrow> State_Monad.return (Inr (failed code [], None))
            | Inr encoder \<Rightarrow>
                let cmd = pull_command remote_path encoder
                in if line_budget_exceeded [cmd] (xf_budget x) then State_Monad.return (Inr (line_limit_error (xf_budget x), None))
                   else and_then (bare (ask x cmd ''b64'')) (\<lambda>r.
                     case r of
                       None \<Rightarrow> State_Monad.return (Inr (failed ''TRANSFER_TIMEOUT'' [], None))
                     | Some raw \<Rightarrow>
                         (case extract_between_sentinels raw cmd of
                            None \<Rightarrow> State_Monad.return (Inr
                              (failed (if failure_sentinel_seen raw (xfer_sentinel ''ENCODER_FAILED'') cmd then ''TARGET_ENCODER_FAILED''
                                       else ''PULL_PARSE_FAILED'') [], None))
                          | Some content \<Rightarrow>
                              (case decode_text content of
                                 None \<Rightarrow> State_Monad.return (Inr (failed ''BASE64_DECODE_FAILED'' [], None))
                               | Some data \<Rightarrow> pull_check x remote_path local_path data)))))"

definition pull_file :: "regexes \<Rightarrow> string \<Rightarrow> seconds \<Rightarrow> string \<Rightarrow> string \<Rightarrow> json \<Rightarrow> string \<Rightarrow> string option \<Rightarrow> pulled xm" where
  "pull_file re prompt timeout_s source prefix_hex budget remote_path local_path =
     (let local_path = (case local_path of None \<Rightarrow> py_rsplit_last (CHR ''/'') remote_path | Some p \<Rightarrow> p)
      in case validate_line_budget budget of
        Inl reply \<Rightarrow> State_Monad.return (Inr (reply, None))
      | Inr b \<Rightarrow> pull_file_tx (xfer_of re prompt timeout_s source prefix_hex b) remote_path local_path)"

end
