(* ===== verification/File_Theorems.thy ===== *)
theory File_Theorems
  imports File_Transfer
begin

text \<open>
  What a file transfer types, in which order, and what it has seen when it answers. The calls of a program are the part of its log that is
  not a single write; \<open>emits\<close> relates the result of a program to its calls, with a rule for every operation of the bridge.
\<close>

section \<open>The calls of a program\<close>

fun is_call :: "uart_event \<Rightarrow> bool" where
  "is_call (U_write _ _ _ _) = False"
| "is_call _ = True"

definition calls :: "uart \<Rightarrow> uart_event list" where
  "calls u = filter is_call (u_log u)"

definition same_calls :: "uart \<Rightarrow> uart \<Rightarrow> bool" where
  "same_calls u u' \<longleftrightarrow> calls u' = calls u"

interpretation same: kept_relation same_calls
  by unfold_locales (simp_all add: same_calls_def)

definition emits :: "(uart_event \<Rightarrow> bool) \<Rightarrow> (uart, 'r) state \<Rightarrow> ('r \<Rightarrow> uart_event list \<Rightarrow> bool) \<Rightarrow> bool" where
  "emits ok m D \<longleftrightarrow> (\<forall>u. \<exists>tr. calls (snd (run_state m u)) = calls u @ tr \<and> list_all ok tr \<and> D (fst (run_state m u)) tr)"

named_theorems emits_rules

lemma emits_return [emits_rules]: "D r [] \<Longrightarrow> emits ok (State_Monad.return r) D"
  by (simp add: emits_def)

lemma emits_bind:
  assumes "emits ok m C" "\<And>x tr. C x tr \<Longrightarrow> emits ok (f x) (\<lambda>y tr'. D y (tr @ tr'))"
  shows "emits ok (State_Monad.bind m f) D"
  unfolding emits_def
proof
  fix u
  obtain x v where m: "run_state m u = (x, v)" by fastforce
  from assms(1) obtain tr where tr: "calls v = calls u @ tr" "list_all ok tr" "C x tr" unfolding emits_def by (metis m fst_conv snd_conv)
  from assms(2) [OF tr(3)] obtain tr' where
    "calls (snd (run_state (f x) v)) = calls v @ tr'" "list_all ok tr'" "D (fst (run_state (f x) v)) (tr @ tr')"
    unfolding emits_def by blast
  then show "\<exists>tr. calls (snd (run_state (m \<bind> f) u)) = calls u @ tr \<and> list_all ok tr \<and> D (fst (run_state (m \<bind> f) u)) tr"
    using tr m by (intro exI [of _ "tr @ tr'"]) simp
qed

lemma emits_mono: "emits ok m D \<Longrightarrow> (\<And>r tr. D r tr \<Longrightarrow> E r tr) \<Longrightarrow> emits ok m E"
  by (meson emits_def)

lemma emits_then [emits_rules]:
  assumes "emits ok m (\<lambda>r tr. case r of Inl e \<Rightarrow> D (Inl e) tr | Inr x \<Rightarrow> emits ok (f x) (\<lambda>y tr'. D y (tr @ tr')))"
  shows "emits ok (and_then m f) D"
  unfolding and_then_def by (rule emits_bind [OF assms]) (auto split: sum.splits intro: emits_return)

lemma emits_bare [emits_rules]:
  assumes "emits ok m (\<lambda>r tr. D (case r of Inl e \<Rightarrow> Inl (e, None) | Inr v \<Rightarrow> Inr v) tr)"
  shows "emits ok (bare m) D"
  unfolding bare_def by (rule emits_bind [OF assms]) (simp add: emits_return)

section \<open>The operations of the bridge\<close>

lemma calls_note [simp]: "calls (note_event e u) = calls u @ (if is_call e then [e] else [])"
  by (simp add: calls_def note_event_def)

lemma calls_others [simp]: "calls (u_others u) = calls u"
  by (simp add: calls_def)

lemma calls_sleep [simp]: "calls (u_sleep d u) = calls u"
  by (simp add: calls_def)

lemma calls_send: "same_calls u (snd (run_state (send_bytes payload source cmd_id logged allow permit) u))"
proof -
  obtain x v where x: "send_bytes_locked payload source cmd_id logged allow permit (u_others u) = (x, v)" by fastforce
  from send_locked_out [OF x] obtain p bs ws where "u_log v = u_log u @ ws" "writes_of p bs ws" by (auto simp: went_out_def)
  moreover from this have "filter is_call ws = []" by (fastforce simp: writes_of_def list_all_iff filter_empty_conv)
  ultimately show ?thesis using x by (simp add: same_calls_def calls_def send_bytes_def)
qed

lemma send_outcome: "outcome_ok payload (fst (run_state (send_bytes payload source cmd_id logged False permit) u))"
  using send_bytes_out [of payload source cmd_id logged permit u _ _ "\<lambda>_. True"] by (metis permits_any prod.collapse)

lemma calls_await_regex: "calls (snd (await_regex_loop hit offset deadline u)) = calls u"
proof (induction hit offset deadline u rule: await_regex_loop.induct)
  case (1 hit offset deadline u)
  then show ?case by (simp add: await_regex_loop.simps [of hit offset deadline u] Let_def)
qed

lemma calls_await_echo: "calls (snd (await_echo_loop expected offset deadline u)) = calls u"
proof (induction expected offset deadline u rule: await_echo_loop.induct)
  case (1 expected offset deadline u)
  then show ?case
    by (cases "echo_match expected (echo_text offset (u_rx (u_others u)))") (simp add: await_echo_loop.simps [of expected offset deadline u] Let_def)
qed

lemma emits_offset [emits_rules]: "(\<And>n. D (Inr n) []) \<Longrightarrow> emits ok uart_offset D"
  by (simp add: emits_def uart_offset_def)

lemma emits_text [emits_rules]: "(\<And>t. ok (U_text t) \<and> D (Inr t) [U_text t]) \<Longrightarrow> emits ok (uart_text_from n) D"
  by (simp add: emits_def uart_text_from_def Let_def)

lemma emits_await [emits_rules]:
  assumes "D (Inl Bad_pattern) []" "\<And>v. ok (U_wait v) \<and> D (Inr v) [U_wait v]"
  shows "emits ok (await_regex_from re p n t) D"
  unfolding emits_def
proof
  fix u
  show "\<exists>tr. calls (snd (run_state (await_regex_from re p n t) u)) = calls u @ tr \<and> list_all ok tr \<and> D (fst (run_state (await_regex_from re p n t) u)) tr"
  proof (cases "re p")
    case None
    then show ?thesis using assms(1) by (simp add: await_regex_from_def)
  next
    case (Some hit)
    obtain v w where w: "await_regex_loop hit n (u_now (u_others u) + t) (u_others u) = (v, w)" by fastforce
    then have "calls w = calls u" using calls_await_regex [of hit n "u_now (u_others u) + t" "u_others u"] by simp
    then show ?thesis using Some w assms(2) by (simp add: await_regex_from_def)
  qed
qed

definition tx_raises :: "(uart_exn + 'a \<Rightarrow> uart_event list \<Rightarrow> bool) \<Rightarrow> uart_event list \<Rightarrow> bool" where
  "tx_raises D tr \<longleftrightarrow> (\<forall>k r. D (Inl (Tx_error k r)) tr)"

lemma emits_send:
  assumes "is_call e" "ok e" "tx_raises D [e]" "D (Inr ()) [e]"
  shows "emits ok (and_then (note_call e) (\<lambda>_. and_then (send_bytes payload source cmd_id True False permit) (\<lambda>_. State_Monad.return (Inr ())))) D"
    (is "emits ok ?prog D")
  unfolding emits_def
proof
  fix u
  obtain x w where x: "run_state (send_bytes payload source cmd_id True False permit) (note_event e u) = (x, w)" by fastforce
  have w: "calls w = calls u @ [e]"
    using calls_send [of "note_event e u" payload source cmd_id True False permit] x assms(1) by (simp add: same_calls_def)
  have "outcome_ok payload x" using send_outcome [of payload source cmd_id True permit "note_event e u"] x by simp
  then have "D (case x of Inl e \<Rightarrow> Inl e | Inr _ \<Rightarrow> Inr ()) [e]"
    using assms(3,4) by (cases "(payload, x)" rule: outcome_ok.cases) (auto simp: tx_raises_def)
  moreover have "run_state ?prog u = (case x of Inl e \<Rightarrow> Inl e | Inr _ \<Rightarrow> Inr (), w)"
    using x by (simp add: and_then_def note_call_def split: sum.split)
  ultimately show "\<exists>tr. calls (snd (run_state ?prog u)) = calls u @ tr \<and> list_all ok tr \<and> D (fst (run_state ?prog u)) tr"
    using w assms(2) by (intro exI [of _ "[e]"]) simp
qed

lemma emits_command [emits_rules]:
  "ok (U_send c) \<Longrightarrow> tx_raises D [U_send c] \<Longrightarrow> D (Inr ()) [U_send c] \<Longrightarrow> emits ok (uart_send_command c source cmd_id permit) D"
  unfolding uart_send_command_def by (rule emits_send) simp_all

lemma emits_cancel [emits_rules]:
  "ok U_cancel \<Longrightarrow> tx_raises D [U_cancel] \<Longrightarrow> D (Inr ()) [U_cancel] \<Longrightarrow> emits ok (cancel_input_line source permit) D"
  unfolding cancel_input_line_def by (rule emits_send) simp_all

lemma same_await_echo: "state_io_rel same_calls (await_echo_progress e n t)"
  using calls_await_echo by (simp add: state_io_rel_def same_calls_def await_echo_progress_def split_def)

lemma same_piece: "state_io_rel same_calls (paced_piece a data)"
proof -
  have "state_io_rel same_calls (State_Monad.update (append_unknown_tx_meta r s c))" for r s c
    by (simp add: state_io_rel_def same_calls_def calls_def append_unknown_tx_meta_def)
  moreover have "state_io_rel same_calls (send_bytes data (pa_source a) (pa_cmd_id a) False False (pa_permit a))"
    using calls_send by (simp add: state_io_rel_def)
  ultimately show ?thesis unfolding paced_piece_def by (auto intro!: same.kept_bind same.kept_return split: sum.split uart_exn.split)
qed

lemma same_paced_loop: "state_io_rel same_calls (paced_loop a earlier slices acc acked sent)"
proof (induction slices arbitrary: earlier acc acked sent)
  case Nil
  then show ?case by (auto intro!: same.kept_bind same.kept_return same_piece)
next
  case (Cons piece rest)
  then show ?case by (auto simp: Let_def intro!: same.kept_bind same.kept_return same_piece same_await_echo split: sum.split)
qed

lemma emits_paced [emits_rules]:
  assumes "ok (U_paced c)" "\<And>r. (r = Inl Bad_pattern \<Longrightarrow> False) \<Longrightarrow> D r [U_paced c]"
  shows "emits ok (send_command_echo_paced c source cmd_id k t permit) D"
  unfolding emits_def
proof
  fix u
  let ?v = "u_others (note_event (U_paced c) u)"
  let ?a = "\<lparr>pa_source = source, pa_cmd_id = cmd_id, pa_permit = permit, pa_offset = rx_snapshot_len (u_rx ?v), pa_timeout = t\<rparr>"
  let ?l = "paced_loop ?a [] (slices_of (max 1 k) (rstrip_crlf c)) [] 0 0"
  obtain r acc w where l: "run_state ?l ?v = ((r, acc), w)" by (metis surj_pair)
  have "calls w = calls ?v" using same_paced_loop [of ?a "[]" "slices_of (max 1 k) (rstrip_crlf c)" "[]" 0 0] l
    by (simp only: state_io_rel_def same_calls_def snd_conv) (metis snd_conv)
  then have w: "calls w = calls u @ [U_paced c]" by simp
  obtain bs where "paced_shape bs (rstrip_crlf c) 0 (fst (run_state (send_command_echo_paced c source cmd_id k t permit) u))"
    using paced_out [of c source cmd_id k t permit u _ _ "\<lambda>_. True"] by (metis permits_any prod.collapse)
  then have r: "fst (run_state (send_command_echo_paced c source cmd_id k t permit) u) \<noteq> Inl Bad_pattern" by (auto simp: paced_shape_def)
  have "run_state (send_command_echo_paced c source cmd_id k t permit) u = (r, if acc \<noteq> [] then append_tx_record acc source cmd_id w else w)"
    using l by (simp add: send_command_echo_paced_def and_then_def note_call_def uart_offset_def)
  then show "\<exists>tr. calls (snd (run_state (send_command_echo_paced c source cmd_id k t permit) u)) = calls u @ tr \<and> list_all ok tr
      \<and> D (fst (run_state (send_command_echo_paced c source cmd_id k t permit) u)) tr"
    using w r assms by (intro exI [of _ "[U_paced c]"]) (auto simp: calls_def append_tx_record_def)
qed


section \<open>Answers and traces\<close>

definition answer_ok :: "answer \<Rightarrow> bool" where
  "answer_ok r \<longleftrightarrow> dict_get r ''ok'' = Some (JBool True)"

definition answer_code :: "answer \<Rightarrow> string option" where
  "answer_code r = (case dict_get r ''error_code'' of Some (JStr c) \<Rightarrow> Some c | _ \<Rightarrow> None)"

lemma failed_answer [simp]: "\<not> answer_ok (failed code extra)" "answer_code (failed code extra) = Some code"
  by (simp_all add: answer_ok_def answer_code_def failed_def)

lemma limit_answer [simp]: "\<not> answer_ok (line_limit_error b)" "answer_code (line_limit_error b) = Some ''CONSOLE_LINE_LIMIT_TOO_SMALL''"
  by (simp_all add: line_limit_error_def)

text \<open>A command within the budget, and not the one that is banned.\<close>

definition may_type :: "int option \<Rightarrow> string option \<Rightarrow> string \<Rightarrow> bool" where
  "may_type budget ban c \<longleftrightarrow> \<not> line_budget_exceeded [c] budget \<and> ban \<noteq> Some c"

fun fits :: "int option \<Rightarrow> string option \<Rightarrow> uart_event \<Rightarrow> bool" where
  "fits budget ban (U_send c) = may_type budget ban c"
| "fits budget ban (U_paced c) = may_type budget ban c"
| "fits budget ban _ = True"

text \<open>A command was sent, the prompt came, and this was read.\<close>

definition asked :: "string \<Rightarrow> string \<Rightarrow> uart_event list" where
  "asked c t = [U_send c, U_wait True, U_text t]"

definition chunk_sent :: "bool \<Rightarrow> string \<Rightarrow> uart_event" where
  "chunk_sent is_paced c = (if is_paced then U_paced c else U_send c)"

text \<open>Every chunk was sent, in order, and the shell has confirmed each of them before the next.\<close>

fun chunks_confirmed :: "bool \<Rightarrow> tool \<Rightarrow> string \<Rightarrow> nat \<Rightarrow> byte list list \<Rightarrow> uart_event list \<Rightarrow> bool" where
  "chunks_confirmed is_paced d tmp i [] tr = (tr = [])"
| "chunks_confirmed is_paced d tmp i (c # cs) tr =
     (let cmd = chunk_command (b64encode c) d (chunk_op i) tmp
      in \<exists>t tr'. tr = [chunk_sent is_paced cmd, U_wait True, U_text t] @ tr' \<and> runtime_sentinel_seen t (xfer_sentinel ''CHUNK'') cmd
           \<and> chunks_confirmed is_paced d tmp (Suc i) cs tr')"

text \<open>The last thing that was done is to remove the temporary file.\<close>

definition ends_clean :: "string \<Rightarrow> uart_event list \<Rightarrow> bool" where
  "ends_clean tmp tr \<longleftrightarrow> (\<exists>tr' v. tr = tr' @ [U_send (cleanup_command tmp), U_wait v])"

lemma ends_clean_append: "ends_clean tmp tr \<Longrightarrow> ends_clean tmp (tr' @ tr)"
  by (auto simp: ends_clean_def)

lemma emits_answer:
  assumes "\<And>v. ok (U_wait v)" "\<And>t. ok (U_text t)" "D (Inl Bad_pattern) []" "D (Inr None) [U_wait False]"
    and "\<And>t. D (Inr (Some t)) [U_wait True, U_text t]"
  shows "emits ok (answer_since x pre) D"
  unfolding answer_since_def using assms by (auto intro!: emits_rules split: sum.split)

lemma emits_ask:
  assumes "ok (U_send c)" "\<And>v. ok (U_wait v)" "\<And>t. ok (U_text t)" "\<And>e. D (Inl e) [U_send c]" "D (Inr None) [U_send c, U_wait False]"
    and "\<And>t. D (Inr (Some t)) (asked c t)"
  shows "emits ok (ask x c part) D"
  unfolding ask_def using assms by (auto intro!: emits_rules emits_answer simp: tx_raises_def asked_def)

lemma emits_cleanup:
  assumes "ok (U_send (cleanup_command tmp))" "\<And>v. ok (U_wait v)" "\<And>e. D (Inl e) [U_send (cleanup_command tmp)]"
    and "\<And>v. D (Inr ()) [U_send (cleanup_command tmp), U_wait v]"
  shows "emits ok (cleanup_remote x tmp) D"
  unfolding cleanup_remote_def using assms by (auto intro!: emits_rules simp: tx_raises_def split: sum.split)

lemma fits_plain [simp]: "fits b z (U_wait v)" "fits b z (U_text t)" "fits b z U_cancel"
  by simp_all

text \<open>An answer after which the temporary file is gone.\<close>

definition cleaned :: "string \<Rightarrow> ('e + answer) \<Rightarrow> uart_event list \<Rightarrow> bool" where
  "cleaned tmp r tr \<longleftrightarrow>
     (case r of Inl _ \<Rightarrow> True
      | Inr reply \<Rightarrow> \<not> answer_ok reply \<and> answer_code reply \<notin> {Some ''CONSOLE_LINE_LIMIT_TOO_SMALL'', Some ''MOVE_TIMEOUT'', Some ''MOVE_FAILED''}
          \<and> ends_clean tmp tr)"

lemma emits_give_up:
  assumes "fits b z (U_send (cleanup_command (pu_tmp_name a)))"
    and "code \<notin> {''CONSOLE_LINE_LIMIT_TOO_SMALL'', ''MOVE_TIMEOUT'', ''MOVE_FAILED''}"
  shows "emits (fits b z) (give_up x a (failed code extra)) (cleaned (pu_tmp_name a))"
  unfolding give_up_def using assms by (auto intro!: emits_rules emits_cleanup simp: cleaned_def ends_clean_def)


section \<open>The chunks\<close>

definition chunk_spec :: "string \<Rightarrow> uart_event list \<Rightarrow> ('e + answer option) \<Rightarrow> uart_event list \<Rightarrow> bool" where
  "chunk_spec tmp goal r tr \<longleftrightarrow> (case r of Inl _ \<Rightarrow> True | Inr None \<Rightarrow> tr = goal | Inr (Some reply) \<Rightarrow> cleaned tmp (Inr reply :: unit + answer) tr)"

lemma emits_transmit:
  assumes "fits b z (U_send (cleanup_command (pu_tmp_name a)))" "fits b z (U_send cmd)"
  shows "emits (fits b z) (transmit_chunk x a cmd i n) (chunk_spec (pu_tmp_name a) [chunk_sent (pu_paced a) cmd])"
  unfolding transmit_chunk_def using assms
  by (auto intro!: emits_rules emits_cleanup simp: tx_raises_def chunk_spec_def chunk_sent_def cleaned_def ends_clean_def split: sum.split)

lemma emits_best_effort:
  assumes "fits b z (U_send (cleanup_command tmp))"
  shows "emits (fits b z) (best_effort_after_reject x tmp) (\<lambda>_ _. True)"
  unfolding best_effort_after_reject_def
  by (rule emits_bind [where C = "\<lambda>_ _. True"]) (use assms in \<open>auto intro!: emits_rules emits_cleanup simp: tx_raises_def split: sum.split\<close>)

lemma emits_guarded:
  assumes "fits b z (U_send (cleanup_command (pu_tmp_name a)))" "fits b z (U_send cmd)"
  shows "emits (fits b z) (guarded_chunk x a cmd i n) (chunk_spec (pu_tmp_name a) [chunk_sent (pu_paced a) cmd])"
  unfolding guarded_chunk_def
proof (rule emits_bind [OF emits_transmit [OF assms]])
  fix r tr assume c: "chunk_spec (pu_tmp_name a) [chunk_sent (pu_paced a) cmd] (r :: uart_exn + answer option) tr"
  show "emits (fits b z) (case r of Inl (Tx_error k t) \<Rightarrow>
           and_then (bare (best_effort_after_reject x (pu_tmp_name a))) (\<lambda>_. State_Monad.return (Inl (Tx_error k t, Some (i, n))))
         | Inl Bad_pattern \<Rightarrow> State_Monad.return (Inl (Bad_pattern, None)) | Inr v \<Rightarrow> State_Monad.return (Inr v))
        (\<lambda>y tr'. chunk_spec (pu_tmp_name a) [chunk_sent (pu_paced a) cmd] y (tr @ tr'))"
  proof (cases r)
    case (Inl e)
    have "emits (fits b z) (and_then (bare (best_effort_after_reject x (pu_tmp_name a))) (\<lambda>_. State_Monad.return (Inl (w, Some (i, n)))))
        (\<lambda>y tr'. chunk_spec (pu_tmp_name a) [chunk_sent (pu_paced a) cmd] y (tr @ tr'))" for w
      by (intro emits_rules) (rule emits_mono [OF emits_best_effort [OF assms(1)]], auto simp: chunk_spec_def split: sum.split intro: emits_return)
    then show ?thesis using Inl by (cases e) (auto simp: chunk_spec_def intro: emits_return)
  next
    case (Inr v)
    then show ?thesis using c by (auto simp: chunk_spec_def intro!: emits_return split: option.splits)
  qed
qed

lemma emits_some: "emits ok m (cleaned tmp) \<Longrightarrow> emits ok (some_answer m) (\<lambda>r tr. case r of Inl _ \<Rightarrow> True | Inr None \<Rightarrow> False | Inr (Some y) \<Rightarrow> cleaned tmp (Inr y :: unit + answer) tr)"
  unfolding some_answer_def by (rule emits_then, erule emits_mono) (auto simp: cleaned_def split: sum.splits intro: emits_return)

definition chunk_done :: "bool \<Rightarrow> string \<Rightarrow> uart_event list \<Rightarrow> bool" where
  "chunk_done is_paced cmd tr \<longleftrightarrow> (\<exists>t. tr = [chunk_sent is_paced cmd, U_wait True, U_text t] \<and> runtime_sentinel_seen t (xfer_sentinel ''CHUNK'') cmd)"

definition stop_spec :: "string \<Rightarrow> (uart_event list \<Rightarrow> bool) \<Rightarrow> ('e + answer option) \<Rightarrow> uart_event list \<Rightarrow> bool" where
  "stop_spec tmp good r tr \<longleftrightarrow> (case r of Inl _ \<Rightarrow> True | Inr None \<Rightarrow> good tr | Inr (Some reply) \<Rightarrow> cleaned tmp (Inr reply :: unit + answer) tr)"

lemma stop_spec_simps [simp]:
  "stop_spec tmp good (Inl e) tr" "stop_spec tmp good (Inr None) tr = good tr"
  "stop_spec tmp good (Inr (Some reply)) tr = cleaned tmp (Inr reply :: unit + answer) tr"
  by (simp_all add: stop_spec_def)

lemma cleaned_append: "cleaned tmp r tr \<Longrightarrow> cleaned tmp r (tr' @ tr)"
  by (auto simp: cleaned_def ends_clean_append split: sum.splits)

lemma emits_give_up_chunk:
  assumes "fits b z (U_send (cleanup_command (pu_tmp_name a)))"
    and "code \<notin> {''CONSOLE_LINE_LIMIT_TOO_SMALL'', ''MOVE_TIMEOUT'', ''MOVE_FAILED''}"
  shows "emits (fits b z) (some_answer (give_up x a (failed code extra))) (\<lambda>r tr'. stop_spec (pu_tmp_name a) good r (tr @ tr'))"
  by (rule emits_mono [OF emits_some [OF emits_give_up [OF assms]]]) (auto simp: stop_spec_def cleaned_append split: sum.splits option.splits)

lemma emits_push_chunk:
  assumes "fits (xf_budget x) z (U_send (cleanup_command (pu_tmp_name a)))"
    and "may_type (xf_budget x) z (chunk_command (b64encode chunk) d (chunk_op i) (pu_tmp_name a))"
  shows "emits (fits (xf_budget x) z) (push_chunk x a d n i chunk)
    (stop_spec (pu_tmp_name a) (chunk_done (pu_paced a) (chunk_command (b64encode chunk) d (chunk_op i) (pu_tmp_name a))))"
proof -
  let ?cmd = "chunk_command (b64encode chunk) d (chunk_op i) (pu_tmp_name a)"
  let ?D = "stop_spec (pu_tmp_name a) (chunk_done (pu_paced a) ?cmd)"
  let ?ev = "chunk_sent (pu_paced a) ?cmd"
  let ?k = "\<lambda>r. case r of None \<Rightarrow> some_answer (give_up x a (failed ''TRANSFER_TIMEOUT'' (chunk_progress i n)))
         | Some text \<Rightarrow> if runtime_sentinel_seen text (xfer_sentinel ''CHUNK'') ?cmd then State_Monad.return (Inr None)
            else some_answer (give_up x a (failed ''TARGET_DECODER_FAILED'' (chunk_progress i n)))"
  have k: "emits (fits (xf_budget x) z) (?k r) (\<lambda>y tr'. ?D y (tr @ tr'))"
    if "r = None \<or> (\<exists>t. r = Some t \<and> tr = [?ev, U_wait True, U_text t])" for r tr
  proof (cases "\<exists>t. r = Some t \<and> runtime_sentinel_seen t (xfer_sentinel ''CHUNK'') ?cmd")
    case True
    then show ?thesis using that by (auto intro!: emits_return simp: chunk_done_def)
  next
    case False
    then show ?thesis using emits_give_up_chunk [OF assms(1), where tr = tr] by (auto split: option.split)
  qed
  have ans: "emits (fits (xf_budget x) z) (and_then (bare (answer_since x pre)) ?k) (\<lambda>y tr'. ?D y ([?ev] @ tr'))" for pre
    using k [of None "[?ev, U_wait False]"] k [of "Some _" "[?ev, U_wait True, U_text _]"] by (intro emits_rules emits_answer) simp_all
  have "emits (fits (xf_budget x) z) (and_then (guarded_chunk x a ?cmd i n) (\<lambda>stop. case stop of Some reply \<Rightarrow> State_Monad.return (Inr (Some reply))
      | None \<Rightarrow> and_then (bare (answer_since x pre)) ?k)) ?D" for pre
    by (rule emits_then, rule emits_mono [OF emits_guarded])
      (use assms ans in \<open>auto simp: chunk_spec_def split: sum.splits option.splits intro!: emits_return\<close>)
  then show ?thesis unfolding push_chunk_def Let_def using assms(2) by (auto intro!: emits_rules simp: may_type_def)
qed


definition chunk_fits :: "int option \<Rightarrow> string option \<Rightarrow> tool \<Rightarrow> string \<Rightarrow> byte list \<Rightarrow> bool" where
  "chunk_fits b z d tmp chunk \<longleftrightarrow> (\<forall>i. may_type b z (chunk_command (b64encode chunk) d (chunk_op i) tmp))"

lemma emits_push_chunks:
  assumes "fits (xf_budget x) z (U_send (cleanup_command (pu_tmp_name a)))" "list_all (chunk_fits (xf_budget x) z d (pu_tmp_name a)) chunks"
  shows "emits (fits (xf_budget x) z) (push_chunks x a d n i chunks)
    (stop_spec (pu_tmp_name a) (chunks_confirmed (pu_paced a) d (pu_tmp_name a) i chunks))"
  using assms(2)
proof (induction chunks arbitrary: i)
  case Nil
  then show ?case by (simp add: emits_return)
next
  case (Cons c cs)
  let ?cmd = "chunk_command (b64encode c) d (chunk_op i) (pu_tmp_name a)"
  let ?D = "stop_spec (pu_tmp_name a) (chunks_confirmed (pu_paced a) d (pu_tmp_name a) i (c # cs))"
  have one: "emits (fits (xf_budget x) z) (push_chunk x a d n i c) (stop_spec (pu_tmp_name a) (chunk_done (pu_paced a) ?cmd))"
    using Cons.prems by (intro emits_push_chunk [OF assms(1)]) (simp add: chunk_fits_def)
  have rest: "emits (fits (xf_budget x) z) (push_chunks x a d n (Suc i) cs) (\<lambda>y tr'. ?D y (tr @ tr'))" if "chunk_done (pu_paced a) ?cmd tr" for tr
  proof (rule emits_mono [OF Cons.IH])
    fix r tr' assume "stop_spec (pu_tmp_name a) (chunks_confirmed (pu_paced a) d (pu_tmp_name a) (Suc i) cs)
        (r :: uart_exn \<times> (nat \<times> nat) option + answer option) tr'"
    then show "?D r (tr @ tr')"
      using that cleaned_append [where tr' = tr and tr = tr']
      by (auto simp: stop_spec_def chunk_done_def Let_def split: sum.splits option.splits)
  qed (use Cons.prems in simp)
  show ?case unfolding push_chunks.simps
  proof (rule emits_then, rule emits_mono [OF one])
    fix r tr assume r: "stop_spec (pu_tmp_name a) (chunk_done (pu_paced a) ?cmd) (r :: uart_exn \<times> (nat \<times> nat) option + answer option) tr"
    show "case r of Inl e \<Rightarrow> ?D (Inl e) tr
      | Inr stop \<Rightarrow> emits (fits (xf_budget x) z) (case stop of Some reply \<Rightarrow> State_Monad.return (Inr (Some reply)) | None \<Rightarrow> push_chunks x a d n (Suc i) cs)
          (\<lambda>y tr'. ?D y (tr @ tr'))"
    proof (cases r)
      case (Inr stop)
      then show ?thesis using r rest by (cases stop) (auto intro: emits_return)
    qed simp
  qed
qed

section \<open>When a file may be moved\<close>

lemma commands_differ:
  "chunk_command e d op p \<noteq> mv_command q r" "cleanup_command p \<noteq> mv_command q r" "md5_command p \<noteq> mv_command q r"
  "decoder_probe_command \<noteq> mv_command q r" "decoder_probe_command \<noteq> chunk_command e d op p"
  by (simp_all add: chunk_command_def mv_command_def cleanup_command_def md5_command_def decoder_probe_command_def)

declare commands_differ [simp] commands_differ [symmetric, simp]

text \<open>Nothing is moved to the destination before the digest was found right.\<close>

definition moved_checked :: "push_args \<Rightarrow> uart_event list \<Rightarrow> bool" where
  "moved_checked a tr \<longleftrightarrow>
     (\<forall>pre post. tr = pre @ U_send (mv_command (pu_tmp_name a) (pu_remote_path a)) # post \<longrightarrow>
        (\<exists>pre' t. pre = pre' @ asked (md5_command (pu_tmp_name a)) t
           \<and> md5_answer t (md5_command (pu_tmp_name a)) = Some (md5_hexdigest (pu_data a))))"

definition no_move :: "push_args \<Rightarrow> uart_event list \<Rightarrow> bool" where
  "no_move a tr \<longleftrightarrow> U_send (mv_command (pu_tmp_name a) (pu_remote_path a)) \<notin> set tr"

lemma emits_banned:
  assumes "emits (fits b (Some c)) m D"
  shows "emits (fits b None) m (\<lambda>r tr. D r tr \<and> U_send c \<notin> set tr)"
proof -
  have "fits b None e \<and> e \<noteq> U_send c" if "fits b (Some c) e" for e using that by (cases e) (auto simp: may_type_def)
  then have "list_all (fits b None) tr \<and> U_send c \<notin> set tr" if "list_all (fits b (Some c)) tr" for tr
    using that by (auto simp: list_all_iff)
  then show ?thesis using assms unfolding emits_def by blast
qed

lemma no_move_checked: "no_move a tr \<Longrightarrow> moved_checked a tr"
  by (auto simp: no_move_def moved_checked_def)

lemma moved_checked_append: "no_move a tr \<Longrightarrow> moved_checked a tr' \<Longrightarrow> moved_checked a (tr @ tr')"
proof -
  let ?mv = "U_send (mv_command (pu_tmp_name a) (pu_remote_path a))"
  assume n: "no_move a tr" and m: "moved_checked a tr'"
  show ?thesis unfolding moved_checked_def
  proof (intro allI impI)
    fix pre post assume e: "tr @ tr' = pre @ ?mv # post"
    then obtain us where "pre = tr @ us" "tr' = us @ ?mv # post" using n by (auto simp: no_move_def append_eq_append_conv2 append_eq_Cons_conv Cons_eq_append_conv)
    then show "\<exists>pre' t. pre = pre' @ asked (md5_command (pu_tmp_name a)) t
        \<and> md5_answer t (md5_command (pu_tmp_name a)) = Some (md5_hexdigest (pu_data a))"
      using m unfolding moved_checked_def by (metis append.assoc)
  qed
qed

lemma move_after:
  assumes "md5_answer t (md5_command (pu_tmp_name a)) = Some (md5_hexdigest (pu_data a))" "no_move a rest"
  shows "moved_checked a (asked (md5_command (pu_tmp_name a)) t @ U_send (mv_command (pu_tmp_name a) (pu_remote_path a)) # rest)"
proof -
  let ?mv = "U_send (mv_command (pu_tmp_name a) (pu_remote_path a))" and ?pre = "asked (md5_command (pu_tmp_name a)) t"
  have "?mv \<notin> set ?pre" using commands_differ(3) by (simp add: asked_def)
  then have "pre = ?pre" if "?pre @ ?mv # rest = pre @ ?mv # post" for pre post
    using that assms(2) unfolding no_move_def by (metis append_Cons_eq_iff)
  then show ?thesis using assms(1) unfolding moved_checked_def by (metis append_Nil)
qed

section \<open>The end of a push\<close>

definition verified :: "push_args \<Rightarrow> uart_event list \<Rightarrow> bool" where
  "verified a tr \<longleftrightarrow>
     (\<exists>tm tv. tr = asked (md5_command (pu_tmp_name a)) tm @ asked (mv_command (pu_tmp_name a) (pu_remote_path a)) tv
        \<and> md5_answer tm (md5_command (pu_tmp_name a)) = Some (md5_hexdigest (pu_data a))
        \<and> runtime_sentinel_seen tv (xfer_sentinel ''MV'') (mv_command (pu_tmp_name a) (pu_remote_path a)))"

definition finish_spec :: "push_args \<Rightarrow> nat \<Rightarrow> ('e + answer) \<Rightarrow> uart_event list \<Rightarrow> bool" where
  "finish_spec a n r tr \<longleftrightarrow> moved_checked a tr \<and>
     (case r of Inl _ \<Rightarrow> True
      | Inr reply \<Rightarrow> reply = push_ok a n \<and> verified a tr
          \<or> \<not> answer_ok reply \<and> answer_code reply \<in> {Some ''MOVE_TIMEOUT'', Some ''MOVE_FAILED''}
          \<or> cleaned (pu_tmp_name a) (Inr reply :: unit + answer) tr)"

lemma finish_raised [simp]: "finish_spec a n (Inl e) tr = moved_checked a tr"
  by (simp add: finish_spec_def)

lemma finish_give_up:
  assumes "may_type b None (cleanup_command (pu_tmp_name a))" "no_move a tr"
    and "code \<notin> {''CONSOLE_LINE_LIMIT_TOO_SMALL'', ''MOVE_TIMEOUT'', ''MOVE_FAILED''}"
  shows "emits (fits b None) (give_up x a (failed code extra)) (\<lambda>r tr'. finish_spec a n r (tr @ tr'))"
proof -
  have "fits b (Some (mv_command (pu_tmp_name a) (pu_remote_path a))) (U_send (cleanup_command (pu_tmp_name a)))"
    using assms(1) commands_differ(2) by (auto simp: may_type_def)
  from emits_banned [OF emits_give_up [OF this assms(3)]] show ?thesis
    by (rule emits_mono)
      (use assms(2) in \<open>auto simp: finish_spec_def cleaned_def ends_clean_append no_move_def intro!: no_move_checked split: sum.splits\<close>)
qed

lemma emits_remote_md5:
  assumes "ok (U_send (md5_command path))" "\<And>v. ok (U_wait v)" "\<And>t. ok (U_text t)" "\<And>e. D (Inl e) [U_send (md5_command path)]"
    and "D (Inr None) [U_send (md5_command path), U_wait False]"
    and "\<And>t. D (Inr (md5_answer t (md5_command path))) (asked (md5_command path) t)"
  shows "emits ok (remote_md5 x path) D"
  unfolding remote_md5_def using assms by (intro emits_rules emits_ask) (auto intro!: emits_return)

lemma emits_push_finish:
  assumes "\<not> line_budget_exceeded [md5_command (pu_tmp_name a), mv_command (pu_tmp_name a) (pu_remote_path a), cleanup_command (pu_tmp_name a)] (xf_budget x)"
  shows "emits (fits (xf_budget x) None) (push_finish x a n) (finish_spec a n)"
proof -
  let ?b = "xf_budget x" and ?md5 = "md5_command (pu_tmp_name a)" and ?mv = "mv_command (pu_tmp_name a) (pu_remote_path a)"
  have f: "may_type ?b None ?md5" "may_type ?b None ?mv" "may_type ?b None (cleanup_command (pu_tmp_name a))"
    using assms by (auto simp: may_type_def line_budget_exceeded_def split: option.splits)
  let ?k = "\<lambda>actual. case actual of None \<Rightarrow> give_up x a (failed ''CHECKSUM_VERIFY_FAILED'' [])
       | Some digest \<Rightarrow>
           if digest \<noteq> md5_hexdigest (pu_data a)
           then give_up x a (failed ''CHECKSUM_MISMATCH'' [(''expected'', JStr (md5_hexdigest (pu_data a))), (''actual'', JStr digest)])
           else let mv_cmd = ?mv
                in if line_budget_exceeded [mv_cmd] ?b then give_up x a (line_limit_error ?b)
                   else and_then (bare (ask x mv_cmd ''mv'')) (\<lambda>r.
                     State_Monad.return (Inr (case r of
                       None \<Rightarrow> failed ''MOVE_TIMEOUT'' []
                     | Some text \<Rightarrow> if runtime_sentinel_seen text (xfer_sentinel ''MV'') mv_cmd then push_ok a n else failed ''MOVE_FAILED'' [])))"
  have k: "emits (fits ?b None) (?k r) (\<lambda>y tr'. finish_spec a n y (tr @ tr'))"
    if nm: "no_move a tr" and md: "r = Some (md5_hexdigest (pu_data a)) \<Longrightarrow> \<exists>t. tr = asked ?md5 t \<and> md5_answer t ?md5 = r" for r tr
  proof (cases "r = Some (md5_hexdigest (pu_data a))")
    case True
    then obtain t where t: "tr = asked ?md5 t" "md5_answer t ?md5 = r" using md by blast
    have "emits (fits ?b None) (and_then (bare (ask x ?mv ''mv'')) (\<lambda>r. State_Monad.return (Inr (case r of None \<Rightarrow> failed ''MOVE_TIMEOUT'' []
        | Some text \<Rightarrow> if runtime_sentinel_seen text (xfer_sentinel ''MV'') ?mv then push_ok a n else failed ''MOVE_FAILED'' []))))
        (\<lambda>y tr'. finish_spec a n y (tr @ tr'))"
    proof -
      have m: "moved_checked a (tr @ U_send ?mv # rest)" if "no_move a rest" for rest using move_after [OF _ that] t True by simp
      have n: "no_move a []" "no_move a [U_wait v]" "no_move a [U_wait v, U_text w]" for v w by (simp_all add: no_move_def)
      show ?thesis using f(2) t True m [OF n(1)] m [OF n(2)] m [OF n(3)]
        by (intro emits_rules emits_ask) (auto intro!: emits_return simp: finish_spec_def verified_def asked_def)
    qed
    then show ?thesis using True f(2) by (simp add: Let_def may_type_def)
  next
    case False
    then show ?thesis using finish_give_up [OF f(3) nm] by (auto split: option.split)
  qed
  have n: "no_move a [U_send ?md5]" "no_move a [U_send ?md5, U_wait False]" "no_move a (asked ?md5 t)" for t
    using commands_differ(3) by (simp_all add: no_move_def asked_def)
  show ?thesis unfolding push_finish_def
    using f n k [OF n(2), of None] k [OF n(3), of "md5_answer _ ?md5"] by (intro emits_rules emits_remote_md5) (auto intro: no_move_checked)
qed


section \<open>What fits on a line\<close>

lemma b64_char_safe [simp]: "shell_safe (b64_char n)"
  by (auto simp: b64_char_def shell_safe_def char_in_def)

lemma pad_safe [simp]: "shell_safe (CHR ''='')"
  by (simp add: shell_safe_def)

lemma b64_safe: "list_all shell_safe (b64encode bs)"
proof -
  have "list_all shell_safe (b64_nats ns)" for ns
    by (induction ns rule: b64_nats.induct) simp_all
  then show ?thesis by (simp add: b64encode_def)
qed

lemma b64_length: "length (b64encode bs) = 4 * ((length bs + 2) div 3)"
proof -
  have three: "(5 + n) div 3 = Suc (Suc (Suc n) div 3)" for n :: nat by arith
  have "length (b64_nats ns) = 4 * ((length ns + 2) div 3)" for ns
    by (induction ns rule: b64_nats.induct) (simp_all add: three)
  then show ?thesis by (simp add: b64encode_def)
qed

lemma utf8_len_safe: "list_all shell_safe s \<Longrightarrow> utf8_len s = length s"
proof (induction s)
  case (Cons c s)
  then have "(of_char c :: nat) < 128" by (auto simp: shell_safe_def char_in_def)
  then show ?case using Cons by (simp add: utf8_len_def)
qed (simp add: utf8_len_def)

lemma chunk_command_len: "utf8_len (chunk_command (b64encode c) d op tmp) \<le> utf8_len (chunk_command [] d op tmp) + length (b64encode c)"
proof (cases "b64encode c = []")
  case False
  then have "utf8_len (shlex_quote (b64encode c)) = length (b64encode c)" using b64_safe utf8_len_safe by (simp add: shlex_quote_def)
  then show ?thesis by (simp only: chunk_command_def utf8_len_append)
qed simp

lemma overhead_listed: "chunk_command [] d (chunk_op i) tmp \<in> set (tool_overheads tmp)"
  by (cases d) (auto simp: tool_overheads_def chunk_op_def)

lemma chunk_within:
  assumes "push_preflight a (Some n) = Inr cap" "int (length c) \<le> cap"
  shows "int (utf8_len (chunk_command (b64encode c) d (chunk_op i) (pu_tmp_name a))) \<le> n"
proof -
  let ?tmp = "pu_tmp_name a"
  define M where "M = Max (set (map (int \<circ> utf8_len) (tool_overheads ?tmp)))"
  have cap: "cap = max 0 ((n - M) div 4 * 3)" and over: "\<not> line_budget_exceeded (tool_overheads ?tmp) (Some n)"
    using assms(1) by (auto simp: push_preflight_def Let_def M_def split: if_splits)
  let ?o = "int (utf8_len (chunk_command [] d (chunk_op i) ?tmp))"
  have m: "?o \<le> M" unfolding M_def using overhead_listed [of d i ?tmp] by (intro Max_ge) auto
  have o: "?o \<le> n" using over overhead_listed [of d i ?tmp] by (auto simp: line_budget_exceeded_def list_ex_iff not_less)
  have l: "int (utf8_len (chunk_command (b64encode c) d (chunk_op i) ?tmp)) \<le> ?o + 4 * ((int (length c) + 2) div 3)"
  proof -
    have "4 * ((int (length c) + 2) div 3) = int (length (b64encode c))" by (simp add: b64_length zdiv_int)
    then show ?thesis using chunk_command_len [of c d "chunk_op i" ?tmp] by linarith
  qed
  show ?thesis
  proof (cases "c = []")
    case True
    then show ?thesis using o by (simp add: b64encode_def)
  next
    case False
    then have "0 < int (length c)" by simp
    then have "int (length c) \<le> (n - M) div 4 * 3" using assms(2) cap by (auto simp: max_def split: if_splits)
    then have "(int (length c) + 2) div 3 \<le> (n - M) div 4" by linarith
    moreover have "4 * ((n - M) div 4) \<le> n - M" by simp
    ultimately show ?thesis using l m by linarith
  qed
qed

lemma split_from_len: "c \<in> set (split_from n data) \<Longrightarrow> length c \<le> n"
proof (induction n data rule: split_from.induct)
  case (1 n data)
  then show ?case by (cases "data = [] \<or> n = 0") (auto simp: split_from.simps [of n data])
qed

lemma split_from_concat: "0 < n \<Longrightarrow> concat (split_from n data) = data"
proof (induction n data rule: split_from.induct)
  case (1 n data)
  then show ?case by (cases "data = []") (auto simp: split_from.simps [of n data] split_from.simps [of n "[]"])
qed

lemma split_chunks_len: "c \<in> set (split_chunks data n) \<Longrightarrow> length c \<le> n"
  by (auto simp: split_chunks_def split_from_len split: if_splits)

lemma split_chunks_concat: "data = [] \<or> 0 < n \<Longrightarrow> concat (split_chunks data n) = data"
  by (auto simp: split_chunks_def split_from_concat)

text \<open>After the first checks nothing is found too long any more.\<close>

lemma push_fit_ok:
  assumes "push_preflight a b = Inr cap" "0 < pu_chunk_size a"
  shows "\<exists>k. push_fit a b cap d = Inr k \<and> (pu_data a = [] \<or> 0 < k) \<and> int k \<le> max 0 cap"
proof -
  have cap: "pu_data a = [] \<or> 1 \<le> cap" using assms by (auto simp: push_preflight_def Let_def split: option.splits if_splits)
  let ?e = "min (pu_chunk_size a) cap"
  let ?p = "replicate (nat (min ?e (int (length (pu_data a))))) (0 :: byte)"
  have "\<not> line_budget_exceeded (map (\<lambda>op. chunk_command (b64encode ?p) d op (pu_tmp_name a)) [''>'', ''>>'']) b" if "b = Some n" for n
  proof -
    have pos: "0 \<le> cap" using assms that by (auto simp: push_preflight_def Let_def split: if_splits)
    then have "int (length ?p) \<le> cap" by (auto simp: min_def)
    from chunk_within [OF assms(1) [unfolded that] this, of d 0] chunk_within [OF assms(1) [unfolded that] this, of d 1]
    show ?thesis using that by (simp add: line_budget_exceeded_def chunk_op_def)
  qed
  then have "push_fit a b cap d = Inr (nat ?e)" using cap assms(2) by (cases b) (auto simp: push_fit_def Let_def)
  then show ?thesis using cap assms(2) by auto
qed

lemma chunks_fit:
  assumes "push_preflight a b = Inr cap" "int k \<le> max 0 cap" "z \<in> {None, Some (mv_command q r)}"
  shows "list_all (chunk_fits b z d (pu_tmp_name a)) (split_chunks (pu_data a) k)"
proof -
  have "chunk_fits b z d (pu_tmp_name a) c" if "c \<in> set (split_chunks (pu_data a) k)" for c
  proof (cases b)
    case (Some n)
    have "0 \<le> cap" using assms(1) Some by (auto simp: push_preflight_def Let_def split: if_splits)
    then have "int (length c) \<le> cap" using split_chunks_len [OF that] assms(2) by simp
    then show ?thesis using chunk_within [OF assms(1) [unfolded Some]] Some assms(3) commands_differ(1)
      by (auto simp: chunk_fits_def may_type_def line_budget_exceeded_def not_less)
  qed (use assms(3) commands_differ(1) in \<open>auto simp: chunk_fits_def may_type_def line_budget_exceeded_def\<close>)
  then show ?thesis by (simp add: list_all_iff)
qed


section \<open>A whole push\<close>

definition decoder_sentinel :: "tool \<Rightarrow> string" where
  "decoder_sentinel d = (case d of Base64 \<Rightarrow> xfer_sentinel ''DECODER_B64'' | Openssl \<Rightarrow> xfer_sentinel ''DECODER_OPENSSL'')"

text \<open>The calls of a push that succeeds: the decoder was found; every part of the file was sent, in order, and confirmed; the digest that the
  device computed is the one of the file; the move was confirmed.\<close>

definition pushed :: "push_args \<Rightarrow> nat \<Rightarrow> uart_event list \<Rightarrow> bool" where
  "pushed a n tr \<longleftrightarrow>
     (\<exists>d chunks t parts rest. tr = asked decoder_probe_command t @ parts @ rest \<and> runtime_sentinel_seen t (decoder_sentinel d) decoder_probe_command
        \<and> concat chunks = pu_data a \<and> length chunks = n \<and> chunks_confirmed (pu_paced a) d (pu_tmp_name a) 0 chunks parts \<and> verified a rest)"

definition probe_only :: "uart_event list \<Rightarrow> bool" where
  "probe_only tr \<longleftrightarrow> (\<forall>e \<in> set tr. e = U_send decoder_probe_command \<or> (\<exists>v. e = U_wait v) \<or> (\<exists>t. e = U_text t))"

definition push_spec :: "int option \<Rightarrow> push_args \<Rightarrow> ('e + answer) \<Rightarrow> uart_event list \<Rightarrow> bool" where
  "push_spec b a r tr \<longleftrightarrow>
     moved_checked a tr
     \<and> (case r of Inl _ \<Rightarrow> True
        | Inr reply \<Rightarrow>
            (\<exists>n. reply = push_ok a n \<and> pushed a n tr)
            \<or> reply = line_limit_error b \<and> tr = []
            \<or> \<not> answer_ok reply \<and> probe_only tr
                \<and> answer_code reply \<in> {Some ''TRANSFER_TIMEOUT'', Some ''TRANSFER_PROBE_FAILED'', Some ''TARGET_DECODER_MISSING''}
            \<or> \<not> answer_ok reply \<and> answer_code reply \<in> {Some ''MOVE_TIMEOUT'', Some ''MOVE_FAILED''}
            \<or> cleaned (pu_tmp_name a) (Inr reply :: unit + answer) tr)"



lemma emits_probe:
  assumes "ok (U_send c)" "\<And>v. ok (U_wait v)" "\<And>t. ok (U_text t)" "\<And>e. D (Inl e) [U_send c]"
    and "D (Inr (Inl ''TRANSFER_TIMEOUT'')) [U_send c, U_wait False]"
    and "\<And>t. runtime_sentinel_seen t s1 c \<Longrightarrow> D (Inr (Inr Base64)) (asked c t)"
    and "\<And>t. runtime_sentinel_seen t s2 c \<Longrightarrow> D (Inr (Inr Openssl)) (asked c t)"
    and "\<And>t code. code \<in> {''TRANSFER_PROBE_FAILED'', missing} \<Longrightarrow> D (Inr (Inl code)) (asked c t)"
  shows "emits ok (probe_tool x c s1 s2 missing) D"
  unfolding probe_tool_def using assms by (intro emits_rules emits_ask) (auto intro!: emits_return)

lemma push_spec_intros:
  "moved_checked a tr \<Longrightarrow> push_spec b a (Inl e) tr"
  "moved_checked a tr \<Longrightarrow> cleaned (pu_tmp_name a) (Inr reply :: unit + answer) tr \<Longrightarrow> push_spec b a (Inr reply) tr"
  "moved_checked a tr \<Longrightarrow> probe_only tr \<Longrightarrow> code \<in> {''TRANSFER_TIMEOUT'', ''TRANSFER_PROBE_FAILED'', ''TARGET_DECODER_MISSING''}
     \<Longrightarrow> push_spec b a (Inr (failed code extra)) tr"
  by (simp_all add: push_spec_def)

lemma emits_push_tx:
  assumes "0 < pu_chunk_size a"
  shows "emits (fits (xf_budget x) None) (push_file_tx x a) (push_spec (xf_budget x) a)"
proof (cases "push_preflight a (xf_budget x)")
  case (Inl reply)
  then have "reply = line_limit_error (xf_budget x)" by (auto simp: push_preflight_def Let_def split: option.splits if_splits)
  then show ?thesis using Inl by (auto simp: push_file_tx_def push_spec_def moved_checked_def intro!: emits_return)
next
  case (Inr cap)
  let ?b = "xf_budget x" and ?tmp = "pu_tmp_name a" and ?mv = "mv_command (pu_tmp_name a) (pu_remote_path a)"
  let ?fixed = "[md5_command ?tmp, ?mv, cleanup_command ?tmp]"
  have fixed: "\<not> line_budget_exceeded ?fixed ?b" and probe: "\<not> line_budget_exceeded [decoder_probe_command] ?b"
    using Inr by (auto simp: push_preflight_def split: if_splits)
  have clean: "fits ?b (Some ?mv) (U_send (cleanup_command ?tmp))"
    using fixed by (auto simp: may_type_def line_budget_exceeded_def split: option.splits)
  have body: "emits (fits ?b None)
      (case push_fit a ?b cap d of Inl reply \<Rightarrow> State_Monad.return (Inr reply)
       | Inr chunk_len \<Rightarrow> let chunks = split_chunks (pu_data a) chunk_len
           in and_then (push_chunks x a d (length chunks) 0 chunks) (\<lambda>stop.
                case stop of Some reply \<Rightarrow> State_Monad.return (Inr reply) | None \<Rightarrow> push_finish x a (length chunks)))
      (\<lambda>y tr'. push_spec ?b a y (asked decoder_probe_command t @ tr'))"
    if t: "runtime_sentinel_seen t (decoder_sentinel d) decoder_probe_command" for t d
  proof -
    obtain k where k: "push_fit a ?b cap d = Inr k" "pu_data a = [] \<or> 0 < k" "int k \<le> max 0 cap" using push_fit_ok [OF Inr assms] by blast
    let ?cs = "split_chunks (pu_data a) k" and ?p = "asked decoder_probe_command t"
    have p: "no_move a ?p" by (simp add: no_move_def asked_def)
    have chunks: "emits (fits ?b None) (push_chunks x a d (length ?cs) 0 ?cs)
        (\<lambda>r tr. stop_spec ?tmp (chunks_confirmed (pu_paced a) d ?tmp 0 ?cs) r tr \<and> no_move a tr)"
      unfolding no_move_def using chunks_fit [OF Inr k(3)] by (intro emits_banned emits_push_chunks clean) simp
    have finish: "emits (fits ?b None) (push_finish x a (length ?cs)) (\<lambda>y tr'. push_spec ?b a y (?p @ tr @ tr'))"
      if c: "chunks_confirmed (pu_paced a) d ?tmp 0 ?cs tr" "no_move a tr" for tr
    proof (rule emits_mono [OF emits_push_finish [OF fixed]])
      fix r tr' assume f: "finish_spec a (length ?cs) (r :: uart_exn \<times> (nat \<times> nat) option + answer) tr'"
      have "moved_checked a (?p @ tr @ tr')" using f p c(2) by (auto simp: finish_spec_def intro!: moved_checked_append)
      moreover have "pushed a (length ?cs) (?p @ tr @ tr')" if "verified a tr'"
        using that t c(1) split_chunks_concat [OF k(2)] unfolding pushed_def by blast
      ultimately show "push_spec ?b a r (?p @ tr @ tr')"
        using f by (auto simp: push_spec_def finish_spec_def intro: cleaned_append split: sum.splits)
    qed
    have "emits (fits ?b None) (and_then (push_chunks x a d (length ?cs) 0 ?cs) (\<lambda>stop.
                case stop of Some reply \<Rightarrow> State_Monad.return (Inr reply) | None \<Rightarrow> push_finish x a (length ?cs)))
      (\<lambda>y tr'. push_spec ?b a y (?p @ tr'))"
    proof (rule emits_then, rule emits_mono [OF chunks])
      fix r tr assume r: "stop_spec ?tmp (chunks_confirmed (pu_paced a) d ?tmp 0 ?cs) (r :: uart_exn \<times> (nat \<times> nat) option + answer option) tr \<and> no_move a tr"
      have m: "moved_checked a (?p @ tr)" using r p by (auto intro: moved_checked_append no_move_checked)
      show "case r of Inl e \<Rightarrow> push_spec ?b a (Inl e) (?p @ tr)
        | Inr stop \<Rightarrow> emits (fits ?b None) (case stop of Some reply \<Rightarrow> State_Monad.return (Inr reply) | None \<Rightarrow> push_finish x a (length ?cs))
            (\<lambda>y tr'. push_spec ?b a y (?p @ tr @ tr'))"
      proof (cases r)
        case (Inl e)
        then show ?thesis using m by (simp add: push_spec_def)
      next
        case (Inr stop)
        show ?thesis
        proof (cases stop)
          case None
          then show ?thesis using r Inr finish by simp
        next
          case (Some reply)
          then have "cleaned ?tmp (Inr reply :: unit + answer) (?p @ tr)" using r Inr by (simp add: cleaned_append)
          then show ?thesis using Inr Some m by (auto intro!: emits_return push_spec_intros)
        qed
      qed
    qed
    then show ?thesis using k(1) by (simp add: Let_def)
  qed
  have q: "moved_checked a (asked decoder_probe_command t)" "moved_checked a [U_send decoder_probe_command]"
      "moved_checked a [U_send decoder_probe_command, U_wait v]" "probe_only (asked decoder_probe_command t)"
      "probe_only [U_send decoder_probe_command, U_wait v]" for t v
    by (auto intro!: no_move_checked simp: no_move_def asked_def probe_only_def)
  have d: "decoder_sentinel Base64 = xfer_sentinel ''DECODER_B64''" "decoder_sentinel Openssl = xfer_sentinel ''DECODER_OPENSSL''"
    by (simp_all add: decoder_sentinel_def)
  show ?thesis unfolding push_file_tx_def Inr probe_decoder_def
    using probe q body [of _ Base64] body [of _ Openssl]
    by (simp, intro emits_rules emits_probe)
      (auto simp: may_type_def d intro!: emits_return push_spec_intros(1,3))
qed

end
