(* ===== verification/File_Properties.thy ===== *)
theory File_Properties
  imports File_Theorems
begin

text \<open>
  The properties of file transfer. They are about every run; that there are runs that succeed is shown first, on a bridge that nobody disturbs
  and for a device that answers: such a device gets every file.
\<close>

section \<open>A calm bridge\<close>

text \<open>Nothing is refused, everything is written at once; between two steps nothing happens, except that an answer arrives.\<close>

definition calm :: "uart \<Rightarrow> bool" where
  "calm u \<longleftrightarrow>
     u_os u = [] \<and> sh_fence (u_shared u) = new_fence \<and> sh_serial (u_shared u) = Posix_fd \<and> \<not> sh_wal_unhealthy (u_shared u)
     \<and> \<not> sh_tx_cancel (u_shared u) \<and> \<not> sh_stopping (u_shared u) \<and> \<not> sh_admission_blocked (u_shared u)
     \<and> cx_operation (u_context u) = None \<and> cx_raw (u_context u) = None"

abbreviation idle :: "seconds \<times> byte list \<times> shared option" where "idle \<equiv> (0, [], None)"

definition answer_block :: "byte list \<Rightarrow> (seconds \<times> byte list \<times> shared option) list" where
  "answer_block bs = [idle, idle, idle, idle, (0, bs, None), idle, idle, idle]"

definition agent_source :: "string \<Rightarrow> bool" where
  "agent_source s \<longleftrightarrow> \<not> starts_with ''human:'' s \<and> \<not> starts_with ''system:'' s \<and> s \<noteq> ''system''"

lemma idle_step: "u_env u = idle # r \<Longrightarrow> u_others u = u\<lparr>u_env := r\<rparr>"
  by (simp add: u_others_def)

lemma calm_permit:
  assumes "calm u" "agent_source source" "c \<noteq> []"
  shows "active_permit source (Some c) False None u = Some (mk_permit c 0 Tx_agent)"
  using assms by (auto simp: calm_def agent_source_def active_permit_def resolve_tx_permit_def Let_def new_fence_def given_def starts_with_def)

lemma open_fence: "tx_reject_reason now new_fence (mk_permit c 0 Tx_agent) = None"
  by (simp add: tx_reject_reason_def new_fence_def mk_permit_def)

lemma calm_env [simp]: "calm (u\<lparr>u_env := r\<rparr>) = calm u"
  by (simp add: calm_def)

lemma calm_admit:
  assumes "calm u" "agent_source source"
  shows "tx_admit payload source False (Some (mk_permit c 0 Tx_agent)) u = (None, u)"
  using assms open_fence by (auto simp: calm_def agent_source_def tx_admit_def Let_def new_fence_def)

lemma calm_write:
  assumes "calm u" "u_env u = idle # idle # r" "payload \<noteq> []" "p = Some (mk_permit c 0 Tx_agent)"
  shows "\<exists>u'. posix_write_all p payload 0 u = (mk_result Completed (length payload) (length payload) None, u')
    \<and> calm u' \<and> u_env u' = r \<and> u_rx u' = u_rx u \<and> u_now u' = u_now u \<and> u_shared u' = u_shared u"
proof -
  let ?v = "u\<lparr>u_env := r\<rparr>"
  have o: "u_others u = u\<lparr>u_env := idle # r\<rparr>" "u_others (u\<lparr>u_env := idle # r\<rparr>) = ?v" using idle_step [of u] assms(2) by (simp_all add: u_others_def)
  have g: "submit_guard p ?v = None" using assms(1,4) open_fence by (simp add: submit_guard_def submit_reject_reason_def calm_def mk_permit_def)
  let ?w = "?v\<lparr>u_wire := u_wire u @ payload, u_log := u_log u @ [U_write p (u_now u) (u_shared u) payload]\<rparr>"
  have w: "os_write p payload ?v = (Os_wrote (length payload), ?w)" using assms(1) by (simp add: os_write_def calm_def)
  have "posix_write_all p payload (length payload) ?w = (mk_result Completed (length payload) (length payload) None, ?w)"
    by (simp add: posix_write_all.simps)
  then have "posix_write_all p payload 0 u = (mk_result Completed (length payload) (length payload) None, ?w)"
    using o g w assms(1,3) by (simp add: posix_write_all.simps [of p payload 0 u] Let_def cancelled_def calm_def)
  then show ?thesis using assms(1) by (auto simp: calm_def)
qed


lemma calm_command:
  assumes "calm u" "agent_source source" "u_env u = idle # idle # idle # r" "c \<noteq> []"
  shows "\<exists>u'. run_state (uart_send_command cmd source (Some c) None) u = (Inr (), u') \<and> calm u' \<and> u_env u' = r \<and> u_rx u' = u_rx u \<and> u_now u' = u_now u"
proof -
  let ?v = "(note_event (U_send cmd) u)\<lparr>u_env := idle # idle # r\<rparr>" and ?p = "Some (mk_permit c 0 Tx_agent)" and ?bs = "line_bytes cmd"
  have v: "calm ?v" using assms(1) by (simp add: calm_def note_event_def)
  have o: "u_others (note_event (U_send cmd) u) = ?v" by (rule idle_step) (simp add: note_event_def assms(3))
  have "?bs \<noteq> []" by (simp add: line_bytes_def Let_def)
  from calm_write [OF v _ this refl] obtain w where
    w: "posix_write_all ?p ?bs 0 ?v = (mk_result Completed (length ?bs) (length ?bs) None, w)" "calm w" "u_env w = r" "u_rx w = u_rx ?v" "u_now w = u_now ?v"
    by auto
  let ?r = "mk_result Completed (length ?bs) (length ?bs) None"
  have "run_state (uart_send_command cmd source (Some c) None) u = (Inr (), tx_book ?bs source (Some c) True ?p ?r w)"
    using o w(1) calm_permit [OF v assms(2,4)] calm_admit [OF v assms(2)] v
    by (simp add: uart_send_command_def and_then_def note_call_def send_bytes_def send_bytes_locked_def calm_def tx_failure_def)
  moreover have "calm (tx_book ?bs source (Some c) True ?p ?r w) \<and> u_env (tx_book ?bs source (Some c) True ?p ?r w) = r
      \<and> u_rx (tx_book ?bs source (Some c) True ?p ?r w) = u_rx u \<and> u_now (tx_book ?bs source (Some c) True ?p ?r w) = u_now u"
    using w by (auto simp: calm_def tx_book_def Let_def append_tx_record_def append_unknown_tx_meta_def note_event_def split: option.split)
  ultimately show ?thesis by blast
qed

lemma calm_await:
  assumes "calm u" "u_env u = [(0, bs, None), idle, idle] @ r" "pre = rx_snapshot_len (u_rx u)"
    and "xf_re x (xf_prompt x) = Some hit" "hit (utf8_decode bs)" "bs \<noteq> []" "length (utf8_decode bs) \<le> RX_MAX_CHARS" "0 < xf_timeout x"
  shows "run_state (await_regex_from (xf_re x) (xf_prompt x) pre (xf_timeout x)) u
      = (Inr True, u\<lparr>u_env := r, u_rx := append_rx_text (u_now u) bs (u_rx u), u_log := u_log u @ [U_wait True]\<rparr>)"
proof -
  let ?rx = "append_rx_text (u_now u) bs (u_rx u)"
  have t: "rx_text_from pre ?rx = utf8_decode bs" unfolding assms(3) by (rule rx_since_append [OF assms(7)])
  let ?v = "u\<lparr>u_env := [idle, idle] @ r, u_rx := ?rx\<rparr>"
  have o: "u_others u = ?v" using assms(2,6) by (simp add: u_others_def)
  have "await_regex_loop hit pre (u_now u + xf_timeout x) ?v = (True, ?v\<lparr>u_env := r\<rparr>)"
    using t assms(1,5,8) by (subst await_regex_loop.simps) (simp add: Let_def u_others_def calm_def)
  then show ?thesis using o assms(4) by (simp add: await_regex_from_def note_event_def)
qed

lemma calm_answer:
  assumes "calm u" "u_env u = [(0, bs, None), idle, idle, idle] @ r" "pre = rx_snapshot_len (u_rx u)"
    and "xf_re x (xf_prompt x) = Some hit" "hit (utf8_decode bs)" "bs \<noteq> []" "length (utf8_decode bs) \<le> RX_MAX_CHARS" "0 < xf_timeout x"
  shows "\<exists>u'. run_state (answer_since x pre) u = (Inr (Some (utf8_decode bs)), u') \<and> calm u' \<and> u_env u' = r"
proof -
  let ?rx = "append_rx_text (u_now u) bs (u_rx u)"
  have t: "rx_text_from pre ?rx = utf8_decode bs" unfolding assms(3) by (rule rx_since_append [OF assms(7)])
  have "u_env u = [(0, bs, None), idle, idle] @ (idle # r)" using assms(2) by simp
  from calm_await [OF assms(1) this assms(3-8)] t have "run_state (answer_since x pre) u
      = (Inr (Some (utf8_decode bs)), u\<lparr>u_env := r, u_rx := ?rx, u_log := u_log u @ [U_wait True, U_text (utf8_decode bs)]\<rparr>)"
    by (simp add: answer_since_def and_then_def uart_text_from_def note_event_def Let_def idle_step)
  then show ?thesis using assms(1) by (auto simp: calm_def)
qed

lemma calm_ask:
  assumes "calm u" "agent_source (xf_source x)" "u_env u = answer_block bs @ r"
    and "xf_re x (xf_prompt x) = Some hit" "hit (utf8_decode bs)" "bs \<noteq> []" "length (utf8_decode bs) \<le> RX_MAX_CHARS" "0 < xf_timeout x"
  shows "\<exists>u'. run_state (ask x cmd part) u = (Inr (Some (utf8_decode bs)), u') \<and> calm u' \<and> u_env u' = r"
proof -
  let ?v = "u\<lparr>u_env := idle # idle # idle # [(0, bs, None), idle, idle, idle] @ r\<rparr>"
  have o: "u_others u = ?v" by (rule idle_step) (simp add: assms(3) answer_block_def)
  have v: "calm ?v" using assms(1) by simp
  obtain w where w: "run_state (uart_send_command cmd (xf_source x) (cmd_id_of x part) None) ?v = (Inr (), w)" "calm w"
      "u_env w = [(0, bs, None), idle, idle, idle] @ r" "u_rx w = u_rx u"
    using calm_command [OF v assms(2), of "[(0, bs, None), idle, idle, idle] @ r" "xf_prefix x @ ''-'' @ part" cmd] by (auto simp: cmd_id_of_def)
  obtain u' where u': "run_state (answer_since x (rx_snapshot_len (u_rx u))) w = (Inr (Some (utf8_decode bs)), u')" "calm u'" "u_env u' = r"
    using calm_answer [OF w(2,3) _ assms(4-8)] w(4) by auto
  have "run_state (ask x cmd part) u = (Inr (Some (utf8_decode bs)), u')"
    using o w(1) u'(1) by (simp add: ask_def and_then_def uart_offset_def)
  then show ?thesis using u' by blast
qed


section \<open>A device that answers\<close>

definition answers :: "xfer \<Rightarrow> byte list \<Rightarrow> (string \<Rightarrow> bool) \<Rightarrow> bool" where
  "answers x bs good \<longleftrightarrow>
     bs \<noteq> [] \<and> length (utf8_decode bs) \<le> RX_MAX_CHARS \<and> (\<exists>hit. xf_re x (xf_prompt x) = Some hit \<and> hit (utf8_decode bs)) \<and> good (utf8_decode bs)"

lemma calm_asked:
  assumes "calm u" "agent_source (xf_source x)" "0 < xf_timeout x" "answers x bs good" "u_env u = answer_block bs @ r"
  shows "\<exists>u' t. run_state (ask x cmd part) u = (Inr (Some t), u') \<and> good t \<and> calm u' \<and> u_env u' = r"
  using calm_ask [OF assms(1,2,5), of _ cmd part] assms(3,4) unfolding answers_def by blast

text \<open>The answers to the chunks, one for each.\<close>

fun chunk_answers :: "xfer \<Rightarrow> tool \<Rightarrow> string \<Rightarrow> nat \<Rightarrow> byte list list \<Rightarrow> byte list list \<Rightarrow> bool" where
  "chunk_answers x d tmp i [] bss = (bss = [])"
| "chunk_answers x d tmp i (c # cs) [] = False"
| "chunk_answers x d tmp i (c # cs) (bs # bss) =
     (answers x bs (\<lambda>t. runtime_sentinel_seen t (xfer_sentinel ''CHUNK'') (chunk_command (b64encode c) d (chunk_op i) tmp))
      \<and> chunk_answers x d tmp (Suc i) cs bss)"

lemma calm_chunk_text:
  assumes "calm u" "agent_source (xf_source x)" "0 < xf_timeout x" "u_env u = answer_block bs @ r" "\<not> pu_paced a" "answers x bs (\<lambda>_. True)"
    and "cmd = chunk_command (b64encode c) d (chunk_op i) (pu_tmp_name a)" "\<not> line_budget_exceeded [cmd] (xf_budget x)"
  shows "\<exists>u'. calm u' \<and> u_env u' = r \<and> run_state (push_chunk x a d n i c) u =
    run_state (if runtime_sentinel_seen (utf8_decode bs) (xfer_sentinel ''CHUNK'') cmd then State_Monad.return (Inr None)
      else some_answer (give_up x a (failed ''TARGET_DECODER_FAILED'' (chunk_progress i n)))) u'"
proof -
  let ?v = "u\<lparr>u_env := idle # idle # idle # [(0, bs, None), idle, idle, idle] @ r\<rparr>"
  have o: "u_others u = ?v" by (rule idle_step) (simp add: assms(4) answer_block_def)
  have v: "calm ?v" using assms(1) by simp
  obtain w where w: "run_state (uart_send_command cmd (xf_source x) (cmd_id_of x (show_nat i)) None) ?v = (Inr (), w)" "calm w"
      "u_env w = [(0, bs, None), idle, idle, idle] @ r" "u_rx w = u_rx u"
    using calm_command [OF v assms(2), of "[(0, bs, None), idle, idle, idle] @ r" "xf_prefix x @ ''-'' @ show_nat i" cmd] by (auto simp: cmd_id_of_def)
  obtain u' where u': "run_state (answer_since x (rx_snapshot_len (u_rx u))) w = (Inr (Some (utf8_decode bs)), u')" "calm u'" "u_env u' = r"
    using calm_answer [OF w(2,3), of "rx_snapshot_len (u_rx u)" x] w(4) assms(3,6) by (auto simp: answers_def)
  have "run_state (push_chunk x a d n i c) u = run_state (if runtime_sentinel_seen (utf8_decode bs) (xfer_sentinel ''CHUNK'') cmd then State_Monad.return (Inr None)
      else some_answer (give_up x a (failed ''TARGET_DECODER_FAILED'' (chunk_progress i n)))) u'"
    using o w(1) u'(1) assms(5,8) unfolding push_chunk_def Let_def assms(7)
    by (simp add: and_then_def bare_def uart_offset_def guarded_chunk_def transmit_chunk_def)
  then show ?thesis using u' by blast
qed

lemma calm_chunk:
  assumes "calm u" "agent_source (xf_source x)" "0 < xf_timeout x" "u_env u = answer_block bs @ r" "\<not> pu_paced a"
    and "answers x bs (\<lambda>t. runtime_sentinel_seen t (xfer_sentinel ''CHUNK'') (chunk_command (b64encode c) d (chunk_op i) (pu_tmp_name a)))"
    and "\<not> line_budget_exceeded [chunk_command (b64encode c) d (chunk_op i) (pu_tmp_name a)] (xf_budget x)"
  shows "\<exists>u'. run_state (push_chunk x a d n i c) u = (Inr None, u') \<and> calm u' \<and> u_env u' = r"
  using calm_chunk_text [OF assms(1-5) _ refl assms(7), of n] assms(6) by (auto simp: answers_def)

lemma calm_chunks:
  assumes "agent_source (xf_source x)" "0 < xf_timeout x" "\<not> pu_paced a" "list_all (chunk_fits (xf_budget x) None d (pu_tmp_name a)) chunks"
    and "calm u" "u_env u = concat (map answer_block bss) @ r" "chunk_answers x d (pu_tmp_name a) i chunks bss"
  shows "\<exists>u'. run_state (push_chunks x a d n i chunks) u = (Inr None, u') \<and> calm u' \<and> u_env u' = r"
  using assms(4-7)
proof (induction chunks arbitrary: u i bss)
  case Nil
  then show ?case by simp
next
  case (Cons c cs)
  then obtain bs bss' where b: "bss = bs # bss'" by (cases bss) auto
  have e: "u_env u = answer_block bs @ (concat (map answer_block bss') @ r)" using Cons.prems(3) b by simp
  have l: "\<not> line_budget_exceeded [chunk_command (b64encode c) d (chunk_op i) (pu_tmp_name a)] (xf_budget x)"
    using Cons.prems(1) by (auto simp: chunk_fits_def may_type_def)
  from calm_chunk [OF Cons.prems(2) assms(1,2) e assms(3) _ l, of n] Cons.prems(4) b obtain v where
    v: "run_state (push_chunk x a d n i c) u = (Inr None, v)" "calm v" "u_env v = concat (map answer_block bss') @ r" by auto
  from Cons.IH [OF _ v(2,3)] Cons.prems(1,4) b obtain u' where
    "run_state (push_chunks x a d n (Suc i) cs) v = (Inr None, u')" "calm u'" "u_env u' = r" by auto
  then show ?case using v(1) by (simp add: and_then_def)
qed

lemma calm_finish:
  assumes "calm u" "agent_source (xf_source x)" "0 < xf_timeout x" "u_env u = answer_block bm @ answer_block bv @ r"
    and "answers x bm (\<lambda>t. md5_answer t (md5_command (pu_tmp_name a)) = Some (md5_hexdigest (pu_data a)))"
    and "answers x bv (\<lambda>t. runtime_sentinel_seen t (xfer_sentinel ''MV'') (mv_command (pu_tmp_name a) (pu_remote_path a)))"
    and "\<not> line_budget_exceeded [mv_command (pu_tmp_name a) (pu_remote_path a)] (xf_budget x)"
  shows "\<exists>u'. run_state (push_finish x a n) u = (Inr (push_ok a n), u')"
proof -
  let ?mv = "mv_command (pu_tmp_name a) (pu_remote_path a)" and ?md5 = "md5_command (pu_tmp_name a)"
  obtain v t where v: "run_state (ask x ?md5 ''md5'') u = (Inr (Some t), v)" "md5_answer t ?md5 = Some (md5_hexdigest (pu_data a))"
      "calm v" "u_env v = answer_block bv @ r"
    using calm_asked [OF assms(1-3,5,4)] by blast
  obtain w t' where w: "run_state (ask x ?mv ''mv'') v = (Inr (Some t'), w)" "runtime_sentinel_seen t' (xfer_sentinel ''MV'') ?mv"
    using calm_asked [OF v(3) assms(2,3,6) v(4)] by blast
  have "run_state (push_finish x a n) u = (Inr (push_ok a n), w)"
    using v w assms(7) by (simp add: push_finish_def and_then_def bare_def remote_md5_def Let_def)
  then show ?thesis by blast
qed

lemma calm_push:
  assumes "calm u" "agent_source (xf_source x)" "0 < xf_timeout x" "\<not> pu_paced a" "0 < pu_chunk_size a"
    and "push_preflight a (xf_budget x) = Inr cap" "push_fit a (xf_budget x) cap Base64 = Inr k"
    and "answers x bp (\<lambda>t. runtime_sentinel_seen t (xfer_sentinel ''DECODER_B64'') decoder_probe_command)"
    and "chunk_answers x Base64 (pu_tmp_name a) 0 (split_chunks (pu_data a) k) bss"
    and "answers x bm (\<lambda>t. md5_answer t (md5_command (pu_tmp_name a)) = Some (md5_hexdigest (pu_data a)))"
    and "answers x bv (\<lambda>t. runtime_sentinel_seen t (xfer_sentinel ''MV'') (mv_command (pu_tmp_name a) (pu_remote_path a)))"
    and "u_env u = answer_block bp @ concat (map answer_block bss) @ answer_block bm @ answer_block bv"
  shows "fst (run_state (push_file_tx x a) u) = Inr (push_ok a (length (split_chunks (pu_data a) k)))"
proof -
  let ?cs = "split_chunks (pu_data a) k"
  have k: "int k \<le> max 0 cap" using push_fit_ok [OF assms(6,5), of Base64] assms(7) by auto
  have mv: "\<not> line_budget_exceeded [mv_command (pu_tmp_name a) (pu_remote_path a)] (xf_budget x)"
    using assms(6) by (auto simp: push_preflight_def line_budget_exceeded_def split: option.splits if_splits)
  obtain v t where v: "run_state (ask x decoder_probe_command ''probe'') u = (Inr (Some t), v)"
      "runtime_sentinel_seen t (xfer_sentinel ''DECODER_B64'') decoder_probe_command" "calm v"
      "u_env v = concat (map answer_block bss) @ (answer_block bm @ answer_block bv)"
    using calm_asked [OF assms(1-3,8,12)] by blast
  obtain w where w: "run_state (push_chunks x a Base64 (length ?cs) 0 ?cs) v = (Inr None, w)" "calm w" "u_env w = answer_block bm @ answer_block bv @ []"
    using calm_chunks [OF assms(2,3,4) chunks_fit [OF assms(6) k] v(3,4) assms(9)] by auto
  obtain u' where "run_state (push_finish x a (length ?cs)) w = (Inr (push_ok a (length ?cs)), u')"
    using calm_finish [OF w(2) assms(2,3) w(3) assms(10,11) mv] by blast
  then show ?thesis using v(1,2) w(1) assms(6,7)
    by (simp add: push_file_tx_def and_then_def bare_def probe_decoder_def probe_tool_def Let_def)
qed

section \<open>Answers of a shell\<close>

lemma own_line_at: "own_line bol p (a @ p @ b)" if "p \<noteq> []" "line_end b" "a = [] \<and> bol \<or> a \<noteq> [] \<and> last a = CHR 0x0A"
  using that
proof (induction a arbitrary: bol)
  case Nil
  then show ?case by (cases p) (auto simp: starts_with_def)
next
  case (Cons c a)
  then show ?case by (cases a) auto
qed

lemma find_at_first: "p \<noteq> [] \<Longrightarrow> hd p \<notin> set a \<Longrightarrow> find_at p (a @ p @ b) = Some (length a)"
proof (induction a)
  case Nil
  then show ?case by (cases p) (auto simp: starts_with_def)
next
  case (Cons c a)
  then show ?case by (cases p) (auto simp: starts_with_def)
qed

lemma splitlines_one: "list_all (\<lambda>c. \<not> line_break c) s \<Longrightarrow> splitlines_from cur (s @ [CHR 0x0A]) = [rev cur @ s]"
proof (induction s arbitrary: cur)
  case (Cons c s)
  then show ?case by (cases "s @ [CHR 0x0A]") (auto simp: line_break_def)
qed (simp add: line_break_def)

lemma lower_hex_char: "lower_hex c \<Longrightarrow> hex_char c \<and> ascii_lower c = c \<and> \<not> py_space c \<and> \<not> line_break c \<and> c \<noteq> CHR 0x5C \<and> c \<noteq> CHR ''S'' \<and> c \<noteq> CHR ''m''"
  by (auto simp: lower_hex_def hex_char_def char_in_def ascii_lower_def py_space_def line_break_def Let_def)

text \<open>A shell prints the digest, the path, the sentinel and its prompt.\<close>

lemma md5_answer_shell:
  assumes "length d = 32" "list_all lower_hex d" "list_all (\<lambda>c. \<not> line_break c \<and> c \<noteq> CHR ''S'') path"
  shows "md5_answer (d @ CHR 0x20 # path @ CHR 0x0A # xfer_sentinel ''MD5'' @ CHR 0x0A # prompt) (md5_command f) = Some d"
proof -
  let ?l = "d @ CHR 0x20 # path"
  let ?a = "?l @ [CHR 0x0A]" and ?s = "xfer_sentinel ''MD5''"
  let ?t = "?a @ ?s @ CHR 0x0A # prompt"
  obtain c cs where d: "d = c # cs" using assms(1) by (cases d) auto
  have c: "lower_hex c" using assms(2) d by simp
  have h: "\<forall>x \<in> set d. hex_char x \<and> ascii_lower x = x \<and> \<not> line_break x \<and> x \<noteq> CHR ''S''" using assms(2) lower_hex_char by (auto simp: list_all_iff)
  have "\<not> starts_with (md5_command f) ?t" using lower_hex_char [OF c] by (auto simp: d md5_command_def starts_with_def)
  then have strip: "strip_command_echo ?t (md5_command f) = ?t" by (simp only: strip_command_echo_def if_False simp_thms)
  have seen: "runtime_sentinel_seen ?t ?s (md5_command f)"
    unfolding runtime_sentinel_seen_def strip by (rule own_line_at) (simp_all add: xfer_sentinel_def line_end_def starts_with_def)
  have "CHR ''S'' \<notin> set ?a" using h assms(3) by (auto simp: list_all_iff)
  then have f: "find_at ?s ?t = Some (length ?a)" by (intro find_at_first) (simp_all add: xfer_sentinel_def)
  have "list_all (\<lambda>c. \<not> line_break c) ?l" using h assms(3) by (auto simp: list_all_iff line_break_def)
  from splitlines_one [OF this, of "[]"] have lines: "py_splitlines ?a = [?l]" by (simp add: py_splitlines_def)
  have "map ascii_lower d = d" using h by (simp add: map_idI)
  moreover have "py_space (CHR 0x20)" by (simp add: py_space_def)
  moreover have "dropWhile py_space ?l = ?l" "take 32 ?l = d" "drop 32 ?l = CHR 0x20 # path" using lower_hex_char [OF c] assms(1) by (simp_all add: d)
  moreover have "(case ?l of x # r \<Rightarrow> if x = CHR 0x5C then r else ?l | [] \<Rightarrow> ?l) = ?l" using lower_hex_char [OF c] by (simp add: d)
  ultimately have col: "md5_column ?l = Some d"
    unfolding md5_column_def Let_def using h assms(1) by (simp only: list_all_iff) simp
  have tk: "take (length ?a) ?t = ?a" by simp
  have "md5_answer ?t (md5_command f) = Some d"
    unfolding md5_answer_def Let_def strip using seen f lines col tk by simp
  then show ?thesis by simp
qed


section \<open>Pushing\<close>

lemma push_admitted:
  assumes "push_admit can_pace q = Inr (a, b)"
  shows "0 < pu_chunk_size a" "pu_paced a = (rq_ack_mode q \<noteq> ''none'' \<and> can_pace)" "pu_tmp_name a = ''/tmp/.sw_upload_'' @ rq_tmp_hex q"
    "validate_line_budget (rq_budget q) = Inr b" "rq_file q = Some (pu_data a)" "pu_remote_path a = rq_remote_path q"
  using assms by (auto simp: push_admit_def split: if_splits sum.splits json.splits option.splits)

lemma push_rejected: "push_admit can_pace q = Inl reply \<Longrightarrow> \<not> answer_ok reply"
  by (auto simp: push_admit_def validate_line_budget_def split: if_splits sum.splits json.splits option.splits)

lemma push_run:
  assumes "push_admit can_pace q = Inr (a, b)"
  shows "\<exists>tr. calls (snd (run_state (push_file re prompt t source can_pace q) u)) = calls u @ tr \<and> list_all (fits b None) tr
    \<and> push_spec b a (fst (run_state (push_file re prompt t source can_pace q) u)) tr"
  using emits_push_tx [OF push_admitted(1) [OF assms], of "xfer_of re prompt t source (rq_prefix_hex q) b"] assms
  by (simp add: emits_def push_file_def xfer_of_def)

lemma push_none: "push_admit can_pace q = Inl reply \<Longrightarrow> run_state (push_file re prompt t source can_pace q) u = (Inr reply, u)"
  by (simp add: push_file_def)

lemma calm_push_file:
  assumes "calm u" "agent_source source" "0 < t" "rq_ack_mode q = ''none''"
    and "push_admit can_pace q = Inr (a, b)" "push_preflight a b = Inr cap" "push_fit a b cap Base64 = Inr k"
    and "x = xfer_of re prompt t source (rq_prefix_hex q) b"
    and "answers x bp (\<lambda>t. runtime_sentinel_seen t (xfer_sentinel ''DECODER_B64'') decoder_probe_command)"
    and "chunk_answers x Base64 (pu_tmp_name a) 0 (split_chunks (pu_data a) k) bss"
    and "answers x bm (\<lambda>t. md5_answer t (md5_command (pu_tmp_name a)) = Some (md5_hexdigest (pu_data a)))"
    and "answers x bv (\<lambda>t. runtime_sentinel_seen t (xfer_sentinel ''MV'') (mv_command (pu_tmp_name a) (pu_remote_path a)))"
    and "u_env u = answer_block bp @ concat (map answer_block bss) @ answer_block bm @ answer_block bv"
  shows "fst (run_state (push_file re prompt t source can_pace q) u) = Inr (push_ok a (length (split_chunks (pu_data a) k)))"
proof -
  have x: "xf_source x = source" "xf_timeout x = t" "xf_budget x = b" using assms(8) by (simp_all add: xfer_of_def)
  have "\<not> pu_paced a" using push_admitted(2) [OF assms(5)] assms(4) by simp
  from calm_push [OF assms(1) _ _ this push_admitted(1) [OF assms(5)] _ _ assms(9-13)] assms(2,3,6,7) x show ?thesis
    using assms(5,8) by (simp add: push_file_def)
qed


text \<open>C7. A push that answers \<open>ok\<close> is right: the calls it made are, in this order, the probe that found the decoder, the commands that write the
  parts of the file, each confirmed by the shell before the next and together exactly the file, then the checksum, which the device computed over
  what it has written and which is the digest of the file, and then the confirmed move to the destination.\<close>

theorem push_verified:
  assumes "run_state (push_file re prompt t source can_pace q) u = (Inr reply, u')" "answer_ok reply"
  shows "\<exists>a b n tr. push_admit can_pace q = Inr (a, b) \<and> rq_file q = Some (pu_data a) \<and> calls u' = calls u @ tr \<and> pushed a n tr \<and> reply = push_ok a n"
proof (cases "push_admit can_pace q")
  case (Inl r)
  then show ?thesis using push_rejected [OF Inl] push_none [OF Inl, of re prompt t source u] assms by simp
next
  case (Inr ab)
  obtain a b where ab: "push_admit can_pace q = Inr (a, b)" using Inr by (cases ab) auto
  from push_run [OF ab, of re prompt t source u] obtain tr where "calls u' = calls u @ tr" "push_spec b a (Inr reply :: uart_exn \<times> (nat \<times> nat) option + answer) tr"
    using assms(1) by auto
  then show ?thesis using assms(2) push_admitted(5) [OF ab] ab by (auto simp: push_spec_def cleaned_def)
qed

text \<open>C16. Whatever happens to a push, an answer or an exception at any point, the destination is only ever replaced by the verified file: the command
  that moves the temporary file is typed at most right after the answer of the device in which the digest of the temporary file is the one of the
  file to be pushed.\<close>

theorem push_moves_verified:
  assumes "push_admit can_pace q = Inr (a, b)"
  shows "\<exists>tr. calls (snd (run_state (push_file re prompt t source can_pace q) u)) = calls u @ tr \<and> moved_checked a tr"
  using push_run [OF assms, of re prompt t source u] by (auto simp: push_spec_def)

text \<open>C29. The limit of a console line is kept: with a limit of \<open>n\<close> bytes every command line of a push, whole or paced, has at most \<open>n\<close>
  bytes, and the answer that the limit is too small is given before anything was sent, never in the middle of a transfer.\<close>

theorem push_line_budget:
  assumes "rq_budget q = JInt n" "run_state (push_file re prompt t source can_pace q) u = (r, u')"
  shows "\<exists>tr. calls u' = calls u @ tr \<and> list_all (\<lambda>e. case e of U_send c \<Rightarrow> int (utf8_len c) \<le> n | U_paced c \<Rightarrow> int (utf8_len c) \<le> n | _ \<Rightarrow> True) tr
    \<and> (case r of Inr reply \<Rightarrow> if answer_code reply = Some ''CONSOLE_LINE_LIMIT_TOO_SMALL'' then tr = [] else True | Inl _ \<Rightarrow> True)"
proof (cases "push_admit can_pace q")
  case (Inl reply)
  then show ?thesis using push_none [OF Inl, of re prompt t source u] assms(2) by (auto split: sum.split)
next
  case (Inr ab)
  obtain a b where ab: "push_admit can_pace q = Inr (a, b)" using Inr by (cases ab) auto
  have b: "b = Some n" using push_admitted(4) [OF ab] assms(1) by (auto simp: validate_line_budget_def split: if_splits)
  from push_run [OF ab, of re prompt t source u] obtain tr where tr: "calls u' = calls u @ tr" "list_all (fits b None) tr" "push_spec b a r tr"
    using assms(2) by auto
  have "case e of U_send c \<Rightarrow> int (utf8_len c) \<le> n | U_paced c \<Rightarrow> int (utf8_len c) \<le> n | _ \<Rightarrow> True" if "fits b None e" for e
    using that by (cases e) (auto simp: b may_type_def line_budget_exceeded_def)
  moreover have "answer_code (push_ok a k) = None" for k by (simp add: answer_code_def push_ok_def)
  ultimately show ?thesis using tr by (auto simp: list_all_iff push_spec_def cleaned_def split: sum.splits)
qed

text \<open>C30. A push that fails tidies up: when the answer is an error that shows that the transfer was under way (the echo has stalled, the decoder has
  failed, the checksum is missing or wrong), or any other error except one of the final move after a part of the file was typed, then
  the last thing the push has typed is the command that removes the temporary file.\<close>

theorem push_cleans:
  assumes "run_state (push_file re prompt t source can_pace q) u = (Inr reply, u')" "\<not> answer_ok reply" "calls u' = calls u @ tr"
    and "answer_code reply \<notin> {Some ''MOVE_TIMEOUT'', Some ''MOVE_FAILED''}"
    and "answer_code reply \<in> {Some ''TRANSFER_ECHO_STALL'', Some ''TARGET_DECODER_FAILED'', Some ''CHECKSUM_VERIFY_FAILED'', Some ''CHECKSUM_MISMATCH''}
      \<or> (\<exists>e \<in> set tr. \<exists>c d op p. e = U_send (chunk_command c d op p) \<or> e = U_paced c)"
  shows "ends_clean (''/tmp/.sw_upload_'' @ rq_tmp_hex q) tr"
proof (cases "push_admit can_pace q")
  case (Inl r)
  then have "tr = [] \<and> reply = r" using push_none [OF Inl, of re prompt t source u] assms(1,3) by simp
  then show ?thesis using assms(5) Inl
    by (auto simp: push_admit_def validate_line_budget_def split: if_splits sum.splits json.splits option.splits)
next
  case (Inr ab)
  obtain a b where ab: "push_admit can_pace q = Inr (a, b)" using Inr by (cases ab) auto
  from push_run [OF ab, of re prompt t source u] have s: "push_spec b a (Inr reply :: uart_exn \<times> (nat \<times> nat) option + answer) tr"
    using assms(1,3) by auto
  have "answer_ok (push_ok a n)" for n by (simp add: answer_ok_def push_ok_def)
  moreover have "U_send (chunk_command c d op f) \<notin> set tr \<and> U_paced c \<notin> set tr" if "probe_only tr" for c d op f
    using that commands_differ(5) [of c d op f, symmetric] unfolding probe_only_def by blast
  ultimately have "cleaned (pu_tmp_name a) (Inr reply :: unit + answer) tr" using s assms(2,4,5) by (auto simp: push_spec_def)
  then show ?thesis using push_admitted(3) [OF ab] by (simp add: cleaned_def)
qed

subsection \<open>A run\<close>

text \<open>Two bytes are pushed to a shell with the prompt \<open># \<close>; the four answers.\<close>

definition demo_re :: regexes where
  "demo_re p = (if p = ''# '' then Some (py_contains ''# '') else None)"

definition demo_request :: push_request where
  "demo_request = \<lparr>rq_local_path = ''hi.txt'', rq_file = Some [0x68, 0x69], rq_remote_path = ''/etc/hi'', rq_chunk_size = JInt 512, rq_ack_mode = ''none'',
     rq_slice_size = 64, rq_echo_timeout = 5, rq_budget = JInt 505, rq_tmp_hex = ''0a1b2c3d4e5f'', rq_prefix_hex = ''01234567''\<rparr>"

definition demo_args :: push_args where
  "demo_args = \<lparr>pu_remote_path = ''/etc/hi'', pu_data = [0x68, 0x69], pu_tmp_name = ''/tmp/.sw_upload_0a1b2c3d4e5f'', pu_chunk_size = 512, pu_paced = False,
     pu_slice_size = 64, pu_echo_timeout = 5\<rparr>"

definition shell_says :: "string \<Rightarrow> byte list" where
  "shell_says t = utf8_encode (t @ CHR 0x0A # ''# '')"

definition demo_env :: "(seconds \<times> byte list \<times> shared option) list" where
  "demo_env = answer_block (shell_says (xfer_sentinel ''DECODER_B64'')) @ concat (map answer_block [shell_says (xfer_sentinel ''CHUNK'')])
     @ answer_block (shell_says (md5_hexdigest [0x68, 0x69] @ CHR 0x20 # '' /tmp/.sw_upload_0a1b2c3d4e5f'' @ CHR 0x0A # xfer_sentinel ''MD5''))
     @ answer_block (shell_says (xfer_sentinel ''MV''))"

definition demo_uart :: uart where
  "demo_uart = quiet_uart\<lparr>u_env := demo_env\<rparr>"

abbreviation demo_run :: "((uart_exn \<times> (nat \<times> nat) option) + answer) \<times> uart" where
  "demo_run \<equiv> run_state (push_file demo_re ''# '' 10 ''agent'' True demo_request) demo_uart"

lemma demo_admit: "push_admit True demo_request = Inr (demo_args, Some 505)"
  by (simp add: push_admit_def demo_request_def demo_args_def ACK_MODES_def validate_line_budget_def)

lemma demo_preflight: "push_preflight demo_args (Some 505) = Inr 291"
  by code_simp

lemma demo_fit: "push_fit demo_args (Some 505) 291 Base64 = Inr 291"
  by code_simp


lemma seen_alone:
  assumes "snt \<noteq> []" "hd snt \<noteq> hd cmd" "cmd \<noteq> []"
  shows "runtime_sentinel_seen (snt @ CHR 0x0A # rest) snt cmd"
proof -
  have "\<not> starts_with cmd (snt @ CHR 0x0A # rest)" using assms by (cases cmd; cases snt) (auto simp: starts_with_def)
  then have "strip_command_echo (snt @ CHR 0x0A # rest) cmd = [] @ snt @ CHR 0x0A # rest" by (simp add: strip_command_echo_def)
  then show ?thesis unfolding runtime_sentinel_seen_def using assms(1)
    by (simp only:) (rule own_line_at, simp_all add: line_end_def starts_with_def)
qed

lemma demo_answers:
  assumes "x = xfer_of demo_re ''# '' t s h b" "length text \<le> 1000" "good (text @ CHR 0x0A # ''# '')"
  shows "answers x (shell_says text) good"
proof -
  have "py_contains ''# '' (text @ CHR 0x0A # ''# '')" using py_contains_append [of "''# ''" "text @ [CHR 0x0A]" "[]"] by simp
  moreover have "shell_says text \<noteq> []" by (simp add: shell_says_def utf8_encode_def utf8_char_def)
  ultimately show ?thesis using assms by (auto simp: answers_def shell_says_def xfer_of_def demo_re_def RX_MAX_CHARS_def)
qed

abbreviation demo_xfer :: xfer where "demo_xfer \<equiv> xfer_of demo_re ''# '' 10 ''agent'' ''01234567'' (Some 505)"

lemma demo_one: "split_chunks (pu_data demo_args) 291 = [[0x68, 0x69]]"
  by (simp add: demo_args_def split_chunks_def split_from.simps)

lemma demo_device:
  "answers demo_xfer (shell_says (xfer_sentinel ''DECODER_B64'')) (\<lambda>t. runtime_sentinel_seen t (xfer_sentinel ''DECODER_B64'') decoder_probe_command)"
  "answers demo_xfer (shell_says (xfer_sentinel ''CHUNK'')) (\<lambda>t. runtime_sentinel_seen t (xfer_sentinel ''CHUNK'') (chunk_command e d op f))"
  "answers demo_xfer (shell_says (xfer_sentinel ''MV'')) (\<lambda>t. runtime_sentinel_seen t (xfer_sentinel ''MV'') (mv_command e f))"
proof -
  have s: "xfer_sentinel n \<noteq> []" "hd (xfer_sentinel n) = CHR ''S''" for n by (simp_all add: xfer_sentinel_def)
  show "answers demo_xfer (shell_says (xfer_sentinel ''DECODER_B64'')) (\<lambda>t. runtime_sentinel_seen t (xfer_sentinel ''DECODER_B64'') decoder_probe_command)"
    by (rule demo_answers [OF refl]) (simp add: xfer_sentinel_def, rule seen_alone, simp_all add: s decoder_probe_command_def)
  show "answers demo_xfer (shell_says (xfer_sentinel ''CHUNK'')) (\<lambda>t. runtime_sentinel_seen t (xfer_sentinel ''CHUNK'') (chunk_command e d op f))"
    by (rule demo_answers [OF refl]) (simp add: xfer_sentinel_def, rule seen_alone, simp_all add: s chunk_command_def)
  show "answers demo_xfer (shell_says (xfer_sentinel ''MV'')) (\<lambda>t. runtime_sentinel_seen t (xfer_sentinel ''MV'') (mv_command e f))"
    by (rule demo_answers [OF refl]) (simp add: xfer_sentinel_def, rule seen_alone, simp_all add: s mv_command_def)
qed

lemma demo_digest:
  "answers demo_xfer (shell_says (md5_hexdigest [0x68, 0x69] @ CHR 0x20 # '' /tmp/.sw_upload_0a1b2c3d4e5f'' @ CHR 0x0A # xfer_sentinel ''MD5''))
      (\<lambda>t. md5_answer t (md5_command (pu_tmp_name demo_args)) = Some (md5_hexdigest (pu_data demo_args)))"
proof (rule demo_answers [OF refl])
    have "length (md5_hexdigest [0x68, 0x69]) = 32" using md5_hexdigest_form by blast
    then show "length (md5_hexdigest [0x68, 0x69] @ CHR 0x20 # '' /tmp/.sw_upload_0a1b2c3d4e5f'' @ CHR 0x0A # xfer_sentinel ''MD5'') \<le> 1000"
      by (simp add: xfer_sentinel_def)
    show "md5_answer ((md5_hexdigest [0x68, 0x69] @ CHR 0x20 # '' /tmp/.sw_upload_0a1b2c3d4e5f'' @ CHR 0x0A # xfer_sentinel ''MD5'') @ CHR 0x0A # ''# '')
        (md5_command (pu_tmp_name demo_args)) = Some (md5_hexdigest (pu_data demo_args))"
      using md5_answer_shell [of "md5_hexdigest [0x68, 0x69]" "'' /tmp/.sw_upload_0a1b2c3d4e5f''" "''# ''" "pu_tmp_name demo_args"] md5_hexdigest_form
      by (simp add: demo_args_def line_break_def)
qed

lemma demo_calm: "calm demo_uart" "agent_source ''agent''" "(0 :: seconds) < 10" "rq_ack_mode demo_request = ''none''" "rq_prefix_hex demo_request = ''01234567''"
  by (simp_all add: calm_def demo_uart_def quiet_uart_def agent_source_def starts_with_def demo_request_def)

lemma demo_chunks: "chunk_answers demo_xfer Base64 (pu_tmp_name demo_args) 0 (split_chunks (pu_data demo_args) 291) [shell_says (xfer_sentinel ''CHUNK'')]"
  unfolding demo_one by (simp add: demo_device(2))

lemma demo_uart_env: "u_env demo_uart = answer_block (shell_says (xfer_sentinel ''DECODER_B64'')) @ concat (map answer_block [shell_says (xfer_sentinel ''CHUNK'')])
     @ answer_block (shell_says (md5_hexdigest [0x68, 0x69] @ CHR 0x20 # '' /tmp/.sw_upload_0a1b2c3d4e5f'' @ CHR 0x0A # xfer_sentinel ''MD5''))
     @ answer_block (shell_says (xfer_sentinel ''MV''))"
  by (simp only: demo_uart_def quiet_uart_def demo_env_def uart.simps)

lemmas demo_facts = demo_calm(1-4) demo_admit demo_preflight demo_fit refl [of demo_xfer, folded demo_calm(5)]

lemma demo_ok: "fst demo_run = Inr (push_ok demo_args 1)"
  using calm_push_file [OF demo_facts, unfolded demo_calm(5), OF demo_device(1) demo_chunks demo_digest demo_device(3) demo_uart_env]
  by (simp add: demo_one)



theorem push_verified_witness:
  "\<exists>a b n tr. push_admit True demo_request = Inr (a, b) \<and> rq_file demo_request = Some (pu_data a) \<and> calls (snd demo_run) = calls demo_uart @ tr
     \<and> pushed a n tr \<and> push_ok demo_args 1 = push_ok a n"
proof -
  have "demo_run = (Inr (push_ok demo_args 1), snd demo_run)" using demo_ok by (metis prod.collapse)
  then show ?thesis by (rule push_verified) (simp add: answer_ok_def push_ok_def)
qed

theorem push_moves_verified_witness: "\<exists>tr. calls (snd demo_run) = calls demo_uart @ tr \<and> moved_checked demo_args tr"
  by (rule push_moves_verified [OF demo_admit])

theorem push_line_budget_witness:
  "\<exists>tr. calls (snd demo_run) = calls demo_uart @ tr
     \<and> list_all (\<lambda>e. case e of U_send c \<Rightarrow> int (utf8_len c) \<le> 505 | U_paced c \<Rightarrow> int (utf8_len c) \<le> 505 | _ \<Rightarrow> True) tr"
proof -
  have "rq_budget demo_request = JInt 505" by (simp add: demo_request_def)
  from push_line_budget [OF this, of demo_re "''# ''" 10 "''agent''" True demo_uart "fst demo_run" "snd demo_run"] show ?thesis by auto
qed

text \<open>The same push to a shell that does not confirm the chunk; it answers to the removal of the temporary file.\<close>

definition refusing_env :: "(seconds \<times> byte list \<times> shared option) list" where
  "refusing_env = answer_block (shell_says (xfer_sentinel ''DECODER_B64'')) @ answer_block (shell_says ''sh: write error'')
     @ idle # idle # idle # idle # [(0, shell_says [], None), idle, idle]"

abbreviation refusing_run :: "((uart_exn \<times> (nat \<times> nat) option) + answer) \<times> uart" where
  "refusing_run \<equiv> run_state (push_file demo_re ''# '' 10 ''agent'' True demo_request) (demo_uart\<lparr>u_env := refusing_env\<rparr>)"

lemma calm_cleanup:
  assumes "calm u" "u_env u = idle # idle # idle # idle # [(0, shell_says [], None), idle, idle]"
  shows "fst (run_state (cleanup_remote demo_xfer tmp) u) = Inr ()"
proof -
  let ?e = "[(0, shell_says [], None), idle, idle]"
  let ?v = "u\<lparr>u_env := idle # idle # idle # ?e\<rparr>"
  have o: "u_others u = ?v" by (rule idle_step) (simp add: assms(2))
  obtain w where w: "run_state (uart_send_command (cleanup_command tmp) ''agent'' (Some (''ft-01234567-cleanup'')) None) ?v = (Inr (), w)" "calm w"
      "u_env w = ?e @ []" "u_rx w = u_rx u"
    using calm_command [of ?v "''agent''" ?e "''ft-01234567-cleanup''" "cleanup_command tmp"] assms(1) demo_calm(2) by auto
  have "answers demo_xfer (shell_says []) (\<lambda>_. True)" by (rule demo_answers [OF refl]) simp_all
  then have a: "shell_says [] \<noteq> []" "length (utf8_decode (shell_says [])) \<le> RX_MAX_CHARS"
      "\<exists>hit. xf_re demo_xfer (xf_prompt demo_xfer) = Some hit \<and> hit (utf8_decode (shell_says []))" by (auto simp: answers_def)
  then obtain hit where h: "xf_re demo_xfer (xf_prompt demo_xfer) = Some hit" "hit (utf8_decode (shell_says []))" by blast
  have "0 < xf_timeout demo_xfer" by (simp add: xfer_of_def)
  from calm_await [OF w(2,3) _ h a(1,2) this, of "rx_snapshot_len (u_rx u)"] w(4)
  have "fst (run_state (await_regex_from (xf_re demo_xfer) (xf_prompt demo_xfer) (rx_snapshot_len (u_rx u)) (xf_timeout demo_xfer)) w) = Inr True"
    by simp
  then show ?thesis using o w(1)
    by (auto simp: cleanup_remote_def and_then_def uart_offset_def cmd_id_of_def xfer_of_def split: prod.split sum.split)
qed

lemma refusing: "fst refusing_run = Inr (failed ''TARGET_DECODER_FAILED'' (chunk_progress 0 1))"
proof -
  let ?u = "demo_uart\<lparr>u_env := refusing_env\<rparr>" and ?cmd = "chunk_command (b64encode [0x68, 0x69]) Base64 (chunk_op 0) (pu_tmp_name demo_args)"
  let ?rest = "idle # idle # idle # idle # [(0, shell_says [], None), idle, idle]"
  have c: "calm ?u" using demo_calm(1) by simp
  have x: "agent_source (xf_source demo_xfer)" "0 < xf_timeout demo_xfer" using demo_calm(2) by (simp_all add: xfer_of_def)
  obtain v t where v: "run_state (ask demo_xfer decoder_probe_command ''probe'') ?u = (Inr (Some t), v)"
      "runtime_sentinel_seen t (xfer_sentinel ''DECODER_B64'') decoder_probe_command" "calm v" "u_env v = answer_block (shell_says ''sh: write error'') @ ?rest"
    using calm_asked [OF c x demo_device(1), of "answer_block (shell_says ''sh: write error'') @ ?rest" decoder_probe_command "''probe''"]
    by (auto simp: refusing_env_def)
  have no: "\<not> runtime_sentinel_seen (utf8_decode (shell_says ''sh: write error'')) (xfer_sentinel ''CHUNK'') ?cmd" unfolding shell_says_def utf8_roundtrip by code_simp
  have l: "\<not> line_budget_exceeded [?cmd] (xf_budget demo_xfer)"
    using chunks_fit [OF demo_preflight, where k = 291 and z = None and d = Base64] demo_one by (auto simp: chunk_fits_def may_type_def xfer_of_def)
  have "answers demo_xfer (shell_says ''sh: write error'') (\<lambda>_. True)" by (rule demo_answers [OF refl]) simp_all
  moreover have "\<not> pu_paced demo_args" by (simp add: demo_args_def)
  ultimately obtain w where w: "calm w" "u_env w = ?rest" "run_state (push_chunk demo_xfer demo_args Base64 1 0 [0x68, 0x69]) v
      = run_state (some_answer (give_up demo_xfer demo_args (failed ''TARGET_DECODER_FAILED'' (chunk_progress 0 1)))) w"
    using calm_chunk_text [OF v(3) x v(4) _ _ refl l, of 1] no by auto
  have "fst (run_state (push_chunk demo_xfer demo_args Base64 1 0 [0x68, 0x69]) v) = Inr (Some (failed ''TARGET_DECODER_FAILED'' (chunk_progress 0 1)))"
    using calm_cleanup [OF w(1,2), of "pu_tmp_name demo_args"] unfolding w(3)
    by (auto simp: some_answer_def give_up_def and_then_def bare_def split: prod.split)
  then have "fst (run_state (push_file_tx demo_xfer demo_args) ?u) = Inr (failed ''TARGET_DECODER_FAILED'' (chunk_progress 0 1))"
    using v(1,2) demo_preflight demo_fit demo_one
    by (auto simp: push_file_tx_def and_then_def bare_def probe_decoder_def probe_tool_def Let_def xfer_of_def split: prod.split)
  then show ?thesis using demo_admit by (simp add: push_file_def demo_calm(5))
qed

theorem push_cleans_witness: "\<exists>tr. calls (snd refusing_run) = calls (demo_uart\<lparr>u_env := refusing_env\<rparr>) @ tr \<and> ends_clean ''/tmp/.sw_upload_0a1b2c3d4e5f'' tr"
proof -
  obtain tr where tr: "calls (snd refusing_run) = calls (demo_uart\<lparr>u_env := refusing_env\<rparr>) @ tr" using push_run [OF demo_admit] by blast
  have "refusing_run = (Inr (failed ''TARGET_DECODER_FAILED'' (chunk_progress 0 1)), snd refusing_run)" using refusing by (metis prod.collapse)
  from push_cleans [OF this _ tr] have "ends_clean (''/tmp/.sw_upload_'' @ rq_tmp_hex demo_request) tr" by simp
  then show ?thesis using tr by (auto simp: demo_request_def)
qed

end
