(* ===== verification/File_Pull.thy ===== *)
theory File_Pull
  imports File_Properties Wal_Reading
begin

text \<open>
  Reading what the shell prints: the base64 text between the two markers is the file that the device has encoded, whatever the line
  length; and the echo of a command is never taken for its confirmation. Pulling a file, with the properties of a pull that succeeds.
\<close>

section \<open>Occurrences\<close>

text \<open>A text that does not occur across a character that it does not have.\<close>

lemma contains_split: "c \<notin> set p \<Longrightarrow> py_contains p (a @ c # b) \<Longrightarrow> py_contains p a \<or> py_contains p b"
proof -
  assume c: "c \<notin> set p" and "py_contains p (a @ c # b)"
  then obtain x y where xy: "a @ c # b = x @ p @ y" by (auto simp: py_contains_iff)
  consider us where "a = x @ us" "us @ c # b = p @ y" | us where "x = a @ us" "c # b = us @ p @ y"
    using xy by (auto simp: append_eq_append_conv2)
  then show ?thesis
  proof cases
    case 1
    then obtain vs where "us = p @ vs" using c by (auto simp: append_eq_append_conv2 Cons_eq_append_conv)
    then have "py_contains p a" using 1(1) by (auto simp: py_contains_iff)
    then show ?thesis ..
  next
    case 2
    show ?thesis
    proof (cases us)
      case Nil
      then have "p = []" using 2(2) c by (cases p) auto
      then show ?thesis by (auto simp: py_contains_iff)
    next
      case (Cons d ds)
      then have "b = ds @ p @ y" using 2(2) by simp
      then have "py_contains p b" by (auto simp: py_contains_iff)
      then show ?thesis ..
    qed
  qed
qed

lemma contains_clear: "c \<notin> set p \<Longrightarrow> \<not> py_contains p a \<Longrightarrow> \<not> py_contains p b \<Longrightarrow> \<not> py_contains p (a @ c # b)"
  using contains_split by blast

lemma contains_chars: "py_contains p s \<Longrightarrow> set p \<subseteq> set s"
  by (auto simp: py_contains_iff)

lemma contains_length: "py_contains p s \<Longrightarrow> length p \<le> length s"
  by (auto simp: py_contains_iff)

lemma contains_short: "length s < length p \<Longrightarrow> \<not> py_contains p s"
  using contains_length by fastforce

lemma contains_drop: "py_contains p (drop n s) \<Longrightarrow> py_contains p s"
  unfolding py_contains_iff by (metis append.assoc append_take_drop_id)

lemma rfind_none: "\<not> py_contains p s \<Longrightarrow> rfind_at p s = None"
  by (induction s) simp_all

lemma rfind_last: "p \<noteq> [] \<Longrightarrow> \<not> py_contains p (tl (p @ b)) \<Longrightarrow> rfind_at p (a @ p @ b) = Some (length a)"
proof (induction a)
  case Nil
  then show ?case using rfind_none [of p "tl (p @ b)"] by (cases p) (auto simp: starts_with_def)
qed simp

section \<open>The text between the markers\<close>

definition wrapped :: "string \<Rightarrow> string \<Rightarrow> bool" where
  "wrapped s body \<longleftrightarrow> filter (\<lambda>c. c \<noteq> CHR 0x0D \<and> c \<noteq> CHR 0x0A) body = s \<and> (body = [] \<or> last body = CHR 0x0A)"

definition echo_of :: "string \<Rightarrow> string \<Rightarrow> bool" where
  "echo_of cmd e \<longleftrightarrow> e = [] \<or> e = cmd @ [CHR 0x0A] \<or> e = cmd @ [CHR 0x0D, CHR 0x0A]"

lemma b64_plain: "c \<in> set (b64encode bs) \<Longrightarrow> c \<noteq> CHR ''_'' \<and> \<not> py_space c \<and> c \<noteq> esc \<and> (of_char c :: nat) < 128"
proof -
  have n: "b64_char n \<noteq> CHR ''_'' \<and> \<not> py_space (b64_char n) \<and> b64_char n \<noteq> esc \<and> (of_char (b64_char n) :: nat) < 128" for n
  proof -
    let ?v = "of_char (b64_char n) :: nat"
    have v: "65 \<le> ?v \<and> ?v \<le> 90 \<or> 97 \<le> ?v \<and> ?v \<le> 122 \<or> 48 \<le> ?v \<and> ?v \<le> 57 \<or> ?v = 43 \<or> ?v = 47"
      by (auto simp: b64_char_def)
    have "b64_char n \<noteq> CHR ''_''" "b64_char n \<noteq> esc" using v by auto
    then show ?thesis using v by (auto simp: py_space_def Let_def)
  qed
  have "\<forall>c \<in> set (b64_nats ns). c \<noteq> CHR ''_'' \<and> \<not> py_space c \<and> c \<noteq> esc \<and> (of_char c :: nat) < 128" for ns
    using n by (induction ns rule: b64_nats.induct) (simp_all add: py_space_def)
  then show "c \<in> set (b64encode bs) \<Longrightarrow> c \<noteq> CHR ''_'' \<and> \<not> py_space c \<and> c \<noteq> esc \<and> (of_char c :: nat) < 128" by (simp add: b64encode_def)
qed

lemma strip_echo: "echo_of cmd e \<Longrightarrow> cmd \<noteq> [] \<Longrightarrow> \<not> starts_with cmd t \<Longrightarrow> strip_command_echo (e @ t) cmd = t"
  by (auto simp: echo_of_def strip_command_echo_def starts_with_def Let_def)


text \<open>However the encoder breaks its lines, what is read between the markers is the file.\<close>

lemma markers_extract:
  assumes "wrapped (b64encode data) body" "CHR ''='' \<notin> set prompt" "echo_of cmd e" "cmd \<noteq> []" "hd cmd \<noteq> CHR ''=''"
  shows "extract_between_sentinels (e @ SENTINEL_BEGIN @ CHR 0x0A # body @ SENTINEL_END @ CHR 0x0A # prompt) cmd = Some (b64encode data)"
proof -
  let ?tail = "CHR 0x0A # body @ SENTINEL_END @ CHR 0x0A # prompt"
  let ?t = "SENTINEL_BEGIN @ ?tail"
  have chars: "c \<in> set (b64encode data) \<or> c = CHR 0x0D \<or> c = CHR 0x0A" if "c \<in> set body" for c
  proof -
    have "set (b64encode data) = {c \<in> set body. c \<noteq> CHR 0x0D \<and> c \<noteq> CHR 0x0A}" using assms(1) by (metis set_filter wrapped_def)
    then show ?thesis using that by auto
  qed
  have under: "CHR ''_'' \<notin> set body" using chars [of "CHR ''_''"] b64_plain [of "CHR ''_''" data] by auto
  have prompt: "\<not> py_contains p prompt" if "CHR ''='' \<in> set p" for p using that contains_chars [of p prompt] assms(2) by auto
  have beg: "set SENTINEL_BEGIN = set ''=SW_XFERBGIN''" "length SENTINEL_BEGIN = 19" and en: "set SENTINEL_END = set ''=SW_XFERND''" "length SENTINEL_END = 17"
    by (auto simp: SENTINEL_BEGIN_def SENTINEL_END_def)
  have ne: "SENTINEL_BEGIN \<noteq> []" "SENTINEL_END \<noteq> []" by (simp_all add: SENTINEL_BEGIN_def SENTINEL_END_def)
  have lf: "CHR 0x0A \<notin> set SENTINEL_BEGIN" "CHR 0x0A \<notin> set SENTINEL_END" using beg en by auto
  have "\<not> starts_with cmd ?t" using assms(4,5) by (cases cmd) (auto simp: starts_with_def SENTINEL_BEGIN_def)
  then have strip: "strip_command_echo (e @ ?t) cmd = ?t" using strip_echo [OF assms(3,4)] by blast
  have end_clear: "\<not> py_contains SENTINEL_BEGIN (SENTINEL_END @ CHR 0x0A # prompt)"
    by (rule contains_clear [OF lf(1)]) (use prompt [of SENTINEL_BEGIN] contains_short [of SENTINEL_END SENTINEL_BEGIN] in \<open>simp_all add: beg en\<close>)
  have rest_clear: "\<not> py_contains SENTINEL_BEGIN (body @ SENTINEL_END @ CHR 0x0A # prompt)"
  proof (cases body rule: rev_cases)
    case Nil
    then show ?thesis using end_clear by simp
  next
    case (snoc b l)
    then have "body @ SENTINEL_END @ CHR 0x0A # prompt = b @ CHR 0x0A # (SENTINEL_END @ CHR 0x0A # prompt)" using assms(1) by (simp add: wrapped_def)
    moreover have "\<not> py_contains SENTINEL_BEGIN b" using contains_chars [of SENTINEL_BEGIN b] under snoc by (auto simp: beg)
    ultimately show ?thesis using contains_clear [OF lf(1) _ end_clear] by simp
  qed
  have "\<not> py_contains SENTINEL_BEGIN (tl SENTINEL_BEGIN @ ?tail)"
    by (rule contains_clear [OF lf(1) contains_short rest_clear]) (simp add: beg)
  moreover have "tl (SENTINEL_BEGIN @ ?tail) = tl SENTINEL_BEGIN @ ?tail" by (simp add: SENTINEL_BEGIN_def)
  ultimately have "\<not> py_contains SENTINEL_BEGIN (tl (SENTINEL_BEGIN @ ?tail))" by simp
  from rfind_last [OF ne(1) this, of "[]"] have rb: "rfind_at SENTINEL_BEGIN ?t = Some 0" by simp
  have "\<not> py_contains SENTINEL_END (tl SENTINEL_END @ CHR 0x0A # prompt)"
    by (rule contains_clear [OF lf(2) contains_short]) (use prompt [of SENTINEL_END] in \<open>simp_all add: en\<close>)
  moreover have "tl (SENTINEL_END @ CHR 0x0A # prompt) = tl SENTINEL_END @ CHR 0x0A # prompt" by (simp add: SENTINEL_END_def)
  ultimately have "\<not> py_contains SENTINEL_END (tl (SENTINEL_END @ CHR 0x0A # prompt))" by simp
  from rfind_last [OF ne(2) this, of "SENTINEL_BEGIN @ CHR 0x0A # body"]
  have re: "rfind_at SENTINEL_END ?t = Some (19 + Suc (length body))" by (simp add: beg)
  have cut: "take (Suc (length body)) (drop 19 ?t) = CHR 0x0A # body" using beg(2) by simp
  have "esc \<notin> set (CHR 0x0A # body)" using chars b64_plain by fastforce
  then have "strip_ansi (CHR 0x0A # body) = CHR 0x0A # body" using re_remove_no_esc(3) by (simp add: strip_ansi_def)
  moreover have "filter (\<lambda>c. \<not> py_space c) (CHR 0x0A # body) = b64encode data"
  proof -
    have "\<not> py_space c \<longleftrightarrow> c \<noteq> CHR 0x0D \<and> c \<noteq> CHR 0x0A" if "c \<in> set body" for c
      using chars [OF that] b64_plain [of c data] by (auto simp: py_space_def)
    then have "filter (\<lambda>c. \<not> py_space c) body = filter (\<lambda>c. c \<noteq> CHR 0x0D \<and> c \<noteq> CHR 0x0A) body" by (rule filter_cong [OF refl])
    then show ?thesis using assms(1) by (simp add: wrapped_def py_space_def)
  qed
  ultimately show ?thesis unfolding extract_between_sentinels_def Let_def strip rb re using cut beg(2) by simp
qed




section \<open>Pulling a file\<close>

definition encoder_sentinel :: "tool \<Rightarrow> string" where
  "encoder_sentinel e = (case e of Base64 \<Rightarrow> xfer_sentinel ''ENCODER_B64'' | Openssl \<Rightarrow> xfer_sentinel ''ENCODER_OPENSSL'')"

text \<open>The calls of a pull that writes a file: the probe, one command whose output is the file, and the checksum that confirms it.\<close>

definition pulled_data :: "string \<Rightarrow> byte list \<Rightarrow> uart_event list \<Rightarrow> bool" where
  "pulled_data path data tr \<longleftrightarrow>
     (\<exists>e t0 t tm content. tr = asked encoder_probe_command t0 @ asked (pull_command path e) t @ asked (md5_command path) tm
        \<and> runtime_sentinel_seen t0 (encoder_sentinel e) encoder_probe_command
        \<and> extract_between_sentinels t (pull_command path e) = Some content \<and> decode_text content = Some data
        \<and> md5_answer tm (md5_command path) = Some (md5_hexdigest data))"

definition pull_spec :: "string \<Rightarrow> string \<Rightarrow> ('e + pulled) \<Rightarrow> uart_event list \<Rightarrow> bool" where
  "pull_spec path local_path r tr \<longleftrightarrow>
     (case r of Inl _ \<Rightarrow> True
      | Inr (reply, None) \<Rightarrow> \<not> answer_ok reply \<and> (answer_code reply = Some ''CONSOLE_LINE_LIMIT_TOO_SMALL'' \<longrightarrow> tr = [])
      | Inr (reply, Some (f, data)) \<Rightarrow> answer_ok reply \<and> f = local_path \<and> pulled_data path data tr)"

lemma pull_spec_simps [simp]:
  "pull_spec path f (Inl e) tr"
  "pull_spec path f (Inr (failed code extra, None)) tr \<longleftrightarrow> code \<noteq> ''CONSOLE_LINE_LIMIT_TOO_SMALL'' \<or> tr = []"
  by (auto simp: pull_spec_def)

lemma emits_pull_check:
  assumes "may_type (xf_budget x) None (md5_command path)"
    and "extract_between_sentinels t (pull_command path e) = Some content" "decode_text content = Some data"
    and "runtime_sentinel_seen t0 (encoder_sentinel e) encoder_probe_command" "h = asked encoder_probe_command t0 @ asked (pull_command path e) t"
  shows "emits (fits (xf_budget x) None) (pull_check x path f data) (\<lambda>r tr. pull_spec path f r (h @ tr))"
proof -
  have "pulled_data path data (h @ asked (md5_command path) tm)" if "md5_answer tm (md5_command path) = Some (md5_hexdigest data)" for tm
    unfolding pulled_data_def assms(5) append.assoc using assms(2-4) that by blast
  moreover have "answer_ok [(''ok'', JBool True), (''bytes'', b), (''md5'', m), (''local_path'', l)]" for b m l by (simp add: answer_ok_def)
  ultimately have "pull_spec path f (Inr ([(''ok'', JBool True), (''bytes'', b), (''md5'', m), (''local_path'', l)], Some (f, data))) (h @ asked (md5_command path) tm)"
    if "md5_answer tm (md5_command path) = Some (md5_hexdigest data)" for b m l tm using that by (simp add: pull_spec_def)
  then show ?thesis unfolding pull_check_def using assms(1)
    by (intro emits_rules emits_remote_md5) (auto intro!: emits_return split: option.split)
qed

lemma emits_pull:
  "emits (fits (xf_budget x) None) (pull_file_tx x path f) (pull_spec path f)"
proof (cases "pull_preflight path (xf_budget x)")
  case (Some reply)
  then have "reply = line_limit_error (xf_budget x)" by (auto simp: pull_preflight_def split: if_splits)
  then show ?thesis using Some by (auto simp: pull_file_tx_def pull_spec_def intro!: emits_return)
next
  case None
  let ?b = "xf_budget x"
  have l: "may_type ?b None encoder_probe_command" "may_type ?b None (md5_command path)" "may_type ?b None (pull_command path e)" for e
    using None by (cases e; auto simp: pull_preflight_def may_type_def line_budget_exceeded_def split: option.splits if_splits)+
  have body: "emits (fits ?b None) (let cmd = pull_command path e
      in if line_budget_exceeded [cmd] ?b then State_Monad.return (Inr (line_limit_error ?b, None))
         else and_then (bare (ask x cmd ''b64'')) (\<lambda>r. case r of
             None \<Rightarrow> State_Monad.return (Inr (failed ''TRANSFER_TIMEOUT'' [], None))
           | Some raw \<Rightarrow> (case extract_between_sentinels raw cmd of
               None \<Rightarrow> State_Monad.return (Inr (failed (if failure_sentinel_seen raw (xfer_sentinel ''ENCODER_FAILED'') cmd then ''TARGET_ENCODER_FAILED''
                                       else ''PULL_PARSE_FAILED'') [], None))
             | Some content \<Rightarrow> (case decode_text content of
                 None \<Rightarrow> State_Monad.return (Inr (failed ''BASE64_DECODE_FAILED'' [], None))
               | Some data \<Rightarrow> pull_check x path f data))))
      (\<lambda>r tr. pull_spec path f r (asked encoder_probe_command t0 @ tr))"
    if "runtime_sentinel_seen t0 (encoder_sentinel e) encoder_probe_command" for e t0
  proof -
    have no: "\<not> line_budget_exceeded [pull_command path e] ?b" using l(3) by (simp add: may_type_def)
    show ?thesis unfolding Let_def if_not_P [OF no] using l
      by (intro emits_rules emits_ask)
        (use that in \<open>auto intro!: emits_return emits_pull_check [where h = "asked encoder_probe_command t0 @ _", simplified append.assoc] split: option.split\<close>)
  qed
  have d: "encoder_sentinel Base64 = xfer_sentinel ''ENCODER_B64''" "encoder_sentinel Openssl = xfer_sentinel ''ENCODER_OPENSSL''"
    by (simp_all add: encoder_sentinel_def)
  show ?thesis unfolding pull_file_tx_def probe_encoder_def None option.case
    by (intro emits_rules emits_probe) (use l body [of _ Base64] body [of _ Openssl] d in \<open>auto intro!: emits_return\<close>)
qed

lemma pull_run:
  assumes "validate_line_budget budget = Inr b"
  shows "\<exists>tr. calls (snd (run_state (pull_file re prompt t source hex budget path local_path) u)) = calls u @ tr \<and> list_all (fits b None) tr
    \<and> pull_spec path (case local_path of None \<Rightarrow> py_rsplit_last (CHR ''/'') path | Some p \<Rightarrow> p)
        (fst (run_state (pull_file re prompt t source hex budget path local_path) u)) tr"
  using emits_pull [of "xfer_of re prompt t source hex b" path "case local_path of None \<Rightarrow> py_rsplit_last (CHR ''/'') path | Some p \<Rightarrow> p"] assms
  by (simp add: emits_def pull_file_def xfer_of_def Let_def)

lemma pull_none: "validate_line_budget budget = Inl reply \<Longrightarrow> run_state (pull_file re prompt t source hex budget path local_path) u = (Inr (reply, None), u)"
  by (simp add: pull_file_def Let_def)

text \<open>C22. A pull writes a local file only when it answers \<open>ok\<close>, to the path that was asked for or under the last name of the remote path, and then the file is right:
  the calls were the probe that found the encoder, one command whose output between the markers decodes to the content of the file, and the command
  whose answer has the digest of this content, computed by the device.\<close>

theorem pull_verified:
  assumes "run_state (pull_file re prompt t source hex budget path local_path) u = (Inr (reply, file), u')"
  shows "case file of
       None \<Rightarrow> \<not> answer_ok reply
     | Some (f, data) \<Rightarrow> answer_ok reply \<and> f = (case local_path of None \<Rightarrow> py_rsplit_last (CHR ''/'') path | Some p \<Rightarrow> p)
         \<and> (\<exists>tr. calls u' = calls u @ tr \<and> pulled_data path data tr)"
proof (cases "validate_line_budget budget")
  case (Inl r)
  then have "\<not> answer_ok r" by (auto simp: validate_line_budget_def split: json.splits if_splits)
  then show ?thesis using pull_none [OF Inl, of re prompt t source hex path local_path u] assms by simp
next
  case (Inr b)
  from pull_run [OF Inr, of re prompt t source hex path local_path u] show ?thesis
    using assms by (auto simp: pull_spec_def split: option.splits)
qed

definition pull_env :: "(seconds \<times> byte list \<times> shared option) list" where
  "pull_env = answer_block (shell_says (xfer_sentinel ''ENCODER_B64''))
     @ answer_block (shell_says (SENTINEL_BEGIN @ CHR 0x0A # (''aGk='' @ [CHR 0x0A]) @ SENTINEL_END))
     @ answer_block (shell_says (md5_hexdigest [0x68, 0x69] @ CHR 0x20 # '' /etc/hi'' @ CHR 0x0A # xfer_sentinel ''MD5''))"

abbreviation pull_run_demo :: "((uart_exn \<times> (nat \<times> nat) option) + pulled) \<times> uart" where
  "pull_run_demo \<equiv> run_state (pull_file demo_re ''# '' 10 ''agent'' ''01234567'' (JInt 505) ''/etc/hi'' None) (demo_uart\<lparr>u_env := pull_env\<rparr>)"

lemma pull_demo_device:
  "answers demo_xfer (shell_says (xfer_sentinel ''ENCODER_B64'')) (\<lambda>t. runtime_sentinel_seen t (xfer_sentinel ''ENCODER_B64'') encoder_probe_command)"
  "answers demo_xfer (shell_says (SENTINEL_BEGIN @ CHR 0x0A # (''aGk='' @ [CHR 0x0A]) @ SENTINEL_END))
     (\<lambda>t. extract_between_sentinels t (pull_command ''/etc/hi'' Base64) = Some (b64encode [0x68, 0x69]))"
  "answers demo_xfer (shell_says (md5_hexdigest [0x68, 0x69] @ CHR 0x20 # '' /etc/hi'' @ CHR 0x0A # xfer_sentinel ''MD5''))
     (\<lambda>t. md5_answer t (md5_command ''/etc/hi'') = Some (md5_hexdigest [0x68, 0x69]))"
proof -
  show "answers demo_xfer (shell_says (xfer_sentinel ''ENCODER_B64'')) (\<lambda>t. runtime_sentinel_seen t (xfer_sentinel ''ENCODER_B64'') encoder_probe_command)"
    by (rule demo_answers [OF refl]) (simp add: xfer_sentinel_def, rule seen_alone, simp_all add: xfer_sentinel_def encoder_probe_command_def)
  have w: "wrapped (b64encode [0x68, 0x69]) (''aGk='' @ [CHR 0x0A])" by code_simp
  show "answers demo_xfer (shell_says (SENTINEL_BEGIN @ CHR 0x0A # (''aGk='' @ [CHR 0x0A]) @ SENTINEL_END))
     (\<lambda>t. extract_between_sentinels t (pull_command ''/etc/hi'' Base64) = Some (b64encode [0x68, 0x69]))"
    by (rule demo_answers [OF refl], simp add: SENTINEL_BEGIN_def SENTINEL_END_def)
      (use markers_extract [OF w, of "''# ''" "pull_command ''/etc/hi'' Base64" "[]"] in \<open>simp add: echo_of_def pull_command_def Let_def\<close>)
  have "length (md5_hexdigest [0x68, 0x69]) = 32" using md5_hexdigest_form by blast
  then show "answers demo_xfer (shell_says (md5_hexdigest [0x68, 0x69] @ CHR 0x20 # '' /etc/hi'' @ CHR 0x0A # xfer_sentinel ''MD5''))
     (\<lambda>t. md5_answer t (md5_command ''/etc/hi'') = Some (md5_hexdigest [0x68, 0x69]))"
    using md5_answer_shell [of "md5_hexdigest [0x68, 0x69]" "'' /etc/hi''" "''# ''" "''/etc/hi''"] md5_hexdigest_form
    by (intro demo_answers [OF refl]) (simp_all add: xfer_sentinel_def line_break_def)
qed

lemma pull_demo: "\<exists>reply. fst pull_run_demo = Inr (reply, Some (''hi'', [0x68, 0x69]))"
proof -
  let ?u = "demo_uart\<lparr>u_env := pull_env\<rparr>" and ?path = "''/etc/hi''"
  let ?r2 = "answer_block (shell_says (md5_hexdigest [0x68, 0x69] @ CHR 0x20 # '' /etc/hi'' @ CHR 0x0A # xfer_sentinel ''MD5''))"
  let ?r1 = "answer_block (shell_says (SENTINEL_BEGIN @ CHR 0x0A # (''aGk='' @ [CHR 0x0A]) @ SENTINEL_END)) @ ?r2"
  have c: "calm ?u" using demo_calm(1) by simp
  have x: "agent_source (xf_source demo_xfer)" "0 < xf_timeout demo_xfer" "xf_budget demo_xfer = Some 505" using demo_calm(2) by (simp_all add: xfer_of_def)
  obtain v t where v: "run_state (ask demo_xfer encoder_probe_command ''probe'') ?u = (Inr (Some t), v)"
      "runtime_sentinel_seen t (xfer_sentinel ''ENCODER_B64'') encoder_probe_command" "calm v" "u_env v = ?r1"
    using calm_asked [OF c x(1,2) pull_demo_device(1), of ?r1 encoder_probe_command "''probe''"] by (auto simp: pull_env_def)
  obtain w t' where w: "run_state (ask demo_xfer (pull_command ?path Base64) ''b64'') v = (Inr (Some t'), w)"
      "extract_between_sentinels t' (pull_command ?path Base64) = Some (b64encode [0x68, 0x69])" "calm w" "u_env w = ?r2"
    using calm_asked [OF v(3) x(1,2) pull_demo_device(2) v(4), of "pull_command ?path Base64" "''b64''"] by auto
  obtain z t'' where z: "run_state (ask demo_xfer (md5_command ?path) ''md5'') w = (Inr (Some t''), z)" "md5_answer t'' (md5_command ?path) = Some (md5_hexdigest [0x68, 0x69])"
    using calm_asked [OF w(3) x(1,2) pull_demo_device(3), of "[]" "md5_command ?path" "''md5''"] w(4) by auto
  have d: "decode_text (b64encode [0x68, 0x69]) = Some [0x68, 0x69]" by code_simp
  have pre: "pull_preflight ?path (Some 505) = None" by code_simp
  have no: "\<not> line_budget_exceeded [pull_command ?path Base64] (Some 505)" by code_simp
  have name: "py_rsplit_last (CHR ''/'') ?path = ''hi''" by code_simp
  show ?thesis using v(1,2) w(1,2) z d pre no name
    by (simp add: pull_file_def pull_file_tx_def and_then_def bare_def probe_encoder_def probe_tool_def pull_check_def remote_md5_def Let_def validate_line_budget_def x(3))
qed

theorem pull_verified_witness:
  "\<exists>tr. calls (snd pull_run_demo) = calls (demo_uart\<lparr>u_env := pull_env\<rparr>) @ tr \<and> pulled_data ''/etc/hi'' [0x68, 0x69] tr"
proof -
  obtain reply where "fst pull_run_demo = Inr (reply, Some (''hi'', [0x68, 0x69]))" using pull_demo by blast
  then have "pull_run_demo = (Inr (reply, Some (''hi'', [0x68, 0x69])), snd pull_run_demo)" by (metis prod.collapse)
  from pull_verified [OF this] show ?thesis by simp
qed

end
