(* ===== verification/Echo_Safety.thy ===== *)
theory Echo_Safety
  imports File_Pull
begin

text \<open>
  The console echoes what is typed. The commands of a transfer are written so that their own echo is never their confirmation: the digits of a
  sentinel come from the arithmetic of the shell.
\<close>

lemma contains_sep: "c \<notin> set p \<Longrightarrow> py_contains p (a @ c # b) \<longleftrightarrow> py_contains p a \<or> py_contains p b"
proof
  assume "c \<notin> set p" "py_contains p (a @ c # b)"
  then show "py_contains p a \<or> py_contains p b" by (rule contains_split)
next
  show "py_contains p a \<or> py_contains p b \<Longrightarrow> py_contains p (a @ c # b)"
    unfolding py_contains_iff by (metis append.assoc append_Cons)
qed

lemma contains_filter: "py_contains p s \<Longrightarrow> list_all Q p \<Longrightarrow> py_contains p (filter Q s)"
  unfolding py_contains_iff by (metis filter_append filter_id_conv list_all_iff)

lemma contains_part: "py_contains p q \<Longrightarrow> py_contains q s \<Longrightarrow> py_contains p s"
  unfolding py_contains_iff by (metis append.assoc)

section \<open>A path in a command\<close>

lemma quote_body:
  assumes "sq \<notin> set p" "dq \<notin> set p" "p \<noteq> []" "py_contains p (a @ concat (map (\<lambda>c. if c = sq then [sq, dq, sq, dq, sq] else [c]) s))"
  shows "py_contains p (a @ s)"
  using assms(4)
proof (induction s arbitrary: a)
  case (Cons c s)
  let ?g = "concat (map (\<lambda>c. if c = sq then [sq, dq, sq, dq, sq] else [c]) s)"
  show ?case
  proof (cases "c = sq")
    case True
    have "py_contains p (a @ sq # [dq] @ sq # [dq] @ sq # ?g)" using Cons.prems True by simp
    moreover have "\<not> py_contains p [dq]" using contains_chars [of p "[dq]"] assms(2,3) by (cases p) auto
    ultimately have "py_contains p a \<or> py_contains p ?g" using contains_sep [OF assms(1)] by blast
    then have "py_contains p a \<or> py_contains p s" using Cons.IH [of "[]"] by auto
    then show ?thesis using True contains_sep [OF assms(1), of a s] by simp
  next
    case False
    then show ?thesis using Cons.IH [of "a @ [c]"] Cons.prems by simp
  qed
qed simp

lemma quote_clear:
  assumes "sq \<notin> set p" "dq \<notin> set p" "p \<noteq> []" "\<not> py_contains p s"
  shows "\<not> py_contains p (shlex_quote s)"
proof
  let ?g = "concat (map (\<lambda>c. if c = sq then [sq, dq, sq, dq, sq] else [c]) s)"
  assume c: "py_contains p (shlex_quote s)"
  have nil: "\<not> py_contains p []" using assms(3) by (simp add: py_contains_iff)
  have "[sq, sq] = [] @ sq # [] @ sq # []" by simp
  then have two: "\<not> py_contains p [sq, sq]" using nil contains_sep [OF assms(1)] by metis
  have around: "py_contains p ([] @ sq # ?g @ sq # []) \<longleftrightarrow> py_contains p ?g" using nil contains_sep [OF assms(1)] by blast
  have "\<not> py_contains p ?g" using quote_body [OF assms(1-3), of "[]" s] assms(4) by auto
  then have "\<not> py_contains p ([] @ sq # ?g @ sq # [])" using around by blast
  then have q: "\<not> py_contains p ([sq] @ ?g @ [sq])" by simp
  show False using c two assms(4) q unfolding shlex_quote_def by (simp split: if_splits)
qed

section \<open>The echo\<close>

text \<open>What a console may echo of a command: any beginning of it, broken into lines anywhere.\<close>

definition echoed :: "string \<Rightarrow> string \<Rightarrow> bool" where
  "echoed command t \<longleftrightarrow> (\<exists>rest. command = filter (\<lambda>c. c \<noteq> CHR 0x0D \<and> c \<noteq> CHR 0x0A) t @ rest)"

text \<open>The commands of a transfer, each with the sentinel that is looked for in its answer.\<close>

definition confirmations :: "string \<Rightarrow> tool \<Rightarrow> nat \<Rightarrow> string \<Rightarrow> string \<Rightarrow> (string \<times> string) list" where
  "confirmations encoded tool i tmp path =
     [(chunk_command encoded tool (chunk_op i) tmp, xfer_sentinel ''CHUNK''), (md5_command tmp, xfer_sentinel ''MD5''), (mv_command tmp path, xfer_sentinel ''MV''),
      (decoder_probe_command, xfer_sentinel ''DECODER_B64''), (decoder_probe_command, xfer_sentinel ''DECODER_OPENSSL''),
      (encoder_probe_command, xfer_sentinel ''ENCODER_B64''), (encoder_probe_command, xfer_sentinel ''ENCODER_OPENSSL''),
      (md5_command path, xfer_sentinel ''MD5''), (pull_command path tool, xfer_sentinel ''ENCODER_FAILED'')]"

lemma own_line_contains: "own_line bol p s \<Longrightarrow> py_contains p s"
proof (induction s arbitrary: bol)
  case (Cons c s)
  then show ?case by auto
qed simp

lemma ends_a_line_contains: "ends_a_line p s \<Longrightarrow> py_contains p s"
  by (induction s) auto

lemma strip_part: "\<exists>n. strip_command_echo text command = drop n text"
  unfolding strip_command_echo_def Let_def drop_drop by (metis drop0)

lemma echo_contains:
  assumes "echoed command t" "list_all (\<lambda>c. c \<noteq> CHR 0x0D \<and> c \<noteq> CHR 0x0A) p" "py_contains p (strip_command_echo t command)"
  shows "py_contains p command"
proof -
  obtain n where "strip_command_echo t command = drop n t" using strip_part by blast
  then have "py_contains p t" using assms(3) contains_drop by metis
  from contains_filter [OF this assms(2)] assms(1) show ?thesis unfolding echoed_def py_contains_iff by (metis append.assoc)
qed

text \<open>A sentinel has no blank and no quote.\<close>

definition sentinel_names :: "string list" where
  "sentinel_names = [''CHUNK'', ''MD5'', ''MV'', ''DECODER_B64'', ''DECODER_OPENSSL'', ''ENCODER_B64'', ''ENCODER_OPENSSL'', ''ENCODER_FAILED'']"

definition name_char :: "char \<Rightarrow> bool" where
  "name_char c \<longleftrightarrow> c \<noteq> CHR 0x20 \<and> c \<noteq> sq \<and> c \<noteq> dq \<and> c \<noteq> CHR 0x0D \<and> c \<noteq> CHR 0x0A"

lemma sentinel_chars: "n \<in> set sentinel_names \<Longrightarrow> list_all name_char (xfer_sentinel n)"
  by (auto simp: sentinel_names_def xfer_sentinel_def name_char_def)

lemma runtime_clear:
  assumes "n \<in> set sentinel_names"
  shows "\<not> py_contains (xfer_sentinel n) (runtime_sentinel (sentinel_prefix n))"
proof -
  have "list_all (\<lambda>n. \<not> py_contains (xfer_sentinel n) (runtime_sentinel (sentinel_prefix n))) sentinel_names" by code_simp
  then show ?thesis using assms by (simp add: list_all_iff)
qed

lemma command_clear:
  assumes "list_all name_char p" "\<not> py_contains p a" "\<not> py_contains p b"
  shows "\<not> py_contains p (a @ CHR 0x20 # b)"
  using assms by (intro contains_clear) (auto simp: list_all_iff name_char_def)

lemma sentinel_absent: "\<not> py_contains ''SW_XFER_'' s \<Longrightarrow> \<not> py_contains (xfer_sentinel n) s"
  using contains_part [of "''SW_XFER_''" "xfer_sentinel n" s] py_contains_append [of "''SW_XFER_''" "[]" "n @ ''_42''"] by (auto simp: xfer_sentinel_def)

lemma path_clear:
  assumes "n \<in> set sentinel_names" "\<not> py_contains ''SW_XFER_'' path"
  shows "\<not> py_contains (xfer_sentinel n) (shlex_quote path)"
  using sentinel_chars [OF assms(1)] by (intro quote_clear sentinel_absent assms(2)) (auto simp: list_all_iff name_char_def xfer_sentinel_def)

lemma b64_clear: "\<not> py_contains ''SW_XFER_'' (b64encode bs)"
  using contains_chars [of "''SW_XFER_''" "b64encode bs"] b64_plain [of "CHR ''_''" bs] by auto

lemma tail_clear:
  assumes "n \<in> set sentinel_names" "list_all (\<lambda>c. c \<noteq> CHR ''_'') a"
  shows "\<not> py_contains (xfer_sentinel n) (a @ CHR 0x20 # runtime_sentinel (sentinel_prefix n))"
  by (intro command_clear sentinel_chars runtime_clear assms(1)) (use assms(2) contains_chars [of "xfer_sentinel n" a] in \<open>auto simp: xfer_sentinel_def list_all_iff\<close>)

lemma word_clear: "list_all (\<lambda>c. c \<noteq> CHR ''_'') a \<Longrightarrow> \<not> py_contains (xfer_sentinel n) a"
  using contains_chars [of "xfer_sentinel n" a] by (auto simp: xfer_sentinel_def list_all_iff)

lemma confirmations_clear:
  assumes "\<not> py_contains ''SW_XFER_'' tmp" "\<not> py_contains ''SW_XFER_'' path"
  shows "\<forall>(cmd, p) \<in> set (confirmations (b64encode chunk) tool i tmp path). \<not> py_contains p cmd \<and> list_all name_char p"
proof -
  note clear = command_clear [OF sentinel_chars]
  have n: "''CHUNK'' \<in> set sentinel_names" "''MD5'' \<in> set sentinel_names" "''MV'' \<in> set sentinel_names" "''ENCODER_FAILED'' \<in> set sentinel_names"
      "''DECODER_B64'' \<in> set sentinel_names" "''DECODER_OPENSSL'' \<in> set sentinel_names" "''ENCODER_B64'' \<in> set sentinel_names" "''ENCODER_OPENSSL'' \<in> set sentinel_names"
    by (simp_all add: sentinel_names_def)
  have md5: "\<not> py_contains (xfer_sentinel ''MD5'') (md5_command f)" if "\<not> py_contains ''SW_XFER_'' f" for f
  proof -
    have e: "md5_command f = ''md5sum'' @ CHR 0x20 # shlex_quote f @ CHR 0x20 # ''&&'' @ CHR 0x20 # runtime_sentinel (sentinel_prefix ''MD5'')"
      by (simp add: md5_command_def)
    show ?thesis unfolding e by (intro clear n path_clear that tail_clear word_clear) simp_all
  qed
  have mv: "\<not> py_contains (xfer_sentinel ''MV'') (mv_command tmp path)"
  proof -
    have e: "mv_command tmp path = ''mv'' @ CHR 0x20 # shlex_quote tmp @ CHR 0x20 # shlex_quote path @ CHR 0x20 # ''&&'' @ CHR 0x20 # runtime_sentinel (sentinel_prefix ''MV'')"
      by (simp add: mv_command_def)
    show ?thesis unfolding e by (intro clear n path_clear assms tail_clear word_clear) simp_all
  qed
  have chunk: "\<not> py_contains (xfer_sentinel ''CHUNK'') (chunk_command (b64encode chunk) tool (chunk_op i) tmp)"
  proof -
    have e: "chunk_command (b64encode chunk) tool (chunk_op i) tmp = ([CHR ''p'', CHR ''r'', CHR ''i'', CHR ''n'', CHR ''t'', CHR ''f'', CHR 0x20, sq] @ ''%s'' @ [sq])
        @ CHR 0x20 # shlex_quote (b64encode chunk) @ CHR 0x20 # (CHR ''|'' # CHR 0x20 # decoder_command_name tool @ CHR 0x20 # chunk_op i) @ CHR 0x20 # shlex_quote tmp
        @ CHR 0x20 # ''&&'' @ CHR 0x20 # runtime_sentinel (sentinel_prefix ''CHUNK'')"
      by (simp add: chunk_command_def)
    show ?thesis unfolding e by (intro clear n path_clear assms(1) b64_clear tail_clear word_clear) (simp_all add: decoder_command_name_def chunk_op_def split: tool.split)
  qed
  have pull: "\<not> py_contains (xfer_sentinel ''ENCODER_FAILED'') (pull_command path tool)"
  proof -
    let ?head = "''printf '' @ [sq] @ ''%s'' @ [CHR 0x5C] @ ''n'' @ [sq]" and ?m = "\<lambda>m. the (marker_expression m)"
    have e: "pull_command path tool = ?head @ CHR 0x20 # ?m SENTINEL_BEGIN @ CHR 0x20 # (''&& '' @ encoder_command_name tool @ '' <'') @ CHR 0x20 # shlex_quote path
        @ CHR 0x20 # (''&& '' @ ?head) @ CHR 0x20 # ?m SENTINEL_END @ CHR 0x20 # ''||'' @ CHR 0x20 # runtime_sentinel (sentinel_prefix ''ENCODER_FAILED'')"
      by (simp add: pull_command_def Let_def)
    have m: "\<not> py_contains (xfer_sentinel ''ENCODER_FAILED'') (?m SENTINEL_BEGIN)" "\<not> py_contains (xfer_sentinel ''ENCODER_FAILED'') (?m SENTINEL_END)" by code_simp+
    show ?thesis unfolding e by (intro clear n m path_clear assms(2) tail_clear word_clear) (simp_all add: encoder_command_name_def split: tool.split)
  qed
  have probes: "\<not> py_contains (xfer_sentinel ''DECODER_B64'') decoder_probe_command" "\<not> py_contains (xfer_sentinel ''DECODER_OPENSSL'') decoder_probe_command"
      "\<not> py_contains (xfer_sentinel ''ENCODER_B64'') encoder_probe_command" "\<not> py_contains (xfer_sentinel ''ENCODER_OPENSSL'') encoder_probe_command" by code_simp+
  show ?thesis unfolding confirmations_def using n [THEN sentinel_chars] md5 [OF assms(1)] md5 [OF assms(2)] mv chunk pull probes by simp
qed

text \<open>C21. The echo of a command of a transfer is never taken for its answer: for every content of a chunk and every path without the prefix of the
  sentinels, whatever beginning of the command the console echoes and however it breaks it into lines, the sentinel of the command is not seen in
  it, neither as a line of its own nor at the end of a line.\<close>

theorem echo_never_confirms:
  assumes "\<not> py_contains ''SW_XFER_'' tmp" "\<not> py_contains ''SW_XFER_'' path" "(cmd, p) \<in> set (confirmations (b64encode chunk) tool i tmp path)" "echoed cmd t"
  shows "\<not> runtime_sentinel_seen t p cmd \<and> \<not> failure_sentinel_seen t p cmd"
proof -
  have c: "\<not> py_contains p cmd" "list_all name_char p" using confirmations_clear [OF assms(1,2), of chunk tool i] assms(3) by auto
  then have "list_all (\<lambda>c. c \<noteq> CHR 0x0D \<and> c \<noteq> CHR 0x0A) p" by (auto simp: list_all_iff name_char_def)
  then have "\<not> py_contains p (strip_command_echo t cmd)" using echo_contains [OF assms(4)] c(1) by blast
  then show ?thesis
    using own_line_contains ends_a_line_contains by (auto simp: runtime_sentinel_seen_def failure_sentinel_seen_def)
qed

theorem echo_never_confirms_witness:
  "let cmd = mv_command ''/tmp/.sw_upload_0a1b2c3d4e5f'' ''/etc/hi''
   in \<not> runtime_sentinel_seen (take 79 cmd @ CHR 0x0D # CHR 0x0A # drop 79 cmd) (xfer_sentinel ''MV'') cmd"
proof -
  let ?cmd = "mv_command ''/tmp/.sw_upload_0a1b2c3d4e5f'' ''/etc/hi''"
  have "?cmd = filter (\<lambda>c. c \<noteq> CHR 0x0D \<and> c \<noteq> CHR 0x0A) (take 79 ?cmd @ CHR 0x0D # CHR 0x0A # drop 79 ?cmd) @ []" by code_simp
  then have e: "echoed ?cmd (take 79 ?cmd @ CHR 0x0D # CHR 0x0A # drop 79 ?cmd)" unfolding echoed_def by blast
  have "\<not> py_contains ''SW_XFER_'' ''/tmp/.sw_upload_0a1b2c3d4e5f''" "\<not> py_contains ''SW_XFER_'' ''/etc/hi''" by code_simp+
  from echo_never_confirms [OF this _ e, where p = "xfer_sentinel ''MV''" and chunk = "[]" and tool = Base64 and i = 0] show ?thesis
    by (simp add: confirmations_def)
qed

end
