(* ===== verification/File_Session.thy ===== *)
theory File_Session
  imports File_Properties Session_Gate
begin

text \<open>
  A file transfer as the session manager runs it: under one permit for all its commands (\<open>operation_permit\<close> of \<open>sw_core/uart_io.py\<close>), with the tally of
  the bytes that went out under it, and the answer when the fence refused a transmission (\<open>_file_tx_rejected_result\<close> of
  \<open>sw_core/session_manager.py\<close>); and the answer for an interrupted command (\<open>_map_aborted_result\<close>).
\<close>

section \<open>One permit for an operation\<close>

text \<open>An exception that leaves the block carries the number of bytes confirmed under the permit.\<close>

type_synonym 'a om = "(uart, (uart_exn \<times> (nat \<times> nat) option \<times> nat option) + 'a) state"

definition enter_operation :: "tx_permit \<Rightarrow> uart \<Rightarrow> uart" where
  "enter_operation p u =
     u\<lparr>u_context := (u_context u)\<lparr>cx_operation := Some p\<rparr>,
       u_tallies := (if dict_get (u_tallies u) (tp_op_id p) = None then dict_set (tp_op_id p) 0 (u_tallies u) else u_tallies u)\<rparr>"

definition leave_operation :: "tx_permit \<Rightarrow> bool \<Rightarrow> tx_permit option \<Rightarrow> uart \<Rightarrow> uart" where
  "leave_operation p owns previous u =
     u\<lparr>u_context := (u_context u)\<lparr>cx_operation := previous\<rparr>, u_tallies := (if owns then dict_pop (tp_op_id p) (u_tallies u) else u_tallies u)\<rparr>"

definition with_operation :: "tx_permit \<Rightarrow> 'a xm \<Rightarrow> 'a om" where
  "with_operation p m =
     do { u \<leftarrow> State_Monad.get;
          State_Monad.update (enter_operation p);
          r \<leftarrow> m;
          v \<leftarrow> State_Monad.get;
          State_Monad.update (leave_operation p (dict_get (u_tallies u) (tp_op_id p) = None) (cx_operation (u_context u)));
          State_Monad.return (case r of
              Inr x \<Rightarrow> Inr x
            | Inl (Tx_error k t, progress) \<Rightarrow>
                Inl (Tx_error k t, progress, Some (case dict_get (u_tallies v) (tp_op_id p) of None \<Rightarrow> 0 | Some n \<Rightarrow> n))
            | Inl (Bad_pattern, progress) \<Rightarrow> Inl (Bad_pattern, progress, None)) }"

section \<open>The answer to a refusal\<close>

definition removeprefix :: "string \<Rightarrow> string \<Rightarrow> string" where
  "removeprefix p s = (if starts_with p s then drop (length p) s else s)"

definition reject_reason_of :: "tx_result \<Rightarrow> string" where
  "reject_reason_of r = removeprefix ''revoked:'' (case tr_error r of None \<Rightarrow> [] | Some e \<Rightarrow> e)"

text \<open>The \<open>command_aborted_in_flight\<close> entry of the log: the command, the confirmed bytes, the outcome.\<close>

type_synonym aborted_meta = "string \<times> nat \<times> string"

definition aborted_in_flight_meta :: "string \<Rightarrow> nat \<Rightarrow> tx_result option \<Rightarrow> bool \<Rightarrow> aborted_meta" where
  "aborted_in_flight_meta cmd_id confirmed r unknown =
     (cmd_id, confirmed,
      if unknown then ''unknown''
      else case r of
        None \<Rightarrow> ''complete''
      | Some t \<Rightarrow> if tr_outcome t \<noteq> Completed \<or> tr_confirmed t < tr_requested t then ''partial'' else ''complete'')"

text \<open>The answer, and the entry of the log if there is one.\<close>

type_synonym rejected = "answer \<times> aborted_meta option"

definition progress_fields :: "(nat \<times> nat) option \<Rightarrow> answer" where
  "progress_fields progress = (case progress of None \<Rightarrow> [] | Some (i, n) \<Rightarrow> chunk_progress i n)"

definition retry_after_s :: "seconds \<Rightarrow> session_rt \<Rightarrow> json" where
  "retry_after_s now s =
     JFloat (if boot_quiet_active now s then py_round1 (max (ss_boot_quiet_until s - now) 0) else READY_RECONFIRM_RETRY_S)"

definition file_tx_rejected_result ::
  "seconds \<Rightarrow> session_rt \<Rightarrow> string \<Rightarrow> string \<Rightarrow> tx_kind \<Rightarrow> tx_result \<Rightarrow> (nat \<times> nat) option \<Rightarrow> nat option \<Rightarrow> rejected" where
  "file_tx_rejected_result now s com transfer_cmd_id kind r progress operation_confirmed =
     (let reason = reject_reason_of r; fields = progress_fields progress
      in if reason = ''quiet'' \<and> tr_confirmed r = 0
         then (failed ''AUTOBOOT_QUIET'' ([(''selector'', JStr com), (''retry_after_s'', retry_after_s now s)] @ fields), None)
         else if reason \<in> {''quiet'', ''cancelled'', ''stale_generation'', ''draining''}
         then let written = (case operation_confirmed of None \<Rightarrow> tr_confirmed r | Some n \<Rightarrow> n)
              in if 0 < written
                 then (failed ''COMMAND_ABORTED_IN_FLIGHT'' fields,
                       Some (aborted_in_flight_meta transfer_cmd_id written (Some r) (kind = Tx_unknown \<or> tr_outcome r = Unknown)))
                 else (failed ''FLUSHED_BY_RECOVERY'' fields, None)
         else (failed ''TRANSFER_TIMEOUT'' fields, None))"

text \<open>The transfer of an admitted request; the prefix of its command identifiers is attached to the exception.\<close>

datatype 'a transfer_end = Answered 'a | Rejected rejected | Raised

definition transfer_end_of :: "seconds \<Rightarrow> session_rt \<Rightarrow> string \<Rightarrow> string \<Rightarrow> (uart_exn \<times> (nat \<times> nat) option \<times> nat option) + 'a \<Rightarrow> 'a transfer_end" where
  "transfer_end_of now s com prefix_hex r =
     (case r of
        Inr x \<Rightarrow> Answered x
      | Inl (Tx_error k t, progress, confirmed) \<Rightarrow> Rejected (file_tx_rejected_result now s com (''ft-'' @ prefix_hex) k t progress confirmed)
      | Inl (Bad_pattern, _, _) \<Rightarrow> Raised)"

section \<open>Everything goes out under the permit\<close>

definition op_out :: "tx_permit \<Rightarrow> uart \<Rightarrow> uart \<Rightarrow> bool" where
  "op_out p u u' \<longleftrightarrow> (cx_operation (u_context u) = Some p \<longrightarrow> (\<exists>bs. out (\<lambda>q. q = Some p) bs bs u u'))"

lemma out_context: "out P bs recs u u' \<Longrightarrow> u_context u' = u_context u"
  by (simp add: out_def)

interpretation op: kept_relation "op_out p" for p
proof unfold_locales
  show "op_out p u u" for u by (auto simp: op_out_def intro: exI [of _ "[]"])
  show "op_out p u w" if "op_out p u v" "op_out p v w" for u v w
    using that out_trans out_context unfolding op_out_def by metis
qed

lemma op_out_quiet: "(\<And>P. out P [] [] u u') \<Longrightarrow> op_out p u u'"
  by (auto simp: op_out_def)

named_theorems op_rules

lemma op_offset [op_rules]: "state_io_rel (op_out p) uart_offset"
  by (simp add: state_io_rel_def uart_offset_def op_out_quiet)

lemma op_text [op_rules]: "state_io_rel (op_out p) (uart_text_from n)"
proof -
  have "out P [] [] u (note_event (U_text t) (u_others u))" for P u t by (rule out_then [OF out_others note_out]) simp
  then show ?thesis by (simp add: state_io_rel_def uart_text_from_def Let_def op_out_quiet)
qed

lemma op_await [op_rules]: "state_io_rel (op_out p) (await_regex_from re pattern n t)"
proof -
  have "out P [] [] u (note_event (U_wait v) (snd (await_regex_loop hit n d (u_others u))))" for P u v hit d
    by (rule out_then [OF out_others then_out [OF await_regex_out note_out]]) simp
  then show ?thesis by (auto simp: state_io_rel_def await_regex_from_def op_out_quiet split: option.split prod.split) (metis op_out_quiet snd_conv)
qed

lemma op_command [op_rules]: "state_io_rel (op_out p) (uart_send_command cmd source cmd_id None)"
  using send_command_out [of cmd source cmd_id None] permits_operation unfolding state_io_rel_def op_out_def by (metis prod.collapse)

lemma op_cancel [op_rules]: "state_io_rel (op_out p) (cancel_input_line source None)"
  using cancel_out [of source None] permits_operation unfolding state_io_rel_def op_out_def by (metis prod.collapse)

lemma op_paced [op_rules]: "state_io_rel (op_out p) (send_command_echo_paced cmd source cmd_id k t None)"
  using paced_out [of cmd source cmd_id k t None] permits_operation unfolding state_io_rel_def op_out_def by (metis prod.collapse)

lemma op_bare [op_rules]: "state_io_rel (op_out p) m \<Longrightarrow> state_io_rel (op_out p) (bare m)"
  unfolding bare_def by (intro op.kept_rules)

lemma op_answer [op_rules]: "state_io_rel (op_out p) (answer_since x n)"
  unfolding answer_since_def by (intro op.kept_rules op_rules)

lemma op_ask [op_rules]: "state_io_rel (op_out p) (ask x cmd part)"
  unfolding ask_def by (intro op.kept_rules op_rules)

lemma op_probe [op_rules]: "state_io_rel (op_out p) (probe_tool x cmd a b c)"
  unfolding probe_tool_def by (intro op.kept_rules op_rules)

lemma op_md5 [op_rules]: "state_io_rel (op_out p) (remote_md5 x path)"
  unfolding remote_md5_def by (intro op.kept_rules op_rules)

lemma op_cleanup [op_rules]: "state_io_rel (op_out p) (cleanup_remote x path)"
  unfolding cleanup_remote_def by (intro op.kept_rules op_rules)

lemma op_best_effort [op_rules]: "state_io_rel (op_out p) (best_effort_after_reject x path)"
  unfolding best_effort_after_reject_def by (intro op.kept_rules op_rules)

lemma op_give_up [op_rules]: "state_io_rel (op_out p) (give_up x a reply)"
  unfolding give_up_def by (intro op.kept_rules op_rules)

lemma op_some [op_rules]: "state_io_rel (op_out p) m \<Longrightarrow> state_io_rel (op_out p) (some_answer m)"
  unfolding some_answer_def by (intro op.kept_rules)

lemma op_transmit [op_rules]: "state_io_rel (op_out p) (transmit_chunk x a cmd i n)"
  unfolding transmit_chunk_def by (intro op.kept_rules op_rules)

lemma op_guarded [op_rules]: "state_io_rel (op_out p) (guarded_chunk x a cmd i n)"
proof -
  have exn: "state_io_rel (op_out p) (case e of Tx_error k t \<Rightarrow> f k t | Bad_pattern \<Rightarrow> g)"
    if "\<And>k t. state_io_rel (op_out p) (f k t)" "state_io_rel (op_out p) g" for e and f :: "tx_kind \<Rightarrow> tx_result \<Rightarrow> answer option xm" and g
    using that by (cases e) auto
  show ?thesis unfolding guarded_chunk_def by (intro op.kept_rules op_rules exn)
qed

lemma op_chunk [op_rules]: "state_io_rel (op_out p) (push_chunk x a d n i c)"
  unfolding push_chunk_def by (intro op.kept_rules op_rules)

lemma op_chunks [op_rules]: "state_io_rel (op_out p) (push_chunks x a d n i cs)"
  by (induction cs arbitrary: i) (simp_all del: state_io_rel_def add: op.kept_return op.kept_and_then op.kept_option op_chunk)

lemma op_finish [op_rules]: "state_io_rel (op_out p) (push_finish x a n)"
  unfolding push_finish_def by (intro op.kept_rules op_rules)

lemma op_push: "state_io_rel (op_out p) (push_file re prompt t source can_pace q)"
  unfolding push_file_def push_file_tx_def probe_decoder_def by (intro op.kept_rules op_rules)

lemma op_pull: "state_io_rel (op_out p) (pull_file re prompt t source hex budget path local_path)"
  unfolding pull_file_def pull_file_tx_def pull_check_def probe_encoder_def by (intro op.kept_rules op_rules)

text \<open>Under its permit an operation knows exactly how much it has written.\<close>

lemma with_operation_exact:
  assumes "run_state (with_operation p m) u = (r, u')" "state_io_rel (op_out p) m" "dict_get (u_tallies u) (tp_op_id p) = None"
  shows "\<exists>bs. u_wire u' = u_wire u @ bs \<and> recorded_bytes u' = recorded_bytes u @ bs \<and> u_context u' = u_context u
    \<and> (\<forall>k t progress n. r = Inl (Tx_error k t, progress, n) \<longrightarrow> n = Some (length bs))"
proof -
  let ?e = "enter_operation p u"
  obtain x v where m: "run_state m ?e = (x, v)" by fastforce
  have "cx_operation (u_context ?e) = Some p" by (simp add: enter_operation_def)
  then obtain bs where bs: "out (\<lambda>q. q = Some p) bs bs ?e v" using assms(2) m unfolding state_io_rel_def op_out_def by (metis snd_conv)
  have "dict_get (u_tallies ?e) (tp_op_id p) = Some 0" using assms(3) by (simp add: enter_operation_def)
  then have tally: "dict_get (u_tallies v) (tp_op_id p) = Some (length bs)" using bs by (simp add: out_def)
  have v: "u_wire v = u_wire u @ bs" "recorded_bytes v = recorded_bytes u @ bs" "u_context v = (u_context u)\<lparr>cx_operation := Some p\<rparr>"
    using bs by (simp_all add: out_def enter_operation_def recorded_bytes_def)
  have "u' = leave_operation p True (cx_operation (u_context u)) v"
      "\<forall>k t progress n. r = Inl (Tx_error k t, progress, n) \<longrightarrow> n = Some (length bs)"
    using assms(1,3) m tally by (auto simp: with_operation_def split: sum.splits uart_exn.splits prod.splits)
  then show ?thesis using v by (intro exI [of _ bs]) (simp add: leave_operation_def recorded_bytes_def)
qed

section \<open>The answer is honest\<close>

lemma rejected_codes:
  assumes "file_tx_rejected_result now s com c k t progress (Some n) = (reply, meta)"
  shows "(answer_code reply = Some ''FLUSHED_BY_RECOVERY'' \<longrightarrow> n = 0 \<and> meta = None)
    \<and> (answer_code reply = Some ''COMMAND_ABORTED_IN_FLIGHT'' \<longrightarrow> 0 < n \<and> (\<exists>outcome. meta = Some (c, n, outcome)))"
  using assms by (auto simp: file_tx_rejected_result_def Let_def aborted_in_flight_meta_def split: if_splits)

lemma rejected_honest:
  assumes "run_state (with_operation p m) u = (r, u')" "state_io_rel (op_out p) m" "dict_get (u_tallies u) (tp_op_id p) = None"
    and "transfer_end_of now s com hex r = Rejected (reply, meta)"
  shows "\<exists>bs. u_wire u' = u_wire u @ bs \<and> (answer_code reply = Some ''FLUSHED_BY_RECOVERY'' \<longrightarrow> bs = [] \<and> meta = None)
    \<and> (answer_code reply = Some ''COMMAND_ABORTED_IN_FLIGHT'' \<longrightarrow> bs \<noteq> [] \<and> (\<exists>outcome. meta = Some (''ft-'' @ hex, length bs, outcome)))"
proof -
  obtain k t progress n where r: "r = Inl (Tx_error k t, progress, n)" "file_tx_rejected_result now s com (''ft-'' @ hex) k t progress n = (reply, meta)"
    using assms(4) by (auto simp: transfer_end_of_def split: sum.splits prod.splits uart_exn.splits)
  from with_operation_exact [OF assms(1-3)] r(1) obtain bs where bs: "u_wire u' = u_wire u @ bs" "n = Some (length bs)" by auto
  from rejected_codes [OF r(2) [unfolded bs(2)]] bs(1) show ?thesis by auto
qed

lemma pull_rejected_honest:
  assumes "run_state (with_operation p (pull_file re prompt t source hex budget path local_path)) u = (r, u')" "dict_get (u_tallies u) (tp_op_id p) = None"
    and "transfer_end_of now s com hex r = Rejected (reply, meta)"
  shows "\<exists>bs. u_wire u' = u_wire u @ bs \<and> (answer_code reply = Some ''FLUSHED_BY_RECOVERY'' \<longrightarrow> bs = [] \<and> meta = None)
    \<and> (answer_code reply = Some ''COMMAND_ABORTED_IN_FLIGHT'' \<longrightarrow> bs \<noteq> [] \<and> (\<exists>outcome. meta = Some (''ft-'' @ hex, length bs, outcome)))"
  using rejected_honest [OF assms(1) op_pull assms(2,3)] .


text \<open>A transfer whose first write is cut short by a drain.\<close>

definition drained :: shared where
  "drained = (u_shared demo_uart)\<lparr>sh_fence := freeze_tx new_fence\<rparr>"

definition file_permit :: tx_permit where
  "file_permit = mk_permit ''file:0'' 0 Tx_agent"

definition cut_uart :: uart where
  "cut_uart = demo_uart\<lparr>u_env := [idle, idle, idle, idle, (0, [], Some drained)], u_os := [Os_wrote 3]\<rparr>"

abbreviation cut_run :: "((uart_exn \<times> (nat \<times> nat) option \<times> nat option) + answer) \<times> uart" where
  "cut_run \<equiv> run_state (with_operation file_permit (push_file demo_re ''# '' 10 ''agent'' True demo_request)) cut_uart"

text \<open>The probe is the first command; three of its bytes go out.\<close>

lemma cut_write:
  assumes "3 < length payload" "u_env u = [idle, idle, (0, [], Some drained)]" "u_os u = [Os_wrote 3]" "u_shared u = u_shared demo_uart" "p = Some file_permit"
  shows "\<exists>w. posix_write_all p payload 0 u = (mk_result Completed 3 (length payload) (Some ''revoked:draining''), w) \<and> u_wire w = u_wire u @ take 3 payload"
proof -
  let ?v = "u\<lparr>u_env := [(0, [], Some drained)]\<rparr>"
  have sh: "sh_fence (u_shared u) = new_fence" "\<not> sh_tx_cancel (u_shared u)" "\<not> sh_wal_unhealthy (u_shared u)" using assms(4) by (simp_all add: demo_uart_def quiet_uart_def)
  have o: "u_others u = u\<lparr>u_env := [idle, (0, [], Some drained)]\<rparr>" "u_others (u\<lparr>u_env := [idle, (0, [], Some drained)]\<rparr>) = ?v"
    using assms(2) by (simp_all add: u_others_def)
  have g: "submit_guard p ?v = None" using sh open_fence assms(5) by (simp add: submit_guard_def submit_reject_reason_def file_permit_def mk_permit_def)
  let ?w = "?v\<lparr>u_os := [], u_wire := u_wire u @ take 3 payload, u_log := u_log u @ [U_write p (u_now u) (u_shared u) (take 3 payload)]\<rparr>"
  have w: "os_write p payload ?v = (Os_wrote 3, ?w)" using assms(1,3) by (simp add: os_write_def)
  have d: "u_shared (u_others ?w) = drained" "u_env (u_others ?w) = []" by (simp_all add: u_others_def)
  have dd: "u_others (u_others ?w) = u_others ?w" using d(2) by (simp add: u_others_def [of "u_others ?w"])
  have c: "\<not> cancelled (u_others ?w)" unfolding cancelled_def d(1) by (simp add: drained_def demo_uart_def quiet_uart_def)
  have r: "submit_guard p (u_others ?w) = Some ''draining''"
    unfolding submit_guard_def d(1) using assms(5) by (simp add: drained_def submit_reject_reason_def tx_reject_reason_def freeze_tx_def)
  have "posix_write_all p payload 3 ?w = (refused_result 3 (length payload) ''draining'', u_others ?w)"
    using assms(1) c r dd by (simp add: posix_write_all.simps [of p payload 3 ?w] Let_def)
  moreover have "payload \<noteq> []" using assms(1) by auto
  ultimately show ?thesis using o g w sh(2)
    by (simp add: posix_write_all.simps [of p payload 0 u] Let_def cancelled_def refused_result_def)
qed

lemma cut_send:
  assumes "3 < length payload" "u_env u = [idle, idle, idle, (0, [], Some drained)]" "u_os u = [Os_wrote 3]" "u_shared u = u_shared demo_uart"
    and "u_context u = (u_context demo_uart)\<lparr>cx_operation := Some file_permit\<rparr>"
  shows "\<exists>w. run_state (send_bytes payload ''agent'' c True False None) u = (Inl (Tx_error Tx_incomplete (mk_result Completed 3 (length payload) (Some ''revoked:draining''))), w)
    \<and> u_wire w = u_wire u @ take 3 payload"
proof -
  let ?v = "u\<lparr>u_env := [idle, idle, (0, [], Some drained)]\<rparr>"
  have o: "u_others u = ?v" using assms(2) by (simp add: u_others_def)
  have a: "active_permit ''agent'' c False None ?v = Some file_permit" using assms(5) by (simp add: active_permit_def resolve_tx_permit_def Let_def)
  have sh: "sh_fence (u_shared u) = new_fence" "\<not> sh_wal_unhealthy (u_shared u)" "\<not> sh_admission_blocked (u_shared u)" "sh_serial (u_shared u) = Posix_fd"
    using assms(4) by (simp_all add: demo_uart_def quiet_uart_def)
  have t: "tx_admit payload ''agent'' False (Some file_permit) ?v = (None, ?v)"
    using sh assms(5) open_fence by (auto simp: tx_admit_def Let_def new_fence_def file_permit_def demo_uart_def quiet_uart_def)
  obtain w where w: "posix_write_all (Some file_permit) payload 0 ?v = (mk_result Completed 3 (length payload) (Some ''revoked:draining''), w)" "u_wire w = u_wire u @ take 3 payload"
    using cut_write [of payload ?v "Some file_permit"] assms(1,3,4) by auto
  then show ?thesis using o a t sh(4) assms(1) by (simp add: send_bytes_def send_bytes_locked_def Let_def tx_failure_def)
qed

lemma cut_raised: "\<exists>t n bs. fst cut_run = Inl (Tx_error Tx_incomplete t, None, n) \<and> reject_reason_of t = ''draining'' \<and> tr_confirmed t = 3
    \<and> u_wire (snd cut_run) = u_wire cut_uart @ bs \<and> bs \<noteq> []"
proof -
  let ?e = "enter_operation file_permit cut_uart" and ?bs = "line_bytes decoder_probe_command"
  let ?n = "note_event (U_send decoder_probe_command) (?e\<lparr>u_env := [idle, idle, idle, (0, [], Some drained)]\<rparr>)"
  let ?r = "mk_result Completed 3 (length ?bs) (Some ''revoked:draining'')"
  have o: "u_others ?e = ?e\<lparr>u_env := [idle, idle, idle, (0, [], Some drained)]\<rparr>" by (simp add: u_others_def enter_operation_def cut_uart_def)
  have l: "3 < length ?bs" by (simp add: line_bytes_def Let_def decoder_probe_command_def utf8_encode_def utf8_char_def)
  have "u_env ?n = [idle, idle, idle, (0, [], Some drained)] \<and> u_os ?n = [Os_wrote 3] \<and> u_shared ?n = u_shared demo_uart
      \<and> u_context ?n = (u_context demo_uart)\<lparr>cx_operation := Some file_permit\<rparr>"
    by (simp add: note_event_def enter_operation_def cut_uart_def)
  then obtain w where w: "run_state (send_bytes ?bs ''agent'' (cmd_id_of demo_xfer ''probe'') True False None) ?n = (Inl (Tx_error Tx_incomplete ?r), w)"
      "u_wire w = u_wire ?n @ take 3 ?bs"
    using cut_send [OF l, of ?n "cmd_id_of demo_xfer ''probe''"] by blast
  then have "run_state (ask demo_xfer decoder_probe_command ''probe'') ?e = (Inl (Tx_error Tx_incomplete ?r), w)"
    using o by (simp add: ask_def and_then_def uart_offset_def uart_send_command_def note_call_def xfer_of_def)
  then have f: "run_state (push_file demo_re ''# '' 10 ''agent'' True demo_request) ?e = (Inl (Tx_error Tx_incomplete ?r, None), w)"
    using demo_admit demo_preflight
    by (simp add: push_file_def push_file_tx_def and_then_def bare_def probe_decoder_def probe_tool_def demo_calm(5) xfer_of_def)
  then obtain n where n: "fst cut_run = Inl (Tx_error Tx_incomplete ?r, None, n)" by (simp add: with_operation_def)
  have "u_wire (snd cut_run) = u_wire cut_uart @ take 3 ?bs" using f w(2) by (simp add: with_operation_def leave_operation_def enter_operation_def note_event_def)
  moreover have "take 3 ?bs \<noteq> []" using l by auto
  moreover have "reject_reason_of ?r = ''draining''" by (simp add: reject_reason_of_def removeprefix_def starts_with_def)
  ultimately show ?thesis using n by (intro exI [of _ ?r] exI [of _ n] exI [of _ "take 3 ?bs"]) simp
qed


end
