(* ===== verification/Spec2Isabelle.thy ===== *)
theory Spec2Isabelle
  imports Arbiter_Invariants Telnet Event_Engine Wal_Theorems Login_Guards Self_Test Captures Command_Output Echo_Safety File_Session
begin

text \<open>
  Serialwrap: a verification library for the daemon that shares serial consoles between agents and humans.

  \<^bold>\<open>The program.\<close> One daemon owns the serial ports. Clients send requests over a socket (\<open>service.py\<close>); a command passes the admission gate, waits in the queue
  of its session, is sent by that session's worker thread through the UART bridge, and its answer is read back from the
  receive buffer. Everything that crosses a port is recorded in a write-ahead log. An event engine matches the received lines
  against rules and starts handlers. The sources of the daemon are in \<open>sw_core\<close>.

  \<^bold>\<open>Theories and sources.\<close>
  \<^item> \<open>Prelude\<close>: Python's strings, dictionaries in insertion order, sets and bounded queues; reachability and inductive invariants.
    \<open>State_Logic\<close>: weakest preconditions and kept relations for programs of the state monad.
  \<^item> \<open>Admission\<close> (\<open>admission.py\<close>): the gate as a record with one function per method; the freeze and the idle hand-over are exclusive.
  \<^item> \<open>Requests\<close> (\<open>source_policy.py\<close>, \<open>expect_reboot.py\<close>, \<open>command_completion.py\<close>): what a request may claim.
  \<^item> \<open>Arbiter\<close>, \<open>Arbiter_Invariants\<close> (\<open>arbiter.py\<close>): every method and the steps of the worker threads; a step relation interleaves
    them at the points where the code releases its lock. Invariants: a command is sent at most once, is never lost, and is never sent after it ended; the
    back-pressure bound; the tickets of the gate.
  \<^item> \<open>Telnet\<close> (\<open>telnet_console.py\<close>): the option filter of console connections.
  \<^item> \<open>Event_Rules\<close>, \<open>Event_Streams\<close>, \<open>Event_Engine\<close> (\<open>event_engine/*.py\<close>): rule schema with its guard against catastrophic
    patterns, registry and counters; line buffer and rotating event log; matcher, dispatcher and engine.
  \<^item> \<open>Json\<close> (\<open>util.dumps_stable\<close>, Python's \<open>json.loads\<close>): printing, reading, and the round trip; UTF-8.
  \<^item> \<open>Wal_Os\<close>, \<open>Wal_Records\<close>, \<open>Wal\<close>, \<open>Wal_Invariants\<close>, \<open>Wal_Reading\<close>, \<open>Wal_Theorems\<close> (\<open>wal.py\<close>, \<open>wal_fs.py\<close>): the
    write-ahead log over a model of the operating system in which every call may fail and other programs may delete or
    replace the files.
  \<^item> \<open>Console_Text\<close> (\<open>util.py\<close>), \<open>Rx_Buffer\<close> (the receive side of \<open>uart_io.py\<close>), \<open>Login\<close>, \<open>Login_Guards\<close> (\<open>login_fsm.py\<close>, \<open>auth.py\<close>,
    \<open>transport_stall.py\<close>): from received bytes to a console at its prompt, with the rules of when a secret may be sent.
  \<^item> \<open>Tx_Fence\<close> (the permits and the transmit fence of \<open>uart_io.py\<close>), \<open>Session_Gate\<close>, \<open>Session_Reprobe\<close>, \<open>Session_Steps\<close>, \<open>Session_Theorems\<close>,
    \<open>Self_Test\<close> (\<open>session_manager.py\<close>): the gates that protect a booting device, the probes that confirm a session and the self test. A labelled
    step relation has every operation on the gates and leaves the rest of the manager free; what it shows is who may write when,
    and what opens a shut gate.
  \<^item> \<open>Command_Output\<close> (\<open>_extract_command_stdout\<close> of \<open>session_manager.py\<close>): what a command printed, without its prompt and its echo, also when the terminal
    wrapped the echo.
  \<^item> \<open>Captures\<close> (\<open>BackgroundCapture\<close> and its table in \<open>session_manager.py\<close>): the output of background commands in bounded rings, the eviction from the
    table and the reading with a cursor, compared with the same run in unlimited memory.
  \<^item> \<open>Uart_Write\<close>, \<open>Uart_Theorems\<close> (the transmit side of \<open>uart_io.py\<close>, the write loops of \<open>serial_port.py\<close>): sending bytes under the fence with partial
    writes, errors and revocation in the middle of a line; the accounts, the tallies and the records; command lines that are paced by their
    echo. The log has exactly what went out, and every write was admitted.
  \<^item> \<open>Md5\<close>, \<open>File_Transfer\<close>, \<open>File_Theorems\<close>, \<open>File_Properties\<close>, \<open>File_Pull\<close>, \<open>Echo_Safety\<close> (\<open>file_transfer.py\<close>): pushing and pulling files through a
    shell. \<open>emits\<close> relates the result of a transfer to the calls it made; from it follow what a transfer has seen when it answers, what it
    types and when, and that the echo of a command is not taken for its answer.
  \<^item> \<open>File_Session\<close> (\<open>operation_permit\<close> of \<open>uart_io.py\<close>, \<open>_file_tx_rejected_result\<close> of \<open>session_manager.py\<close>): a transfer under one permit, and what is
    answered when it was refused.
  \<^item> this theory: what spans components, the hand-over of a drained daemon.

  \<^bold>\<open>Correspondence.\<close> A class is a record, a method a function that returns the new record, in the order of the source; where many calls thread the state
  (the log, the login) the function is a program of the library's state monad. A method that holds the component's
  lock from beginning to end is one atomic step; the arbiter's workers and \<open>submit\<close>, which release it, are several steps. Exceptions and error results are values. Clock readings, fresh identifiers, the answers
  of the operating system, the bytes of the device and the behaviour of other threads are arguments or lists in the state, and the
  theorems hold for all of them. \<open>re\<close>, \<open>re2\<close> and \<open>sre_parse\<close> are parameters. Seconds are rationals.

  \<^bold>\<open>Bounds and termination.\<close> No loop has fuel but the JSON reader, whose fuel is one more than the length of the text; \<open>loads_dumps\<close> shows it is
  enough for every printed value. The retry loops of the log are bounded by the bytes left and by the thousand archive
  names, the waiting loops of the bridge by the time to their deadline, of which every round takes at least a millisecond.

  \<^bold>\<open>Interfaces.\<close> \<open>inductive_invariant\<close> (interpreted for the gate, the arbiter, the event engine and the log), \<open>kept_relation\<close> (growth of the files,
  the tail of the log, its numbering, what a step does to a gate, the calls and the permits of a transfer), and the locales of the component theories (priority queue, keyed store, byte transducer)
  state what one part promises another; each is interpreted on the definitions of the model.

  \<^bold>\<open>Not modelled.\<close> The rest of the session manager (command execution, recovery after failures, leases, device handoff, draining, the persisted
  state), the reader thread and the console clients of the bridge, \<open>service.py\<close>'s dispatch,
  the flash endpoint and the registries. The command line, socket transports, opening of serial ports and Windows
  bindings, remote tunnel, setup and doctor commands are input and output around these parts. The test benches, regression
  and release tooling, the stdio bridge tool and the Rust crates are separate programs. Log messages and hint texts are left out
  everywhere. Reading and writing the local file of a transfer do not fail. In the log, the Windows file system and the binding to \<open>renameat2\<close> are outside; other programs are assumed not to write into the writer's files.
\<close>

section \<open>Handing over a drained daemon\<close>

lemma no_submit_ticket:
  assumes "arb_reach s" "a_gate s = Some g" "\<forall>cid r. cmd_get cid s = Some r \<longrightarrow> cr_status r \<noteq> Accepted" "\<forall>cid. \<not> sending (a_workers s) cid"
    "\<forall>n t. (n, t) \<in> set (g_tickets g) \<longrightarrow> tk_kind t = ''command.submit''"
  shows "g_tickets g = []"
proof (rule ccontr)
  assume "g_tickets g \<noteq> []"
  then obtain n t ts where g: "g_tickets g = (n, t) # ts" by (cases "g_tickets g") auto
  then have "dict_get (g_tickets g) n = Some t" "tk_kind t = ''command.submit''" using assms(5) by auto
  from submit_ticket_owner [OF assms(1,2) this] assms(3,4) show False by blast
qed


lemma canceled_gate:
  "arb_reach run_canceled" "\<exists>g. a_gate run_canceled = Some g \<and> \<not> g_frozen g \<and> g_flags g = [] \<and> g_tickets g = []"
proof -
  show "arb_reach run_canceled" unfolding run_canceled_def by (rule reach_step [OF run_reach(3) step_cancel])
  show "\<exists>g. a_gate run_canceled = Some g \<and> \<not> g_frozen g \<and> g_flags g = [] \<and> g_tickets g = []"
    by (simp add: run_canceled_def cancel_def run_defs Let_def py_rsplit_last_def finish_admission_locked_def set_books_def gate_done_def)
qed


end
